(* ===== verification/Prelude.thy ===== *)
theory Prelude
  imports Main "HOL-Library.Char_ord" "HOL-Library.List_Lexorder" "HOL-Library.Word"
begin

text \<open>
  Shared vocabulary of the Watchlist development.

  \<^item> the \<open>named_theorems\<close> collections the component theories fill;
  \<^item> C++ exceptions as values (\<open>cpp_exn\<close>, with \<open>what\<close>), and computations that read and
    write a state and may throw (\<open>cbind\<close>, \<open>cret\<close>, \<open>cthrow\<close>);
  \<^item> the classification functions of \<^verbatim>\<open><cctype>\<close> in the ``C'' locale, on bytes;
  \<^item> the splitting of a string at the first occurrence of a separator, which is how the
    sources walk over addresses, host names, topics and log records;
  \<^item> generic lemmas on lists.
  Strings are byte strings (\<^typ>\<open>char list\<close>), as \<^verbatim>\<open>std::string\<close> is; their order is the
  lexicographic order of bytes, as \<^verbatim>\<open>std::less<std::string>\<close> has it.
\<close>

named_theorems cm_simps \<open>one-step rewriting of stateful computations that may throw\<close>
named_theorems ctype_simps \<open>character classification unfolded to byte ranges\<close>

section \<open>Exceptions and stateful computations\<close>

datatype DatabaseField =
    FieldId | FieldName | FieldAddress | FieldPort | FieldAlive | FieldCollection

datatype cpp_exn =
    InvalidArgument string
  | LogicError string
  | RuntimeError string
  | DatabaseValidation DatabaseField string
  | DatabaseSchema string
  | SQLiteException string
  | MqttException string
  | NonStandard

text \<open>
  \<open>what\<close> is \<^verbatim>\<open>std::exception::what()\<close>; \<open>NonStandard\<close> is a thrown object that does not
  derive from \<^verbatim>\<open>std::exception\<close> (caught only by \<^verbatim>\<open>catch (...)\<close>). \<open>DatabaseField\<close>,
  \<open>DatabaseValidation\<close> and \<open>DatabaseSchema\<close> are the enum and the two exception classes of
  \<^verbatim>\<open>src/src/Utils/Storage/DatabaseItem.hpp\<close>; \<open>SQLiteException\<close> is \<^verbatim>\<open>SQLite::Exception\<close>,
  \<open>MqttException\<close> is \<^verbatim>\<open>mqtt::exception\<close>.
\<close>

fun what :: "cpp_exn \<Rightarrow> string" where
  "what (InvalidArgument m) = m"
| "what (LogicError m) = m"
| "what (RuntimeError m) = m"
| "what (DatabaseValidation f m) = m"
| "what (DatabaseSchema m) = m"
| "what (SQLiteException m) = m"
| "what (MqttException m) = m"
| "what NonStandard = []"

fun is_std_exception :: "cpp_exn \<Rightarrow> bool" where
  "is_std_exception NonStandard = False"
| "is_std_exception _ = True"

text \<open>Pure computations that may throw.\<close>

fun ebind :: "cpp_exn + 'a \<Rightarrow> ('a \<Rightarrow> cpp_exn + 'b) \<Rightarrow> cpp_exn + 'b" where
  "ebind (Inl e) f = Inl e"
| "ebind (Inr x) f = f x"

lemma ebind_eq_Inr: "ebind m f = Inr y \<longleftrightarrow> (\<exists>x. m = Inr x \<and> f x = Inr y)"
  by (cases m) auto

fun emap :: "('a \<Rightarrow> cpp_exn + 'b) \<Rightarrow> 'a list \<Rightarrow> cpp_exn + 'b list" where
  "emap f [] = Inr []"
| "emap f (x # xs) = ebind (f x) (\<lambda>y. ebind (emap f xs) (\<lambda>ys. Inr (y # ys)))"

lemma emap_eq_Inr: "emap f xs = Inr ys \<longleftrightarrow> list_all2 (\<lambda>x y. f x = Inr y) xs ys"
  by (induction xs arbitrary: ys) (auto simp: ebind_eq_Inr list_all2_Cons1)

lemma emap_total: "(\<And>x. x \<in> set xs \<Longrightarrow> f x = Inr (g x)) \<Longrightarrow> emap f xs = Inr (map g xs)"
  by (induction xs) auto

text \<open>Computations over a state that may throw.\<close>

type_synonym ('s, 'a) comp = "'s \<Rightarrow> (cpp_exn + 'a) \<times> 's"

definition cret :: "'a \<Rightarrow> ('s, 'a) comp" where
  "cret x s = (Inr x, s)"

definition cthrow :: "cpp_exn \<Rightarrow> ('s, 'a) comp" where
  "cthrow e s = (Inl e, s)"

definition cbind :: "('s, 'a) comp \<Rightarrow> ('a \<Rightarrow> ('s, 'b) comp) \<Rightarrow> ('s, 'b) comp" where
  "cbind m f s = (case m s of (Inl e, s') \<Rightarrow> (Inl e, s') | (Inr x, s') \<Rightarrow> f x s')"

definition cseq :: "('s, unit) comp \<Rightarrow> ('s, 'b) comp \<Rightarrow> ('s, 'b) comp" where
  "cseq m n = cbind m (\<lambda>_. n)"

definition clift :: "(cpp_exn + 'a) \<Rightarrow> ('s, 'a) comp" where
  "clift r s = (r, s)"

lemma cret_eq [cm_simps]: "cret x s = (Inr x, s)"
  by (simp add: cret_def)

lemma cthrow_eq [cm_simps]: "cthrow e s = (Inl e, s)"
  by (simp add: cthrow_def)

lemma clift_eq [cm_simps]: "clift r s = (r, s)"
  by (simp add: clift_def)

lemma cbind_Inl [cm_simps]: "m s = (Inl e, s') \<Longrightarrow> cbind m f s = (Inl e, s')"
  by (simp add: cbind_def)

lemma cbind_Inr [cm_simps]: "m s = (Inr x, s') \<Longrightarrow> cbind m f s = f x s'"
  by (simp add: cbind_def)

lemma cbind_clift [simp]:
  "cbind (clift (Inr x)) f = f x"
  "cbind (clift (Inl e)) f = cthrow e"
  by (simp_all add: fun_eq_iff cbind_def clift_def cthrow_def)

lemma cbind_cret [simp]: "cbind (cret x) f = f x"
  by (simp add: fun_eq_iff cbind_def cret_def)

lemma cbind_assoc: "cbind (cbind m f) g = cbind m (\<lambda>x. cbind (f x) g)"
  by (auto simp: cbind_def fun_eq_iff split: prod.splits sum.splits)

lemma cseq_clift [simp]:
  "cseq (clift (Inr x)) n = n"
  "cseq (clift (Inl e)) n = cthrow e"
  by (simp_all add: cseq_def)

lemma cbind_eq_Inr:
  "cbind m f s = (Inr y, t) \<longleftrightarrow> (\<exists>x s'. m s = (Inr x, s') \<and> f x s' = (Inr y, t))"
  by (auto simp: cbind_def split: prod.splits sum.splits)

lemma cbind_eq_Inl:
  "cbind m f s = (Inl e, t) \<longleftrightarrow>
     m s = (Inl e, t) \<or> (\<exists>x s'. m s = (Inr x, s') \<and> f x s' = (Inl e, t))"
  by (auto simp: cbind_def split: prod.splits sum.splits)

lemma cseq_eq_Inr:
  "cseq m n s = (Inr y, t) \<longleftrightarrow> (\<exists>s'. m s = (Inr (), s') \<and> n s' = (Inr y, t))"
  by (simp add: cseq_def cbind_eq_Inr)

lemma cseq_eq_Inl:
  "cseq m n s = (Inl e, t) \<longleftrightarrow>
     m s = (Inl e, t) \<or> (\<exists>s'. m s = (Inr (), s') \<and> n s' = (Inl e, t))"
  by (simp add: cseq_def cbind_eq_Inl)

text \<open>\<open>cfor xs f\<close> is a range-based \<^verbatim>\<open>for\<close> loop; the first throw leaves it.\<close>

fun cfor :: "'a list \<Rightarrow> ('a \<Rightarrow> ('s, unit) comp) \<Rightarrow> ('s, unit) comp" where
  "cfor [] f = cret ()"
| "cfor (x # xs) f = cseq (f x) (cfor xs f)"

section \<open>Character classification (the ``C'' locale)\<close>

definition byte :: "char \<Rightarrow> nat" where
  "byte c = of_char c"

lemma byte_less [simp]: "byte c < 256"
  by (simp add: byte_def nat_of_char_less_256)

lemma byte_eq_iff [simp]: "byte c = byte d \<longleftrightarrow> c = d"
  by (simp add: byte_def)

definition isdigit :: "char \<Rightarrow> bool" where
  "isdigit c \<longleftrightarrow> 48 \<le> byte c \<and> byte c \<le> 57"

definition isalpha :: "char \<Rightarrow> bool" where
  "isalpha c \<longleftrightarrow> (65 \<le> byte c \<and> byte c \<le> 90) \<or> (97 \<le> byte c \<and> byte c \<le> 122)"

definition isalnum :: "char \<Rightarrow> bool" where
  "isalnum c \<longleftrightarrow> isdigit c \<or> isalpha c"

definition isxdigit :: "char \<Rightarrow> bool" where
  "isxdigit c \<longleftrightarrow> isdigit c \<or> (65 \<le> byte c \<and> byte c \<le> 70) \<or> (97 \<le> byte c \<and> byte c \<le> 102)"

definition isspace :: "char \<Rightarrow> bool" where
  "isspace c \<longleftrightarrow> byte c = 32 \<or> (9 \<le> byte c \<and> byte c \<le> 13)"

definition tolower :: "char \<Rightarrow> char" where
  "tolower c = (if 65 \<le> byte c \<and> byte c \<le> 90 then char_of (byte c + 32) else c)"

lemmas ctype_defs [ctype_simps] =
  isdigit_def isalpha_def isalnum_def isxdigit_def isspace_def

lemma byte_tolower: "byte (tolower c) = (if 65 \<le> byte c \<and> byte c \<le> 90 then byte c + 32 else byte c)"
  by (simp add: tolower_def byte_def)

lemma tolower_idem [simp]: "tolower (tolower c) = tolower c"
  by (auto simp: tolower_def [of "tolower c"] byte_tolower)

section \<open>Splitting at a separator\<close>

text \<open>
  \<open>find_char c s\<close> is \<^verbatim>\<open>s.find(c)\<close> (\<open>None\<close> for \<^verbatim>\<open>npos\<close>). The scanning loops of the
  sources take \<^verbatim>\<open>substr(begin, end - begin)\<close> and go on at \<^verbatim>\<open>end + 1\<close>: on the rest of the
  string they look at \<open>upto_sep\<close> and continue with \<open>after_sep\<close>.
\<close>

fun find_char :: "char \<Rightarrow> string \<Rightarrow> nat option" where
  "find_char c [] = None"
| "find_char c (x # xs) = (if x = c then Some 0 else map_option Suc (find_char c xs))"

definition upto_sep :: "char \<Rightarrow> string \<Rightarrow> string" where
  "upto_sep c s = (case find_char c s of None \<Rightarrow> s | Some i \<Rightarrow> take i s)"

definition after_sep :: "char \<Rightarrow> string \<Rightarrow> string option" where
  "after_sep c s = (case find_char c s of None \<Rightarrow> None | Some i \<Rightarrow> Some (drop (Suc i) s))"

lemma upto_sep_simps [simp]:
  "upto_sep c [] = []"
  "upto_sep c (x # xs) = (if x = c then [] else x # upto_sep c xs)"
  by (auto simp: upto_sep_def split: option.splits)

lemma after_sep_simps [simp]:
  "after_sep c [] = None"
  "after_sep c (x # xs) = (if x = c then Some xs else after_sep c xs)"
  by (auto simp: after_sep_def split: option.splits)

lemma find_char_None: "find_char c s = None \<longleftrightarrow> c \<notin> set s"
  by (induction s) auto

lemma after_sep_None: "after_sep c s = None \<longleftrightarrow> c \<notin> set s"
  by (auto simp: after_sep_def find_char_None [symmetric] split: option.splits)

lemma upto_sep_notin: "c \<notin> set s \<Longrightarrow> upto_sep c s = s"
  by (induction s) auto

lemma sep_notin_upto [simp]: "c \<notin> set (upto_sep c s)"
  by (induction s) auto

lemma set_upto_sep: "set (upto_sep c s) \<subseteq> set s"
  by (induction s) auto

lemma after_sep_length: "after_sep c s = Some r \<Longrightarrow> length r < length s"
  by (induction s) (auto split: if_splits intro: less_SucI)

lemma after_sep_split: "after_sep c s = Some r \<Longrightarrow> s = upto_sep c s @ c # r"
  by (induction s) (auto split: if_splits)

lemma upto_sep_append: "c \<notin> set p \<Longrightarrow> upto_sep c (p @ c # r) = p"
  by (induction p) auto

lemma after_sep_append: "c \<notin> set p \<Longrightarrow> after_sep c (p @ c # r) = Some r"
  by (induction p) auto

text \<open>The list of all parts: what the scanning loops enumerate.\<close>

function split_sep :: "char \<Rightarrow> string \<Rightarrow> string list" where
  "split_sep c s = upto_sep c s #
     (case after_sep c s of None \<Rightarrow> [] | Some r \<Rightarrow> split_sep c r)"
  by pat_completeness auto
termination
  by (relation "measure (\<lambda>(c, s). length s)") (auto dest: after_sep_length)

declare split_sep.simps [simp del]

lemma split_sep_Cons_code [code]:
  "split_sep c [] = [[]]"
  "split_sep c (x # xs) =
     (if x = c then [] # split_sep c xs
      else (case split_sep c xs of [] \<Rightarrow> [[x]] | p # ps \<Rightarrow> (x # p) # ps))"
  by (subst split_sep.simps, simp) (subst (1 2) split_sep.simps, simp split: option.splits)

lemma split_sep_nonempty [simp]: "split_sep c s \<noteq> []"
  by (subst split_sep.simps) simp

lemma split_sep_notin: "c \<notin> set s \<Longrightarrow> split_sep c s = [s]"
  by (subst split_sep.simps) (simp add: upto_sep_notin after_sep_None [THEN iffD2])

lemma split_sep_append: "c \<notin> set p \<Longrightarrow> split_sep c (p @ c # r) = p # split_sep c r"
  by (subst split_sep.simps) (simp add: upto_sep_append after_sep_append)

lemma split_sep_parts: "p \<in> set (split_sep c s) \<Longrightarrow> c \<notin> set p \<and> set p \<subseteq> set s"
proof (induction c s rule: split_sep.induct)
  case (1 c s)
  show ?case
  proof (cases "after_sep c s")
    case None
    with "1.prems" show ?thesis
      by (subst (asm) split_sep.simps) (auto dest: set_upto_sep [THEN subsetD])
  next
    case (Some r)
    have "set r \<subseteq> set s"
      using after_sep_split [OF Some] by (metis insert_subset list.simps(15) set_append sup.boundedE order_refl)
    with Some "1.prems" "1.IH" show ?thesis
      by (subst (asm) split_sep.simps) (auto dest: set_upto_sep [THEN subsetD])
  qed
qed

fun join_sep :: "char \<Rightarrow> string list \<Rightarrow> string" where
  "join_sep c [] = []"
| "join_sep c [p] = p"
| "join_sep c (p # q # ps) = p @ c # join_sep c (q # ps)"

lemma join_split [simp]: "join_sep c (split_sep c s) = s"
proof (induction c s rule: split_sep.induct)
  case (1 c s)
  show ?case
  proof (cases "after_sep c s")
    case None
    then have "c \<notin> set s" by (simp add: after_sep_None)
    then show ?thesis by (simp add: split_sep_notin)
  next
    case (Some r)
    obtain q qs where q: "split_sep c r = q # qs"
      by (cases "split_sep c r") auto
    have "join_sep c (split_sep c s) = upto_sep c s @ c # join_sep c (split_sep c r)"
      using Some q by (subst split_sep.simps) simp
    with Some "1.IH" show ?thesis
      by (simp add: after_sep_split [symmetric])
  qed
qed

lemma split_join:
  "ps \<noteq> [] \<Longrightarrow> \<forall>p \<in> set ps. c \<notin> set p \<Longrightarrow> split_sep c (join_sep c ps) = ps"
  by (induction c ps rule: join_sep.induct) (auto simp: split_sep_notin split_sep_append)

section \<open>Decimal numbers\<close>

text \<open>\<^verbatim>\<open>std::to_string\<close> and \<^verbatim>\<open>std::format("{}")\<close> of a non-negative integer.\<close>

fun dec_of_nat :: "nat \<Rightarrow> string" where
  "dec_of_nat n =
     (if n < 10 then [char_of (48 + n)] else dec_of_nat (n div 10) @ [char_of (48 + n mod 10)])"

declare dec_of_nat.simps [simp del]

definition dec_of_int :: "int \<Rightarrow> string" where
  "dec_of_int i = (if i < 0 then CHR ''-'' # dec_of_nat (nat (- i)) else dec_of_nat (nat i))"

lemma dec_of_nat_digits: "c \<in> set (dec_of_nat n) \<Longrightarrow> isdigit c"
proof (induction n rule: dec_of_nat.induct)
  case (1 n)
  show ?case
  proof (cases "n < 10")
    case True
    with "1.prems" show ?thesis
      by (subst (asm) dec_of_nat.simps) (simp add: isdigit_def byte_def)
  next
    case False
    with "1.prems" "1.IH" show ?thesis
      by (subst (asm) dec_of_nat.simps) (auto simp: isdigit_def byte_def)
  qed
qed

lemma dec_of_nat_nonempty [simp]: "dec_of_nat n \<noteq> []"
  by (subst dec_of_nat.simps) simp

section \<open>Lists\<close>

lemma find_eq_None_iff: "List.find P xs = None \<longleftrightarrow> (\<forall>x \<in> set xs. \<not> P x)"
  by (induction xs) auto

lemma find_Some_member: "List.find P xs = Some x \<Longrightarrow> x \<in> set xs \<and> P x"
  by (induction xs) (auto split: if_splits)

text \<open>Bounded histories keep the most recent entries.\<close>

definition keep_last :: "nat \<Rightarrow> 'a list \<Rightarrow> 'a list" where
  "keep_last n xs = drop (length xs - n) xs"

lemma length_keep_last [simp]: "length (keep_last n xs) = min n (length xs)"
  by (simp add: keep_last_def)

lemma keep_last_id [simp]: "length xs \<le> n \<Longrightarrow> keep_last n xs = xs"
  by (simp add: keep_last_def)

lemma keep_last_snoc: "keep_last n (keep_last n xs @ [x]) = keep_last n (xs @ [x])"
  by (cases "length xs < n") (auto simp: keep_last_def Suc_diff_le not_less)

end
