(* ===== verification/Utf8.thy ===== *)
theory Utf8
  imports Prelude
begin

text \<open>
  The UTF-8 check of \<^verbatim>\<open>src/src/Utils/Storage/SQLiteDatabase.cpp\<close> (\<^verbatim>\<open>IsValidUtf8\<close>), on 8-bit
  bytes and a 32-bit code point as the code has them, and its characterisation: a byte string
  passes exactly when it is the concatenation of the shortest encodings of Unicode scalar
  values (no overlong forms, no surrogates, nothing above 10FFFF, nothing truncated).
\<close>

unbundle bit_operations_syntax

section \<open>The checker\<close>

definition u8 :: "char \<Rightarrow> 8 word" where
  "u8 c = word_of_nat (byte c)"

text \<open>Continuation count and initial code point of a lead byte above 7F.\<close>

definition utf8_lead :: "8 word \<Rightarrow> (nat \<times> 32 word) option" where
  "utf8_lead lead =
     (if lead AND 0xe0 = 0xc0 then Some (1, ucast (lead AND 0x1f))
      else if lead AND 0xf0 = 0xe0 then Some (2, ucast (lead AND 0x0f))
      else if lead AND 0xf8 = 0xf0 then Some (3, ucast (lead AND 0x07))
      else None)"

text \<open>The inner loop over the continuation bytes.\<close>

fun utf8_continuations :: "32 word \<Rightarrow> string \<Rightarrow> 32 word option" where
  "utf8_continuations codePoint [] = Some codePoint"
| "utf8_continuations codePoint (c # cs) =
     (if u8 c AND 0xc0 \<noteq> 0x80 then None
      else utf8_continuations (push_bit 6 codePoint OR ucast (u8 c AND 0x3f)) cs)"

text \<open>The overlong, out-of-range and surrogate test on the decoded code point.\<close>

definition utf8_rejected :: "nat \<Rightarrow> 32 word \<Rightarrow> bool" where
  "utf8_rejected continuationCount codePoint \<longleftrightarrow>
     (let minimum = (if continuationCount = 1 then 0x80
                     else if continuationCount = 2 then 0x800 else 0x10000)
      in codePoint < minimum \<or> 0x10ffff < codePoint \<or> (0xd800 \<le> codePoint \<and> codePoint \<le> 0xdfff))"

text \<open>
  One iteration of the outer loop on the string from \<^verbatim>\<open>index\<close> on: \<open>None\<close> where the code
  returns false, otherwise the string from the next \<^verbatim>\<open>index\<close> on.
\<close>

definition utf8_step :: "char \<Rightarrow> string \<Rightarrow> string option" where
  "utf8_step x xs =
     (let lead = u8 x in
      if lead \<le> 0x7f then Some xs
      else case utf8_lead lead of
        None \<Rightarrow> None
      | Some (continuationCount, codePoint) \<Rightarrow>
          (if length (x # xs) \<le> continuationCount then None
           else case utf8_continuations codePoint (take continuationCount xs) of
             None \<Rightarrow> None
           | Some cp \<Rightarrow>
               (if utf8_rejected continuationCount cp then None
                else Some (drop continuationCount xs))))"

lemma utf8_step_length: "utf8_step x xs = Some r \<Longrightarrow> length r \<le> length xs"
  by (auto simp: utf8_step_def Let_def split: if_splits option.splits prod.splits)

function IsValidUtf8 :: "string \<Rightarrow> bool" where
  "IsValidUtf8 [] = True"
| "IsValidUtf8 (x # xs) = (case utf8_step x xs of None \<Rightarrow> False | Some r \<Rightarrow> IsValidUtf8 r)"
  by pat_completeness auto
termination
  by (relation "measure length") (auto dest: utf8_step_length)

section \<open>The encoding\<close>

definition unicode_scalar :: "nat \<Rightarrow> bool" where
  "unicode_scalar cp \<longleftrightarrow> cp \<le> 0x10ffff \<and> \<not> (0xd800 \<le> cp \<and> cp \<le> 0xdfff)"

definition utf8_encode :: "nat \<Rightarrow> nat list" where
  "utf8_encode cp =
     (if cp < 0x80 then [cp]
      else if cp < 0x800 then [0xc0 + cp div 64, 0x80 + cp mod 64]
      else if cp < 0x10000 then [0xe0 + cp div 4096, 0x80 + cp div 64 mod 64, 0x80 + cp mod 64]
      else [0xf0 + cp div 262144, 0x80 + cp div 4096 mod 64, 0x80 + cp div 64 mod 64,
            0x80 + cp mod 64])"

section \<open>Bit operations as arithmetic\<close>

lemma unat_u8 [simp]: "unat (u8 c) = byte c"
  by (simp add: u8_def unat_of_nat)

lemma unat_and_not_mask:
  fixes w :: "8 word"
  shows "unat (w AND NOT (mask k)) = unat w div 2 ^ k * 2 ^ k"
proof -
  have eq: "w AND NOT (mask k) = push_bit k (drop_bit k w)"
    by (rule bit_word_eqI) (auto simp: bit_simps)
  have "unat w div 2 ^ k * 2 ^ k < 256"
    using unsigned_less [of w, where ?'a = nat]
    by (simp add: le_less_trans [OF div_times_less_eq_dividend])
  then show ?thesis
    unfolding eq by (simp only: unsigned_push_bit_eq unsigned_drop_bit_eq)
      (use unsigned_less [of w, where ?'a = nat] in
        \<open>simp add: take_bit_eq_mod push_bit_eq_mult drop_bit_eq_div\<close>)
qed

lemma unat_ucast_and_mask:
  fixes w :: "8 word"
  assumes "k \<le> 32"
  shows "unat (ucast (w AND mask k) :: 32 word) = unat w mod 2 ^ k"
  using assms
  by (simp add: unsigned_ucast_eq unsigned_take_bit_eq flip: take_bit_eq_mask)
    (simp add: take_bit_eq_mod min_absorb1)

lemma lead_masks:
  "(0xe0 :: 8 word) = NOT (mask 5)" "(0xf0 :: 8 word) = NOT (mask 4)"
  "(0xf8 :: 8 word) = NOT (mask 3)" "(0xc0 :: 8 word) = NOT (mask 6)"
  "(0x1f :: 8 word) = mask 5" "(0x0f :: 8 word) = mask 4"
  "(0x07 :: 8 word) = mask 3" "(0x3f :: 8 word) = mask 6"
  by (simp_all add: mask_numeral)

lemma div_eq_range: "0 < d \<Longrightarrow> (x::nat) div d = m \<longleftrightarrow> m * d \<le> x \<and> x < (m + 1) * d"
  by (metis Suc_eq_plus1 div_less_iff_less_mult less_eq_div_iff_mult_less_eq less_Suc_eq_le order.eq_iff)

lemma lead_class_range:
  assumes "M = NOT (mask k)" "unat v = m * 2 ^ k" "lo = m * 2 ^ k" "hi = (m + 1) * 2 ^ k"
  shows "u8 c AND M = v \<longleftrightarrow> lo \<le> byte c \<and> byte c < hi"
proof -
  have "u8 c AND M = v \<longleftrightarrow> byte c div 2 ^ k * 2 ^ k = m * 2 ^ k"
    by (simp only: assms(1) assms(2) word_unat_eq_iff unat_and_not_mask unat_u8)
  also have "\<dots> \<longleftrightarrow> byte c div 2 ^ k = m" by simp
  also have "\<dots> \<longleftrightarrow> lo \<le> byte c \<and> byte c < hi"
    by (simp only: div_eq_range zero_less_power zero_less_numeral assms(3,4))
  finally show ?thesis .
qed

lemma lead_classes:
  "u8 c AND 0xe0 = 0xc0 \<longleftrightarrow> 192 \<le> byte c \<and> byte c < 224"
  "u8 c AND 0xf0 = 0xe0 \<longleftrightarrow> 224 \<le> byte c \<and> byte c < 240"
  "u8 c AND 0xf8 = 0xf0 \<longleftrightarrow> 240 \<le> byte c \<and> byte c < 248"
  "u8 c AND 0xc0 = 0x80 \<longleftrightarrow> 128 \<le> byte c \<and> byte c < 192"
  by (rule lead_class_range [OF lead_masks(1), where m = 6]; simp)
    (rule lead_class_range [OF lead_masks(2), where m = 14]
      lead_class_range [OF lead_masks(3), where m = 30]
      lead_class_range [OF lead_masks(4), where m = 2]; simp)+

lemma unat_lead_bits:
  "m = mask k \<Longrightarrow> k \<le> 32 \<Longrightarrow> d = 2 ^ k \<Longrightarrow>
     unat (ucast (u8 c AND m) :: 32 word) = byte c mod d"
  by (simp only: unat_ucast_and_mask unat_u8)

lemma lead_values:
  "unat (ucast (u8 c AND 0x1f) :: 32 word) = byte c mod 32"
  "unat (ucast (u8 c AND 0x0f) :: 32 word) = byte c mod 16"
  "unat (ucast (u8 c AND 0x07) :: 32 word) = byte c mod 8"
  "unat (ucast (u8 c AND 0x3f) :: 32 word) = byte c mod 64"
  by (rule unat_lead_bits [OF lead_masks(5)] unat_lead_bits [OF lead_masks(6)]
      unat_lead_bits [OF lead_masks(7)] unat_lead_bits [OF lead_masks(8)]; simp)+

lemma unat_codePoint_step:
  fixes cp :: "32 word"
  assumes "unat cp < 2 ^ 26"
  shows "unat (push_bit 6 cp OR ucast (u8 c AND 0x3f)) = unat cp * 64 + byte c mod 64"
proof -
  have "push_bit 6 cp AND ucast (u8 c AND mask 6) = 0"
    by (rule bit_word_eqI) (auto simp: bit_simps)
  then have "push_bit 6 cp OR ucast (u8 c AND 0x3f) = push_bit 6 cp + ucast (u8 c AND 0x3f)"
    unfolding lead_masks by (simp add: disjunctive_add_eq_or)
  moreover have "unat (push_bit 6 cp) = unat cp * 64"
    using assms by (simp only: unsigned_push_bit_eq) (simp add: take_bit_eq_mod push_bit_eq_mult)
  moreover have "byte c mod 64 < 64" by simp
  ultimately show ?thesis
    using assms by (simp only: unat_word_ariths lead_values) simp
qed

section \<open>The checker on byte values\<close>

definition cont_byte :: "char \<Rightarrow> bool" where
  "cont_byte c \<longleftrightarrow> 128 \<le> byte c \<and> byte c < 192"

fun code_point :: "nat \<Rightarrow> string \<Rightarrow> nat" where
  "code_point n [] = n"
| "code_point n (c # cs) = code_point (n * 64 + byte c mod 64) cs"

lemma utf8_continuations_eq:
  "(unat cp + 1) * 64 ^ length cs \<le> 2 ^ 32 \<Longrightarrow>
     utf8_continuations cp cs =
       (if list_all cont_byte cs then Some (word_of_nat (code_point (unat cp) cs)) else None)"
proof (induction cs arbitrary: cp)
  case (Cons c cs)
  let ?cp' = "push_bit 6 cp OR ucast (u8 c AND 0x3f)"
  have "(unat cp + 1) * 64 \<le> (unat cp + 1) * 64 ^ length (c # cs)"
    by (intro mult_le_mono) simp_all
  with Cons.prems have "unat cp < 2 ^ 26" by simp
  then have cp': "unat ?cp' = unat cp * 64 + byte c mod 64"
    by (rule unat_codePoint_step)
  have "unat cp * 64 + byte c mod 64 + 1 \<le> (unat cp + 1) * 64"
    using mod_less_divisor [of 64 "byte c"] by simp
  then have "(unat ?cp' + 1) * 64 ^ length cs \<le> (unat cp + 1) * 64 * 64 ^ length cs"
    unfolding cp' by (rule mult_le_mono1)
  with Cons.prems have "(unat ?cp' + 1) * 64 ^ length cs \<le> 2 ^ 32"
    by (simp add: algebra_simps)
  from Cons.IH [OF this] show ?case
    by (simp add: cont_byte_def lead_classes cp')
qed simp

lemma code_point_less: "code_point n cs < (n + 1) * 64 ^ length cs"
proof (induction cs arbitrary: n)
  case (Cons c cs)
  have "code_point (n * 64 + byte c mod 64) cs < (n * 64 + byte c mod 64 + 1) * 64 ^ length cs"
    by (rule Cons.IH)
  also have "\<dots> \<le> (n * 64 + 64) * 64 ^ length cs"
    using mod_less_divisor [of 64 "byte c"] by (intro mult_le_mono1) simp
  finally show ?case by (simp add: algebra_simps)
qed simp

definition scalar_in :: "nat \<Rightarrow> nat \<Rightarrow> bool" where
  "scalar_in minimum cp \<longleftrightarrow> minimum \<le> cp \<and> unicode_scalar cp"

definition utf8_minimum :: "nat \<Rightarrow> nat" where
  "utf8_minimum n = (if n = 1 then 0x80 else if n = 2 then 0x800 else 0x10000)"

lemma utf8_rejected_iff: "utf8_rejected n cp \<longleftrightarrow> \<not> scalar_in (utf8_minimum n) (unat cp)"
  by (auto simp: utf8_rejected_def utf8_minimum_def scalar_in_def unicode_scalar_def
      word_le_nat_alt word_less_nat_alt)

lemma utf8_step_ascii: "byte x < 128 \<Longrightarrow> utf8_step x xs = Some xs"
  by (simp add: utf8_step_def word_le_nat_alt)

lemma utf8_step_multi:
  assumes lead: "utf8_lead (u8 x) = Some (n, cp)" and high: "128 \<le> byte x"
    and bound: "(unat cp + 1) * 64 ^ n \<le> 2 ^ 32"
  shows "utf8_step x xs = Some r \<longleftrightarrow>
    (\<exists>cs. xs = cs @ r \<and> length cs = n \<and> list_all cont_byte cs \<and>
       scalar_in (utf8_minimum n) (code_point (unat cp) cs))"
proof (cases "n \<le> length xs")
  case True
  then have len: "length (take n xs) = n" by simp
  have "code_point (unat cp) (take n xs) < 2 ^ 32"
    using code_point_less [of "unat cp" "take n xs"] bound len by simp
  then have val: "unat (word_of_nat (code_point (unat cp) (take n xs)) :: 32 word)
      = code_point (unat cp) (take n xs)"
    by (simp add: unat_of_nat)
  have "utf8_step x xs = Some r \<longleftrightarrow> r = drop n xs \<and> list_all cont_byte (take n xs) \<and>
      scalar_in (utf8_minimum n) (code_point (unat cp) (take n xs))"
    using True high bound len val
    by (auto simp: utf8_step_def lead word_le_nat_alt utf8_continuations_eq utf8_rejected_iff)
  also have "\<dots> \<longleftrightarrow> (\<exists>cs. xs = cs @ r \<and> length cs = n \<and> list_all cont_byte cs \<and>
       scalar_in (utf8_minimum n) (code_point (unat cp) cs))"
    using True by (auto intro!: exI [of _ "take n xs"])
  finally show ?thesis .
next
  case False
  with high show ?thesis
    by (auto simp: utf8_step_def lead word_le_nat_alt)
qed

lemma length_1_iff: "length cs = 1 \<longleftrightarrow> (\<exists>a. cs = [a])"
  and length_2_iff: "length cs = 2 \<longleftrightarrow> (\<exists>a b. cs = [a, b])"
  and length_3_iff: "length cs = 3 \<longleftrightarrow> (\<exists>a b c. cs = [a, b, c])"
  by (auto simp: numeral_2_eq_2 numeral_3_eq_3 length_Suc_conv)

lemma cont_mod: "cont_byte c \<Longrightarrow> byte c mod 64 = byte c - 128"
  by (intro mod_nat_eqI) (auto simp: cont_byte_def)

lemma cont_byteE:
  assumes "cont_byte c"
  obtains l where "byte c = 128 + l" "l < 64"
  using assms by (auto simp: cont_byte_def dest!: le_Suc_ex)

lemma utf8_step_2:
  assumes "192 \<le> byte x" "byte x < 224"
  shows "utf8_step x xs = Some r \<longleftrightarrow>
    (\<exists>c1. xs = c1 # r \<and> cont_byte c1 \<and> scalar_in 0x80 ((byte x - 192) * 64 + (byte c1 - 128)))"
proof -
  have lead: "utf8_lead (u8 x) = Some (1, ucast (u8 x AND 0x1f))"
    using assms by (simp add: utf8_lead_def lead_classes)
  have low: "byte x mod 32 = byte x - 192" using assms by (intro mod_nat_eqI) auto
  have "utf8_step x xs = Some r \<longleftrightarrow>
    (\<exists>cs. xs = cs @ r \<and> length cs = 1 \<and> list_all cont_byte cs \<and>
       scalar_in (utf8_minimum 1) (code_point (byte x - 192) cs))"
    using utf8_step_multi [OF lead] assms by (simp add: lead_values low)
  then show ?thesis
    by (auto simp: length_1_iff utf8_minimum_def cont_mod simp del: One_nat_def)
qed

lemma utf8_step_3:
  assumes "224 \<le> byte x" "byte x < 240"
  shows "utf8_step x xs = Some r \<longleftrightarrow>
    (\<exists>c1 c2. xs = c1 # c2 # r \<and> cont_byte c1 \<and> cont_byte c2 \<and>
       scalar_in 0x800 (((byte x - 224) * 64 + (byte c1 - 128)) * 64 + (byte c2 - 128)))"
proof -
  have lead: "utf8_lead (u8 x) = Some (2, ucast (u8 x AND 0x0f))"
    using assms by (simp add: utf8_lead_def lead_classes)
  have low: "byte x mod 16 = byte x - 224" using assms by (intro mod_nat_eqI) auto
  have "utf8_step x xs = Some r \<longleftrightarrow>
    (\<exists>cs. xs = cs @ r \<and> length cs = 2 \<and> list_all cont_byte cs \<and>
       scalar_in (utf8_minimum 2) (code_point (byte x - 224) cs))"
    using utf8_step_multi [OF lead] assms by (simp add: lead_values low)
  then show ?thesis
    by (auto simp: length_2_iff utf8_minimum_def cont_mod)
qed

lemma utf8_step_4:
  assumes "240 \<le> byte x" "byte x < 248"
  shows "utf8_step x xs = Some r \<longleftrightarrow>
    (\<exists>c1 c2 c3. xs = c1 # c2 # c3 # r \<and> cont_byte c1 \<and> cont_byte c2 \<and> cont_byte c3 \<and>
       scalar_in 0x10000
         ((((byte x - 240) * 64 + (byte c1 - 128)) * 64 + (byte c2 - 128)) * 64 + (byte c3 - 128)))"
proof -
  have lead: "utf8_lead (u8 x) = Some (3, ucast (u8 x AND 0x07))"
    using assms by (simp add: utf8_lead_def lead_classes)
  have low: "byte x mod 8 = byte x - 240" using assms by (intro mod_nat_eqI) auto
  have "utf8_step x xs = Some r \<longleftrightarrow>
    (\<exists>cs. xs = cs @ r \<and> length cs = 3 \<and> list_all cont_byte cs \<and>
       scalar_in (utf8_minimum 3) (code_point (byte x - 240) cs))"
    using utf8_step_multi [OF lead] assms by (simp add: lead_values low)
  then show ?thesis
    by (auto simp: length_3_iff utf8_minimum_def cont_mod)
qed

lemma utf8_step_bad:
  "128 \<le> byte x \<and> byte x < 192 \<or> 248 \<le> byte x \<Longrightarrow> utf8_step x xs = None"
  by (auto simp: utf8_step_def utf8_lead_def lead_classes word_le_nat_alt)

section \<open>The checker accepts exactly the encodings\<close>

lemma encode_2:
  "h < 32 \<Longrightarrow> l < 64 \<Longrightarrow> 0x80 \<le> h * 64 + l \<Longrightarrow> utf8_encode (h * 64 + l) = [192 + h, 128 + l]"
  by (simp add: utf8_encode_def)

lemma encode_3:
  assumes "h < 16" "m < 64" "l < 64" "0x800 \<le> (h * 64 + m) * 64 + l"
  shows "utf8_encode ((h * 64 + m) * 64 + l) = [224 + h, 128 + m, 128 + l]"
proof -
  let ?cp = "(h * 64 + m) * 64 + l"
  have "?cp div 64 = h * 64 + m" "?cp mod 64 = l"
    using assms by (simp, simp only: mod_mult_self3, simp)
  moreover have "?cp div 4096 = h" using assms by (intro div_nat_eqI) simp_all
  ultimately show ?thesis using assms by (simp add: utf8_encode_def)
qed

lemma encode_4:
  assumes "m < 64" "k < 64" "l < 64" "0x10000 \<le> ((h * 64 + m) * 64 + k) * 64 + l"
  shows "utf8_encode (((h * 64 + m) * 64 + k) * 64 + l) = [240 + h, 128 + m, 128 + k, 128 + l]"
proof -
  let ?cp = "((h * 64 + m) * 64 + k) * 64 + l"
  have "?cp div 64 = (h * 64 + m) * 64 + k" "?cp mod 64 = l"
    using assms by (simp, simp only: mod_mult_self3, simp)
  moreover have "?cp div 4096 = h * 64 + m" using assms by (intro div_nat_eqI) simp_all
  moreover have "((h * 64 + m) * 64 + k) mod 64 = k"
    using assms by (simp only: mod_mult_self3) simp
  moreover have "?cp div 262144 = h" using assms by (intro div_nat_eqI) simp_all
  ultimately show ?thesis using assms by (simp add: utf8_encode_def)
qed

lemma utf8_step_sound:
  assumes "utf8_step x xs = Some r"
  shows "\<exists>cp. unicode_scalar cp \<and> map byte (x # xs) = utf8_encode cp @ map byte r"
proof -
  consider "byte x < 128" | "128 \<le> byte x \<and> byte x < 192 \<or> 248 \<le> byte x"
    | "192 \<le> byte x" "byte x < 224" | "224 \<le> byte x" "byte x < 240"
    | "240 \<le> byte x" "byte x < 248"
    by linarith
  then show ?thesis
  proof cases
    case 1
    with assms show ?thesis
      by (intro exI [of _ "byte x"])
        (simp add: utf8_step_ascii utf8_encode_def unicode_scalar_def)
  next
    case 2
    with assms show ?thesis by (simp add: utf8_step_bad)
  next
    case 3
    with assms obtain c1 where c: "xs = c1 # r" "cont_byte c1"
      "scalar_in 0x80 ((byte x - 192) * 64 + (byte c1 - 128))"
      by (auto simp: utf8_step_2)
    from 3 obtain h where h: "byte x = 192 + h" "h < 32" by (auto dest!: le_Suc_ex)
    from c(2) obtain l where l: "byte c1 = 128 + l" "l < 64" by (rule cont_byteE)
    from c(3) h l encode_2 [of h l] show ?thesis
      by (intro exI [of _ "h * 64 + l"]) (simp add: c(1) scalar_in_def)
  next
    case 4
    with assms obtain c1 c2 where c: "xs = c1 # c2 # r" "cont_byte c1" "cont_byte c2"
      "scalar_in 0x800 (((byte x - 224) * 64 + (byte c1 - 128)) * 64 + (byte c2 - 128))"
      by (auto simp: utf8_step_3)
    from 4 obtain h where h: "byte x = 224 + h" "h < 16" by (auto dest!: le_Suc_ex)
    from c(2) obtain m where m: "byte c1 = 128 + m" "m < 64" by (rule cont_byteE)
    from c(3) obtain l where l: "byte c2 = 128 + l" "l < 64" by (rule cont_byteE)
    from c(4) h m l encode_3 [of h m l] show ?thesis
      by (intro exI [of _ "(h * 64 + m) * 64 + l"]) (simp add: c(1) scalar_in_def)
  next
    case 5
    with assms obtain c1 c2 c3 where c: "xs = c1 # c2 # c3 # r"
      "cont_byte c1" "cont_byte c2" "cont_byte c3"
      "scalar_in 0x10000
        ((((byte x - 240) * 64 + (byte c1 - 128)) * 64 + (byte c2 - 128)) * 64 + (byte c3 - 128))"
      by (auto simp: utf8_step_4)
    from 5 obtain h where h: "byte x = 240 + h" by (auto dest!: le_Suc_ex)
    from c(2) obtain m where m: "byte c1 = 128 + m" "m < 64" by (rule cont_byteE)
    from c(3) obtain k where k: "byte c2 = 128 + k" "k < 64" by (rule cont_byteE)
    from c(4) obtain l where l: "byte c3 = 128 + l" "l < 64" by (rule cont_byteE)
    from c(5) h m k l encode_4 [of m k l h] show ?thesis
      by (intro exI [of _ "((h * 64 + m) * 64 + k) * 64 + l"]) (simp add: c(1) scalar_in_def)
  qed
qed

lemma map_byte_eq_iff [simp]: "map byte xs = map byte ys \<longleftrightarrow> xs = ys"
  by (rule inj_map_eq_map) (simp add: inj_def)

lemma utf8_step_complete:
  assumes cp: "unicode_scalar cp" and bytes: "map byte (x # xs) = utf8_encode cp @ map byte r"
  shows "utf8_step x xs = Some r"
proof -
  consider "cp < 0x80" | "0x80 \<le> cp" "cp < 0x800" | "0x800 \<le> cp" "cp < 0x10000" | "0x10000 \<le> cp"
    by linarith
  then show ?thesis
  proof cases
    case 1
    with bytes show ?thesis by (simp add: utf8_encode_def utf8_step_ascii)
  next
    case 2
    with bytes obtain c1 where b: "byte x = 192 + cp div 64" "byte c1 = 128 + cp mod 64" "xs = c1 # r"
      by (auto simp: utf8_encode_def map_eq_Cons_conv)
    have "byte x < 224" using b 2 by simp
    then show ?thesis
      using b cp 2 by (simp add: utf8_step_2 cont_byte_def scalar_in_def)
  next
    case 3
    with bytes obtain c1 c2 where b: "byte x = 224 + cp div 4096" "byte c1 = 128 + cp div 64 mod 64"
      "byte c2 = 128 + cp mod 64" "xs = c1 # c2 # r"
      by (auto simp: utf8_encode_def map_eq_Cons_conv)
    have "byte x < 240" using b 3 by simp
    moreover have "(cp div 4096 * 64 + cp div 64 mod 64) * 64 + cp mod 64 = cp"
      using div_mult2_eq [of cp 64 64] by simp
    ultimately show ?thesis
      using b cp 3 by (simp add: utf8_step_3 cont_byte_def scalar_in_def)
  next
    case 4
    with bytes obtain c1 c2 c3 where b: "byte x = 240 + cp div 262144"
      "byte c1 = 128 + cp div 4096 mod 64" "byte c2 = 128 + cp div 64 mod 64"
      "byte c3 = 128 + cp mod 64" "xs = c1 # c2 # c3 # r"
      by (auto simp: utf8_encode_def map_eq_Cons_conv)
    have "cp div 262144 \<le> 1114111 div 262144"
      using cp by (intro div_le_mono) (simp add: unicode_scalar_def)
    then have "byte x < 248" using b by simp
    moreover have "((cp div 262144 * 64 + cp div 4096 mod 64) * 64 + cp div 64 mod 64) * 64 + cp mod 64 = cp"
    proof -
      have "cp div 262144 = cp div 64 div 64 div 64" "cp div 4096 = cp div 64 div 64"
        by (simp_all add: div_mult2_eq [symmetric])
      then show ?thesis by (simp only: div_mult_mod_eq)
    qed
    ultimately show ?thesis
      using b cp 4 by (simp add: utf8_step_4 cont_byte_def scalar_in_def)
  qed
qed

definition utf8_text :: "string \<Rightarrow> bool" where
  "utf8_text s \<longleftrightarrow>
     (\<exists>cps. (\<forall>cp \<in> set cps. unicode_scalar cp) \<and> map byte s = concat (map utf8_encode cps))"

lemma utf8_encode_nonempty [simp]: "utf8_encode cp \<noteq> []"
  by (simp add: utf8_encode_def)

lemma IsValidUtf8_sound: "IsValidUtf8 s \<Longrightarrow> utf8_text s"
proof (induction s rule: IsValidUtf8.induct)
  case 1
  show ?case by (auto simp: utf8_text_def intro: exI [of _ "[]"])
next
  case (2 x xs)
  from "2.prems" obtain r where r: "utf8_step x xs = Some r" "IsValidUtf8 r"
    by (auto split: option.splits)
  from "2.IH" [OF r] obtain cps where cps: "\<forall>cp \<in> set cps. unicode_scalar cp"
    "map byte r = concat (map utf8_encode cps)"
    by (auto simp: utf8_text_def)
  from utf8_step_sound [OF r(1)] obtain cp where "unicode_scalar cp"
    "map byte (x # xs) = utf8_encode cp @ map byte r" by blast
  with cps show ?case
    unfolding utf8_text_def by (intro exI [of _ "cp # cps"]) auto
qed

lemma IsValidUtf8_complete:
  "\<forall>cp \<in> set cps. unicode_scalar cp \<Longrightarrow> map byte s = concat (map utf8_encode cps) \<Longrightarrow> IsValidUtf8 s"
proof (induction cps arbitrary: s)
  case (Cons cp cps)
  then obtain x xs where s: "s = x # xs" by (cases s) auto
  define r where "r = drop (length (utf8_encode cp)) s"
  have r: "map byte r = concat (map utf8_encode cps)"
    using Cons.prems(2) by (simp add: r_def drop_map [symmetric])
  then have "utf8_step x xs = Some r"
    using Cons.prems s by (intro utf8_step_complete [of cp]) auto
  with Cons.IH [OF _ r] Cons.prems(1) s show ?case by simp
qed simp

lemma IsValidUtf8_utf8_text: "IsValidUtf8 s \<longleftrightarrow> utf8_text s"
  by (auto simp: utf8_text_def dest: IsValidUtf8_sound intro: IsValidUtf8_complete)

lemma IsValidUtf8_ascii: "\<forall>c \<in> set s. byte c < 128 \<Longrightarrow> IsValidUtf8 s"
  by (induction s) (auto simp: utf8_step_ascii)

section \<open>Property\<close>

text \<open>
  C20: the hand-written decoder accepts exactly the byte strings that are the concatenation of the
  shortest UTF-8 encodings of Unicode scalar values: overlong forms, surrogates, code points above
  \<^verbatim>\<open>0x10ffff\<close>, stray and missing continuation bytes are all rejected, and nothing else is.
\<close>

theorem IsValidUtf8_iff_encoding:
  "IsValidUtf8 s \<longleftrightarrow> (\<exists>cps. list_all unicode_scalar cps \<and> map byte s = concat (map utf8_encode cps))"
  by (auto simp: IsValidUtf8_utf8_text utf8_text_def list_all_iff)

end
