(* ===== verification/Address_Validation.thy ===== *)
theory Address_Validation
  imports Prelude
begin

text \<open>
  The address checks of \<^verbatim>\<open>src/src/Utils/Storage/SQLiteDatabase.cpp\<close>: \<^verbatim>\<open>IsValidIpv4\<close>,
  \<^verbatim>\<open>CountIpv6Parts\<close>, \<^verbatim>\<open>IsValidIpv6\<close> and \<^verbatim>\<open>IsValidHostname\<close>. Each scanning loop is a
  recursion on the part of the string that is left (from \<^verbatim>\<open>begin\<close> on). The lemmas
  characterise each check by the list of parts between separators and bound the length and
  the bytes of whatever is accepted.
\<close>

section \<open>IPv4 literals\<close>

definition decimal_value :: "string \<Rightarrow> nat" where
  "decimal_value part = foldl (\<lambda>value digit. value * 10 + (byte digit - 48)) 0 part"

function ipv4_loop :: "nat \<Rightarrow> string \<Rightarrow> bool" where
  "ipv4_loop parts rest =
     (let part = upto_sep CHR ''.'' rest in
      if part = [] \<or> 3 < length part \<or> \<not> list_all isdigit part then False
      else if 255 < decimal_value part then False
      else case after_sep CHR ''.'' rest of
        None \<Rightarrow> parts + 1 = 4
      | Some rest' \<Rightarrow> ipv4_loop (parts + 1) rest')"
  by pat_completeness auto
termination
  by (relation "measure (\<lambda>(parts, rest). length rest)") (auto dest: after_sep_length)

declare ipv4_loop.simps [simp del]

definition IsValidIpv4 :: "string \<Rightarrow> bool" where
  "IsValidIpv4 address = ipv4_loop 0 address"

section \<open>IPv6 literals\<close>

function ipv6_loop :: "bool \<Rightarrow> int \<Rightarrow> string \<Rightarrow> int" where
  "ipv6_loop allowIpv4 count rest =
     (let part = upto_sep CHR '':'' rest; next = after_sep CHR '':'' rest in
      if part = [] then -1
      else if CHR ''.'' \<in> set part \<and> (\<not> allowIpv4 \<or> next \<noteq> None \<or> \<not> IsValidIpv4 part) then -1
      else if CHR ''.'' \<notin> set part \<and> (4 < length part \<or> \<not> list_all isxdigit part) then -1
      else (let count' = (if CHR ''.'' \<in> set part then count + 2 else count + 1) in
            case next of None \<Rightarrow> count' | Some rest' \<Rightarrow> ipv6_loop allowIpv4 count' rest'))"
  by pat_completeness auto
termination
  by (relation "measure (\<lambda>(allowIpv4, count, rest). length rest)")
    (auto intro: after_sep_length [OF sym])

declare ipv6_loop.simps [simp del]

definition CountIpv6Parts :: "string \<Rightarrow> bool \<Rightarrow> int" where
  "CountIpv6Parts sequence allowIpv4 = (if sequence = [] then 0 else ipv6_loop allowIpv4 0 sequence)"

text \<open>\<^verbatim>\<open>find("::")\<close>.\<close>

fun find_compression :: "string \<Rightarrow> nat option" where
  "find_compression (a # b # s) =
     (if a = CHR '':'' \<and> b = CHR '':'' then Some 0 else map_option Suc (find_compression (b # s)))"
| "find_compression _ = None"

definition IsValidIpv6 :: "string \<Rightarrow> bool" where
  "IsValidIpv6 address =
     (case find_compression address of
        None \<Rightarrow> CountIpv6Parts address True = 8
      | Some compression \<Rightarrow>
          (if find_compression (drop (compression + 2) address) \<noteq> None then False
           else (let left = CountIpv6Parts (take compression address) False;
                     right = CountIpv6Parts (drop (compression + 2) address) True
                 in 0 \<le> left \<and> 0 \<le> right \<and> left + right < 8)))"

section \<open>Host names\<close>

function hostname_loop :: "string \<Rightarrow> bool" where
  "hostname_loop rest =
     (let label = upto_sep CHR ''.'' rest in
      if label = [] \<or> 63 < length label \<or> \<not> isalnum (hd label) \<or> \<not> isalnum (last label) then False
      else if \<not> list_all (\<lambda>c. isalnum c \<or> c = CHR ''-'') label then False
      else case after_sep CHR ''.'' rest of None \<Rightarrow> True | Some rest' \<Rightarrow> hostname_loop rest')"
  by pat_completeness auto
termination
  by (relation "measure length") (auto dest: after_sep_length)

declare hostname_loop.simps [simp del]

definition IsValidHostname :: "string \<Rightarrow> bool" where
  "IsValidHostname hostname =
     (if hostname = [] \<or> 253 < length hostname then False
      else let hostname = (if last hostname = CHR ''.'' then butlast hostname else hostname) in
        if hostname = [] then False
        else if list_all (\<lambda>c. isdigit c \<or> c = CHR ''.'') hostname then False
        else hostname_loop hostname)"

section \<open>What the checks accept\<close>

definition ipv4_octet :: "string \<Rightarrow> bool" where
  "ipv4_octet part \<longleftrightarrow>
     part \<noteq> [] \<and> length part \<le> 3 \<and> list_all isdigit part \<and> decimal_value part \<le> 255"

lemma ipv4_loop_unfold:
  "ipv4_loop n s \<longleftrightarrow> ipv4_octet (upto_sep CHR ''.'' s) \<and>
     (case after_sep CHR ''.'' s of None \<Rightarrow> n = 3 | Some r \<Rightarrow> ipv4_loop (Suc n) r)"
  by (subst ipv4_loop.simps) (auto simp: Let_def ipv4_octet_def not_less split: option.splits)

lemma ipv4_loop_iff:
  "ipv4_loop n s \<longleftrightarrow> list_all ipv4_octet (split_sep CHR ''.'' s) \<and> n + length (split_sep CHR ''.'' s) = 4"
proof (induction "length s" arbitrary: n s rule: less_induct)
  case less
  then show ?case
    by (subst ipv4_loop_unfold, subst (1 2) split_sep.simps)
      (auto dest: after_sep_length split: option.splits)
qed

lemma IsValidIpv4_split:
  "IsValidIpv4 s \<longleftrightarrow> (let parts = split_sep CHR ''.'' s in length parts = 4 \<and> list_all ipv4_octet parts)"
  by (auto simp: IsValidIpv4_def ipv4_loop_iff Let_def)

definition ipv6_part :: "string \<Rightarrow> bool" where
  "ipv6_part part \<longleftrightarrow> part \<noteq> [] \<and> length part \<le> 4 \<and> list_all isxdigit part"

fun ipv6_parts :: "bool \<Rightarrow> string list \<Rightarrow> int option" where
  "ipv6_parts allowIpv4 [] = Some 0"
| "ipv6_parts allowIpv4 (p # ps) =
     (if ipv6_part p then map_option ((+) 1) (ipv6_parts allowIpv4 ps)
      else if allowIpv4 \<and> ps = [] \<and> CHR ''.'' \<in> set p \<and> IsValidIpv4 p then Some 2 else None)"

lemma xdigits_no_dot: "list_all isxdigit p \<Longrightarrow> CHR ''.'' \<notin> set p"
  by (auto simp: list_all_iff isxdigit_def isdigit_def byte_def)

lemma ipv4_nonempty: "IsValidIpv4 p \<Longrightarrow> p \<noteq> []"
  by (auto simp: IsValidIpv4_split split_sep_notin)

lemma ipv6_loop_unfold:
  "ipv6_loop allow n s =
     (let p = upto_sep CHR '':'' s in
      if ipv6_part p then
        (case after_sep CHR '':'' s of None \<Rightarrow> n + 1 | Some r \<Rightarrow> ipv6_loop allow (n + 1) r)
      else if allow \<and> after_sep CHR '':'' s = None \<and> CHR ''.'' \<in> set p \<and> IsValidIpv4 p then n + 2
      else -1)"
  by (subst ipv6_loop.simps)
    (auto simp: Let_def ipv6_part_def not_less xdigits_no_dot dest: ipv4_nonempty
      split: option.splits)

lemma ipv6_loop_eq:
  "ipv6_loop allow n s =
     (case ipv6_parts allow (split_sep CHR '':'' s) of None \<Rightarrow> -1 | Some k \<Rightarrow> n + k)"
proof (induction "length s" arbitrary: n s rule: less_induct)
  case less
  show ?case
  proof (cases "after_sep CHR '':'' s")
    case None
    then show ?thesis
      by (subst ipv6_loop_unfold, subst split_sep.simps) (auto simp: Let_def)
  next
    case (Some r)
    with less [OF after_sep_length] show ?thesis
      by (subst ipv6_loop_unfold, subst split_sep.simps) (auto simp: Let_def split: option.splits)
  qed
qed

lemma CountIpv6Parts_eq:
  "CountIpv6Parts s allow =
     (if s = [] then 0
      else case ipv6_parts allow (split_sep CHR '':'' s) of None \<Rightarrow> -1 | Some k \<Rightarrow> k)"
  by (simp add: CountIpv6Parts_def ipv6_loop_eq split: option.splits)

definition dns_label :: "string \<Rightarrow> bool" where
  "dns_label label \<longleftrightarrow> label \<noteq> [] \<and> length label \<le> 63 \<and> isalnum (hd label) \<and> isalnum (last label) \<and>
     list_all (\<lambda>c. isalnum c \<or> c = CHR ''-'') label"

lemma hostname_loop_iff: "hostname_loop s \<longleftrightarrow> list_all dns_label (split_sep CHR ''.'' s)"
proof (induction "length s" arbitrary: s rule: less_induct)
  case less
  then show ?case
    by (subst hostname_loop.simps, subst split_sep.simps)
      (auto simp: Let_def dns_label_def not_less dest: after_sep_length split: option.splits)
qed

definition strip_root_dot :: "string \<Rightarrow> string" where
  "strip_root_dot h = (if h \<noteq> [] \<and> last h = CHR ''.'' then butlast h else h)"

lemma IsValidHostname_split:
  "IsValidHostname h \<longleftrightarrow>
     length h \<le> 253 \<and> \<not> list_all (\<lambda>c. isdigit c \<or> c = CHR ''.'') (strip_root_dot h) \<and>
     list_all dns_label (split_sep CHR ''.'' (strip_root_dot h))"
  by (auto simp: IsValidHostname_def strip_root_dot_def hostname_loop_iff Let_def not_less)

section \<open>Bounds on accepted addresses\<close>

text \<open>Every accepted address is non-empty printable ASCII of at most 253 bytes.\<close>

definition address_char :: "char \<Rightarrow> bool" where
  "address_char c \<longleftrightarrow> isalnum c \<or> c = CHR ''.'' \<or> c = CHR '':'' \<or> c = CHR ''-''"

lemma join_sep_length:
  "\<forall>p \<in> set ps. length p \<le> k \<Longrightarrow> length (join_sep c ps) \<le> length ps * (k + 1)"
  by (induction c ps rule: join_sep.induct) (auto simp: algebra_simps)

lemma set_join_sep: "set (join_sep c ps) \<subseteq> insert c (\<Union> (set ` set ps))"
  by (induction c ps rule: join_sep.induct) auto

lemma split_sep_chars:
  "x \<in> set s \<Longrightarrow> x = c \<or> (\<exists>p \<in> set (split_sep c s). x \<in> set p)"
  using set_join_sep [of c "split_sep c s"] by auto

lemma ipv4_bounds:
  assumes "IsValidIpv4 s"
  shows "s \<noteq> []" "length s \<le> 16" "list_all address_char s"
proof -
  let ?ps = "split_sep CHR ''.'' s"
  have ps: "length ?ps = 4" "list_all ipv4_octet ?ps"
    using assms by (auto simp: IsValidIpv4_split Let_def)
  show "s \<noteq> []" using assms by (rule ipv4_nonempty)
  have "\<forall>p \<in> set ?ps. length p \<le> 3" using ps(2) by (auto simp: list_all_iff ipv4_octet_def)
  from join_sep_length [OF this, of "CHR ''.''"] ps(1) show "length s \<le> 16" by simp
  show "list_all address_char s"
    using ps(2) split_sep_chars [of _ s "CHR ''.''"]
    by (fastforce simp: list_all_iff ipv4_octet_def address_char_def isalnum_def)
qed

lemma ipv6_parts_bounds:
  "ipv6_parts allow ps = Some k \<Longrightarrow>
     0 \<le> k \<and> int (length (join_sep CHR '':'' ps)) \<le> 9 * k \<and>
     (\<forall>p \<in> set ps. list_all address_char p)"
proof (induction ps arbitrary: k)
  case (Cons p ps)
  show ?case
  proof (cases "ipv6_part p")
    case True
    with Cons.prems obtain j where j: "ipv6_parts allow ps = Some j" "k = 1 + j" by auto
    have "list_all address_char p" "length p \<le> 4"
      using True by (auto simp: ipv6_part_def list_all_iff address_char_def ctype_simps)
    with Cons.IH [OF j(1)] j(2) show ?thesis
      by (cases ps) auto
  next
    case False
    with Cons.prems have "k = 2" "ps = []" "IsValidIpv4 p" by (auto split: if_splits)
    with ipv4_bounds [of p] show ?thesis by auto
  qed
qed simp

lemma CountIpv6Parts_bounds:
  assumes "0 \<le> CountIpv6Parts s allow"
  shows "int (length s) \<le> 9 * CountIpv6Parts s allow" "list_all address_char s"
proof -
  have "int (length s) \<le> 9 * CountIpv6Parts s allow \<and> list_all address_char s"
  proof (cases "s = []")
    case False
    then obtain k where k: "ipv6_parts allow (split_sep CHR '':'' s) = Some k"
      "CountIpv6Parts s allow = k"
      using assms by (auto simp: CountIpv6Parts_eq split: option.splits)
    from ipv6_parts_bounds [OF k(1)] split_sep_chars [of _ s "CHR '':''"] k(2) show ?thesis
      by (auto simp: list_all_iff address_char_def)
  qed (simp add: CountIpv6Parts_eq)
  then show "int (length s) \<le> 9 * CountIpv6Parts s allow" "list_all address_char s" by auto
qed

lemma find_compression_split:
  "find_compression s = Some i \<Longrightarrow> s = take i s @ CHR '':'' # CHR '':'' # drop (i + 2) s"
  by (induction s arbitrary: i rule: find_compression.induct) (auto split: if_splits)

lemma ipv6_bounds:
  assumes "IsValidIpv6 s"
  shows "s \<noteq> []" "length s \<le> 74" "list_all address_char s"
proof -
  have "s \<noteq> [] \<and> length s \<le> 74 \<and> list_all address_char s"
  proof (cases "find_compression s")
    case None
    with assms have "CountIpv6Parts s True = 8" by (simp add: IsValidIpv6_def)
    with CountIpv6Parts_bounds [of s True] show ?thesis by (auto simp: CountIpv6Parts_eq)
  next
    case (Some i)
    let ?l = "take i s" and ?r = "drop (i + 2) s"
    have c: "0 \<le> CountIpv6Parts ?l False" "0 \<le> CountIpv6Parts ?r True"
      "CountIpv6Parts ?l False + CountIpv6Parts ?r True < 8"
      using assms Some by (auto simp: IsValidIpv6_def Let_def split: if_splits)
    have s: "s = ?l @ CHR '':'' # CHR '':'' # ?r"
      using find_compression_split [OF Some] by simp
    have "length s = length ?l + 2 + length ?r"
      by (subst s) simp
    moreover have "list_all address_char s"
      using CountIpv6Parts_bounds(2) [OF c(1)] CountIpv6Parts_bounds(2) [OF c(2)]
      by (subst s) (simp add: address_char_def)
    ultimately show ?thesis
      using CountIpv6Parts_bounds(1) [OF c(1)] CountIpv6Parts_bounds(1) [OF c(2)] c(3) by auto
  qed
  then show "s \<noteq> []" "length s \<le> 74" "list_all address_char s" by auto
qed

lemma hostname_bounds:
  assumes "IsValidHostname h"
  shows "h \<noteq> []" "length h \<le> 253" "list_all address_char h"
proof -
  show "h \<noteq> []" "length h \<le> 253" using assms by (auto simp: IsValidHostname_def split: if_splits)
  have "list_all address_char (strip_root_dot h)"
    using assms split_sep_chars [of _ "strip_root_dot h" "CHR ''.''"]
    by (fastforce simp: IsValidHostname_split list_all_iff dns_label_def address_char_def)
  then show "list_all address_char h"
    by (cases h rule: rev_cases)
      (auto simp: strip_root_dot_def address_char_def list_all_iff split: if_splits)
qed

lemma find_compression_bound: "find_compression s = Some i \<Longrightarrow> i < length s"
  by (induction s arbitrary: i rule: find_compression.induct) (fastforce split: if_splits)+

lemma ipv6_parts_nonneg: "ipv6_parts allow ps = Some k \<Longrightarrow> 0 \<le> k"
  by (induction ps arbitrary: k) (auto split: if_splits)

section \<open>Properties\<close>

text \<open>
  An IPv4 literal is accepted exactly when it is four dot-separated groups of one to three
  decimal digits, each of value at most 255.
\<close>

theorem IsValidIpv4_iff:
  "IsValidIpv4 s \<longleftrightarrow> (\<exists>a b c d. s = join_sep CHR ''.'' [a, b, c, d] \<and> list_all ipv4_octet [a, b, c, d])"
proof
  assume "IsValidIpv4 s"
  then have v: "length (split_sep CHR ''.'' s) = 4" "list_all ipv4_octet (split_sep CHR ''.'' s)"
    by (simp_all add: IsValidIpv4_split Let_def)
  then obtain a b c d where "split_sep CHR ''.'' s = [a, b, c, d]"
    by (auto simp: numeral_eq_Suc length_Suc_conv)
  with v(2) join_split [of "CHR ''.''" s] show "\<exists>a b c d. s = join_sep CHR ''.'' [a, b, c, d] \<and> list_all ipv4_octet [a, b, c, d]"
    by metis
next
  assume "\<exists>a b c d. s = join_sep CHR ''.'' [a, b, c, d] \<and> list_all ipv4_octet [a, b, c, d]"
  then obtain a b c d where s: "s = join_sep CHR ''.'' [a, b, c, d]" and o: "list_all ipv4_octet [a, b, c, d]" by blast
  have "\<forall>p \<in> set [a, b, c, d]. CHR ''.'' \<notin> set p"
    using o by (auto simp: ipv4_octet_def list_all_iff isdigit_def byte_def)
  then have "split_sep CHR ''.'' s = [a, b, c, d]" unfolding s by (intro split_join) auto
  with o show "IsValidIpv4 s" by (simp add: IsValidIpv4_split)
qed

definition ipv6_groups :: "bool \<Rightarrow> string \<Rightarrow> int option" where
  "ipv6_groups allowIpv4 s = (if s = [] then Some 0 else ipv6_parts allowIpv4 (split_sep CHR '':'' s))"

lemma CountIpv6Parts_groups:
  "CountIpv6Parts s allow = (case ipv6_groups allow s of None \<Rightarrow> -1 | Some k \<Rightarrow> k)"
  by (simp add: CountIpv6Parts_eq ipv6_groups_def)

lemma CountIpv6Parts_around:
  "0 \<le> CountIpv6Parts l a \<and> 0 \<le> CountIpv6Parts r b \<and> CountIpv6Parts l a + CountIpv6Parts r b < 8 \<longleftrightarrow>
   (\<exists>m n. ipv6_groups a l = Some m \<and> ipv6_groups b r = Some n \<and> m + n < 8)"
proof -
  have "ipv6_groups a' s' = Some k \<Longrightarrow> 0 \<le> k" for a' s' k
    by (auto simp: ipv6_groups_def dest: ipv6_parts_nonneg split: if_splits)
  then show ?thesis by (cases "ipv6_groups a l"; cases "ipv6_groups b r") (auto simp: CountIpv6Parts_groups)
qed

text \<open>
  C33: an IPv6 literal is accepted exactly when it is eight colon-separated groups with no
  \<^verbatim>\<open>::\<close>, or has exactly one \<^verbatim>\<open>::\<close> with fewer than eight groups around it; a group is one to
  four hexadecimal digits, and an IPv4 literal may stand for the last two groups.
\<close>

theorem IsValidIpv6_iff:
  "IsValidIpv6 s \<longleftrightarrow>
     (find_compression s = None \<and> ipv6_groups True s = Some 8) \<or>
     (\<exists>l r m n. s = l @ ''::'' @ r \<and> find_compression s = Some (length l) \<and> find_compression r = None \<and>
        ipv6_groups False l = Some m \<and> ipv6_groups True r = Some n \<and> m + n < 8)"
proof (cases "find_compression s")
  case None
  then show ?thesis by (auto simp: IsValidIpv6_def CountIpv6Parts_groups split: option.splits)
next
  case (Some i)
  note s = find_compression_split [OF Some]
  have i: "length (take i s) = i" using find_compression_bound [OF Some] by simp
  have eq: "s = l @ ''::'' @ r \<and> find_compression s = Some (length l) \<longleftrightarrow> l = take i s \<and> r = drop (i + 2) s" for l r
    using Some s i by auto
  have "IsValidIpv6 s \<longleftrightarrow> (let l = take i s; r = drop (i + 2) s in find_compression r = None \<and>
      0 \<le> CountIpv6Parts l False \<and> 0 \<le> CountIpv6Parts r True \<and> CountIpv6Parts l False + CountIpv6Parts r True < 8)"
    using Some by (simp add: IsValidIpv6_def Let_def)
  also have "\<dots> \<longleftrightarrow> (\<exists>m n. find_compression (drop (i + 2) s) = None \<and> ipv6_groups False (take i s) = Some m \<and>
      ipv6_groups True (drop (i + 2) s) = Some n \<and> m + n < 8)"
    unfolding Let_def CountIpv6Parts_around by blast
  finally show ?thesis using Some eq by (metis option.distinct(1))
qed

text \<open>
  A host name is accepted exactly when it has at most 253 bytes, is not a dotted number, and
  every label, after at most one trailing dot is dropped, has 1 to 63 letters, digits and hyphens
  and neither begins nor ends with a hyphen.
\<close>

theorem IsValidHostname_iff:
  "IsValidHostname h \<longleftrightarrow>
     length h \<le> 253 \<and> \<not> list_all (\<lambda>c. isdigit c \<or> c = CHR ''.'') (strip_root_dot h) \<and>
     list_all dns_label (split_sep CHR ''.'' (strip_root_dot h))"
  by (rule IsValidHostname_split)

end
