(* ===== verification/Device_Item.thy ===== *)
theory Device_Item
  imports Utf8 Address_Validation
begin

text \<open>
  The stored device of \<^verbatim>\<open>src/src/Utils/Storage/DatabaseItem.hpp\<close> and the validation and
  row codec of \<^verbatim>\<open>src/src/Utils/Storage/SQLiteDatabase.cpp\<close>: \<^verbatim>\<open>ValidateSizedUtf8\<close>,
  \<^verbatim>\<open>ValidateItem\<close>, \<^verbatim>\<open>ValidateItems\<close>, \<^verbatim>\<open>DecodeDatabaseItem\<close> and \<^verbatim>\<open>BindItem\<close>. The lemmas
  say exactly what validation accepts, that the codec is a bijection between valid items and
  the rows the decoder accepts, and which error is reported for what.
\<close>

record DatabaseItem =
  item_id :: string
  item_name :: string
  item_ipAddress :: string
  item_port :: "16 word"
  item_alive :: bool

section \<open>Validation\<close>

definition ValidateSizedUtf8 :: "string \<Rightarrow> nat \<Rightarrow> DatabaseField \<Rightarrow> string \<Rightarrow> cpp_exn + unit" where
  "ValidateSizedUtf8 value maximum field fieldName =
     (if value = [] \<or> maximum < length value \<or> \<not> IsValidUtf8 value
      then Inl (DatabaseValidation field
        (fieldName @ '' must contain 1-'' @ dec_of_nat maximum @ '' valid UTF-8 bytes''))
      else Inr ())"

definition address_error :: cpp_exn where
  "address_error = DatabaseValidation FieldAddress
     ''address must be an IPv4/IPv6 literal or ASCII DNS hostname of at most 253 bytes''"

definition ValidateItem :: "DatabaseItem \<Rightarrow> cpp_exn + unit" where
  "ValidateItem item =
     ebind (ValidateSizedUtf8 (item_id item) 128 FieldId ''device id'') (\<lambda>_.
     ebind (ValidateSizedUtf8 (item_name item) 256 FieldName ''device name'') (\<lambda>_.
     if \<not> (IsValidIpv4 (item_ipAddress item) \<or> IsValidIpv6 (item_ipAddress item)
            \<or> IsValidHostname (item_ipAddress item))
     then Inl address_error else Inr ()))"

fun ValidateItems_loop :: "string set \<Rightarrow> DatabaseItem list \<Rightarrow> cpp_exn + unit" where
  "ValidateItems_loop ids [] = Inr ()"
| "ValidateItems_loop ids (item # items) =
     ebind (ValidateItem item) (\<lambda>_.
       if item_id item \<in> ids
       then Inl (DatabaseValidation FieldCollection
         (''replacement contains duplicate device id: '' @ item_id item))
       else ValidateItems_loop (insert (item_id item) ids) items)"

definition ValidateItems :: "DatabaseItem list \<Rightarrow> cpp_exn + unit" where
  "ValidateItems items = ValidateItems_loop {} items"

section \<open>Rows\<close>

text \<open>Dynamically typed SQLite cells; a result row is a list of cells.\<close>

datatype sql_value = SNull | SInteger int | SReal | SText string | SBlob string

type_synonym sql_row = "sql_value list"

fun isText :: "sql_value \<Rightarrow> bool" where
  "isText (SText s) = True"
| "isText _ = False"

fun isInteger :: "sql_value \<Rightarrow> bool" where
  "isInteger (SInteger i) = True"
| "isInteger _ = False"

text \<open>
  \<^verbatim>\<open>getString\<close> and \<^verbatim>\<open>getInt64\<close> are only relied on for cells of the matching type (SQLite
  converts other types; the code checks the type first or reads a column SQLite types).
\<close>

fun getString :: "sql_value \<Rightarrow> string" where
  "getString (SText s) = s"
| "getString (SBlob s) = s"
| "getString _ = []"

fun getInt64 :: "sql_value \<Rightarrow> int" where
  "getInt64 (SInteger i) = i"
| "getInt64 _ = 0"

text \<open>\<^verbatim>\<open>Statement::getColumn\<close> throws for an index that is not a result column.\<close>

definition getColumn :: "sql_row \<Rightarrow> nat \<Rightarrow> cpp_exn + sql_value" where
  "getColumn row i =
     (if i < length row then Inr (row ! i) else Inl (SQLiteException ''Column index out of range.''))"

definition decode_field :: "nat \<Rightarrow> DatabaseField" where
  "decode_field index = (if index = 0 then FieldId else if index = 1 then FieldName else FieldAddress)"

text \<open>The type check of column \<^verbatim>\<open>index\<close>, one iteration of the decoder's loop.\<close>

definition decode_text :: "sql_row \<Rightarrow> nat \<Rightarrow> cpp_exn + string" where
  "decode_text row index =
     ebind (getColumn row index) (\<lambda>cell.
       if \<not> isText cell
       then Inl (DatabaseValidation (decode_field index)
         ''persisted device text field has an invalid SQLite type'')
       else Inr (getString cell))"

definition decode_integer :: "sql_row \<Rightarrow> nat \<Rightarrow> DatabaseField \<Rightarrow> string \<Rightarrow> cpp_exn + int" where
  "decode_integer row index field message =
     ebind (getColumn row index) (\<lambda>cell.
       if \<not> isInteger cell then Inl (DatabaseValidation field message) else Inr (getInt64 cell))"

definition DecodeDatabaseItem :: "sql_row \<Rightarrow> cpp_exn + DatabaseItem" where
  "DecodeDatabaseItem row =
     ebind (decode_text row 0) (\<lambda>deviceId.
     ebind (decode_text row 1) (\<lambda>name.
     ebind (decode_text row 2) (\<lambda>address.
     ebind (decode_integer row 3 FieldPort ''persisted port is not an integer'') (\<lambda>port.
     ebind (decode_integer row 4 FieldAlive ''persisted alive value is not an integer'') (\<lambda>alive.
     if port < 0 \<or> 65535 < port
     then Inl (DatabaseValidation FieldPort ''persisted port is outside 0-65535'')
     else if alive \<noteq> 0 \<and> alive \<noteq> 1
     then Inl (DatabaseValidation FieldAlive ''persisted alive value is not 0 or 1'')
     else let item = \<lparr>item_id = deviceId, item_name = name, item_ipAddress = address,
                      item_port = word_of_int port, item_alive = (alive = 1)\<rparr>
          in ebind (ValidateItem item) (\<lambda>_. Inr item))))))"

definition BindItem :: "DatabaseItem \<Rightarrow> sql_row" where
  "BindItem item =
     [SText (item_id item), SText (item_name item), SText (item_ipAddress item),
      SInteger (uint (item_port item)), SInteger (if item_alive item then 1 else 0)]"

section \<open>What validation accepts\<close>

definition valid_address :: "string \<Rightarrow> bool" where
  "valid_address a \<longleftrightarrow> IsValidIpv4 a \<or> IsValidIpv6 a \<or> IsValidHostname a"

definition valid_item :: "DatabaseItem \<Rightarrow> bool" where
  "valid_item item \<longleftrightarrow>
     item_id item \<noteq> [] \<and> length (item_id item) \<le> 128 \<and> IsValidUtf8 (item_id item) \<and>
     item_name item \<noteq> [] \<and> length (item_name item) \<le> 256 \<and> IsValidUtf8 (item_name item) \<and>
     valid_address (item_ipAddress item)"

lemma ValidateItem_Inr: "ValidateItem item = Inr u \<longleftrightarrow> valid_item item"
  by (auto simp: ValidateItem_def valid_item_def valid_address_def ValidateSizedUtf8_def ebind_eq_Inr)

lemma ValidateItem_cases: "ValidateItem item = (if valid_item item then Inr () else ValidateItem item)"
  using ValidateItem_Inr by auto

lemma ValidateItem_Inl: "ValidateItem item = Inl e \<Longrightarrow> \<exists>f m. e = DatabaseValidation f m"
  by (auto simp: ValidateItem_def ValidateSizedUtf8_def address_error_def split: if_splits)

lemma ValidateItems_loop_Inr:
  "ValidateItems_loop ids items = Inr u \<longleftrightarrow>
     list_all valid_item items \<and> distinct (map item_id items) \<and> set (map item_id items) \<inter> ids = {}"
  by (induction ids items rule: ValidateItems_loop.induct) (auto simp: ebind_eq_Inr ValidateItem_Inr)

lemma ValidateItems_Inr:
  "ValidateItems items = Inr u \<longleftrightarrow> list_all valid_item items \<and> distinct (map item_id items)"
  by (simp add: ValidateItems_def ValidateItems_loop_Inr)

lemma valid_address_bounds:
  assumes "valid_address a"
  shows "a \<noteq> []" "length a \<le> 253" "list_all address_char a"
  using assms ipv4_bounds [of a] ipv6_bounds [of a] hostname_bounds [of a]
  by (auto simp: valid_address_def)

section \<open>The row codec\<close>

lemma decode_text_Inr:
  "decode_text row i = Inr s \<longleftrightarrow> i < length row \<and> row ! i = SText s"
  by (cases "row ! i") (auto simp: decode_text_def getColumn_def ebind_eq_Inr)

lemma decode_integer_Inr:
  "decode_integer row i f m = Inr k \<longleftrightarrow> i < length row \<and> row ! i = SInteger k"
  by (cases "row ! i") (auto simp: decode_integer_def getColumn_def ebind_eq_Inr)

lemma Decode_Bind: "valid_item item \<Longrightarrow> DecodeDatabaseItem (BindItem item) = Inr item"
proof -
  assume v: "valid_item item"
  have "uint (item_port item) < 2 ^ 16" using uint_lt2p [of "item_port item"] by simp
  then have "\<not> 65535 < uint (item_port item)" "\<not> uint (item_port item) < 0" by simp_all
  with v ValidateItem_Inr [of item "()"] show ?thesis
    by (cases item)
      (auto simp: DecodeDatabaseItem_def BindItem_def decode_text_def decode_integer_def getColumn_def)
qed

lemma Decode_sound:
  assumes "DecodeDatabaseItem row = Inr item" and "length row = 5"
  shows "row = BindItem item" "valid_item item"
proof -
  from assms(1) obtain d n a p l where
    cells: "decode_text row 0 = Inr d" "decode_text row 1 = Inr n" "decode_text row 2 = Inr a"
      "decode_integer row 3 FieldPort ''persisted port is not an integer'' = Inr p"
      "decode_integer row 4 FieldAlive ''persisted alive value is not an integer'' = Inr l"
    and rng: "0 \<le> p" "p \<le> 65535" "l = 0 \<or> l = 1"
    and item: "item = \<lparr>item_id = d, item_name = n, item_ipAddress = a,
      item_port = word_of_int p, item_alive = (l = 1)\<rparr>" and v: "ValidateItem item = Inr ()"
    by (auto simp: DecodeDatabaseItem_def ebind_eq_Inr Let_def split: if_splits)
  have "row = [row ! 0, row ! 1, row ! 2, row ! 3, row ! 4]"
    using assms(2) by (auto simp: numeral_eq_Suc length_Suc_conv)
  moreover have "uint (word_of_int p :: 16 word) = p"
    using rng by (simp add: uint_word_of_int)
  ultimately show "row = BindItem item"
    using cells rng by (auto simp: BindItem_def item decode_text_Inr decode_integer_Inr)
  from v show "valid_item item" by (simp add: ValidateItem_Inr)
qed

lemma Decode_iff:
  "length row = 5 \<Longrightarrow> DecodeDatabaseItem row = Inr item \<longleftrightarrow> row = BindItem item \<and> valid_item item"
  by (auto dest: Decode_sound Decode_Bind)

lemma BindItem_inj [simp]: "BindItem a = BindItem b \<longleftrightarrow> a = b"
  by (cases a, cases b) (auto simp: BindItem_def word_uint_eq_iff split: if_splits)

lemma length_BindItem [simp]: "length (BindItem item) = 5"
  by (simp add: BindItem_def)

section \<open>Properties\<close>

text \<open>
  C28: the row codec. A persisted row is decoded to a device exactly when it is the row that
  \<^verbatim>\<open>BindItem\<close> writes for that device and the device passes \<^verbatim>\<open>ValidateItem\<close>; every other row of
  five cells (a wrong storage class, a port outside 16 bits, an alive flag that is neither 0 nor 1,
  an invalid field) is refused.
\<close>

theorem DecodeDatabaseItem_iff:
  assumes "length row = 5"
  shows "DecodeDatabaseItem row = Inr item \<longleftrightarrow> row = BindItem item \<and> ValidateItem item = Inr ()"
  using Decode_iff [OF assms] ValidateItem_Inr by blast

definition sample_item :: DatabaseItem where
  "sample_item = \<lparr>item_id = ''a'', item_name = ''A'', item_ipAddress = ''1.2.3.4'', item_port = 80, item_alive = True\<rparr>"

lemma sample_item_valid [simp]: "valid_item sample_item"
  by (simp add: sample_item_def valid_item_def valid_address_def IsValidIpv4_split split_sep_Cons_code ipv4_octet_def
    decimal_value_def isdigit_def byte_def utf8_step_ascii)

theorem DecodeDatabaseItem_witness:
  "DecodeDatabaseItem (BindItem sample_item) = Inr sample_item \<longleftrightarrow>
     BindItem sample_item = BindItem sample_item \<and> ValidateItem sample_item = Inr ()"
  by (rule DecodeDatabaseItem_iff) simp

text \<open>
  \<^verbatim>\<open>ValidateItems\<close> accepts a replacement list exactly when every item passes \<^verbatim>\<open>ValidateItem\<close>
  and no id occurs twice.
\<close>

theorem ValidateItems_iff:
  "ValidateItems items = Inr () \<longleftrightarrow>
     list_all (\<lambda>item. ValidateItem item = Inr ()) items \<and> distinct (map item_id items)"
  by (simp add: ValidateItems_Inr ValidateItem_Inr)

end
