(* ===== verification/Sqlite_Engine.thy ===== *)
theory Sqlite_Engine
  imports Device_Item "HOL-Library.Multiset"
begin

text \<open>
  The boundary to SQLite and SQLiteCpp, which are not part of the repository. A connection is
  a parameter of the model: a record of the operations the sources call (\<open>sqlite\<close>). The
  statements the sources issue are the constructors of \<open>sql_stmt\<close> (bound arguments
  included). What the code relies on is
  the locale \<open>sqlite_engine\<close>: every statement is atomic (it fails and changes nothing, or a
  failing statement aborts the open transaction as a whole) and a statement that succeeds
  does what the SQL says, as \<open>ref_exec\<close> spells out on tables of rows. The locale
  \<open>sqlite_reliable\<close> adds that a statement only fails where SQL says so. \<open>ref_sqlite\<close> is
  an executable connection that satisfies both.

  \<open>NormalizeSql\<close>, \<open>ColumnDefinition\<close>, \<open>DeviceColumns\<close>, \<open>LegacyKeyValueColumns\<close> and the
  three schema texts are those of \<^verbatim>\<open>src/src/Utils/Storage/SQLiteDatabase.cpp\<close>.
\<close>

section \<open>Schema texts and columns\<close>

definition CurrentSchemaVersion :: int where
  "CurrentSchemaVersion = 1"

definition CreateUnversionedItemsSql :: string where
  "CreateUnversionedItemsSql =
     ''CREATE TABLE items ('' @ ''id INTEGER PRIMARY KEY AUTOINCREMENT,'' @
     ''device_id TEXT NOT NULL UNIQUE,'' @ ''name TEXT NOT NULL,'' @ ''ip_address TEXT NOT NULL,'' @
     ''port INTEGER NOT NULL,'' @ ''alive INTEGER NOT NULL'' @ '')''"

definition CreateLegacyItemsSql :: string where
  "CreateLegacyItemsSql =
     ''CREATE TABLE items ('' @ ''id INTEGER PRIMARY KEY AUTOINCREMENT,'' @
     ''item_key TEXT NOT NULL UNIQUE,'' @ ''item_value TEXT NOT NULL'' @ '')''"

text \<open>The part of \<^verbatim>\<open>CreateV1ItemsSql\<close> after the table name.\<close>

definition v1_body :: string where
  "v1_body =
     '' ('' @ ''id INTEGER PRIMARY KEY AUTOINCREMENT,'' @
     ''device_id TEXT NOT NULL UNIQUE CHECK(typeof(device_id) = 'text' AND length(CAST(device_id AS BLOB)) BETWEEN 1 AND 128),'' @
     ''name TEXT NOT NULL CHECK(typeof(name) = 'text' AND length(CAST(name AS BLOB)) BETWEEN 1 AND 256),'' @
     ''ip_address TEXT NOT NULL CHECK(typeof(ip_address) = 'text' AND length(CAST(ip_address AS BLOB)) BETWEEN 1 AND 253),'' @
     ''port INTEGER NOT NULL CHECK(typeof(port) = 'integer' AND port BETWEEN 0 AND 65535),'' @
     ''alive INTEGER NOT NULL CHECK(typeof(alive) = 'integer' AND alive IN (0, 1))'' @ '')''"


definition CreateV1ItemsSql :: string where
  "CreateV1ItemsSql = ''CREATE TABLE items'' @ v1_body"

text \<open>The migration's \<^verbatim>\<open>replace(find("items"), 5, "items_v1")\<close> on that text.\<close>

definition CreateV1MigrationSql :: string where
  "CreateV1MigrationSql = ''CREATE TABLE items_v1'' @ v1_body"

definition sql_dropped :: "char \<Rightarrow> bool" where
  "sql_dropped c \<longleftrightarrow> isspace c \<or> byte c = 0x22 \<or> byte c = 0x60 \<or> byte c = 0x5b \<or> byte c = 0x5d \<or> byte c = 0x3b"

definition NormalizeSql :: "string \<Rightarrow> string" where
  "NormalizeSql sql = map tolower (filter (\<lambda>c. \<not> sql_dropped c) sql)"

record ColumnDefinition =
  col_name :: string
  col_type :: string
  col_notNull :: bool
  col_primaryKey :: int

definition column :: "string \<Rightarrow> string \<Rightarrow> bool \<Rightarrow> int \<Rightarrow> ColumnDefinition" where
  "column n t nn pk = \<lparr>col_name = n, col_type = t, col_notNull = nn, col_primaryKey = pk\<rparr>"

definition DeviceColumns :: "ColumnDefinition list" where
  "DeviceColumns =
     [column ''id'' ''INTEGER'' False 1,
      column ''device_id'' ''TEXT'' True 0,
      column ''name'' ''TEXT'' True 0,
      column ''ip_address'' ''TEXT'' True 0,
      column ''port'' ''INTEGER'' True 0,
      column ''alive'' ''INTEGER'' True 0]"

definition LegacyKeyValueColumns :: "ColumnDefinition list" where
  "LegacyKeyValueColumns =
     [column ''id'' ''INTEGER'' False 1,
      column ''item_key'' ''TEXT'' True 0,
      column ''item_value'' ''TEXT'' True 0]"

section \<open>Statements, replies and connections\<close>

datatype sql_stmt =
    PragmaUserVersion
  | PragmaSetUserVersion int
  | PragmaTableInfo string
  | PragmaIndexList string
  | PragmaIndexInfo string
  | SelectTableExists string
  | SelectUserObjects
  | SelectCreateSql string
  | CreateTable string
  | CreateKvStore
  | DropTable string
  | AlterRename string string
  | InsertItem_stmt string sql_row
  | UpsertItem_stmt sql_row
  | SelectItems
  | SelectItemsByRowid string
  | SelectItemsByDeviceId
  | SelectItemWhere string
  | SelectExists string
  | SelectCount string
  | DeleteAll
  | DeleteWhere string
  | UpsertKv string string
  | SelectKv string

record sql_reply =
  reply_rows :: "sql_row list"
  reply_changes :: nat

record 'db sqlite =
  sq_exec :: "sql_stmt \<Rightarrow> ('db, sql_reply) comp"
  sq_begin :: "('db, unit) comp"
  sq_commit :: "('db, unit) comp"
  sq_rollback :: "'db \<Rightarrow> 'db"

text \<open>
  The scope of a \<^verbatim>\<open>SQLite::Transaction\<close> object: its destructor rolls back when the body or
  the commit throws, and swallows what the roll-back throws.
\<close>

definition with_transaction :: "'db sqlite \<Rightarrow> ('db, 'a) comp \<Rightarrow> ('db, 'a) comp" where
  "with_transaction conn body =
     cbind (sq_begin conn) (\<lambda>_ db.
       case body db of
         (Inl e, db') \<Rightarrow> (Inl e, sq_rollback conn db')
       | (Inr x, db') \<Rightarrow>
           (case sq_commit conn db' of
              (Inl e, db'') \<Rightarrow> (Inl e, sq_rollback conn db'')
            | (Inr _, db'') \<Rightarrow> (Inr x, db'')))"

section \<open>What the statements do\<close>

record ref_index =
  ix_name :: string
  ix_unique :: bool
  ix_partial :: bool
  ix_columns :: "string list"

text \<open>
  A table as the sources see it: the text of its definition, its columns and indexes, and its
  rows in rowid order (for the device tables in the canonical projection, for \<^verbatim>\<open>kv_store\<close>
  key and value). The \<^verbatim>\<open>CHECK\<close> and \<^verbatim>\<open>NOT NULL\<close> constraints are those of the text.
\<close>

record ref_table =
  tb_sql :: string
  tb_columns :: "ColumnDefinition list"
  tb_indexes :: "ref_index list"
  tb_rows :: "sql_row list"

record ref_db =
  user_version :: int
  tables :: "(string \<times> ref_table) list"
  objects :: "(string \<times> string) list"

definition v1_check :: "sql_row \<Rightarrow> bool" where
  "v1_check row \<longleftrightarrow>
     (case row of
        [SText d, SText n, SText a, SInteger p, SInteger l] \<Rightarrow>
          1 \<le> length d \<and> length d \<le> 128 \<and> 1 \<le> length n \<and> length n \<le> 256 \<and>
          1 \<le> length a \<and> length a \<le> 253 \<and> 0 \<le> p \<and> p \<le> 65535 \<and> (l = 0 \<or> l = 1)
      | _ \<Rightarrow> False)"

definition v1_text :: "string \<Rightarrow> bool" where
  "v1_text sql \<longleftrightarrow>
     NormalizeSql sql = NormalizeSql CreateV1ItemsSql \<or> NormalizeSql sql = NormalizeSql CreateV1MigrationSql"

definition table_check :: "ref_table \<Rightarrow> sql_row \<Rightarrow> bool" where
  "table_check t row \<longleftrightarrow> (if v1_text (tb_sql t) then v1_check row else SNull \<notin> set row)"

definition device_index :: "string \<Rightarrow> ref_index" where
  "device_index table =
     \<lparr>ix_name = ''sqlite_autoindex_'' @ table @ ''_1'', ix_unique = True, ix_partial = False,
      ix_columns = [''device_id'']\<rparr>"

definition v1_table :: "string \<Rightarrow> string \<Rightarrow> ref_table" where
  "v1_table name sql =
     \<lparr>tb_sql = sql, tb_columns = DeviceColumns, tb_indexes = [device_index name],
      tb_rows = []\<rparr>"

definition KvColumns :: "ColumnDefinition list" where
  "KvColumns =
     [column ''key'' ''TEXT'' False 1, column ''value'' ''TEXT'' True 0,
      column ''updated_utc'' ''TEXT'' True 0]"

definition CreateKvSql :: string where
  "CreateKvSql =
     ''CREATE TABLE kv_store ('' @ ''key TEXT PRIMARY KEY,'' @ ''value TEXT NOT NULL,'' @
     ''updated_utc TEXT NOT NULL DEFAULT CURRENT_TIMESTAMP'' @ '')''"

definition kv_table :: ref_table where
  "kv_table =
     \<lparr>tb_sql = CreateKvSql, tb_columns = KvColumns,
      tb_indexes = [\<lparr>ix_name = ''sqlite_autoindex_kv_store_1'', ix_unique = True, ix_partial = False,
        ix_columns = [''key'']\<rparr>],
      tb_rows = []\<rparr>"

text \<open>Updating the table of a name in place, and deleting it.\<close>

fun update_table :: "string \<Rightarrow> (ref_table \<Rightarrow> ref_table) \<Rightarrow> (string \<times> ref_table) list \<Rightarrow> (string \<times> ref_table) list" where
  "update_table n f [] = []"
| "update_table n f ((m, t) # ts) = (if m = n then (m, f t) # ts else (m, t) # update_table n f ts)"

definition set_rows :: "string \<Rightarrow> sql_row list \<Rightarrow> ref_db \<Rightarrow> ref_db" where
  "set_rows n rows d = d\<lparr>tables := update_table n (\<lambda>t. t\<lparr>tb_rows := rows\<rparr>) (tables d)\<rparr>"

definition device_table :: "ref_db \<Rightarrow> string \<Rightarrow> ref_table option" where
  "device_table d n =
     (case map_of (tables d) n of
        None \<Rightarrow> None
      | Some t \<Rightarrow> if tb_columns t = DeviceColumns then Some t else None)"

definition kv_store_table :: "ref_db \<Rightarrow> ref_table option" where
  "kv_store_table d =
     (case map_of (tables d) ''kv_store'' of
        None \<Rightarrow> None
      | Some t \<Rightarrow> if tb_columns t = KvColumns then Some t else None)"

definition row_key :: "sql_row \<Rightarrow> sql_value" where
  "row_key row = (case row of [] \<Rightarrow> SNull | c # _ \<Rightarrow> c)"

definition unique_on :: "string \<Rightarrow> ref_table \<Rightarrow> bool" where
  "unique_on c t \<longleftrightarrow> list_ex (\<lambda>ix. ix_unique ix \<and> ix_columns ix = [c]) (tb_indexes t)"

definition like_sqlite :: "string \<Rightarrow> bool" where
  "like_sqlite name \<longleftrightarrow> map tolower (take 6 name) = ''sqlite'' \<and> 7 \<le> length name"

definition user_objects :: "ref_db \<Rightarrow> string list" where
  "user_objects d =
     sort (map (\<lambda>(n, t). ''table:'' @ n) (filter (\<lambda>(n, t). \<not> like_sqlite n) (tables d)) @
           map (\<lambda>(ty, n). ty @ '':'' @ n) (filter (\<lambda>(ty, n). \<not> like_sqlite n) (objects d)))"

definition column_row :: "nat \<times> ColumnDefinition \<Rightarrow> sql_row" where
  "column_row = (\<lambda>(i, c). [SInteger (int i), SText (col_name c), SText (col_type c),
     SInteger (if col_notNull c then 1 else 0), SNull, SInteger (col_primaryKey c)])"

definition index_row :: "nat \<times> ref_index \<Rightarrow> sql_row" where
  "index_row = (\<lambda>(i, ix). [SInteger (int i), SText (ix_name ix), SInteger (if ix_unique ix then 1 else 0),
     SText ''u'', SInteger (if ix_partial ix then 1 else 0)])"

definition alter_sql :: "string \<Rightarrow> string \<Rightarrow> string \<Rightarrow> string" where
  "alter_sql old new sql =
     (let p = ''CREATE TABLE '' @ old in
      if take (length p) sql = p then ''CREATE TABLE '' @ CHR 0x22 # new @ CHR 0x22 # drop (length p) sql
      else sql)"

definition alter_index :: "string \<Rightarrow> string \<Rightarrow> ref_index \<Rightarrow> ref_index" where
  "alter_index old new ix =
     (let p = ''sqlite_autoindex_'' @ old in
      if take (length p) (ix_name ix) = p
      then ix\<lparr>ix_name := ''sqlite_autoindex_'' @ new @ drop (length p) (ix_name ix)\<rparr> else ix)"

abbreviation reply :: "sql_row list \<Rightarrow> nat \<Rightarrow> sql_reply" where
  "reply rows n \<equiv> \<lparr>reply_rows = rows, reply_changes = n\<rparr>"

abbreviation sql_error :: "string \<Rightarrow> ref_db \<Rightarrow> (cpp_exn + sql_reply) \<times> ref_db" where
  "sql_error m d \<equiv> (Inl (SQLiteException m), d)"

text \<open>Insertion and the \<^verbatim>\<open>ON CONFLICT\<close> update of one row.\<close>

definition ref_insert :: "string \<Rightarrow> sql_row \<Rightarrow> (ref_db, sql_reply) comp" where
  "ref_insert n row d =
     (case device_table d n of
        None \<Rightarrow> sql_error ''no such table'' d
      | Some t \<Rightarrow>
          (if \<not> table_check t row then sql_error ''constraint failed'' d
           else if unique_on ''device_id'' t \<and> row_key row \<in> set (map row_key (tb_rows t))
           then sql_error ''UNIQUE constraint failed: items.device_id'' d
           else (Inr (reply [] 1), set_rows n (tb_rows t @ [row]) d)))"

definition upsert_rows :: "sql_row \<Rightarrow> sql_row list \<Rightarrow> sql_row list" where
  "upsert_rows row rows =
     (if row_key row \<in> set (map row_key rows)
      then map (\<lambda>r. if row_key r = row_key row then row else r) rows else rows @ [row])"

definition ref_upsert :: "sql_row \<Rightarrow> (ref_db, sql_reply) comp" where
  "ref_upsert row d =
     (case device_table d ''items'' of
        None \<Rightarrow> sql_error ''no such table'' d
      | Some t \<Rightarrow>
          (if \<not> unique_on ''device_id'' t
           then sql_error ''ON CONFLICT clause does not match any PRIMARY KEY or UNIQUE constraint'' d
           else if \<not> table_check t row then sql_error ''constraint failed'' d
           else (Inr (reply [] 1), set_rows ''items'' (upsert_rows row (tb_rows t)) d)))"

definition ref_query :: "string \<Rightarrow> (sql_row list \<Rightarrow> sql_row list) \<Rightarrow> (ref_db, sql_reply) comp" where
  "ref_query n f d =
     (case device_table d n of
        None \<Rightarrow> sql_error ''no such table'' d
      | Some t \<Rightarrow> (Inr (reply (f (tb_rows t)) 0), d))"

definition ref_delete :: "(sql_row \<Rightarrow> bool) \<Rightarrow> (ref_db, sql_reply) comp" where
  "ref_delete P d =
     (case device_table d ''items'' of
        None \<Rightarrow> sql_error ''no such table'' d
      | Some t \<Rightarrow>
          (Inr (reply [] (length (filter P (tb_rows t)))),
           set_rows ''items'' (filter (\<lambda>r. \<not> P r) (tb_rows t)) d))"

definition sort_device_rows :: "sql_row list \<Rightarrow> sql_row list" where
  "sort_device_rows rows = sort_key (\<lambda>r. getString (row_key r)) rows"

definition ref_create :: "string \<Rightarrow> (ref_db, sql_reply) comp" where
  "ref_create sql d =
     (let n = (if sql = CreateV1ItemsSql then ''items'' else ''items_v1'') in
      if sql \<noteq> CreateV1ItemsSql \<and> sql \<noteq> CreateV1MigrationSql then sql_error ''syntax error'' d
      else if map_of (tables d) n \<noteq> None then sql_error ''table already exists'' d
      else (Inr (reply [] 0), d\<lparr>tables := tables d @ [(n, v1_table n sql)]\<rparr>))"

definition ref_rename :: "string \<Rightarrow> string \<Rightarrow> (ref_db, sql_reply) comp" where
  "ref_rename old new d =
     (case map_of (tables d) old of
        None \<Rightarrow> sql_error ''no such table'' d
      | Some t \<Rightarrow>
          (if map_of (tables d) new \<noteq> None then sql_error ''there is already another table'' d
           else (Inr (reply [] 0),
             d\<lparr>tables := filter (\<lambda>(n, _). n \<noteq> old) (tables d) @
               [(new, t\<lparr>tb_sql := alter_sql old new (tb_sql t),
                        tb_indexes := map (alter_index old new) (tb_indexes t)\<rparr>)]\<rparr>)))"

fun ref_exec :: "sql_stmt \<Rightarrow> (ref_db, sql_reply) comp" where
  "ref_exec PragmaUserVersion d = (Inr (reply [[SInteger (user_version d)]] 0), d)"
| "ref_exec (PragmaSetUserVersion v) d = (Inr (reply [] 0), d\<lparr>user_version := v\<rparr>)"
| "ref_exec (PragmaTableInfo n) d =
     (case map_of (tables d) n of
        None \<Rightarrow> (Inr (reply [] 0), d)
      | Some t \<Rightarrow> (Inr (reply (map column_row (enumerate 0 (tb_columns t))) 0), d))"
| "ref_exec (PragmaIndexList n) d =
     (case map_of (tables d) n of
        None \<Rightarrow> (Inr (reply [] 0), d)
      | Some t \<Rightarrow> (Inr (reply (map index_row (enumerate 0 (tb_indexes t))) 0), d))"
| "ref_exec (PragmaIndexInfo i) d =
     (case List.find (\<lambda>ix. ix_name ix = i) (concat (map (\<lambda>(n, t). tb_indexes t) (tables d))) of
        None \<Rightarrow> (Inr (reply [] 0), d)
      | Some ix \<Rightarrow>
          (Inr (reply (map (\<lambda>(k, c). [SInteger (int k), SInteger (int k), SText c])
             (enumerate 0 (ix_columns ix))) 0), d))"
| "ref_exec (SelectTableExists n) d =
     (Inr (reply (if map_of (tables d) n = None then [] else [[SInteger 1]]) 0), d)"
| "ref_exec SelectUserObjects d = (Inr (reply (map (\<lambda>o'. [SText o']) (user_objects d)) 0), d)"
| "ref_exec (SelectCreateSql n) d =
     (Inr (reply (case map_of (tables d) n of None \<Rightarrow> [] | Some t \<Rightarrow> [[SText (tb_sql t)]]) 0), d)"
| "ref_exec (CreateTable sql) d = ref_create sql d"
| "ref_exec CreateKvStore d =
     (Inr (reply [] 0),
      if map_of (tables d) ''kv_store'' = None then d\<lparr>tables := tables d @ [(''kv_store'', kv_table)]\<rparr> else d)"
| "ref_exec (DropTable n) d =
     (if map_of (tables d) n = None then sql_error ''no such table'' d
      else (Inr (reply [] 0), d\<lparr>tables := filter (\<lambda>(m, _). m \<noteq> n) (tables d)\<rparr>))"
| "ref_exec (AlterRename old new) d = ref_rename old new d"
| "ref_exec (InsertItem_stmt n row) d = ref_insert n row d"
| "ref_exec (UpsertItem_stmt row) d = ref_upsert row d"
| "ref_exec SelectItems d = ref_query ''items'' (\<lambda>rows. rows) d"
| "ref_exec (SelectItemsByRowid n) d = ref_query n (\<lambda>rows. rows) d"
| "ref_exec SelectItemsByDeviceId d = ref_query ''items'' sort_device_rows d"
| "ref_exec (SelectItemWhere i) d = ref_query ''items'' (filter (\<lambda>r. row_key r = SText i)) d"
| "ref_exec (SelectExists i) d =
     ref_query ''items'' (\<lambda>rows. if \<exists>r \<in> set rows. row_key r = SText i then [[SInteger 1]] else []) d"
| "ref_exec (SelectCount n) d = ref_query n (\<lambda>rows. [[SInteger (int (length rows))]]) d"
| "ref_exec DeleteAll d = ref_delete (\<lambda>_. True) d"
| "ref_exec (DeleteWhere i) d = ref_delete (\<lambda>r. row_key r = SText i) d"
| "ref_exec (UpsertKv k v) d =
     (case kv_store_table d of
        None \<Rightarrow> sql_error ''no such table: kv_store'' d
      | Some t \<Rightarrow> (Inr (reply [] 1), set_rows ''kv_store'' (upsert_rows [SText k, SText v] (tb_rows t)) d))"
| "ref_exec (SelectKv k) d =
     (case kv_store_table d of
        None \<Rightarrow> sql_error ''no such table: kv_store'' d
      | Some t \<Rightarrow>
          (Inr (reply (map (\<lambda>r. tl r) (filter (\<lambda>r. row_key r = SText k) (tb_rows t))) 0), d))"


section \<open>Connections and transactions\<close>

record ref_conn =
  conn_db :: ref_db
  conn_saved :: "ref_db option"

definition aborted :: "ref_conn \<Rightarrow> ref_conn" where
  "aborted c = (case conn_saved c of None \<Rightarrow> c | Some d \<Rightarrow> \<lparr>conn_db = d, conn_saved = None\<rparr>)"

definition ref_sqlite :: "ref_conn sqlite" where
  "ref_sqlite =
     \<lparr>sq_exec = (\<lambda>stmt c. case ref_exec stmt (conn_db c) of (r, d) \<Rightarrow> (r, c\<lparr>conn_db := d\<rparr>)),
      sq_begin = (\<lambda>c. if conn_saved c = None then (Inr (), c\<lparr>conn_saved := Some (conn_db c)\<rparr>)
                      else (Inl (SQLiteException ''cannot start a transaction within a transaction''), c)),
      sq_commit = (\<lambda>c. if conn_saved c = None
                       then (Inl (SQLiteException ''cannot commit - no transaction is active''), c)
                       else (Inr (), c\<lparr>conn_saved := None\<rparr>)),
      sq_rollback = aborted\<rparr>"

text \<open>
  The databases on which \<open>ref_exec\<close> speaks for a statement. Statements that write rows are
  described on databases without views and triggers whose target table, if it exists, has the
  device columns, a unique index on \<^verbatim>\<open>device_id\<close> only and the constraints of schema v1;
  reads of rows need the columns only.
\<close>

definition device_unique :: "ref_index \<Rightarrow> bool" where
  "device_unique ix \<longleftrightarrow> ix_unique ix \<and> \<not> ix_partial ix \<and> ix_columns ix = [''device_id'']"

definition write_scope :: "string \<Rightarrow> ref_db \<Rightarrow> bool" where
  "write_scope n d \<longleftrightarrow> objects d = [] \<and>
     (case map_of (tables d) n of
        None \<Rightarrow> True
      | Some t \<Rightarrow> tb_columns t = DeviceColumns \<and> list_all device_unique (tb_indexes t) \<and> v1_text (tb_sql t))"

definition read_scope :: "string \<Rightarrow> ref_db \<Rightarrow> bool" where
  "read_scope n d \<longleftrightarrow>
     (case map_of (tables d) n of None \<Rightarrow> objects d = [] | Some t \<Rightarrow> tb_columns t = DeviceColumns)"

definition kv_scope :: "ref_db \<Rightarrow> bool" where
  "kv_scope d \<longleftrightarrow> objects d = [] \<and>
     (case map_of (tables d) ''kv_store'' of None \<Rightarrow> True | Some t \<Rightarrow> tb_columns t = KvColumns)"

fun in_scope :: "sql_stmt \<Rightarrow> ref_db \<Rightarrow> bool" where
  "in_scope (CreateTable sql) d = (objects d = [] \<and> (sql = CreateV1ItemsSql \<or> sql = CreateV1MigrationSql))"
| "in_scope CreateKvStore d = kv_scope d"
| "in_scope (UpsertKv k v) d = kv_scope d"
| "in_scope (SelectKv k) d = kv_scope d"
| "in_scope (DropTable n) d = (objects d = [])"
| "in_scope (AlterRename old new) d = (objects d = [])"
| "in_scope (InsertItem_stmt n row) d = write_scope n d"
| "in_scope (UpsertItem_stmt row) d = write_scope ''items'' d"
| "in_scope DeleteAll d = write_scope ''items'' d"
| "in_scope (DeleteWhere i) d = write_scope ''items'' d"
| "in_scope SelectItems d = read_scope ''items'' d"
| "in_scope (SelectItemsByRowid n) d = read_scope n d"
| "in_scope SelectItemsByDeviceId d = write_scope ''items'' d"
| "in_scope (SelectItemWhere i) d = read_scope ''items'' d"
| "in_scope (SelectExists i) d = read_scope ''items'' d"
| "in_scope (SelectCount n) d = read_scope n d"
| "in_scope _ d = True"

text \<open>A \<^verbatim>\<open>SELECT\<close> without \<^verbatim>\<open>ORDER BY\<close> may return its rows in any order.\<close>

definition reply_matches :: "sql_stmt \<Rightarrow> sql_reply \<Rightarrow> sql_reply \<Rightarrow> bool" where
  "reply_matches stmt r r' \<longleftrightarrow>
     (if stmt = SelectItems then mset (reply_rows r) = mset (reply_rows r') else r = r')"

locale sqlite_engine =
  fixes conn :: "'db sqlite" and view :: "'db \<Rightarrow> ref_conn"
  assumes exec_fail:
    "sq_exec conn stmt db = (Inl e, db') \<Longrightarrow> in_scope stmt (conn_db (view db)) \<Longrightarrow>
       view db' = view db \<or> view db' = aborted (view db)"
  and exec_ok:
    "sq_exec conn stmt db = (Inr rep, db') \<Longrightarrow> in_scope stmt (conn_db (view db)) \<Longrightarrow>
       \<exists>rep' d'. ref_exec stmt (conn_db (view db)) = (Inr rep', d') \<and> reply_matches stmt rep rep' \<and>
         view db' = (view db)\<lparr>conn_db := d'\<rparr>"
  and begin_fail: "sq_begin conn db = (Inl e, db') \<Longrightarrow> view db' = view db"
  and begin_ok:
    "sq_begin conn db = (Inr u, db') \<Longrightarrow>
       conn_saved (view db) = None \<and> view db' = (view db)\<lparr>conn_saved := Some (conn_db (view db))\<rparr>"
  and commit_fail: "sq_commit conn db = (Inl e, db') \<Longrightarrow> view db' = view db \<or> view db' = aborted (view db)"
  and commit_ok: "sq_commit conn db = (Inr u, db') \<Longrightarrow> view db' = (view db)\<lparr>conn_saved := None\<rparr>"
  and rollback: "view (sq_rollback conn db) = aborted (view db)"

locale sqlite_reliable = sqlite_engine +
  assumes exec_total:
    "ref_exec stmt (conn_db (view db)) = (Inr rep, d) \<Longrightarrow> in_scope stmt (conn_db (view db)) \<Longrightarrow>
       \<exists>rep' db'. sq_exec conn stmt db = (Inr rep', db')"
  and begin_total: "conn_saved (view db) = None \<Longrightarrow> \<exists>db'. sq_begin conn db = (Inr (), db')"
  and commit_total: "conn_saved (view db) \<noteq> None \<Longrightarrow> \<exists>db'. sq_commit conn db = (Inr (), db')"

lemma ref_exec_fail: "ref_exec stmt d = (Inl e, d') \<Longrightarrow> d' = d"
  by (cases stmt)
    (auto simp: ref_insert_def ref_upsert_def ref_query_def ref_delete_def ref_create_def ref_rename_def
      Let_def split: option.splits if_splits)

interpretation ref: sqlite_reliable ref_sqlite "\<lambda>c. c"
proof unfold_locales
  fix stmt e and db db' :: ref_conn
  assume "sq_exec ref_sqlite stmt db = (Inl e, db')"
  then show "db' = db \<or> db' = aborted db"
    by (auto simp: ref_sqlite_def split: prod.splits dest: ref_exec_fail)
qed (auto simp: ref_sqlite_def reply_matches_def split: prod.splits if_splits)

end
