(* ===== verification/Sqlite_Database.thy ===== *)
theory Sqlite_Database
  imports Sqlite_Engine
begin

text \<open>
  \<^verbatim>\<open>src/src/Utils/Storage/SQLiteDatabase.cpp\<close>: the schema checks, the migration from the
  unversioned schema, \<^verbatim>\<open>Initialize\<close> and the storage operations, over a connection parameter
  (\<open>Sqlite_Engine\<close>). The state is the class's two members. The lemmas are stated for every
  connection that satisfies \<open>sqlite_engine\<close>.
\<close>

section \<open>Schema inspection\<close>

definition decode_column :: "sql_row \<Rightarrow> cpp_exn + ColumnDefinition" where
  "decode_column row =
     ebind (getColumn row 1) (\<lambda>n. ebind (getColumn row 2) (\<lambda>t.
     ebind (getColumn row 3) (\<lambda>nn. ebind (getColumn row 5) (\<lambda>pk.
       Inr (column (getString n) (getString t) (getInt64 nn \<noteq> 0) (getInt64 pk))))))"

definition ReadColumns :: "'db sqlite \<Rightarrow> string \<Rightarrow> ('db, ColumnDefinition list) comp" where
  "ReadColumns conn table =
     cbind (sq_exec conn (PragmaTableInfo table)) (\<lambda>query. clift (emap decode_column (reply_rows query)))"

definition TableExists :: "'db sqlite \<Rightarrow> string \<Rightarrow> ('db, bool) comp" where
  "TableExists conn table =
     cbind (sq_exec conn (SelectTableExists table)) (\<lambda>query. cret (reply_rows query \<noteq> []))"

definition ReadUserObjects :: "'db sqlite \<Rightarrow> ('db, string list) comp" where
  "ReadUserObjects conn =
     cbind (sq_exec conn SelectUserObjects) (\<lambda>query.
       clift (emap (\<lambda>row. ebind (getColumn row 0) (\<lambda>c. Inr (getString c))) (reply_rows query)))"

definition ReadCreateSql :: "'db sqlite \<Rightarrow> string \<Rightarrow> ('db, string) comp" where
  "ReadCreateSql conn table =
     cbind (sq_exec conn (SelectCreateSql table)) (\<lambda>query.
       case reply_rows query of
         [] \<Rightarrow> cthrow (DatabaseSchema ''items table has no CREATE TABLE definition'')
       | row # _ \<Rightarrow>
           cbind (clift (getColumn row 0)) (\<lambda>c.
             if c = SNull then cthrow (DatabaseSchema ''items table has no CREATE TABLE definition'')
             else cret (getString c)))"

definition ValidateOnlyItemsObject :: "'db sqlite \<Rightarrow> ('db, unit) comp" where
  "ValidateOnlyItemsObject conn =
     cbind (ReadUserObjects conn) (\<lambda>objects.
       if objects \<noteq> [''table:items'']
       then cthrow (DatabaseSchema ''database contains an unexpected table, view, or trigger'')
       else cret ())"

fun check_indexes :: "'db sqlite \<Rightarrow> nat \<Rightarrow> sql_row list \<Rightarrow> ('db, nat) comp" where
  "check_indexes conn indexCount [] = cret indexCount"
| "check_indexes conn indexCount (row # rows) =
     cbind (clift (ebind (getColumn row 2) (\<lambda>u. ebind (getColumn row 4) (\<lambda>p.
              ebind (getColumn row 1) (\<lambda>n. Inr (getInt64 u, getInt64 p, getString n)))))) (\<lambda>(u, p, indexName).
       if u \<noteq> 1 \<or> p \<noteq> 0
       then cthrow (DatabaseSchema ''items has an unexpected non-unique or partial index'')
       else cbind (sq_exec conn (PragmaIndexInfo indexName)) (\<lambda>columns.
         case reply_rows columns of
           [r] \<Rightarrow>
             cbind (clift (getColumn r 2)) (\<lambda>c.
               if getString c \<noteq> ''device_id''
               then cthrow (DatabaseSchema ''items unique index must contain only device_id'')
               else check_indexes conn (indexCount + 1) rows)
         | _ \<Rightarrow> cthrow (DatabaseSchema ''items unique index must contain only device_id'')))"

definition ValidateUniqueDeviceId :: "'db sqlite \<Rightarrow> ('db, unit) comp" where
  "ValidateUniqueDeviceId conn =
     cbind (sq_exec conn (PragmaIndexList ''items'')) (\<lambda>indexes.
     cbind (check_indexes conn 0 (reply_rows indexes)) (\<lambda>indexCount.
       if indexCount \<noteq> 1
       then cthrow (DatabaseSchema ''items must have exactly one unique device_id index'')
       else cret ()))"

definition ValidateDeviceColumns :: "'db sqlite \<Rightarrow> ('db, unit) comp" where
  "ValidateDeviceColumns conn =
     cbind (ReadColumns conn ''items'') (\<lambda>columns.
       if columns \<noteq> DeviceColumns
       then cthrow (DatabaseSchema
         ''items columns, types, nullability, or primary key do not match the device schema'')
       else ValidateUniqueDeviceId conn)"

definition ValidateExactCreateSql :: "'db sqlite \<Rightarrow> string \<Rightarrow> string \<Rightarrow> ('db, unit) comp" where
  "ValidateExactCreateSql conn expected schemaName =
     cbind (ReadCreateSql conn ''items'') (\<lambda>sql.
       if NormalizeSql sql \<noteq> NormalizeSql expected
       then cthrow (DatabaseSchema
         (''items CREATE TABLE definition does not exactly match '' @ schemaName))
       else cret ())"

definition ValidateV1Schema :: "'db sqlite \<Rightarrow> ('db, unit) comp" where
  "ValidateV1Schema conn =
     cseq (ValidateOnlyItemsObject conn) (
     cseq (ValidateDeviceColumns conn) (
     ValidateExactCreateSql conn CreateV1ItemsSql ''schema v1''))"

section \<open>Migration\<close>

definition exec_ignore :: "'db sqlite \<Rightarrow> sql_stmt \<Rightarrow> ('db, unit) comp" where
  "exec_ignore conn stmt = cbind (sq_exec conn stmt) (\<lambda>_. cret ())"

definition InsertItem :: "'db sqlite \<Rightarrow> string \<Rightarrow> DatabaseItem \<Rightarrow> ('db, unit) comp" where
  "InsertItem conn table item = exec_ignore conn (InsertItem_stmt table (BindItem item))"

definition scalar_int :: "sql_reply \<Rightarrow> cpp_exn + int" where
  "scalar_int query =
     (case reply_rows query of
        [] \<Rightarrow> Inl (SQLiteException ''No row to get a column from.'')
      | row # _ \<Rightarrow> ebind (getColumn row 0) (\<lambda>c. Inr (getInt64 c)))"

definition finish_migration :: "'db sqlite \<Rightarrow> ('db, unit) comp" where
  "finish_migration conn =
     cseq (exec_ignore conn (DropTable ''items'')) (
     cseq (exec_ignore conn (AlterRename ''items_v1'' ''items'')) (
     cseq (exec_ignore conn (PragmaSetUserVersion 1)) (
     ValidateV1Schema conn)))"

definition verify_count :: "'db sqlite \<Rightarrow> DatabaseItem list \<Rightarrow> ('db, unit) comp" where
  "verify_count conn items =
     cbind (sq_exec conn (SelectCount ''items_v1'')) (\<lambda>count.
     cbind (clift (scalar_int count)) (\<lambda>n.
     if n \<noteq> int (length items)
     then cthrow (DatabaseSchema ''v1 migration row-count verification failed'')
     else cret ()))"

definition copy_items :: "'db sqlite \<Rightarrow> DatabaseItem list \<Rightarrow> ('db, unit) comp" where
  "copy_items conn items =
     cseq (exec_ignore conn (CreateTable CreateV1MigrationSql)) (
     cseq (cfor items (InsertItem conn ''items_v1'')) (
     cseq (verify_count conn items) (
     finish_migration conn)))"

definition migrate_body :: "'db sqlite \<Rightarrow> ('db, unit) comp" where
  "migrate_body conn =
     cbind (sq_exec conn (SelectItemsByRowid ''items'')) (\<lambda>source.
     cbind (clift (emap DecodeDatabaseItem (reply_rows source))) (copy_items conn))"

definition MigrateUnversionedDeviceSchema :: "'db sqlite \<Rightarrow> ('db, unit) comp" where
  "MigrateUnversionedDeviceSchema conn =
     cseq (ValidateOnlyItemsObject conn) (
     cseq (ValidateDeviceColumns conn) (
     cseq (ValidateExactCreateSql conn CreateUnversionedItemsSql ''the supported unversioned device schema'') (
     with_transaction conn (migrate_body conn))))"

section \<open>The class\<close>

record 'db SQLiteDatabase =
  sqdb_database :: 'db
  sqdb_initialized :: bool

definition on_database :: "('db, 'a) comp \<Rightarrow> ('db SQLiteDatabase, 'a) comp" where
  "on_database m s = (case m (sqdb_database s) of (r, d) \<Rightarrow> (r, s\<lparr>sqdb_database := d\<rparr>))"

definition set_initialized :: "bool \<Rightarrow> ('db SQLiteDatabase, unit) comp" where
  "set_initialized b s = (Inr (), s\<lparr>sqdb_initialized := b\<rparr>)"

text \<open>The connection work of \<^verbatim>\<open>Initialize\<close> between its two writes of \<^verbatim>\<open>initialized_\<close>.\<close>

definition create_fresh :: "'db sqlite \<Rightarrow> ('db, unit) comp" where
  "create_fresh conn =
     cbind (ReadUserObjects conn) (\<lambda>objects.
       if objects \<noteq> [] then cthrow (DatabaseSchema ''unversioned database contains unexpected objects'')
       else with_transaction conn (
         cseq (exec_ignore conn (CreateTable CreateV1ItemsSql)) (
         cseq (exec_ignore conn (PragmaSetUserVersion 1)) (
         ValidateV1Schema conn))))"

definition legacy_schema :: "'db sqlite \<Rightarrow> ('db, bool) comp" where
  "legacy_schema conn =
     cbind (ReadColumns conn ''items'') (\<lambda>columns.
       if columns \<noteq> LegacyKeyValueColumns then cret False
       else cbind (ReadCreateSql conn ''items'') (\<lambda>sql.
         cret (NormalizeSql sql = NormalizeSql CreateLegacyItemsSql)))"

definition initialize_schema :: "'db sqlite \<Rightarrow> ('db, unit) comp" where
  "initialize_schema conn =
     cbind (sq_exec conn PragmaUserVersion) (\<lambda>query.
     cbind (clift (scalar_int query)) (\<lambda>version.
     if version = CurrentSchemaVersion then ValidateV1Schema conn
     else if version \<noteq> 0
     then cthrow (DatabaseSchema (''unsupported database schema version: '' @ dec_of_int version))
     else cbind (TableExists conn ''items'') (\<lambda>exists.
       if \<not> exists then create_fresh conn
       else cbind (legacy_schema conn) (\<lambda>legacy.
         if legacy
         then cthrow (DatabaseSchema ''legacy key/value items schema is unsupported and was left unchanged'')
         else MigrateUnversionedDeviceSchema conn))))"

definition SQLiteDatabase_Initialize :: "'db sqlite \<Rightarrow> ('db SQLiteDatabase, unit) comp" where
  "SQLiteDatabase_Initialize conn =
     cseq (set_initialized False) (
     cseq (on_database (initialize_schema conn)) (
     set_initialized True))"

definition EnsureInitialized :: "('db SQLiteDatabase, unit) comp" where
  "EnsureInitialized s =
     (if \<not> sqdb_initialized s
      then (Inl (LogicError ''SQLiteDatabase::Initialize must succeed before storage operations''), s)
      else (Inr (), s))"

definition SQLiteDatabase_AddItem :: "'db sqlite \<Rightarrow> DatabaseItem \<Rightarrow> ('db SQLiteDatabase, unit) comp" where
  "SQLiteDatabase_AddItem conn item =
     cseq EnsureInitialized (
     cseq (clift (ValidateItem item)) (
     on_database (InsertItem conn ''items'' item)))"

definition SQLiteDatabase_UpsertItem :: "'db sqlite \<Rightarrow> DatabaseItem \<Rightarrow> ('db SQLiteDatabase, unit) comp" where
  "SQLiteDatabase_UpsertItem conn item =
     cseq EnsureInitialized (
     cseq (clift (ValidateItem item)) (
     on_database (exec_ignore conn (UpsertItem_stmt (BindItem item)))))"

definition SQLiteDatabase_GetItem ::
  "'db sqlite \<Rightarrow> string \<Rightarrow> ('db SQLiteDatabase, DatabaseItem option) comp" where
  "SQLiteDatabase_GetItem conn i =
     cseq EnsureInitialized (
     cbind (on_database (sq_exec conn (SelectItemWhere i))) (\<lambda>query.
       case reply_rows query of
         [] \<Rightarrow> cret None
       | row # _ \<Rightarrow> cbind (clift (DecodeDatabaseItem row)) (\<lambda>item. cret (Some item))))"

definition SQLiteDatabase_GetAllItems :: "'db sqlite \<Rightarrow> ('db SQLiteDatabase, DatabaseItem list) comp" where
  "SQLiteDatabase_GetAllItems conn =
     cseq EnsureInitialized (
     cbind (on_database (sq_exec conn SelectItems)) (\<lambda>query.
       clift (emap DecodeDatabaseItem (reply_rows query))))"

definition SQLiteDatabase_ReplaceAll ::
  "'db sqlite \<Rightarrow> DatabaseItem list \<Rightarrow> ('db SQLiteDatabase, unit) comp" where
  "SQLiteDatabase_ReplaceAll conn items =
     cseq EnsureInitialized (
     cseq (clift (ValidateItems items)) (
     on_database (with_transaction conn (
       cseq (exec_ignore conn DeleteAll) (
       cfor items (InsertItem conn ''items''))))))"

definition SQLiteDatabase_GetAllSortedById ::
  "'db sqlite \<Rightarrow> ('db SQLiteDatabase, DatabaseItem list) comp" where
  "SQLiteDatabase_GetAllSortedById conn =
     cseq EnsureInitialized (
     cbind (on_database (sq_exec conn SelectItemsByDeviceId)) (\<lambda>query.
       clift (emap DecodeDatabaseItem (reply_rows query))))"

definition SQLiteDatabase_ContainsItem :: "'db sqlite \<Rightarrow> string \<Rightarrow> ('db SQLiteDatabase, bool) comp" where
  "SQLiteDatabase_ContainsItem conn i =
     cseq EnsureInitialized (
     cbind (on_database (sq_exec conn (SelectExists i))) (\<lambda>query. cret (reply_rows query \<noteq> [])))"

definition SQLiteDatabase_CountItems :: "'db sqlite \<Rightarrow> ('db SQLiteDatabase, int) comp" where
  "SQLiteDatabase_CountItems conn =
     cseq EnsureInitialized (
     cbind (on_database (sq_exec conn (SelectCount ''items''))) (\<lambda>query. clift (scalar_int query)))"

definition SQLiteDatabase_RemoveItem :: "'db sqlite \<Rightarrow> string \<Rightarrow> ('db SQLiteDatabase, bool) comp" where
  "SQLiteDatabase_RemoveItem conn i =
     cseq EnsureInitialized (
     cbind (on_database (sq_exec conn (DeleteWhere i))) (\<lambda>remove. cret (0 < reply_changes remove)))"

definition SQLiteDatabase_Clear :: "'db sqlite \<Rightarrow> ('db SQLiteDatabase, unit) comp" where
  "SQLiteDatabase_Clear conn =
     cseq EnsureInitialized (on_database (exec_ignore conn DeleteAll))"

end
