(* ===== verification/Sqlite_Logic.thy ===== *)
theory Sqlite_Logic
  imports Sqlite_Database
begin

text \<open>
  A small program logic for computations over a connection. \<open>runs view m db Q\<close>: if \<open>m\<close>
  returns a value from \<open>db\<close>, the open transaction is the same one and \<open>Q\<close> holds of the value
  and the new contents; if it throws, the contents are what they were, except inside a
  transaction, where at least the state a roll-back restores is what it was. Rules for
  sequencing, loops and transactions, and the effect of the schema checks.
\<close>

definition runs :: "('db \<Rightarrow> ref_conn) \<Rightarrow> ('db, 'a) comp \<Rightarrow> 'db \<Rightarrow> ('a \<Rightarrow> ref_db \<Rightarrow> bool) \<Rightarrow> bool" where
  "runs view m db Q \<longleftrightarrow>
     (\<forall>r db'. m db = (r, db') \<longrightarrow>
        (case r of
           Inl e \<Rightarrow> view db' = view db \<or>
             (conn_saved (view db) \<noteq> None \<and> aborted (view db') = aborted (view db))
         | Inr x \<Rightarrow> conn_saved (view db') = conn_saved (view db) \<and> Q x (conn_db (view db'))))"

lemma aborted_None [simp]: "conn_saved c = None \<Longrightarrow> aborted c = c"
  by (simp add: aborted_def)

lemma aborted_Some: "conn_saved c = Some d \<Longrightarrow> aborted c = \<lparr>conn_db = d, conn_saved = None\<rparr>"
  by (simp add: aborted_def)

lemma aborted_idem [simp]: "aborted (aborted c) = aborted c"
  by (auto simp: aborted_def split: option.splits)

lemma aborted_saved: "conn_saved c \<noteq> None \<Longrightarrow> conn_saved c' = conn_saved c \<Longrightarrow> aborted c' = aborted c"
  by (auto simp: aborted_def)

lemma runs_conseq: "runs view m db P \<Longrightarrow> (\<And>x d. P x d \<Longrightarrow> Q x d) \<Longrightarrow> runs view m db Q"
  by (fastforce simp: runs_def split: sum.splits)

lemma runs_ret: "Q x (conn_db (view db)) \<Longrightarrow> runs view (cret x) db Q"
  by (simp add: runs_def cret_def)

lemma runs_throw [simp]: "runs view (cthrow e) db Q"
  by (simp add: runs_def cthrow_def)

lemma runs_lift: "(\<And>x. r = Inr x \<Longrightarrow> Q x (conn_db (view db))) \<Longrightarrow> runs view (clift r) db Q"
  by (auto simp: runs_def clift_def split: sum.splits)

text \<open>Sequencing after a step that only reads, and inside a transaction.\<close>

lemma runs_bind_read:
  assumes m: "runs view m db (\<lambda>x d. d = conn_db (view db) \<and> P x)"
    and f: "\<And>x db'. view db' = view db \<Longrightarrow> P x \<Longrightarrow> runs view (f x) db' Q"
  shows "runs view (cbind m f) db Q"
  unfolding runs_def
proof (intro allI impI)
  fix r db'
  assume r: "cbind m f db = (r, db')"
  obtain y d1 where y: "m db = (y, d1)" by fastforce
  show "case r of
      Inl e \<Rightarrow> view db' = view db \<or> (conn_saved (view db) \<noteq> None \<and> aborted (view db') = aborted (view db))
    | Inr x \<Rightarrow> conn_saved (view db') = conn_saved (view db) \<and> Q x (conn_db (view db'))"
  proof (cases y)
    case (Inl e)
    with m y r show ?thesis by (auto simp: runs_def cbind_def)
  next
    case (Inr x)
    with m y have v: "view d1 = view db" "P x" by (auto simp: runs_def)
    from r y Inr have "f x d1 = (r, db')" by (simp add: cbind_def)
    with f [OF v] v show ?thesis by (auto simp: runs_def split: sum.splits)
  qed
qed

lemma runs_bind_tx:
  assumes tx: "conn_saved (view db) = Some s" and m: "runs view m db P"
    and f: "\<And>x db'. conn_saved (view db') = Some s \<Longrightarrow> P x (conn_db (view db')) \<Longrightarrow> runs view (f x) db' Q"
  shows "runs view (cbind m f) db Q"
  unfolding runs_def
proof (intro allI impI)
  fix r db'
  assume r: "cbind m f db = (r, db')"
  obtain y d1 where y: "m db = (y, d1)" by fastforce
  show "case r of
      Inl e \<Rightarrow> view db' = view db \<or> (conn_saved (view db) \<noteq> None \<and> aborted (view db') = aborted (view db))
    | Inr x \<Rightarrow> conn_saved (view db') = conn_saved (view db) \<and> Q x (conn_db (view db'))"
  proof (cases y)
    case (Inl e)
    with m y r show ?thesis by (auto simp: runs_def cbind_def)
  next
    case (Inr x)
    with m y tx have v: "conn_saved (view d1) = Some s" "P x (conn_db (view d1))"
      by (auto simp: runs_def)
    from r y Inr have "f x d1 = (r, db')" by (simp add: cbind_def)
    with f [OF v] v tx aborted_saved [of "view db" "view d1"] show ?thesis
      by (auto simp: runs_def split: sum.splits)
  qed
qed

lemma runs_seq_read:
  "runs view m db (\<lambda>x d. d = conn_db (view db) \<and> P) \<Longrightarrow>
   (\<And>db'. view db' = view db \<Longrightarrow> P \<Longrightarrow> runs view n db' Q) \<Longrightarrow> runs view (cseq m n) db Q"
  unfolding cseq_def by (rule runs_bind_read [where P = "\<lambda>_. P"]) auto

lemma runs_seq_tx:
  "conn_saved (view db) = Some s \<Longrightarrow> runs view m db P \<Longrightarrow>
   (\<And>db'. conn_saved (view db') = Some s \<Longrightarrow> P () (conn_db (view db')) \<Longrightarrow> runs view n db' Q) \<Longrightarrow>
   runs view (cseq m n) db Q"
  unfolding cseq_def by (rule runs_bind_tx [where P = P]) auto

text \<open>A loop inside a transaction, with an invariant over the items already handled.\<close>

lemma runs_for_tx:
  assumes "conn_saved (view db) = Some s" and "I [] (conn_db (view db))"
    and step: "\<And>pre x rest db'. xs = pre @ x # rest \<Longrightarrow> conn_saved (view db') = Some s \<Longrightarrow>
      I pre (conn_db (view db')) \<Longrightarrow> runs view (f x) db' (\<lambda>_ d. I (pre @ [x]) d)"
  shows "runs view (cfor xs f) db (\<lambda>_ d. I xs d)"
proof -
  have "runs view (cfor ys f) db' (\<lambda>_ d. I (pre @ ys) d)"
    if "xs = pre @ ys" "conn_saved (view db') = Some s" "I pre (conn_db (view db'))" for pre ys db'
    using that
  proof (induction ys arbitrary: pre db')
    case Nil
    then show ?case by (simp add: runs_ret)
  next
    case (Cons y ys)
    have "runs view (f y) db' (\<lambda>_ d. I (pre @ [y]) d)" using Cons.prems by (rule step)
    then show ?case
      using Cons.IH [of "pre @ [y]"] Cons.prems by (auto intro: runs_seq_tx)
  qed
  from this [of "[]" xs db] assms(1,2) show ?thesis by simp
qed

context sqlite_engine
begin

lemma runs_exec:
  assumes scope: "in_scope stmt (conn_db (view db))"
    and Q: "\<And>rep rep' d. ref_exec stmt (conn_db (view db)) = (Inr rep', d) \<Longrightarrow>
      reply_matches stmt rep rep' \<Longrightarrow> Q rep d"
  shows "runs view (sq_exec conn stmt) db Q"
  unfolding runs_def
proof (intro allI impI)
  fix r db'
  assume r: "sq_exec conn stmt db = (r, db')"
  show "case r of
      Inl e \<Rightarrow> view db' = view db \<or> (conn_saved (view db) \<noteq> None \<and> aborted (view db') = aborted (view db))
    | Inr x \<Rightarrow> conn_saved (view db') = conn_saved (view db) \<and> Q x (conn_db (view db'))"
  proof (cases r)
    case (Inl e)
    with exec_fail [OF _ scope] r show ?thesis by (cases "conn_saved (view db)") auto
  next
    case (Inr rep)
    with exec_ok [OF _ scope] r Q show ?thesis by fastforce
  qed
qed

lemma runs_exec_ignore:
  assumes "in_scope stmt (conn_db (view db))" and "stmt \<noteq> SelectItems"
    and "\<And>rep d. ref_exec stmt (conn_db (view db)) = (Inr rep, d) \<Longrightarrow> Q () d"
  shows "runs view (exec_ignore conn stmt) db Q"
proof -
  have "runs view (sq_exec conn stmt) db (\<lambda>_. Q ())"
    using assms by (auto intro: runs_exec)
  then show ?thesis
    by (fastforce simp: runs_def exec_ignore_def cbind_def cret_def split: sum.splits prod.splits)
qed

lemma runs_transaction:
  assumes body: "\<And>db'. conn_db (view db') = conn_db (view db) \<Longrightarrow>
    conn_saved (view db') = Some (conn_db (view db)) \<Longrightarrow> runs view body db' Q"
  shows "runs view (with_transaction conn body) db Q"
  unfolding runs_def
proof (intro allI impI)
  fix r db'
  assume r: "with_transaction conn body db = (r, db')"
  obtain b d1 where b: "sq_begin conn db = (b, d1)" by fastforce
  show "case r of
      Inl e \<Rightarrow> view db' = view db \<or> (conn_saved (view db) \<noteq> None \<and> aborted (view db') = aborted (view db))
    | Inr x \<Rightarrow> conn_saved (view db') = conn_saved (view db) \<and> Q x (conn_db (view db'))"
  proof (cases b)
    case (Inl e)
    with b r begin_fail show ?thesis by (auto simp: with_transaction_def cbind_def)
  next
    case (Inr u)
    have none: "conn_saved (view db) = None" and v1: "view d1 = (view db)\<lparr>conn_saved := Some (conn_db (view db))\<rparr>"
      using begin_ok b Inr by blast+
    obtain y d2 where y: "body d1 = (y, d2)" by fastforce
    have run: "runs view body d1 Q" using v1 by (intro body) auto
    have orig: "aborted (view d1) = view db" using v1 none by (cases "view db") (simp add: aborted_def)
    show ?thesis
    proof (cases y)
      case (Inl e)
      then have "db' = sq_rollback conn d2" "r = Inl e"
        using r b Inr y by (auto simp: with_transaction_def cbind_def)
      moreover have "aborted (view d2) = aborted (view d1)"
        using run y Inl by (auto simp: runs_def)
      ultimately show ?thesis using orig by (simp add: rollback)
    next
      case (Inr x)
      have v2: "conn_saved (view d2) = Some (conn_db (view db))" "Q x (conn_db (view d2))"
        using run y Inr v1 by (auto simp: runs_def)
      have undone: "aborted (view d2) = view db" using v2 orig v1 by (simp add: aborted_def)
      obtain z d3 where z: "sq_commit conn d2 = (z, d3)" by fastforce
      show ?thesis
      proof (cases z)
        case (Inl e)
        then have "db' = sq_rollback conn d3" "r = Inl e"
          using r b \<open>b = Inr u\<close> y Inr z by (auto simp: with_transaction_def cbind_def)
        moreover have "aborted (view d3) = view db"
          using commit_fail z Inl undone by (metis aborted_idem)
        ultimately show ?thesis by (simp add: rollback)
      next
        case (Inr w)
        then have "db' = d3" "r = Inr x"
          using r b \<open>b = Inr u\<close> y \<open>y = Inr x\<close> z by (auto simp: with_transaction_def cbind_def)
        with commit_ok z Inr v2 none show ?thesis by auto
      qed
    qed
  qed
qed

end

end
