(* ===== verification/Sqlite_Schema.thy ===== *)
theory Sqlite_Schema
  imports Sqlite_Logic
begin

text \<open>
  What the schema checks, the migration and \<^verbatim>\<open>Initialize\<close> establish, for every connection
  that satisfies \<open>sqlite_engine\<close>. \<open>intact\<close> is what SQLite itself guarantees of a database
  file, \<open>ready\<close> is the schema the storage operations need. The central lemma is
  \<open>initialize_schema_runs\<close>: an initialisation that returns leaves a \<open>ready\<close> database of
  version 1 with the device rows it found, and one that throws leaves the database alone.
\<close>

section \<open>Databases\<close>

definition intact_table :: "string \<times> ref_table \<Rightarrow> bool" where
  "intact_table = (\<lambda>(n, t).
     (like_sqlite n \<longrightarrow> tb_indexes t = []) \<and> distinct (map ix_name (tb_indexes t)) \<and>
     (tb_columns t = DeviceColumns \<longrightarrow> list_all (\<lambda>r. length r = 5) (tb_rows t)) \<and>
     (unique_on ''device_id'' t \<longrightarrow> distinct (map row_key (tb_rows t))))"

definition intact_object :: "string \<times> string \<Rightarrow> bool" where
  "intact_object = (\<lambda>(ty, n). (ty = ''view'' \<or> ty = ''trigger'') \<and> \<not> like_sqlite n)"

definition intact :: "ref_db \<Rightarrow> bool" where
  "intact d \<longleftrightarrow> distinct (map fst (tables d)) \<and> list_all intact_table (tables d) \<and>
     list_all intact_object (objects d)"

text \<open>
  Names that begin with \<^verbatim>\<open>sqlite_\<close> are reserved by SQLite; its own tables carry no index.
  (A view or trigger called, say, \<^verbatim>\<open>sqliteview\<close> is not reserved and yet matches the
  \<^verbatim>\<open>LIKE\<close> pattern of \<^verbatim>\<open>ReadUserObjects\<close>; \<open>intact\<close> excludes it.)
\<close>

definition ready :: "ref_db \<Rightarrow> bool" where
  "ready d \<longleftrightarrow> objects d = [] \<and>
     (case map_of (tables d) ''items'' of
        None \<Rightarrow> False
      | Some t \<Rightarrow> tb_columns t = DeviceColumns \<and> length (tb_indexes t) = 1 \<and>
          list_all device_unique (tb_indexes t) \<and> NormalizeSql (tb_sql t) = NormalizeSql CreateV1ItemsSql)"

definition device_rows :: "ref_db \<Rightarrow> sql_row list" where
  "device_rows d = (case map_of (tables d) ''items'' of None \<Rightarrow> [] | Some t \<Rightarrow> tb_rows t)"

text \<open>The device table holds exactly the rows of \<open>items\<close>, in rowid order.\<close>

definition stores :: "ref_db \<Rightarrow> DatabaseItem list \<Rightarrow> bool" where
  "stores d items \<longleftrightarrow> device_rows d = map BindItem items \<and> list_all valid_item items \<and>
     distinct (map item_id items)"

text \<open>A database whose only user object is the table \<^verbatim>\<open>items\<close>.\<close>

definition only_items :: "ref_db \<Rightarrow> bool" where
  "only_items d \<longleftrightarrow> user_objects d = [''table:items'']"

text \<open>The databases \<^verbatim>\<open>Initialize\<close> accepts.\<close>

definition unversioned_schema :: "ref_db \<Rightarrow> bool" where
  "unversioned_schema d \<longleftrightarrow> only_items d \<and>
     (case map_of (tables d) ''items'' of
        None \<Rightarrow> False
      | Some t \<Rightarrow> tb_columns t = DeviceColumns \<and> length (tb_indexes t) = 1 \<and> list_all device_unique (tb_indexes t) \<and>
          NormalizeSql (tb_sql t) = NormalizeSql CreateUnversionedItemsSql)"

definition acceptable :: "ref_db \<Rightarrow> bool" where
  "acceptable d \<longleftrightarrow>
     (user_version d = 1 \<and> ready d \<and> only_items d) \<or>
     (user_version d = 0 \<and> map_of (tables d) ''items'' = None \<and> user_objects d = []) \<or>
     (user_version d = 0 \<and> unversioned_schema d \<and> (\<exists>items. stores d items))"

text \<open>What a successful initialisation establishes.\<close>

definition initialized_from :: "ref_db \<Rightarrow> ref_db \<Rightarrow> bool" where
  "initialized_from d d' \<longleftrightarrow> acceptable d \<and> ready d' \<and> user_version d' = 1 \<and> device_rows d' = device_rows d \<and>
     (user_version d \<noteq> 1 \<longrightarrow> (\<exists>items. stores d items))"

lemma NormalizeSql_append [simp]: "NormalizeSql (a @ b) = NormalizeSql a @ NormalizeSql b"
  by (simp add: NormalizeSql_def)

lemma set_insort_eq_single: "sort xs = [x] \<longleftrightarrow> xs = [x]"
proof
  assume s: "sort xs = [x]"
  then have "length xs = 1" by (metis length_sort length_Cons list.size(3) One_nat_def)
  then obtain y where "xs = [y]" by (auto simp: length_Suc_conv)
  with s show "xs = [x]" by simp
qed simp

lemma intact_objects: "intact d \<Longrightarrow> filter (\<lambda>(ty, n). \<not> like_sqlite n) (objects d) = objects d"
  by (auto simp: intact_def intact_object_def list_all_iff filter_id_conv)

lemma only_items_filter:
  assumes "intact d" "only_items d"
  shows "objects d = []" "\<exists>t. filter (\<lambda>(n, t). \<not> like_sqlite n) (tables d) = [(''items'', t)]"
proof -
  have eq: "map (\<lambda>(n, t). ''table:'' @ n) (filter (\<lambda>(n, t). \<not> like_sqlite n) (tables d)) @
      map (\<lambda>(ty, n). ty @ '':'' @ n) (objects d) = [''table:items'']"
    using assms intact_objects [OF assms(1)] by (simp add: only_items_def user_objects_def set_insort_eq_single)
  show none: "objects d = []"
  proof (cases "objects d")
    case (Cons o' os)
    moreover from Cons assms(1) have "fst o' = ''view'' \<or> fst o' = ''trigger''"
      by (auto simp: intact_def intact_object_def split: prod.splits)
    ultimately show ?thesis using eq by (cases o') (auto simp: append_eq_Cons_conv)
  qed
  show "\<exists>t. filter (\<lambda>(n, t). \<not> like_sqlite n) (tables d) = [(''items'', t)]"
    using eq by (auto simp: none map_eq_Cons_conv split: prod.splits)
qed

lemma filter_single_indexes:
  "list_all intact_table ts \<Longrightarrow> filter (\<lambda>(n, t). \<not> like_sqlite n) ts = [(m, t)] \<Longrightarrow>
   concat (map (\<lambda>(n, t). tb_indexes t) ts) = tb_indexes t"
proof (induction ts)
  case (Cons a ts)
  obtain n u where a: "a = (n, u)" by fastforce
  show ?case
  proof (cases "like_sqlite n")
    case True
    with Cons a show ?thesis by (simp add: intact_table_def)
  next
    case False
    with Cons.prems a have "filter (\<lambda>(n, t). \<not> like_sqlite n) ts = []" "u = t" by auto
    then have "\<forall>(n, t) \<in> set ts. like_sqlite n" by (auto simp: filter_empty_conv)
    then have "concat (map (\<lambda>(n, t). tb_indexes t) ts) = []"
      using Cons.prems(1) a by (auto simp: intact_table_def list_all_iff)
    with a \<open>u = t\<close> show ?thesis by simp
  qed
qed simp

lemma not_like_sqlite_items [simp]: "\<not> like_sqlite ''items''" "\<not> like_sqlite ''items_v1''"
  by (simp_all add: like_sqlite_def tolower_def byte_def)

lemma only_items_table:
  assumes "intact d" "only_items d"
  obtains t where "map_of (tables d) ''items'' = Some t"
    "concat (map (\<lambda>(n, t). tb_indexes t) (tables d)) = tb_indexes t" "intact_table (''items'', t)"
    "map_of (tables d) ''items_v1'' = None"
proof -
  obtain t where f: "filter (\<lambda>(n, t). \<not> like_sqlite n) (tables d) = [(''items'', t)]"
    using only_items_filter [OF assms] by blast
  have mem: "(n, u) \<in> set (tables d) \<and> \<not> like_sqlite n \<longleftrightarrow> (n, u) = (''items'', t)" for n u
    using arg_cong [OF f, of set] by auto
  then have member: "(''items'', t) \<in> set (tables d)" by blast
  have "(''items_v1'', u) \<notin> set (tables d)" for u
    using mem [of "''items_v1''" u] not_like_sqlite_items(2) by blast
  then have other: "map_of (tables d) ''items_v1'' = None"
    by (auto simp only: map_of_eq_None_iff image_iff fst_conv)
  have tbs: "list_all intact_table (tables d)" "distinct (map fst (tables d))"
    using assms(1) by (auto simp: intact_def)
  show thesis
  proof (rule that)
    show "map_of (tables d) ''items'' = Some t" using tbs(2) member by (rule map_of_is_SomeI)
    show "concat (map (\<lambda>(n, t). tb_indexes t) (tables d)) = tb_indexes t"
      using tbs(1) f by (rule filter_single_indexes)
    show "intact_table (''items'', t)" using tbs(1) member by (auto simp: list_all_iff)
  qed (rule other)
qed

section \<open>The schema checks\<close>

lemma emap_strings: "emap (\<lambda>row. ebind (getColumn row 0) (\<lambda>c. Inr (getString c))) (map (\<lambda>s. [SText s]) ss) = Inr ss"
  by (induction ss) (simp_all add: getColumn_def)

lemma emap_columns: "emap decode_column (map column_row (enumerate k cs)) = Inr cs"
  by (induction cs arbitrary: k)
    (auto simp: decode_column_def column_row_def getColumn_def column_def numeral_eq_Suc)

lemma index_row_cells:
  "getColumn (index_row (k, ix)) 2 = Inr (SInteger (if ix_unique ix then 1 else 0))"
  "getColumn (index_row (k, ix)) 4 = Inr (SInteger (if ix_partial ix then 1 else 0))"
  "getColumn (index_row (k, ix)) (Suc 0) = Inr (SText (ix_name ix))"
  by (simp_all add: index_row_def getColumn_def numeral_eq_Suc)

definition find_index :: "string \<Rightarrow> ref_db \<Rightarrow> ref_index option" where
  "find_index i d = List.find (\<lambda>ix. ix_name ix = i) (concat (map (\<lambda>(n, t). tb_indexes t) (tables d)))"

lemma find_distinct: "distinct (map f xs) \<Longrightarrow> x \<in> set xs \<Longrightarrow> List.find (\<lambda>y. f y = f x) xs = Some x"
  by (induction xs) (auto simp: image_iff)

context sqlite_engine
begin

lemma ReadUserObjects_runs:
  "runs view (ReadUserObjects conn) db (\<lambda>x d. d = conn_db (view db) \<and> x = user_objects (conn_db (view db)))"
  unfolding ReadUserObjects_def
  by (rule runs_bind_read [where P = "\<lambda>q. reply_rows q = map (\<lambda>s. [SText s]) (user_objects (conn_db (view db)))"])
    (auto simp: reply_matches_def emap_strings intro!: runs_exec runs_lift)

lemma ReadColumns_runs:
  "runs view (ReadColumns conn n) db (\<lambda>x d. d = conn_db (view db) \<and>
     x = (case map_of (tables (conn_db (view db))) n of None \<Rightarrow> [] | Some t \<Rightarrow> tb_columns t))"
  unfolding ReadColumns_def
  by (rule runs_bind_read [where P = "\<lambda>q. reply_rows q = (case map_of (tables (conn_db (view db))) n of
        None \<Rightarrow> [] | Some t \<Rightarrow> map column_row (enumerate 0 (tb_columns t)))"])
    (auto simp: reply_matches_def emap_columns split: option.splits intro!: runs_exec runs_lift)

lemma TableExists_runs:
  "runs view (TableExists conn n) db (\<lambda>x d. d = conn_db (view db) \<and>
     x = (map_of (tables (conn_db (view db))) n \<noteq> None))"
  unfolding TableExists_def
  by (rule runs_bind_read [where P = "\<lambda>q. (reply_rows q \<noteq> []) = (map_of (tables (conn_db (view db))) n \<noteq> None)"])
    (auto simp: reply_matches_def split: option.splits if_splits intro!: runs_exec runs_ret)

lemma ReadCreateSql_runs:
  "runs view (ReadCreateSql conn n) db (\<lambda>x d. d = conn_db (view db) \<and>
     (\<exists>t. map_of (tables (conn_db (view db))) n = Some t \<and> x = tb_sql t))"
  unfolding ReadCreateSql_def
  by (rule runs_bind_read [where P = "\<lambda>q. reply_rows q = (case map_of (tables (conn_db (view db))) n of
        None \<Rightarrow> [] | Some t \<Rightarrow> [[SText (tb_sql t)]])"])
    (auto simp: reply_matches_def getColumn_def split: option.splits intro!: runs_exec runs_ret)

lemma ValidateOnlyItemsObject_runs:
  "runs view (ValidateOnlyItemsObject conn) db (\<lambda>_ d. d = conn_db (view db) \<and> only_items (conn_db (view db)))"
  unfolding ValidateOnlyItemsObject_def
  by (rule runs_bind_read [OF ReadUserObjects_runs]) (auto simp: only_items_def intro!: runs_ret)

lemma ValidateExactCreateSql_runs:
  "runs view (ValidateExactCreateSql conn e n) db (\<lambda>_ d. d = conn_db (view db) \<and>
     (\<exists>t. map_of (tables (conn_db (view db))) ''items'' = Some t \<and> NormalizeSql (tb_sql t) = NormalizeSql e))"
  unfolding ValidateExactCreateSql_def
  by (rule runs_bind_read [OF ReadCreateSql_runs]) (auto intro!: runs_ret)

lemma check_indexes_runs:
  "runs view (check_indexes conn n (map index_row (enumerate k ixs))) db
     (\<lambda>c d. d = conn_db (view db) \<and> c = n + length ixs \<and>
       (\<forall>ix \<in> set ixs. ix_unique ix \<and> \<not> ix_partial ix \<and>
         (\<exists>ix'. find_index (ix_name ix) (conn_db (view db)) = Some ix' \<and> ix_columns ix' = [''device_id''])))"
proof (induction ixs arbitrary: n k db)
  case Nil
  show ?case by (simp add: runs_ret)
next
  case (Cons ix ixs)
  let ?d = "conn_db (view db)"
  have info: "runs view (sq_exec conn (PragmaIndexInfo (ix_name ix))) db
    (\<lambda>q d. d = ?d \<and> reply_rows q = (case find_index (ix_name ix) ?d of None \<Rightarrow> []
      | Some ix' \<Rightarrow> map (\<lambda>(k, c). [SInteger (int k), SInteger (int k), SText c]) (enumerate 0 (ix_columns ix'))))"
    by (rule runs_exec) (auto simp: reply_matches_def find_index_def split: option.splits)
  have step: "runs view (case reply_rows q of
      [r] \<Rightarrow> cbind (clift (getColumn r 2)) (\<lambda>c.
        if getString c \<noteq> ''device_id'' then cthrow (DatabaseSchema ''items unique index must contain only device_id'')
        else check_indexes conn (n + 1) (map index_row (enumerate (Suc k) ixs)))
    | _ \<Rightarrow> cthrow (DatabaseSchema ''items unique index must contain only device_id'')) db'
     (\<lambda>c d. d = ?d \<and> c = n + length (ix # ixs) \<and>
       (\<exists>ix'. find_index (ix_name ix) ?d = Some ix' \<and> ix_columns ix' = [''device_id'']) \<and>
       (\<forall>x \<in> set ixs. ix_unique x \<and> \<not> ix_partial x \<and>
         (\<exists>ix'. find_index (ix_name x) ?d = Some ix' \<and> ix_columns ix' = [''device_id''])))"
    if v: "view db' = view db" and rows: "reply_rows q = (case find_index (ix_name ix) ?d of None \<Rightarrow> []
      | Some ix' \<Rightarrow> map (\<lambda>(k, c). [SInteger (int k), SInteger (int k), SText c]) (enumerate 0 (ix_columns ix')))"
    for q db'
  proof (cases "\<exists>ix' c. find_index (ix_name ix) ?d = Some ix' \<and> ix_columns ix' = [c]")
    case True
    then obtain ix' c where c: "find_index (ix_name ix) ?d = Some ix'" "ix_columns ix' = [c]" by auto
    show ?thesis
    proof (cases "c = ''device_id''")
      case True
      from Cons.IH [of "n + 1" "Suc k" db'] c True v show ?thesis
        by (simp add: rows getColumn_def)
    qed (simp add: rows c getColumn_def)
  next
    case False
    then have "length (reply_rows q) \<noteq> 1"
      by (cases "find_index (ix_name ix) ?d") (auto simp: rows, auto simp: length_Suc_conv)
    then have "\<nexists>r. reply_rows q = [r]" by auto
    then show ?thesis by (auto split: list.splits)
  qed
  show ?case
    using runs_bind_read [OF info step]
    by (auto simp: index_row_cells)
qed

lemma ValidateDeviceColumns_runs:
  "runs view (ValidateDeviceColumns conn) db (\<lambda>_ d. d = conn_db (view db) \<and>
     (\<exists>t. map_of (tables (conn_db (view db))) ''items'' = Some t \<and> tb_columns t = DeviceColumns \<and>
       length (tb_indexes t) = 1 \<and> (\<forall>ix \<in> set (tb_indexes t). ix_unique ix \<and> \<not> ix_partial ix \<and>
         (\<exists>ix'. find_index (ix_name ix) (conn_db (view db)) = Some ix' \<and> ix_columns ix' = [''device_id'']))))"
proof -
  let ?d = "conn_db (view db)"
  have idx: "runs view (ValidateUniqueDeviceId conn) db' (\<lambda>_ d. d = ?d \<and> length (tb_indexes t) = 1 \<and>
     (\<forall>ix \<in> set (tb_indexes t). ix_unique ix \<and> \<not> ix_partial ix \<and>
         (\<exists>ix'. find_index (ix_name ix) ?d = Some ix' \<and> ix_columns ix' = [''device_id''])))"
    if v: "view db' = view db" and t: "map_of (tables ?d) ''items'' = Some t" for db' t
    unfolding ValidateUniqueDeviceId_def
  proof (rule runs_bind_read [where P = "\<lambda>q. reply_rows q = map index_row (enumerate 0 (tb_indexes t))"])
    show "runs view (sq_exec conn (PragmaIndexList ''items'')) db' (\<lambda>x d. d = conn_db (view db') \<and>
        reply_rows x = map index_row (enumerate 0 (tb_indexes t)))"
      by (rule runs_exec) (auto simp: v t reply_matches_def)
  next
    fix q db''
    assume "view db'' = view db'" "reply_rows q = map index_row (enumerate 0 (tb_indexes t))"
    then show "runs view (cbind (check_indexes conn 0 (reply_rows q)) (\<lambda>indexCount.
        if indexCount \<noteq> 1 then cthrow (DatabaseSchema ''items must have exactly one unique device_id index'')
        else cret ())) db'' (\<lambda>_ d. d = ?d \<and> length (tb_indexes t) = 1 \<and>
         (\<forall>ix \<in> set (tb_indexes t). ix_unique ix \<and> \<not> ix_partial ix \<and>
           (\<exists>ix'. find_index (ix_name ix) ?d = Some ix' \<and> ix_columns ix' = [''device_id''])))"
      using check_indexes_runs [of 0 0 "tb_indexes t" db''] v
      by (auto intro!: runs_bind_read [OF check_indexes_runs] runs_ret)
  qed
  show ?thesis
    unfolding ValidateDeviceColumns_def
  proof (rule runs_bind_read [OF ReadColumns_runs])
    fix x db'
    assume v: "view db' = view db"
      and x: "x = (case map_of (tables ?d) ''items'' of None \<Rightarrow> [] | Some t \<Rightarrow> tb_columns t)"
    show "runs view (if x \<noteq> DeviceColumns then cthrow (DatabaseSchema
        ''items columns, types, nullability, or primary key do not match the device schema'')
      else ValidateUniqueDeviceId conn) db' (\<lambda>_ d. d = ?d \<and>
       (\<exists>t. map_of (tables ?d) ''items'' = Some t \<and> tb_columns t = DeviceColumns \<and>
         length (tb_indexes t) = 1 \<and> (\<forall>ix \<in> set (tb_indexes t). ix_unique ix \<and> \<not> ix_partial ix \<and>
           (\<exists>ix'. find_index (ix_name ix) ?d = Some ix' \<and> ix_columns ix' = [''device_id'']))))"
    proof (cases "map_of (tables ?d) ''items''")
      case None
      then show ?thesis by (simp add: x DeviceColumns_def)
    next
      case (Some t)
      with idx [OF v Some] show ?thesis by (auto simp: x elim!: runs_conseq)
    qed
  qed
qed

text \<open>On an intact database the checks together establish \<open>ready\<close>.\<close>

lemma checked_indexes:
  assumes "intact d" "only_items d" "map_of (tables d) ''items'' = Some t"
    and "\<forall>ix \<in> set (tb_indexes t). ix_unique ix \<and> \<not> ix_partial ix \<and>
      (\<exists>ix'. find_index (ix_name ix) d = Some ix' \<and> ix_columns ix' = [''device_id''])"
  shows "list_all device_unique (tb_indexes t)"
proof -
  obtain u where u: "map_of (tables d) ''items'' = Some u"
    "concat (map (\<lambda>(n, t). tb_indexes t) (tables d)) = tb_indexes u" "intact_table (''items'', u)"
    using only_items_table [OF assms(1,2)] by metis
  have "find_index (ix_name ix) d = Some ix" if "ix \<in> set (tb_indexes t)" for ix
    using u assms(3) that find_distinct [of ix_name "tb_indexes t" ix]
    by (auto simp: find_index_def intact_table_def)
  with assms(4) show ?thesis by (auto simp: list_all_iff device_unique_def)
qed

lemma ValidateV1Schema_runs:
  "runs view (ValidateV1Schema conn) db (\<lambda>_ d. d = conn_db (view db) \<and> only_items (conn_db (view db)) \<and>
     (intact (conn_db (view db)) \<longrightarrow> ready (conn_db (view db))))"
  unfolding ValidateV1Schema_def
proof (rule runs_seq_read [OF ValidateOnlyItemsObject_runs], rule runs_seq_read)
  fix db1
  assume v1: "view db1 = view db" and only: "only_items (conn_db (view db))"
  let ?d = "conn_db (view db)"
  show "runs view (ValidateDeviceColumns conn) db1 (\<lambda>_ d. d = conn_db (view db1) \<and>
     (\<exists>t. map_of (tables ?d) ''items'' = Some t \<and> tb_columns t = DeviceColumns \<and>
       length (tb_indexes t) = 1 \<and> (intact ?d \<longrightarrow> list_all device_unique (tb_indexes t))))"
    by (rule runs_conseq [OF ValidateDeviceColumns_runs]) (auto simp: v1 intro: checked_indexes [OF _ only])
  fix db2
  assume v2: "view db2 = view db1" and t: "\<exists>t. map_of (tables ?d) ''items'' = Some t \<and>
    tb_columns t = DeviceColumns \<and> length (tb_indexes t) = 1 \<and> (intact ?d \<longrightarrow> list_all device_unique (tb_indexes t))"
  show "runs view (ValidateExactCreateSql conn CreateV1ItemsSql ''schema v1'') db2
      (\<lambda>_ d. d = ?d \<and> only_items ?d \<and> (intact ?d \<longrightarrow> ready ?d))"
    by (rule runs_conseq [OF ValidateExactCreateSql_runs])
      (use v1 v2 t only in \<open>auto simp: ready_def dest: only_items_filter\<close>)
qed

end

section \<open>Creation and migration\<close>

definition fresh_v1 :: "ref_db \<Rightarrow> ref_db" where
  "fresh_v1 d = d\<lparr>tables := tables d @ [(''items'', v1_table ''items'' CreateV1ItemsSql)], user_version := 1\<rparr>"

text \<open>The database while the migration copies, and after it.\<close>

definition copying :: "ref_db \<Rightarrow> sql_row list \<Rightarrow> ref_db" where
  "copying d rows = d\<lparr>tables := tables d @
     [(''items_v1'', (v1_table ''items_v1'' CreateV1MigrationSql)\<lparr>tb_rows := rows\<rparr>)]\<rparr>"

definition migrated_table :: "sql_row list \<Rightarrow> ref_table" where
  "migrated_table rows =
     \<lparr>tb_sql = ''CREATE TABLE '' @ CHR 0x22 # ''items'' @ CHR 0x22 # v1_body, tb_columns = DeviceColumns,
      tb_indexes = [device_index ''items''], tb_rows = rows\<rparr>"

definition migrated :: "ref_db \<Rightarrow> sql_row list \<Rightarrow> ref_db" where
  "migrated d rows = d\<lparr>tables := filter (\<lambda>(n, _). n \<noteq> ''items'') (tables d) @ [(''items'', migrated_table rows)],
     user_version := 1\<rparr>"

lemma device_unique_index [simp]: "device_unique (device_index n)"
  by (simp add: device_unique_def device_index_def)

lemma map_of_filter_ne: "map_of (filter (\<lambda>(n, _). n \<noteq> k) xs) m = (if m = k then None else map_of xs m)"
  by (induction xs) auto

lemma filter_ne_id: "map_of xs k = None \<Longrightarrow> filter (\<lambda>(n, _). n \<noteq> k) xs = xs"
  by (induction xs) (auto split: if_splits)

lemma ready_fresh: "objects d = [] \<Longrightarrow> map_of (tables d) ''items'' = None \<Longrightarrow> ready (fresh_v1 d)"
  by (simp add: ready_def fresh_v1_def v1_table_def map_add_def)

lemma migrated_sql: "NormalizeSql (tb_sql (migrated_table rows)) = NormalizeSql CreateV1ItemsSql"
  by (simp add: migrated_table_def CreateV1ItemsSql_def NormalizeSql_def sql_dropped_def isspace_def tolower_def byte_def)

lemma ready_migrated: "objects d = [] \<Longrightarrow> ready (migrated d rows)"
  using migrated_sql by (simp add: ready_def migrated_def map_add_def map_of_filter_ne migrated_table_def)

lemma device_rows_fresh: "map_of (tables d) ''items'' = None \<Longrightarrow> device_rows (fresh_v1 d) = []"
  by (simp add: device_rows_def fresh_v1_def map_add_def v1_table_def)

lemma device_rows_migrated: "device_rows (migrated d rows) = rows"
  by (simp add: device_rows_def migrated_def map_add_def map_of_filter_ne migrated_table_def)

lemma copying_table:
  "map_of (tables d) ''items_v1'' = None \<Longrightarrow>
   map_of (tables (copying d rows)) ''items_v1'' = Some ((v1_table ''items_v1'' CreateV1MigrationSql)\<lparr>tb_rows := rows\<rparr>)"
  by (simp add: copying_def map_add_def)

lemma update_table_snoc:
  "map_of ts n = None \<Longrightarrow> update_table n f (ts @ [(n, t)]) = ts @ [(n, f t)]"
  by (induction ts) (auto split: if_splits)

lemma set_rows_copying:
  "map_of (tables d) ''items_v1'' = None \<Longrightarrow> set_rows ''items_v1'' rows' (copying d rows) = copying d rows'"
  by (simp add: set_rows_def copying_def update_table_snoc)

lemma v1_text_migration: "v1_text CreateV1MigrationSql"
  by (simp add: v1_text_def)

lemma insert_copying:
  assumes "map_of (tables d) ''items_v1'' = None"
  shows "ref_insert ''items_v1'' row (copying d rows) =
    (if \<not> v1_check row then sql_error ''constraint failed'' (copying d rows)
     else if row_key row \<in> set (map row_key rows)
     then sql_error ''UNIQUE constraint failed: items.device_id'' (copying d rows)
     else (Inr (reply [] 1), copying d (rows @ [row])))"
  using assms
  by (simp add: ref_insert_def device_table_def copying_table set_rows_copying table_check_def v1_table_def
      v1_text_migration unique_on_def device_index_def)

lemma write_scope_copying:
  "map_of (tables d) ''items_v1'' = None \<Longrightarrow> objects d = [] \<Longrightarrow> write_scope ''items_v1'' (copying d rows)"
  by (simp add: write_scope_def copying_table v1_table_def v1_text_migration) (simp add: copying_def)

lemma finish_copying:
  assumes "map_of (tables d) ''items_v1'' = None" "map_of (tables d) ''items'' = Some t"
  shows "ref_exec (DropTable ''items'') (copying d rows) =
      (Inr (reply [] 0), copying d rows\<lparr>tables := filter (\<lambda>(n, _). n \<noteq> ''items'') (tables (copying d rows))\<rparr>)"
    "ref_exec (AlterRename ''items_v1'' ''items'')
        (copying d rows\<lparr>tables := filter (\<lambda>(n, _). n \<noteq> ''items'') (tables (copying d rows))\<rparr>) =
      (Inr (reply [] 0), migrated d rows\<lparr>user_version := user_version d\<rparr>)"
proof -
  show "ref_exec (DropTable ''items'') (copying d rows) =
      (Inr (reply [] 0), copying d rows\<lparr>tables := filter (\<lambda>(n, _). n \<noteq> ''items'') (tables (copying d rows))\<rparr>)"
    using assms by (simp add: copying_def map_add_def)
  have "filter (\<lambda>(n, _). n \<noteq> ''items_v1'') (tables d) = tables d"
    using assms(1) by (rule filter_ne_id)
  then have "filter (\<lambda>(n, _). n \<noteq> ''items_v1'') (filter (\<lambda>(n, _). n \<noteq> ''items'') (tables d)) =
      filter (\<lambda>(n, _). n \<noteq> ''items'') (tables d)"
    by (metis (no_types, lifting) filter_filter conj_commute filter_cong)
  moreover have "alter_index ''items_v1'' ''items'' (device_index ''items_v1'') = device_index ''items''"
    by (simp add: alter_index_def device_index_def)
  moreover have "alter_sql ''items_v1'' ''items'' CreateV1MigrationSql =
      ''CREATE TABLE '' @ CHR 0x22 # ''items'' @ CHR 0x22 # v1_body"
    by (simp add: alter_sql_def CreateV1MigrationSql_def)
  ultimately show "ref_exec (AlterRename ''items_v1'' ''items'')
        (copying d rows\<lparr>tables := filter (\<lambda>(n, _). n \<noteq> ''items'') (tables (copying d rows))\<rparr>) =
      (Inr (reply [] 0), migrated d rows\<lparr>user_version := user_version d\<rparr>)"
    using assms
    by (simp add: ref_rename_def copying_def migrated_def migrated_table_def map_add_def map_of_filter_ne v1_table_def)
qed

lemma no_user_objects: "intact d \<Longrightarrow> user_objects d = [] \<Longrightarrow> objects d = []"
  using intact_objects [of d] by (simp add: user_objects_def flip: length_0_conv)

context sqlite_engine
begin

lemmas seq_tx = runs_seq_tx [where view = view]
  and bind_tx = runs_bind_tx [where view = view]
  and for_tx = runs_for_tx [where view = view]

lemma exec_ignore_runs_to:
  assumes "in_scope stmt (conn_db (view db))" "stmt \<noteq> SelectItems"
    and "\<And>rep d. ref_exec stmt (conn_db (view db)) = (Inr rep, d) \<Longrightarrow> d = d'"
  shows "runs view (exec_ignore conn stmt) db (\<lambda>_ d. d = d')"
  using assms by (intro runs_exec_ignore)

lemma create_fresh_runs:
  assumes "intact (conn_db (view db))" and new: "map_of (tables (conn_db (view db))) ''items'' = None"
  shows "runs view (create_fresh conn) db
    (\<lambda>_ d. user_objects (conn_db (view db)) = [] \<and> d = fresh_v1 (conn_db (view db)))"
  unfolding create_fresh_def
proof (rule runs_bind_read [OF ReadUserObjects_runs])
  let ?d = "conn_db (view db)"
  fix x db1
  assume v1: "view db1 = view db" and x: "x = user_objects ?d"
  have "runs view (with_transaction conn (cseq (exec_ignore conn (CreateTable CreateV1ItemsSql))
      (cseq (exec_ignore conn (PragmaSetUserVersion 1)) (ValidateV1Schema conn)))) db1 (\<lambda>_ d. d = fresh_v1 ?d)"
    if obj: "objects ?d = []"
  proof (rule runs_transaction)
    fix db2
    assume d2: "conn_db (view db2) = conn_db (view db1)" "conn_saved (view db2) = Some (conn_db (view db1))"
    show "runs view (cseq (exec_ignore conn (CreateTable CreateV1ItemsSql))
      (cseq (exec_ignore conn (PragmaSetUserVersion 1)) (ValidateV1Schema conn))) db2 (\<lambda>_ d. d = fresh_v1 ?d)"
    proof (rule seq_tx [OF d2(2)], rule exec_ignore_runs_to)
      fix db3
      assume d3: "conn_saved (view db3) = Some (conn_db (view db1))"
        "conn_db (view db3) = ?d\<lparr>tables := tables ?d @ [(''items'', v1_table ''items'' CreateV1ItemsSql)]\<rparr>"
      show "runs view (cseq (exec_ignore conn (PragmaSetUserVersion 1)) (ValidateV1Schema conn)) db3
        (\<lambda>_ d. d = fresh_v1 ?d)"
        by (rule seq_tx [OF d3(1)], rule exec_ignore_runs_to [where d' = "fresh_v1 ?d"])
          (auto simp: d3(2) fresh_v1_def intro!: runs_conseq [OF ValidateV1Schema_runs])
    qed (use d2 v1 obj new in \<open>auto simp: ref_create_def Let_def\<close>)
  qed
  then show "runs view (if x \<noteq> [] then cthrow (DatabaseSchema ''unversioned database contains unexpected objects'')
      else with_transaction conn (cseq (exec_ignore conn (CreateTable CreateV1ItemsSql))
        (cseq (exec_ignore conn (PragmaSetUserVersion 1)) (ValidateV1Schema conn)))) db1
    (\<lambda>_ d. user_objects ?d = [] \<and> d = fresh_v1 ?d)"
    using no_user_objects [OF assms(1)] by (auto simp: x elim: runs_conseq)
qed

lemma insert_items_runs:
  assumes d: "map_of (tables d) ''items_v1'' = None" "objects d = []"
    and tx: "conn_saved (view db) = Some s" "conn_db (view db) = copying d []"
  shows "runs view (cfor items (InsertItem conn ''items_v1'')) db
    (\<lambda>_ d'. d' = copying d (map BindItem items) \<and> distinct (map item_id items))"
  unfolding InsertItem_def
proof (rule for_tx [where I = "\<lambda>pre d'. d' = copying d (map BindItem pre) \<and> distinct (map item_id pre)", OF tx(1)])
  fix pre x rest db'
  assume h: "conn_saved (view db') = Some s"
    "conn_db (view db') = copying d (map BindItem pre) \<and> distinct (map item_id pre)"
  show "runs view (exec_ignore conn (InsertItem_stmt ''items_v1'' (BindItem x))) db'
    (\<lambda>_ d'. d' = copying d (map BindItem (pre @ [x])) \<and> distinct (map item_id (pre @ [x])))"
    by (rule runs_exec_ignore)
      (use h d in \<open>auto simp: insert_copying write_scope_copying row_key_def BindItem_def split: if_splits\<close>)
qed (use tx in auto)

text \<open>The devices a list of rows stands for.\<close>

lemma decoded_rows:
  assumes "emap DecodeDatabaseItem rows = Inr items" "list_all (\<lambda>r. length r = 5) rows"
  shows "rows = map BindItem items" "list_all valid_item items"
proof -
  have "list_all2 (\<lambda>r i. r = BindItem i \<and> valid_item i) rows items"
    using assms unfolding emap_eq_Inr
    by (auto simp: list_all2_conv_all_nth list_all_length Decode_iff)
  then show "rows = map BindItem items" "list_all valid_item items"
    by (auto simp: list_all2_conv_all_nth list_all_length intro: nth_equalityI)
qed

lemma finish_migration_runs:
  assumes d: "map_of (tables d) ''items_v1'' = None" "map_of (tables d) ''items'' = Some t" "objects d = []"
    and tx: "conn_saved (view db) = Some s" "conn_db (view db) = copying d rows"
  shows "runs view (finish_migration conn) db (\<lambda>_ d'. d' = migrated d rows)"
  unfolding finish_migration_def
proof (rule seq_tx [OF tx(1)], rule exec_ignore_runs_to)
  show "in_scope (DropTable ''items'') (conn_db (view db))" using d tx by (simp add: copying_def)
  show "\<And>rep d'. ref_exec (DropTable ''items'') (conn_db (view db)) = (Inr rep, d') \<Longrightarrow>
    d' = copying d rows\<lparr>tables := filter (\<lambda>(n, _). n \<noteq> ''items'') (tables (copying d rows))\<rparr>"
    unfolding tx(2) finish_copying(1) [OF d(1,2)] by simp
  fix db1
  assume h1: "conn_saved (view db1) = Some s"
    "conn_db (view db1) = copying d rows\<lparr>tables := filter (\<lambda>(n, _). n \<noteq> ''items'') (tables (copying d rows))\<rparr>"
  show "runs view (cseq (exec_ignore conn (AlterRename ''items_v1'' ''items''))
     (cseq (exec_ignore conn (PragmaSetUserVersion 1)) (ValidateV1Schema conn))) db1 (\<lambda>_ d'. d' = migrated d rows)"
  proof (rule seq_tx [OF h1(1)], rule exec_ignore_runs_to)
    show "in_scope (AlterRename ''items_v1'' ''items'') (conn_db (view db1))" using d h1 by (simp add: copying_def)
    show "\<And>rep d'. ref_exec (AlterRename ''items_v1'' ''items'') (conn_db (view db1)) = (Inr rep, d') \<Longrightarrow>
      d' = migrated d rows\<lparr>user_version := user_version d\<rparr>"
      unfolding h1(2) finish_copying(2) [OF d(1,2)] by simp
    fix db2
    assume h2: "conn_saved (view db2) = Some s"
      "conn_db (view db2) = migrated d rows\<lparr>user_version := user_version d\<rparr>"
    show "runs view (cseq (exec_ignore conn (PragmaSetUserVersion 1)) (ValidateV1Schema conn)) db2
      (\<lambda>_ d'. d' = migrated d rows)"
      by (rule seq_tx [OF h2(1)], rule exec_ignore_runs_to [where d' = "migrated d rows"])
        (auto simp: h2(2) migrated_def intro!: runs_conseq [OF ValidateV1Schema_runs])
  qed simp_all
qed simp_all

lemma verify_count_runs:
  assumes "map_of (tables d) ''items_v1'' = None" "conn_db (view db) = copying d rows"
  shows "runs view (verify_count conn items) db (\<lambda>_ d'. d' = conn_db (view db) \<and> length rows = length items)"
  unfolding verify_count_def
  by (rule runs_bind_read [where P = "\<lambda>q. scalar_int q = Inr (int (length rows))"])
    (use assms in \<open>auto simp: read_scope_def copying_table v1_table_def ref_query_def device_table_def
      reply_matches_def scalar_int_def getColumn_def intro!: runs_exec runs_ret\<close>)

lemma copy_items_runs:
  assumes d: "map_of (tables d) ''items_v1'' = None" "map_of (tables d) ''items'' = Some t" "objects d = []"
    and tx: "conn_saved (view db) = Some s" "conn_db (view db) = d"
  shows "runs view (copy_items conn items) db
    (\<lambda>_ d'. d' = migrated d (map BindItem items) \<and> distinct (map item_id items))"
  unfolding copy_items_def
proof (rule seq_tx [OF tx(1)], rule exec_ignore_runs_to)
  show "in_scope (CreateTable CreateV1MigrationSql) (conn_db (view db))" using d tx by simp
  show "\<And>rep d'. ref_exec (CreateTable CreateV1MigrationSql) (conn_db (view db)) = (Inr rep, d') \<Longrightarrow>
      d' = copying d []"
    using d tx
    by (auto simp: ref_create_def copying_def v1_table_def CreateV1MigrationSql_def CreateV1ItemsSql_def Let_def)
  fix db1
  assume h1: "conn_saved (view db1) = Some s" "conn_db (view db1) = copying d []"
  show "runs view (cseq (cfor items (InsertItem conn ''items_v1''))
      (cseq (verify_count conn items) (finish_migration conn))) db1
    (\<lambda>_ d'. d' = migrated d (map BindItem items) \<and> distinct (map item_id items))"
  proof (rule seq_tx [OF h1(1) insert_items_runs [OF d(1,3) h1]])
    fix db2
    assume h2: "conn_saved (view db2) = Some s"
      "conn_db (view db2) = copying d (map BindItem items) \<and> distinct (map item_id items)"
    then have c: "conn_db (view db2) = copying d (map BindItem items)" by simp
    show "runs view (cseq (verify_count conn items) (finish_migration conn)) db2
      (\<lambda>_ d'. d' = migrated d (map BindItem items) \<and> distinct (map item_id items))"
      by (rule runs_seq_read [OF verify_count_runs [OF d(1) c]])
        (use h2 in \<open>auto intro!: runs_conseq [OF finish_migration_runs [OF d]]\<close>)
  qed
qed simp

lemma migrate_body_runs:
  assumes i: "intact (conn_db (view db))" "only_items (conn_db (view db))"
    and t: "map_of (tables (conn_db (view db))) ''items'' = Some t" "tb_columns t = DeviceColumns"
    and tx: "conn_saved (view db) = Some s"
  shows "runs view (migrate_body conn) db (\<lambda>_ d'. d' = migrated (conn_db (view db)) (tb_rows t) \<and>
    (\<exists>items. stores (conn_db (view db)) items))"
  unfolding migrate_body_def
proof (rule runs_bind_read)
  let ?d = "conn_db (view db)"
  show "runs view (sq_exec conn (SelectItemsByRowid ''items'')) db (\<lambda>q d'. d' = ?d \<and> reply_rows q = tb_rows t)"
    by (rule runs_exec) (use t in \<open>auto simp: read_scope_def ref_query_def device_table_def reply_matches_def\<close>)
  fix q db1
  assume v: "view db1 = view db" and q: "reply_rows q = tb_rows t"
  have d: "map_of (tables ?d) ''items_v1'' = None" "objects ?d = []" "intact_table (''items'', t)"
    using only_items_table [OF i] only_items_filter [OF i] t by auto
  then have five: "list_all (\<lambda>r. length r = 5) (tb_rows t)" using t by (simp add: intact_table_def)
  have "runs view (copy_items conn items) db1
      (\<lambda>_ d'. d' = migrated ?d (tb_rows t) \<and> (\<exists>items. stores ?d items))"
    if items: "emap DecodeDatabaseItem (tb_rows t) = Inr items" for items
    using decoded_rows [OF items five] v t tx
    by (intro runs_conseq [OF copy_items_runs [OF d(1) t(1) d(2)]]) (auto simp: stores_def device_rows_def)
  then show "runs view (cbind (clift (emap DecodeDatabaseItem (reply_rows q))) (copy_items conn)) db1
      (\<lambda>_ d'. d' = migrated ?d (tb_rows t) \<and> (\<exists>items. stores ?d items))"
    by (cases "emap DecodeDatabaseItem (tb_rows t)") (auto simp: q)
qed

lemma MigrateUnversionedDeviceSchema_runs:
  assumes i: "intact (conn_db (view db))"
  shows "runs view (MigrateUnversionedDeviceSchema conn) db (\<lambda>_ d'. unversioned_schema (conn_db (view db)) \<and>
    d' = migrated (conn_db (view db)) (device_rows (conn_db (view db))) \<and> (\<exists>items. stores (conn_db (view db)) items))"
  unfolding MigrateUnversionedDeviceSchema_def
proof (rule runs_seq_read [OF ValidateOnlyItemsObject_runs], rule runs_seq_read [OF ValidateDeviceColumns_runs],
    rule runs_seq_read [OF ValidateExactCreateSql_runs], rule runs_transaction)
  let ?d = "conn_db (view db)"
  fix db1 db2 db3 db4
  assume v: "view db1 = view db" "view db2 = view db1" "view db3 = view db2" and only: "only_items ?d"
    and t: "\<exists>t. map_of (tables (conn_db (view db1))) ''items'' = Some t \<and> tb_columns t = DeviceColumns \<and>
      length (tb_indexes t) = 1 \<and> (\<forall>ix \<in> set (tb_indexes t). ix_unique ix \<and> \<not> ix_partial ix \<and>
      (\<exists>ix'. find_index (ix_name ix) (conn_db (view db1)) = Some ix' \<and> ix_columns ix' = [''device_id'']))"
    and d4: "conn_db (view db4) = conn_db (view db3)" "conn_saved (view db4) = Some (conn_db (view db3))"
    and sql: "\<exists>t. map_of (tables (conn_db (view db2))) ''items'' = Some t \<and>
      NormalizeSql (tb_sql t) = NormalizeSql CreateUnversionedItemsSql"
  obtain u where u: "map_of (tables (conn_db (view db4))) ''items'' = Some u" "tb_columns u = DeviceColumns"
    using t v d4 by auto
  have uv: "unversioned_schema ?d"
    using checked_indexes [OF i only] t v sql only by (auto simp: unversioned_schema_def)
  show "runs view (migrate_body conn) db4 (\<lambda>_ d'. unversioned_schema ?d \<and> d' = migrated ?d (device_rows ?d) \<and>
      (\<exists>items. stores ?d items))"
    by (rule runs_conseq [OF migrate_body_runs [OF _ _ u d4(2)]])
      (use i only v d4 u uv in \<open>auto simp: device_rows_def\<close>)
qed

lemma legacy_schema_runs:
  "runs view (legacy_schema conn) db (\<lambda>_ d. d = conn_db (view db))"
  unfolding legacy_schema_def
  by (rule runs_bind_read [OF ReadColumns_runs])
    (auto intro!: runs_ret runs_bind_read [OF ReadCreateSql_runs])

lemma user_version_runs:
  "runs view (sq_exec conn PragmaUserVersion) db (\<lambda>q d. d = conn_db (view db) \<and>
     scalar_int q = Inr (user_version (conn_db (view db))))"
  by (rule runs_exec) (auto simp: reply_matches_def scalar_int_def getColumn_def)

lemma initialize_schema_runs:
  assumes i: "intact (conn_db (view db))"
  shows "runs view (initialize_schema conn) db (\<lambda>_ d'. initialized_from (conn_db (view db)) d')"
  unfolding initialize_schema_def
proof (rule runs_bind_read [OF user_version_runs])
  let ?d = "conn_db (view db)"
  fix q db1
  assume v1: "view db1 = view db" and q: "scalar_int q = Inr (user_version ?d)"
  have old: "runs view (MigrateUnversionedDeviceSchema conn) db' (\<lambda>_ d'. initialized_from ?d d')"
    if "view db' = view db" "user_version ?d = 0" for db'
    by (rule runs_conseq [OF MigrateUnversionedDeviceSchema_runs])
      (use i that in \<open>auto simp: initialized_from_def acceptable_def ready_migrated device_rows_migrated
        unversioned_schema_def only_items_filter, auto simp: migrated_def\<close>)
  have new: "runs view (create_fresh conn) db' (\<lambda>_ d'. initialized_from ?d d')"
    if "view db' = view db" "map_of (tables ?d) ''items'' = None" "user_version ?d = 0" for db'
    by (rule runs_conseq [OF create_fresh_runs])
      (use i that in \<open>auto simp: initialized_from_def acceptable_def no_user_objects ready_fresh device_rows_fresh stores_def device_rows_def,
        auto simp: fresh_v1_def map_add_def v1_table_def\<close>)
  have unversioned: "runs view (cbind (TableExists conn ''items'') (\<lambda>exists.
      if \<not> exists then create_fresh conn
      else cbind (legacy_schema conn) (\<lambda>legacy. if legacy
        then cthrow (DatabaseSchema ''legacy key/value items schema is unsupported and was left unchanged'')
        else MigrateUnversionedDeviceSchema conn))) db1 (\<lambda>_ d'. initialized_from ?d d')"
    if "user_version ?d = 0"
    by (rule runs_bind_read [OF TableExists_runs])
      (use that v1 in \<open>auto intro!: new old runs_bind_read [where P = "\<lambda>_. True", OF runs_conseq [OF legacy_schema_runs]]\<close>)
  have current: "runs view (ValidateV1Schema conn) db1 (\<lambda>_ d'. initialized_from ?d d')" if "user_version ?d = 1"
    by (rule runs_conseq [OF ValidateV1Schema_runs]) (use that v1 i in \<open>auto simp: initialized_from_def acceptable_def\<close>)
  show "runs view (cbind (clift (scalar_int q)) (\<lambda>version.
     if version = CurrentSchemaVersion then ValidateV1Schema conn
     else if version \<noteq> 0
     then cthrow (DatabaseSchema (''unsupported database schema version: '' @ dec_of_int version))
     else cbind (TableExists conn ''items'') (\<lambda>exists.
       if \<not> exists then create_fresh conn
       else cbind (legacy_schema conn) (\<lambda>legacy.
         if legacy
         then cthrow (DatabaseSchema ''legacy key/value items schema is unsupported and was left unchanged'')
         else MigrateUnversionedDeviceSchema conn)))) db1 (\<lambda>_ d'. initialized_from ?d d')"
    using unversioned current by (auto simp: q CurrentSchemaVersion_def)
qed

end

end
