(* ===== verification/Database_Interface.thy ===== *)
theory Database_Interface
  imports Device_Item "HOL-Library.Multiset"
begin

text \<open>
  \<^verbatim>\<open>src/src/Utils/Storage/IDatabase.hpp\<close>: the virtual functions of the storage interface
  as a record of operations over a state, and the contract its comments state as the locale
  \<open>idatabase\<close>. Its parameter \<open>devices s items\<close> says that the object in state \<open>s\<close> is
  initialised and stores \<open>items\<close>, in the implementation's natural order. Every operation that
  throws leaves the stored devices alone. \<open>idatabase_reliable\<close> adds when operations succeed.
\<close>

record 'd IDatabase =
  idb_Initialize :: "('d, unit) comp"
  idb_AddItem :: "DatabaseItem \<Rightarrow> ('d, unit) comp"
  idb_UpsertItem :: "DatabaseItem \<Rightarrow> ('d, unit) comp"
  idb_GetItem :: "string \<Rightarrow> ('d, DatabaseItem option) comp"
  idb_GetAllItems :: "('d, DatabaseItem list) comp"
  idb_ReplaceAll :: "DatabaseItem list \<Rightarrow> ('d, unit) comp"
  idb_GetAllSortedById :: "('d, DatabaseItem list) comp"
  idb_ContainsItem :: "string \<Rightarrow> ('d, bool) comp"
  idb_CountItems :: "('d, int) comp"
  idb_RemoveItem :: "string \<Rightarrow> ('d, bool) comp"
  idb_Clear :: "('d, unit) comp"

section \<open>Device lists\<close>

definition ids :: "DatabaseItem list \<Rightarrow> string set" where
  "ids items = item_id ` set items"

definition lookup_item :: "string \<Rightarrow> DatabaseItem list \<Rightarrow> DatabaseItem option" where
  "lookup_item i items = List.find (\<lambda>x. item_id x = i) items"

definition upsert_item :: "DatabaseItem \<Rightarrow> DatabaseItem list \<Rightarrow> DatabaseItem list" where
  "upsert_item item items =
     (if item_id item \<in> ids items then map (\<lambda>x. if item_id x = item_id item then item else x) items
      else items @ [item])"

definition remove_item :: "string \<Rightarrow> DatabaseItem list \<Rightarrow> DatabaseItem list" where
  "remove_item i items = filter (\<lambda>x. item_id x \<noteq> i) items"

definition device_list :: "DatabaseItem list \<Rightarrow> bool" where
  "device_list items \<longleftrightarrow> list_all valid_item items \<and> distinct (map item_id items)"

lemma lookup_item_upsert:
  "lookup_item i (upsert_item item items) = (if i = item_id item then Some item else lookup_item i items)"
proof -
  have "List.find (\<lambda>x. item_id x = i) (map (\<lambda>x. if item_id x = item_id item then item else x) items) =
    (if i = item_id item then (if i \<in> ids items then Some item else None) else List.find (\<lambda>x. item_id x = i) items)"
    by (induction items) (auto simp: ids_def)
  moreover have "i \<notin> ids items \<Longrightarrow> List.find (\<lambda>x. item_id x = i) (items @ [item]) =
    (if i = item_id item then Some item else None)"
    by (induction items) (auto simp: ids_def)
  moreover have "i \<noteq> item_id item \<Longrightarrow> List.find (\<lambda>x. item_id x = i) (items @ [item]) = List.find (\<lambda>x. item_id x = i) items"
    by (induction items) auto
  ultimately show ?thesis by (cases "i = item_id item") (auto simp: lookup_item_def upsert_item_def)
qed

lemma lookup_item_remove:
  "lookup_item i (remove_item j items) = (if i = j then None else lookup_item i items)"
  by (induction items) (auto simp: lookup_item_def remove_item_def)

lemma lookup_item_None: "lookup_item i items = None \<longleftrightarrow> i \<notin> ids items"
  by (auto simp: lookup_item_def find_eq_None_iff ids_def)

lemma ids_upsert [simp]: "ids (upsert_item item items) = insert (item_id item) (ids items)"
  by (auto simp: upsert_item_def ids_def)

lemma ids_remove [simp]: "ids (remove_item i items) = ids items - {i}"
  by (auto simp: remove_item_def ids_def)

lemma ids_snoc [simp]: "ids (items @ [item]) = insert (item_id item) (ids items)"
  by (auto simp: ids_def)

lemma map_id_upsert:
  "map item_id (upsert_item item items) =
     (if item_id item \<in> ids items then map item_id items else map item_id items @ [item_id item])"
  by (auto simp: upsert_item_def)

lemma device_list_upsert: "device_list items \<Longrightarrow> valid_item item \<Longrightarrow> device_list (upsert_item item items)"
  by (auto simp: device_list_def map_id_upsert list_all_iff) (auto simp: upsert_item_def ids_def split: if_splits)

lemma device_list_snoc:
  "device_list (items @ [item]) \<longleftrightarrow> device_list items \<and> valid_item item \<and> item_id item \<notin> ids items"
  by (auto simp: device_list_def ids_def)

lemma device_list_remove: "device_list items \<Longrightarrow> device_list (remove_item i items)"
  by (auto simp: device_list_def remove_item_def list_all_iff distinct_map_filter)

lemma remove_item_absent: "i \<notin> ids items \<Longrightarrow> remove_item i items = items"
  by (auto simp: remove_item_def ids_def filter_id_conv)

section \<open>The contract\<close>

definition outcome :: "('d \<Rightarrow> DatabaseItem list \<Rightarrow> bool) \<Rightarrow> DatabaseItem list \<Rightarrow> (cpp_exn + 'a) \<times> 'd \<Rightarrow>
    ('a \<Rightarrow> DatabaseItem list \<Rightarrow> bool) \<Rightarrow> bool" where
  "outcome devices items p Q \<longleftrightarrow>
     (case p of
        (Inl e, s') \<Rightarrow> devices s' items
      | (Inr x, s') \<Rightarrow> (\<exists>items'. devices s' items' \<and> Q x items'))"

lemma outcome_mono:
  "outcome devices items p Q \<Longrightarrow> (\<And>x items'. Q x items' \<Longrightarrow> R x items') \<Longrightarrow> outcome devices items p R"
  by (fastforce simp: outcome_def split: prod.splits sum.splits)

lemma outcome_throw [simp]: "outcome devices items (cthrow e s) Q \<longleftrightarrow> devices s items"
  by (simp add: outcome_def cthrow_def)

locale idatabase =
  fixes db :: "'d IDatabase" and devices :: "'d \<Rightarrow> DatabaseItem list \<Rightarrow> bool"
  assumes device_list: "devices s items \<Longrightarrow> device_list items"
  and unique: "devices s items \<Longrightarrow> devices s items' \<Longrightarrow> items = items'"
  and add: "devices s items \<Longrightarrow> outcome devices items (idb_AddItem db item s)
      (\<lambda>_ items'. valid_item item \<and> item_id item \<notin> ids items \<and> items' = items @ [item])"
  and upsert: "devices s items \<Longrightarrow> outcome devices items (idb_UpsertItem db item s)
      (\<lambda>_ items'. valid_item item \<and> items' = upsert_item item items)"
  and get: "devices s items \<Longrightarrow> outcome devices items (idb_GetItem db i s)
      (\<lambda>x items'. items' = items \<and> x = lookup_item i items)"
  and get_all: "devices s items \<Longrightarrow> outcome devices items (idb_GetAllItems db s)
      (\<lambda>xs items'. items' = items \<and> set xs = set items \<and> length xs = length items)"
  and replace_all: "devices s items \<Longrightarrow> outcome devices items (idb_ReplaceAll db new s)
      (\<lambda>_ items'. device_list new \<and> items' = new)"
  and get_sorted: "devices s items \<Longrightarrow> outcome devices items (idb_GetAllSortedById db s)
      (\<lambda>xs items'. items' = items \<and> xs = sort_key item_id items)"
  and contains: "devices s items \<Longrightarrow> outcome devices items (idb_ContainsItem db i s)
      (\<lambda>b items'. items' = items \<and> b = (i \<in> ids items))"
  and count: "devices s items \<Longrightarrow> outcome devices items (idb_CountItems db s)
      (\<lambda>n items'. items' = items \<and> n = int (length items))"
  and remove: "devices s items \<Longrightarrow> outcome devices items (idb_RemoveItem db i s)
      (\<lambda>b items'. items' = remove_item i items \<and> b = (i \<in> ids items))"
  and clear: "devices s items \<Longrightarrow> outcome devices items (idb_Clear db s) (\<lambda>_ items'. items' = [])"

locale idatabase_reliable = idatabase +
  assumes upsert_total: "devices s items \<Longrightarrow> valid_item item \<Longrightarrow> \<exists>s'. idb_UpsertItem db item s = (Inr (), s')"
  and add_total: "devices s items \<Longrightarrow> valid_item item \<Longrightarrow> item_id item \<notin> ids items \<Longrightarrow>
      \<exists>s'. idb_AddItem db item s = (Inr (), s')"
  and get_total: "devices s items \<Longrightarrow> \<exists>x s'. idb_GetItem db i s = (Inr x, s')"
  and replace_all_total: "devices s items \<Longrightarrow> device_list new \<Longrightarrow> \<exists>s'. idb_ReplaceAll db new s = (Inr (), s')"
  and get_sorted_total: "devices s items \<Longrightarrow> \<exists>xs s'. idb_GetAllSortedById db s = (Inr xs, s')"
  and remove_total: "devices s items \<Longrightarrow> \<exists>b s'. idb_RemoveItem db i s = (Inr b, s')"
  and clear_total: "devices s items \<Longrightarrow> \<exists>s'. idb_Clear db s = (Inr (), s')"

text \<open>Two device lists with the same members list the same devices once sorted by id.\<close>

lemma sort_key_id_unique:
  assumes "device_list xs" "device_list ys" "set xs = set ys"
  shows "sort_key item_id xs = sort_key item_id ys"
proof -
  have "distinct xs" "distinct ys"
    using assms by (auto simp: device_list_def distinct_map)
  then have "mset xs = mset ys" using assms(3) set_eq_iff_mset_eq_distinct by blast
  moreover have "inj_on item_id (set xs)" using assms(1) by (simp add: device_list_def distinct_map)
  ultimately show ?thesis
    by (intro sort_key_inj_key_eq) auto
qed

end
