(* ===== verification/Sqlite_Operations.thy ===== *)
theory Sqlite_Operations
  imports Sqlite_Schema Database_Interface
begin

text \<open>
  The storage operations of \<^verbatim>\<open>SQLiteDatabase\<close> on an initialised database refine the device
  lists of \<open>Database_Interface\<close>: \<open>sqlite_database\<close> is the class as an implementation of
  \<^verbatim>\<open>IDatabase\<close>, \<open>opened\<close> the relation between its state and the stored devices, and the
  sublocale at the end discharges the contract for every connection that satisfies
  \<open>sqlite_engine\<close>.
\<close>

definition sqlite_database :: "'db sqlite \<Rightarrow> 'db SQLiteDatabase IDatabase" where
  "sqlite_database conn =
     \<lparr>idb_Initialize = SQLiteDatabase_Initialize conn,
      idb_AddItem = SQLiteDatabase_AddItem conn,
      idb_UpsertItem = SQLiteDatabase_UpsertItem conn,
      idb_GetItem = SQLiteDatabase_GetItem conn,
      idb_GetAllItems = SQLiteDatabase_GetAllItems conn,
      idb_ReplaceAll = SQLiteDatabase_ReplaceAll conn,
      idb_GetAllSortedById = SQLiteDatabase_GetAllSortedById conn,
      idb_ContainsItem = SQLiteDatabase_ContainsItem conn,
      idb_CountItems = SQLiteDatabase_CountItems conn,
      idb_RemoveItem = SQLiteDatabase_RemoveItem conn,
      idb_Clear = SQLiteDatabase_Clear conn\<rparr>"

definition holds_devices :: "ref_db \<Rightarrow> DatabaseItem list \<Rightarrow> bool" where
  "holds_devices d items \<longleftrightarrow> ready d \<and> stores d items"

definition opened :: "('db \<Rightarrow> ref_conn) \<Rightarrow> 'db SQLiteDatabase \<Rightarrow> DatabaseItem list \<Rightarrow> bool" where
  "opened view s items \<longleftrightarrow> sqdb_initialized s \<and> conn_saved (view (sqdb_database s)) = None \<and>
     holds_devices (conn_db (view (sqdb_database s))) items"

section \<open>The statements on a ready database\<close>

lemma validated_row_checks: "valid_item item \<Longrightarrow> v1_check (BindItem item)"
proof -
  assume v: "valid_item item"
  have "uint (item_port item) < 2 ^ 16" using uint_lt2p [of "item_port item"] by simp
  with v valid_address_bounds [of "item_ipAddress item"] show ?thesis
    by (auto simp: v1_check_def BindItem_def valid_item_def Suc_le_eq)
qed

lemma map_of_update_table:
  "map_of (update_table n f ts) m = (if m = n then map_option f (map_of ts n) else map_of ts m)"
  by (induction n f ts rule: update_table.induct) auto

lemma ready_set_rows [simp]: "ready (set_rows ''items'' rows d) = ready d"
  by (simp add: ready_def set_rows_def map_of_update_table split: option.splits)

lemma device_rows_set_rows: "ready d \<Longrightarrow> device_rows (set_rows ''items'' rows d) = rows"
  by (auto simp: ready_def device_rows_def set_rows_def map_of_update_table split: option.splits)

lemma user_version_set_rows [simp]: "user_version (set_rows n rows d) = user_version d"
  by (simp add: set_rows_def)

lemma row_key_BindItem [simp]: "row_key (BindItem item) = SText (item_id item)"
  by (simp add: row_key_def BindItem_def)

lemma holds_devicesE:
  assumes "holds_devices d items"
  obtains t where "map_of (tables d) ''items'' = Some t" "device_table d ''items'' = Some t"
    "tb_rows t = map BindItem items" "v1_text (tb_sql t)" "unique_on ''device_id'' t"
    "write_scope ''items'' d" "read_scope ''items'' d" "device_list items" "ready d"
proof -
  from assms obtain t where t: "objects d = []" "map_of (tables d) ''items'' = Some t" "tb_columns t = DeviceColumns"
    "length (tb_indexes t) = 1" "list_all device_unique (tb_indexes t)"
    "NormalizeSql (tb_sql t) = NormalizeSql CreateV1ItemsSql"
    by (auto simp: holds_devices_def ready_def split: option.splits)
  moreover have "unique_on ''device_id'' t"
    using t(4,5) by (auto simp: unique_on_def device_unique_def length_Suc_conv)
  moreover have "tb_rows t = map BindItem items" "device_list items" "ready d"
    using assms t(2) by (auto simp: holds_devices_def stores_def device_rows_def device_list_def)
  ultimately show thesis
    using that by (auto simp: device_table_def v1_text_def write_scope_def read_scope_def)
qed

lemma holds_set_rows:
  "ready d \<Longrightarrow> device_list items \<Longrightarrow> holds_devices (set_rows ''items'' (map BindItem items) d) items"
  by (simp add: holds_devices_def stores_def device_rows_set_rows device_list_def)

lemma insert_ready:
  assumes "holds_devices d items" "valid_item item"
  shows "ref_exec (InsertItem_stmt ''items'' (BindItem item)) d =
    (if item_id item \<in> ids items then sql_error ''UNIQUE constraint failed: items.device_id'' d
     else (Inr (reply [] 1), set_rows ''items'' (map BindItem (items @ [item])) d))"
  using assms(1)
  by (rule holds_devicesE)
    (use validated_row_checks [OF assms(2)] in \<open>auto simp: ref_insert_def table_check_def ids_def image_image\<close>)

lemma upsert_ready:
  assumes "holds_devices d items" "valid_item item"
  shows "ref_exec (UpsertItem_stmt (BindItem item)) d =
    (Inr (reply [] 1), set_rows ''items'' (map BindItem (upsert_item item items)) d)"
proof -
  have "upsert_rows (BindItem item) (map BindItem items) = map BindItem (upsert_item item items)"
    by (auto simp: upsert_rows_def upsert_item_def ids_def)
  with assms(1) show ?thesis
    by (elim holds_devicesE) (use validated_row_checks [OF assms(2)] in \<open>simp add: ref_upsert_def table_check_def\<close>)
qed

lemma delete_ready:
  assumes "holds_devices d items"
  shows "ref_exec (DeleteWhere i) d =
    (Inr (reply [] (length (filter (\<lambda>x. item_id x = i) items))),
     set_rows ''items'' (map BindItem (remove_item i items)) d)"
    "ref_exec DeleteAll d = (Inr (reply [] (length items)), set_rows ''items'' (map BindItem []) d)"
  using assms by (auto elim!: holds_devicesE simp: ref_delete_def remove_item_def filter_map o_def)

lemma insort_key_map: "insort_key f (g x) (map g xs) = map g (insort_key (\<lambda>x. f (g x)) x xs)"
  by (induction xs) auto

lemma sort_device_rows_BindItem: "sort_device_rows (map BindItem items) = map BindItem (sort_key item_id items)"
proof -
  have "sort_key (\<lambda>r. getString (row_key r)) (map BindItem items) =
      map BindItem (sort_key (\<lambda>x. getString (row_key (BindItem x))) items)"
    by (induction items) (simp_all add: insort_key_map)
  then show ?thesis by (simp add: sort_device_rows_def)
qed

lemma query_ready:
  assumes "holds_devices d items"
  shows "ref_exec (SelectItemWhere i) d = (Inr (reply (map BindItem (filter (\<lambda>x. item_id x = i) items)) 0), d)"
    "ref_exec SelectItems d = (Inr (reply (map BindItem items) 0), d)"
    "ref_exec SelectItemsByDeviceId d = (Inr (reply (map BindItem (sort_key item_id items)) 0), d)"
    "ref_exec (SelectExists i) d = (Inr (reply (if i \<in> ids items then [[SInteger 1]] else []) 0), d)"
    "ref_exec (SelectCount ''items'') d = (Inr (reply [[SInteger (int (length items))]] 0), d)"
  using assms
  by (auto elim!: holds_devicesE simp: ref_query_def filter_map o_def sort_device_rows_BindItem ids_def)

lemma decode_rows: "list_all valid_item items \<Longrightarrow> emap DecodeDatabaseItem (map BindItem items) = Inr items"
  by (induction items) (auto simp: Decode_Bind)

lemma decode_permuted:
  assumes "list_all valid_item items" "mset rows = mset (map BindItem items)"
  shows "\<exists>xs. emap DecodeDatabaseItem rows = Inr xs \<and> set xs = set items \<and> length xs = length items"
proof -
  have "set rows = BindItem ` set items" using assms(2) by (metis list.set_map set_mset_mset)
  then have "\<forall>r \<in> set rows. \<exists>x. x \<in> set items \<and> r = BindItem x" by auto
  then obtain f where f: "\<forall>r \<in> set rows. f r \<in> set items \<and> r = BindItem (f r)" by metis
  then have "emap DecodeDatabaseItem rows = Inr (map f rows)"
    using assms(1) by (intro emap_total) (metis Decode_Bind list_all_iff)
  moreover have "set (map f rows) = set items"
    using f \<open>set rows = BindItem ` set items\<close> by force
  moreover have "length (map f rows) = length items"
    using assms(2) by (metis length_map size_mset)
  ultimately show ?thesis by blast
qed

section \<open>The operations\<close>

lemma opened_ensure: "opened view s items \<Longrightarrow> cseq EnsureInitialized n s = n s"
  by (simp add: opened_def cseq_def cbind_def EnsureInitialized_def)

context sqlite_engine
begin

lemma write_outcome:
  assumes o: "opened view s items"
    and m: "runs view m (sqdb_database s) Q"
    and Q: "\<And>x d. Q x d \<Longrightarrow> \<exists>items'. holds_devices d items' \<and> R x items'"
  shows "outcome (opened view) items (on_database m s) R"
proof -
  obtain r db' where r: "m (sqdb_database s) = (r, db')" by fastforce
  show ?thesis
  proof (cases r)
    case (Inl e)
    with m r o show ?thesis by (auto simp: outcome_def on_database_def runs_def opened_def)
  next
    case (Inr x)
    with m r have "conn_saved (view db') = conn_saved (view (sqdb_database s))" "Q x (conn_db (view db'))"
      by (auto simp: runs_def)
    with Q [of x "conn_db (view db')"] o r Inr show ?thesis
      by (auto simp: outcome_def on_database_def opened_def)
  qed
qed

lemma outcome_bind:
  assumes "outcome devices items (m s) Q"
    and "\<And>x s' items'. devices s' items' \<Longrightarrow> Q x items' \<Longrightarrow> \<exists>y. f x s' = (Inr y, s') \<and> R y items'"
  shows "outcome devices items (cbind m f s) R"
  using assms by (fastforce simp: outcome_def cbind_def split: prod.splits sum.splits)

lemma AddItem_outcome:
  assumes o: "opened view s items"
  shows "outcome (opened view) items (SQLiteDatabase_AddItem conn item s)
    (\<lambda>_ items'. valid_item item \<and> item_id item \<notin> ids items \<and> items' = items @ [item])"
proof (cases "valid_item item")
  case False
  then obtain e where "ValidateItem item = Inl e" using ValidateItem_Inr by (cases "ValidateItem item") auto
  then show ?thesis
    using o by (simp add: SQLiteDatabase_AddItem_def opened_ensure [OF o] cthrow_def outcome_def)
next
  case True
  let ?d = "conn_db (view (sqdb_database s))"
  have h: "holds_devices ?d items" using o by (simp add: opened_def)
  have "runs view (InsertItem conn ''items'' item) (sqdb_database s)
      (\<lambda>_ d'. item_id item \<notin> ids items \<and> d' = set_rows ''items'' (map BindItem (items @ [item])) ?d)"
    unfolding InsertItem_def
    by (rule runs_exec_ignore)
      (use h in \<open>auto simp: insert_ready [OF h True] elim!: holds_devicesE simp del: ref_exec.simps split: if_splits\<close>)
  then have "outcome (opened view) items (on_database (InsertItem conn ''items'' item) s)
    (\<lambda>_ items'. valid_item item \<and> item_id item \<notin> ids items \<and> items' = items @ [item])"
    by (rule write_outcome [OF o])
      (use h True in \<open>auto elim!: holds_devicesE simp: device_list_snoc
        intro!: holds_set_rows [where items = "items @ [item]", simplified]\<close>)
  moreover have "ValidateItem item = Inr ()" using True ValidateItem_Inr by blast
  ultimately show ?thesis by (simp add: SQLiteDatabase_AddItem_def opened_ensure [OF o])
qed

lemma UpsertItem_outcome:
  assumes o: "opened view s items"
  shows "outcome (opened view) items (SQLiteDatabase_UpsertItem conn item s)
    (\<lambda>_ items'. valid_item item \<and> items' = upsert_item item items)"
proof (cases "valid_item item")
  case False
  then obtain e where "ValidateItem item = Inl e" using ValidateItem_Inr by (cases "ValidateItem item") auto
  then show ?thesis
    using o by (simp add: SQLiteDatabase_UpsertItem_def opened_ensure [OF o] cthrow_def outcome_def)
next
  case True
  let ?d = "conn_db (view (sqdb_database s))"
  have h: "holds_devices ?d items" using o by (simp add: opened_def)
  have "runs view (exec_ignore conn (UpsertItem_stmt (BindItem item))) (sqdb_database s)
      (\<lambda>_ d'. d' = set_rows ''items'' (map BindItem (upsert_item item items)) ?d)"
    by (rule runs_exec_ignore)
      (use h in \<open>auto simp: upsert_ready [OF h True] elim!: holds_devicesE simp del: ref_exec.simps\<close>)
  then have "outcome (opened view) items (on_database (exec_ignore conn (UpsertItem_stmt (BindItem item))) s)
    (\<lambda>_ items'. valid_item item \<and> items' = upsert_item item items)"
    by (rule write_outcome [OF o])
      (use h True in \<open>auto elim!: holds_devicesE intro!: holds_set_rows device_list_upsert\<close>)
  moreover have "ValidateItem item = Inr ()" using True ValidateItem_Inr by blast
  ultimately show ?thesis by (simp add: SQLiteDatabase_UpsertItem_def opened_ensure [OF o])
qed

lemma query_outcome:
  assumes o: "opened view s items" and "in_scope stmt (conn_db (view (sqdb_database s)))"
    and "ref_exec stmt (conn_db (view (sqdb_database s))) = (Inr rep, conn_db (view (sqdb_database s)))"
  shows "outcome (opened view) items (on_database (sq_exec conn stmt) s)
    (\<lambda>q items'. items' = items \<and> reply_matches stmt q rep)"
proof (rule write_outcome [OF o])
  show "runs view (sq_exec conn stmt) (sqdb_database s)
      (\<lambda>q d. d = conn_db (view (sqdb_database s)) \<and> reply_matches stmt q rep)"
    by (rule runs_exec) (use assms in auto)
qed (use o in \<open>auto simp: opened_def\<close>)

lemma opened_scopes:
  assumes "opened view s items"
  shows "holds_devices (conn_db (view (sqdb_database s))) items"
    "write_scope ''items'' (conn_db (view (sqdb_database s)))"
    "read_scope ''items'' (conn_db (view (sqdb_database s)))" "device_list items" "list_all valid_item items"
  using assms by (auto simp: opened_def device_list_def elim: holds_devicesE)

lemma GetItem_outcome:
  assumes o: "opened view s items"
  shows "outcome (opened view) items (SQLiteDatabase_GetItem conn i s)
    (\<lambda>x items'. items' = items \<and> x = lookup_item i items)"
  unfolding SQLiteDatabase_GetItem_def opened_ensure [OF o]
proof (rule outcome_bind, rule query_outcome [OF o _ query_ready(1) [OF opened_scopes(1) [OF o]]])
  fix q s' items'
  assume q: "items' = items \<and> reply_matches (SelectItemWhere i) q
    (reply (map BindItem (filter (\<lambda>x. item_id x = i) items)) 0)"
  have f: "lookup_item i items = (case filter (\<lambda>x. item_id x = i) items of [] \<Rightarrow> None | x # _ \<Rightarrow> Some x)"
    by (induction items) (auto simp: lookup_item_def)
  have "valid_item x" if "filter (\<lambda>x. item_id x = i) items = x # xs" for x xs
    using opened_scopes(5) [OF o] that by (metis filter_eq_ConsD in_set_conv_decomp list_all_iff)
  then show "\<exists>y. (case reply_rows q of [] \<Rightarrow> cret None
      | row # _ \<Rightarrow> cbind (clift (DecodeDatabaseItem row)) (\<lambda>item. cret (Some item))) s' = (Inr y, s') \<and>
      items' = items \<and> y = lookup_item i items"
    using q by (auto simp: reply_matches_def f cret_def Decode_Bind split: list.splits)
qed (use opened_scopes [OF o] in simp)

lemma GetAllItems_outcome:
  assumes o: "opened view s items"
  shows "outcome (opened view) items (SQLiteDatabase_GetAllItems conn s)
    (\<lambda>xs items'. items' = items \<and> set xs = set items \<and> length xs = length items)"
  unfolding SQLiteDatabase_GetAllItems_def opened_ensure [OF o]
  by (rule outcome_bind, rule query_outcome [OF o _ query_ready(2) [OF opened_scopes(1) [OF o]]])
    (use opened_scopes [OF o] decode_permuted in \<open>auto simp: reply_matches_def clift_def\<close>)

lemma GetAllSortedById_outcome:
  assumes o: "opened view s items"
  shows "outcome (opened view) items (SQLiteDatabase_GetAllSortedById conn s)
    (\<lambda>xs items'. items' = items \<and> xs = sort_key item_id items)"
  unfolding SQLiteDatabase_GetAllSortedById_def opened_ensure [OF o]
  by (rule outcome_bind, rule query_outcome [OF o _ query_ready(3) [OF opened_scopes(1) [OF o]]])
    (use opened_scopes [OF o] in \<open>auto simp: reply_matches_def clift_def list_all_iff intro!: decode_rows\<close>)

lemma ContainsItem_outcome:
  assumes o: "opened view s items"
  shows "outcome (opened view) items (SQLiteDatabase_ContainsItem conn i s)
    (\<lambda>b items'. items' = items \<and> b = (i \<in> ids items))"
  unfolding SQLiteDatabase_ContainsItem_def opened_ensure [OF o]
  by (rule outcome_bind, rule query_outcome [OF o _ query_ready(4) [OF opened_scopes(1) [OF o]]])
    (use opened_scopes [OF o] in \<open>auto simp: reply_matches_def cret_def\<close>)

lemma CountItems_outcome:
  assumes o: "opened view s items"
  shows "outcome (opened view) items (SQLiteDatabase_CountItems conn s)
    (\<lambda>n items'. items' = items \<and> n = int (length items))"
  unfolding SQLiteDatabase_CountItems_def opened_ensure [OF o]
  by (rule outcome_bind, rule query_outcome [OF o _ query_ready(5) [OF opened_scopes(1) [OF o]]])
    (use opened_scopes [OF o] in \<open>auto simp: reply_matches_def clift_def scalar_int_def getColumn_def\<close>)

lemma RemoveItem_outcome:
  assumes o: "opened view s items"
  shows "outcome (opened view) items (SQLiteDatabase_RemoveItem conn i s)
    (\<lambda>b items'. items' = remove_item i items \<and> b = (i \<in> ids items))"
  unfolding SQLiteDatabase_RemoveItem_def opened_ensure [OF o]
proof (rule outcome_bind, rule write_outcome [OF o])
  let ?d = "conn_db (view (sqdb_database s))"
  note h = opened_scopes [OF o]
  show "runs view (sq_exec conn (DeleteWhere i)) (sqdb_database s)
    (\<lambda>q d. reply_changes q = length (filter (\<lambda>x. item_id x = i) items) \<and>
      d = set_rows ''items'' (map BindItem (remove_item i items)) ?d)"
    by (rule runs_exec) (use h in \<open>auto simp: delete_ready(1) [OF h(1)] reply_matches_def simp del: ref_exec.simps\<close>)
  fix q d
  assume "reply_changes q = length (filter (\<lambda>x. item_id x = i) items) \<and>
      d = set_rows ''items'' (map BindItem (remove_item i items)) ?d"
  then show "\<exists>items'. holds_devices d items' \<and> items' = remove_item i items \<and>
      reply_changes q = length (filter (\<lambda>x. item_id x = i) items)"
    using h(1,4) by (auto simp: holds_devices_def [of ?d] intro!: holds_set_rows device_list_remove)
next
  fix q s' items'
  assume "items' = remove_item i items \<and> reply_changes q = length (filter (\<lambda>x. item_id x = i) items)"
  then show "\<exists>y. cret (0 < reply_changes q) s' = (Inr y, s') \<and> items' = remove_item i items \<and> y = (i \<in> ids items)"
    by (auto simp: cret_def ids_def filter_empty_conv)
qed

lemma DeleteAll_runs:
  assumes h: "holds_devices (conn_db (view db)) items"
  shows "runs view (exec_ignore conn DeleteAll) db (\<lambda>_ d. d = set_rows ''items'' (map BindItem []) (conn_db (view db)))"
  by (rule runs_exec_ignore)
    (use h in \<open>auto simp: delete_ready(2) [OF h] elim!: holds_devicesE simp del: ref_exec.simps\<close>)

lemma Clear_outcome:
  assumes o: "opened view s items"
  shows "outcome (opened view) items (SQLiteDatabase_Clear conn s) (\<lambda>_ items'. items' = [])"
  unfolding SQLiteDatabase_Clear_def opened_ensure [OF o]
  by (rule write_outcome [OF o DeleteAll_runs [OF opened_scopes(1) [OF o]]])
    (use opened_scopes(1) [OF o] holds_set_rows [where items = "[]"] in \<open>auto simp: holds_devices_def device_list_def\<close>)

lemma insert_all_runs:
  assumes d: "holds_devices d []" and v: "device_list items"
    and tx: "conn_saved (view db) = Some s" "conn_db (view db) = d"
  shows "runs view (cfor items (InsertItem conn ''items'')) db (\<lambda>_ d'. holds_devices d' items)"
  unfolding InsertItem_def
proof (rule for_tx [where I = "\<lambda>pre d'. holds_devices d' pre", OF tx(1)])
  fix pre x rest db'
  assume items: "items = pre @ x # rest" and h: "conn_saved (view db') = Some s" "holds_devices (conn_db (view db')) pre"
  have x: "valid_item x" using v items by (simp add: device_list_def)
  show "runs view (exec_ignore conn (InsertItem_stmt ''items'' (BindItem x))) db' (\<lambda>_ d'. holds_devices d' (pre @ [x]))"
  proof (rule runs_exec_ignore)
    show "in_scope (InsertItem_stmt ''items'' (BindItem x)) (conn_db (view db'))"
      using h(2) by (auto elim: holds_devicesE)
    fix rep d'
    assume "ref_exec (InsertItem_stmt ''items'' (BindItem x)) (conn_db (view db')) = (Inr rep, d')"
    then have "d' = set_rows ''items'' (map BindItem (pre @ [x])) (conn_db (view db'))" "item_id x \<notin> ids pre"
      by (auto simp: insert_ready [OF h(2) x] simp del: ref_exec.simps split: if_splits)
    with h(2) x show "holds_devices d' (pre @ [x])"
      by (metis holds_devicesE holds_set_rows device_list_snoc)
  qed simp
qed (use d tx in simp)

lemma ReplaceAll_outcome:
  assumes o: "opened view s items"
  shows "outcome (opened view) items (SQLiteDatabase_ReplaceAll conn new s)
    (\<lambda>_ items'. device_list new \<and> items' = new)"
proof (cases "device_list new")
  case False
  then obtain e where "ValidateItems new = Inl e"
    using ValidateItems_Inr [of new] by (cases "ValidateItems new") (auto simp: device_list_def)
  then show ?thesis
    using o by (simp add: SQLiteDatabase_ReplaceAll_def opened_ensure [OF o] cthrow_def outcome_def)
next
  case True
  let ?d = "conn_db (view (sqdb_database s))" and ?body = "cseq (exec_ignore conn DeleteAll) (cfor new (InsertItem conn ''items''))"
  have h: "holds_devices ?d items" using opened_scopes [OF o] by simp
  have none: "holds_devices (set_rows ''items'' (map BindItem []) ?d) []"
    using h by (intro holds_set_rows) (auto simp: holds_devices_def device_list_def)
  have "runs view (with_transaction conn ?body) (sqdb_database s) (\<lambda>_ d'. holds_devices d' new)"
  proof (rule runs_transaction)
    fix db'
    assume t: "conn_db (view db') = ?d" "conn_saved (view db') = Some ?d"
    show "runs view ?body db' (\<lambda>_ d'. holds_devices d' new)"
      by (rule seq_tx [OF t(2) DeleteAll_runs]) (use h t none in \<open>auto intro: insert_all_runs [OF _ True]\<close>)
  qed
  then have "outcome (opened view) items (on_database (with_transaction conn ?body) s)
      (\<lambda>_ items'. device_list new \<and> items' = new)"
    by (rule write_outcome [OF o]) (use True in auto)
  moreover have "ValidateItems new = Inr ()" using True ValidateItems_Inr by (auto simp: device_list_def)
  ultimately show ?thesis by (simp add: SQLiteDatabase_ReplaceAll_def opened_ensure [OF o])
qed

lemma opened_unique: "opened view s items \<Longrightarrow> opened view s items' \<Longrightarrow> items = items'"
  by (simp add: opened_def holds_devices_def stores_def) (metis BindItem_inj injI inj_map_eq_map)

lemma Initialize_cases:
  assumes i: "intact (conn_db (view (sqdb_database s)))" and none: "conn_saved (view (sqdb_database s)) = None"
    and r: "SQLiteDatabase_Initialize conn s = (r, s')"
  shows "case r of
      Inl e \<Rightarrow> \<not> sqdb_initialized s' \<and> view (sqdb_database s') = view (sqdb_database s)
    | Inr u \<Rightarrow> sqdb_initialized s' \<and> conn_saved (view (sqdb_database s')) = None \<and>
        initialized_from (conn_db (view (sqdb_database s))) (conn_db (view (sqdb_database s')))"
proof -
  obtain x db' where x: "initialize_schema conn (sqdb_database s) = (x, db')" by fastforce
  from r x initialize_schema_runs [OF i] none show ?thesis
    by (cases x) (auto simp: SQLiteDatabase_Initialize_def cseq_def cbind_def set_initialized_def
      on_database_def runs_def)
qed

lemma initialized_opened:
  assumes "initialized_from d d'" "stores d items"
  shows "holds_devices d' items"
  using assms by (simp add: initialized_from_def holds_devices_def stores_def)

end

section \<open>The class implements the interface\<close>

sublocale sqlite_engine \<subseteq> idatabase "sqlite_database conn" "opened view"
proof
  fix s items assume o: "opened view s items"
  then show "device_list items" by (rule opened_scopes(4))
  show "\<And>items'. opened view s items' \<Longrightarrow> items = items'" using o by (rule opened_unique)
qed (simp_all add: sqlite_database_def AddItem_outcome UpsertItem_outcome GetItem_outcome GetAllItems_outcome
  ReplaceAll_outcome GetAllSortedById_outcome ContainsItem_outcome CountItems_outcome RemoveItem_outcome Clear_outcome)

context sqlite_engine
begin

lemma implements_idatabase: "idatabase (sqlite_database conn) (opened view)"
  by unfold_locales

end

section \<open>Properties\<close>

definition empty_db :: ref_db where
  "empty_db = \<lparr>user_version = 0, tables = [], objects = []\<rparr>"

definition sample_handle :: "ref_conn SQLiteDatabase" where
  "sample_handle =
     \<lparr>sqdb_database = \<lparr>conn_db = set_rows ''items'' (map BindItem [sample_item]) (fresh_v1 empty_db), conn_saved = None\<rparr>,
      sqdb_initialized = True\<rparr>"

definition closed_handle :: "ref_db \<Rightarrow> ref_conn SQLiteDatabase" where
  "closed_handle d = \<lparr>sqdb_database = \<lparr>conn_db = d, conn_saved = None\<rparr>, sqdb_initialized = False\<rparr>"

lemma sample_handle_opened: "opened (\<lambda>c. c) sample_handle [sample_item]"
proof -
  have "ready (fresh_v1 empty_db)" by (rule ready_fresh) (simp_all add: empty_db_def)
  then have "holds_devices (set_rows ''items'' (map BindItem [sample_item]) (fresh_v1 empty_db)) [sample_item]"
    by (rule holds_set_rows) (simp add: device_list_def)
  then show ?thesis by (simp add: opened_def sample_handle_def)
qed

lemma empty_db_intact: "intact (conn_db (sqdb_database (closed_handle empty_db)))" "conn_saved (sqdb_database (closed_handle empty_db)) = None"
  by (simp_all add: closed_handle_def empty_db_def intact_def)

text \<open>
  Validation and schema agree. The row of an item that passes \<^verbatim>\<open>ValidateItem\<close> satisfies every
  \<^verbatim>\<open>CHECK\<close> of the v1 table, so no insert of a validated item can be refused by a constraint other
  than the uniqueness of the id.
\<close>

theorem validated_item_passes_checks:
  assumes "ValidateItem item = Inr ()"
  shows "v1_check (BindItem item)"
  using assms validated_row_checks by (simp add: ValidateItem_Inr)

theorem validated_item_passes_checks_witness: "ValidateItem sample_item = Inr () \<and> v1_check (BindItem sample_item)"
  using validated_item_passes_checks [of sample_item] ValidateItem_Inr [of sample_item "()"] by simp

text \<open>
  C3: \<^verbatim>\<open>Initialize\<close> is all or nothing. On every database file, with every failure of the
  engine, an \<^verbatim>\<open>Initialize\<close> that throws leaves the file and the transaction state as they were
  and the object unusable; one that returns has found one of the three supported schemas, leaves
  schema v1 with the device rows it found, in their order, and no open transaction.
\<close>

theorem Initialize_all_or_nothing:
  assumes "sqlite_engine conn view"
    and "intact (conn_db (view (sqdb_database s)))" and "conn_saved (view (sqdb_database s)) = None"
  shows "case SQLiteDatabase_Initialize conn s of
      (Inl e, s') \<Rightarrow> \<not> sqdb_initialized s' \<and> view (sqdb_database s') = view (sqdb_database s)
    | (Inr u, s') \<Rightarrow> sqdb_initialized s' \<and> conn_saved (view (sqdb_database s')) = None \<and>
        acceptable (conn_db (view (sqdb_database s))) \<and> ready (conn_db (view (sqdb_database s'))) \<and>
        user_version (conn_db (view (sqdb_database s'))) = 1 \<and>
        device_rows (conn_db (view (sqdb_database s'))) = device_rows (conn_db (view (sqdb_database s)))"
  using sqlite_engine.Initialize_cases [OF assms]
  by (auto simp: initialized_from_def split: prod.splits sum.splits)

theorem Initialize_all_or_nothing_witness:
  "case SQLiteDatabase_Initialize ref_sqlite (closed_handle empty_db) of
      (Inl e, s') \<Rightarrow> \<not> sqdb_initialized s' \<and> sqdb_database s' = sqdb_database (closed_handle empty_db)
    | (Inr u, s') \<Rightarrow> sqdb_initialized s' \<and> conn_saved (sqdb_database s') = None \<and>
        acceptable (conn_db (sqdb_database (closed_handle empty_db))) \<and> ready (conn_db (sqdb_database s')) \<and>
        user_version (conn_db (sqdb_database s')) = 1 \<and>
        device_rows (conn_db (sqdb_database s')) = device_rows (conn_db (sqdb_database (closed_handle empty_db)))"
  by (rule Initialize_all_or_nothing [OF ref.sqlite_engine_axioms empty_db_intact])

text \<open>
  C2: \<^verbatim>\<open>SQLiteDatabase\<close> implements the contract of \<^verbatim>\<open>IDatabase\<close> on every engine that behaves as
  SQLite documents: each operation either throws and leaves the stored devices as they were, or has
  the effect and the result its interface comment promises.
\<close>

theorem SQLiteDatabase_implements_IDatabase:
  assumes "sqlite_engine conn view"
  shows "idatabase (sqlite_database conn) (opened view)"
  by (rule sqlite_engine.implements_idatabase [OF assms])

theorem SQLiteDatabase_implements_witness: "idatabase (sqlite_database ref_sqlite) (opened (\<lambda>c. c))"
  by (rule SQLiteDatabase_implements_IDatabase [OF ref.sqlite_engine_axioms])

text \<open>
  C5: \<^verbatim>\<open>ReplaceAll\<close> is atomic. Whether it fails in validation, in the delete, in any insert or in
  the commit, a call that throws leaves exactly the previous devices, with no transaction open; a
  call that returns leaves exactly the new list, in its order, which is valid and free of
  duplicates.
\<close>

theorem ReplaceAll_atomic:
  assumes "sqlite_engine conn view" and "opened view s items"
  shows "case SQLiteDatabase_ReplaceAll conn new s of
      (Inl e, s') \<Rightarrow> opened view s' items
    | (Inr u, s') \<Rightarrow> opened view s' new \<and> ValidateItems new = Inr ()"
  using sqlite_engine.ReplaceAll_outcome [OF assms, of new] ValidateItems_Inr [of new "()"]
  by (auto simp: outcome_def device_list_def split: prod.splits sum.splits)

theorem ReplaceAll_atomic_witness:
  "case SQLiteDatabase_ReplaceAll ref_sqlite [] sample_handle of
      (Inl e, s') \<Rightarrow> opened (\<lambda>c. c) s' [sample_item]
    | (Inr u, s') \<Rightarrow> opened (\<lambda>c. c) s' [] \<and> ValidateItems [] = Inr ()"
  by (rule ReplaceAll_atomic [OF ref.sqlite_engine_axioms sample_handle_opened])

end
