(* ===== verification/Sqlite_Reliable.thy ===== *)
theory Sqlite_Reliable
  imports Sqlite_Operations
begin

text \<open>
  When the operations succeed. On a connection whose statements fail only where SQL says so
  (\<open>sqlite_reliable\<close>), \<^verbatim>\<open>Initialize\<close> succeeds on an empty database, on a database of
  schema v1 and on an unversioned device database whose rows all decode, and every storage
  operation succeeds on an initialised database for valid arguments.
\<close>

definition total :: "('db, 'a) comp \<Rightarrow> 'db \<Rightarrow> bool" where
  "total m db \<longleftrightarrow> (\<exists>x db'. m db = (Inr x, db'))"

lemma total_ret [simp]: "total (cret x) db" "total (clift (Inr x)) db"
  by (simp_all add: total_def cret_def clift_def)

lemma total_bind:
  assumes "total m db" "runs view m db P"
    and "\<And>x db'. conn_saved (view db') = conn_saved (view db) \<Longrightarrow> P x (conn_db (view db')) \<Longrightarrow> total (f x) db'"
  shows "total (cbind m f) db"
  using assms by (fastforce simp: total_def runs_def cbind_def)

lemma total_seq:
  assumes "total m db" "runs view m db (\<lambda>_. P)"
    and "\<And>db'. conn_saved (view db') = conn_saved (view db) \<Longrightarrow> P (conn_db (view db')) \<Longrightarrow> total n db'"
  shows "total (cseq m n) db"
  unfolding cseq_def using assms by (rule total_bind)

lemma total_on_database: "total m (sqdb_database s) \<Longrightarrow> total (on_database m) s"
  by (auto simp: total_def on_database_def)

lemma total_bind_pure:
  "total m s \<Longrightarrow> (\<And>x s'. m s = (Inr x, s') \<Longrightarrow> total (f x) s') \<Longrightarrow> total (cbind m f) s"
  by (auto simp: total_def cbind_def)

lemma total_for:
  assumes "I [] (conn_db (view db))"
    and step: "\<And>pre x rest db'. xs = pre @ x # rest \<Longrightarrow> conn_saved (view db') = conn_saved (view db) \<Longrightarrow>
      I pre (conn_db (view db')) \<Longrightarrow> total (f x) db' \<and> runs view (f x) db' (\<lambda>_ d. I (pre @ [x]) d)"
  shows "total (cfor xs f) db"
proof -
  have "total (cfor ys f) db'" if "xs = pre @ ys" "conn_saved (view db') = conn_saved (view db)"
    "I pre (conn_db (view db'))" for pre ys db'
    using that
  proof (induction ys arbitrary: pre db')
    case (Cons y ys)
    show ?case
      unfolding cfor.simps
    proof (rule total_seq)
      show "total (f y) db'" "runs view (f y) db' (\<lambda>_. I (pre @ [y]))" using step [OF Cons.prems] by auto
    next
      fix db''
      assume "conn_saved (view db'') = conn_saved (view db')" "I (pre @ [y]) (conn_db (view db''))"
      then show "total (cfor ys f) db''" using Cons.IH [of "pre @ [y]"] Cons.prems by simp
    qed
  qed simp
  from this [of "[]" xs db] assms(1) show ?thesis by simp
qed

context sqlite_reliable
begin

lemma total_exec:
  "ref_exec stmt (conn_db (view db)) = (Inr rep, d) \<Longrightarrow> in_scope stmt (conn_db (view db)) \<Longrightarrow>
   total (sq_exec conn stmt) db"
  using exec_total by (fastforce simp: total_def)

lemma total_exec_ignore:
  "ref_exec stmt (conn_db (view db)) = (Inr rep, d) \<Longrightarrow> in_scope stmt (conn_db (view db)) \<Longrightarrow>
   total (exec_ignore conn stmt) db"
  unfolding exec_ignore_def by (rule total_bind_pure [OF total_exec]) auto

lemma total_transaction:
  assumes none: "conn_saved (view db) = None"
    and body: "\<And>db'. conn_db (view db') = conn_db (view db) \<Longrightarrow> conn_saved (view db') = Some (conn_db (view db)) \<Longrightarrow>
      total body db' \<and> runs view body db' Q"
  shows "total (with_transaction conn body) db"
proof -
  obtain db1 where b: "sq_begin conn db = (Inr (), db1)" using begin_total [OF none] by auto
  then have v1: "conn_db (view db1) = conn_db (view db)" "conn_saved (view db1) = Some (conn_db (view db))"
    using begin_ok by fastforce+
  with body obtain x db2 where x: "body db1 = (Inr x, db2)" by (fastforce simp: total_def)
  with body [OF v1] have "conn_saved (view db2) \<noteq> None" using v1 by (auto simp: runs_def)
  then obtain db3 where "sq_commit conn db2 = (Inr (), db3)" using commit_total by auto
  with b x show ?thesis by (auto simp: total_def with_transaction_def cbind_def)
qed

lemma total_validated:
  "opened view s items \<Longrightarrow> total n s \<Longrightarrow> total (cseq EnsureInitialized (cseq (clift (Inr ())) n)) s"
  by (simp add: opened_ensure total_def)

lemma UpsertItem_total:
  assumes o: "opened view s items" and v: "valid_item item"
  shows "total (SQLiteDatabase_UpsertItem conn item) s"
proof -
  note h = opened_scopes [OF o]
  have "ValidateItem item = Inr ()" using v ValidateItem_Inr by blast
  moreover have "total (exec_ignore conn (UpsertItem_stmt (BindItem item))) (sqdb_database s)"
    by (rule total_exec_ignore [OF upsert_ready [OF h(1) v]]) (use h in simp)
  ultimately show ?thesis
    unfolding SQLiteDatabase_UpsertItem_def by (simp add: total_validated [OF o] total_on_database del: cseq_clift)
qed

lemma AddItem_total:
  assumes o: "opened view s items" and v: "valid_item item" and new: "item_id item \<notin> ids items"
  shows "total (SQLiteDatabase_AddItem conn item) s"
proof -
  note h = opened_scopes [OF o]
  have "ValidateItem item = Inr ()" using v ValidateItem_Inr by blast
  moreover have "total (InsertItem conn ''items'' item) (sqdb_database s)"
    unfolding InsertItem_def
    by (rule total_exec_ignore) (use h insert_ready [OF h(1) v] new in auto)
  ultimately show ?thesis
    unfolding SQLiteDatabase_AddItem_def by (simp add: total_validated [OF o] total_on_database del: cseq_clift)
qed

lemma ReplaceAll_total:
  assumes o: "opened view s items" and v: "device_list new"
  shows "total (SQLiteDatabase_ReplaceAll conn new) s"
proof -
  let ?d = "conn_db (view (sqdb_database s))" and ?body = "cseq (exec_ignore conn DeleteAll) (cfor new (InsertItem conn ''items''))"
  note h = opened_scopes [OF o]
  have none: "holds_devices (set_rows ''items'' (map BindItem []) ?d) []"
    using h(1) by (intro holds_set_rows) (auto simp: holds_devices_def device_list_def)
  have "total (with_transaction conn ?body) (sqdb_database s)"
  proof (rule total_transaction, use o in \<open>simp add: opened_def\<close>, rule conjI)
    fix db'
    assume t: "conn_db (view db') = ?d" "conn_saved (view db') = Some ?d"
    have hd: "holds_devices (conn_db (view db')) items" using h t by simp
    show "runs view ?body db' (\<lambda>_ d'. holds_devices d' new)"
      by (rule seq_tx [OF t(2) DeleteAll_runs [OF hd]]) (use t none in \<open>auto intro: insert_all_runs [OF _ v]\<close>)
    show "total ?body db'"
    proof (rule total_seq [OF _ DeleteAll_runs [OF hd]])
      show "total (exec_ignore conn DeleteAll) db'"
        by (rule total_exec_ignore [OF delete_ready(2) [OF hd]]) (use h t in simp)
      fix db2
      assume t2: "conn_saved (view db2) = conn_saved (view db')"
        "conn_db (view db2) = set_rows ''items'' (map BindItem []) (conn_db (view db'))"
      show "total (cfor new (InsertItem conn ''items'')) db2"
      proof (rule total_for [where I = "\<lambda>pre d. holds_devices d pre"])
        show "holds_devices (conn_db (view db2)) []" using none t t2 by simp
        fix pre x rest db3
        assume a: "new = pre @ x # rest" "conn_saved (view db3) = conn_saved (view db2)"
          "holds_devices (conn_db (view db3)) pre"
        have x: "valid_item x" "item_id x \<notin> ids pre" using v a(1) by (auto simp: device_list_def ids_def)
        have i: "ref_exec (InsertItem_stmt ''items'' (BindItem x)) (conn_db (view db3)) =
            (Inr (reply [] 1), set_rows ''items'' (map BindItem (pre @ [x])) (conn_db (view db3)))"
          using insert_ready [OF a(3) x(1)] x(2) by simp
        have sc: "in_scope (InsertItem_stmt ''items'' (BindItem x)) (conn_db (view db3))"
          using a(3) by (auto elim: holds_devicesE)
        have "holds_devices (set_rows ''items'' (map BindItem (pre @ [x])) (conn_db (view db3))) (pre @ [x])"
          using a(3) x by (metis holds_devicesE holds_set_rows device_list_snoc)
        with i sc show "total (InsertItem conn ''items'' x) db3 \<and>
            runs view (InsertItem conn ''items'' x) db3 (\<lambda>_ d. holds_devices d (pre @ [x]))"
          unfolding InsertItem_def
          by (auto intro: total_exec_ignore [OF i] intro!: runs_exec_ignore simp del: ref_exec.simps)
      qed
    qed
  qed
  moreover have "ValidateItems new = Inr ()" using v ValidateItems_Inr by (auto simp: device_list_def)
  ultimately show ?thesis
    unfolding SQLiteDatabase_ReplaceAll_def by (simp add: total_validated [OF o] total_on_database del: cseq_clift)
qed

lemma total_outcome_bind:
  assumes "total m s" "outcome devices items (m s) Q"
    and "\<And>x s' items'. devices s' items' \<Longrightarrow> Q x items' \<Longrightarrow> total (f x) s'"
  shows "total (cbind m f) s"
  using assms by (fastforce simp: total_def outcome_def cbind_def)

lemma total_query:
  assumes o: "opened view s items" and "in_scope stmt (conn_db (view (sqdb_database s)))"
    and "ref_exec stmt (conn_db (view (sqdb_database s))) = (Inr rep, conn_db (view (sqdb_database s)))"
    and "\<And>q s'. reply_matches stmt q rep \<Longrightarrow> total (f q) s'"
  shows "total (cseq EnsureInitialized (cbind (on_database (sq_exec conn stmt)) f)) s"
proof -
  have "total (cbind (on_database (sq_exec conn stmt)) f) s"
    by (rule total_outcome_bind [OF total_on_database [OF total_exec] query_outcome [OF o]]) (use assms in auto)
  then show ?thesis by (simp add: total_def opened_ensure [OF o])
qed

lemma GetItem_total:
  assumes o: "opened view s items"
  shows "total (SQLiteDatabase_GetItem conn i) s"
  unfolding SQLiteDatabase_GetItem_def
proof (rule total_query [OF o _ query_ready(1) [OF opened_scopes(1) [OF o]]])
  fix q s'
  assume "reply_matches (SelectItemWhere i) q (reply (map BindItem (filter (\<lambda>x. item_id x = i) items)) 0)"
  moreover have "valid_item x" if "filter (\<lambda>x. item_id x = i) items = x # xs" for x xs
    using opened_scopes(5) [OF o] that by (metis filter_eq_ConsD in_set_conv_decomp list_all_iff)
  ultimately show "total (case reply_rows q of [] \<Rightarrow> cret None
      | row # _ \<Rightarrow> cbind (clift (DecodeDatabaseItem row)) (\<lambda>item. cret (Some item))) s'"
    by (auto simp: reply_matches_def Decode_Bind split: list.splits)
qed (use opened_scopes [OF o] in simp)

lemma GetAllSortedById_total:
  assumes o: "opened view s items"
  shows "total (SQLiteDatabase_GetAllSortedById conn) s"
  unfolding SQLiteDatabase_GetAllSortedById_def
  by (rule total_query [OF o _ query_ready(3) [OF opened_scopes(1) [OF o]]])
    (use opened_scopes [OF o] in \<open>auto simp: reply_matches_def list_all_iff decode_rows\<close>)

lemma RemoveItem_total:
  assumes o: "opened view s items"
  shows "total (SQLiteDatabase_RemoveItem conn i) s"
proof -
  have "total (sq_exec conn (DeleteWhere i)) (sqdb_database s)"
    by (rule total_exec [OF delete_ready(1) [OF opened_scopes(1) [OF o]]]) (use opened_scopes [OF o] in simp)
  then have "total (cbind (on_database (sq_exec conn (DeleteWhere i))) (\<lambda>remove. cret (0 < reply_changes remove))) s"
    by (intro total_bind_pure [OF total_on_database]) auto
  then show ?thesis by (simp add: SQLiteDatabase_RemoveItem_def total_def opened_ensure [OF o])
qed

lemma Clear_total:
  assumes o: "opened view s items"
  shows "total (SQLiteDatabase_Clear conn) s"
proof -
  have "total (exec_ignore conn DeleteAll) (sqdb_database s)"
    by (rule total_exec_ignore [OF delete_ready(2) [OF opened_scopes(1) [OF o]]]) (use opened_scopes [OF o] in simp)
  then have "total (on_database (exec_ignore conn DeleteAll)) s" by (rule total_on_database)
  then show ?thesis by (simp add: SQLiteDatabase_Clear_def total_def opened_ensure [OF o])
qed

end

sublocale sqlite_reliable \<subseteq> idatabase_reliable "sqlite_database conn" "opened view"
  by unfold_locales
    (use UpsertItem_total AddItem_total ReplaceAll_total GetItem_total GetAllSortedById_total RemoveItem_total
      Clear_total in \<open>fastforce simp: sqlite_database_def total_def\<close>)+

section \<open>Initialisation\<close>

text \<open>The databases that creation and migration leave pass the schema check.\<close>

lemma user_objects_empty:
  assumes "user_objects d = []"
  shows "filter (\<lambda>(n, t). \<not> like_sqlite n) (tables d) = []" "filter (\<lambda>(ty, n). \<not> like_sqlite n) (objects d) = []"
  using assms by (simp_all add: user_objects_def flip: length_0_conv)

lemma fresh_v1_intact:
  assumes "intact d" "user_objects d = []" "map_of (tables d) ''items'' = None"
  shows "intact (fresh_v1 d)" "only_items (fresh_v1 d)"
proof -
  show "intact (fresh_v1 d)"
    using assms by (auto simp: intact_def fresh_v1_def intact_table_def v1_table_def map_of_eq_None_iff)
  show "only_items (fresh_v1 d)"
    using user_objects_empty [OF assms(2)] by (simp add: only_items_def user_objects_def fresh_v1_def)
qed

lemma migrated_intact:
  assumes i: "intact d" "only_items d" and items: "stores d items"
  shows "intact (migrated d (map BindItem items))" "only_items (migrated d (map BindItem items))"
proof -
  have m: "distinct (map row_key (map BindItem items))"
    using items by (simp add: stores_def distinct_map o_def inj_on_def)
  then have "intact_table (''items'', migrated_table (map BindItem items))"
    by (simp add: intact_table_def migrated_table_def list_all_iff)
  moreover have "list_all intact_table (filter (\<lambda>(n, _). n \<noteq> ''items'') (tables d))"
    using i(1) by (auto simp: intact_def list_all_iff)
  moreover have "distinct (map fst (filter (\<lambda>(n, _). n \<noteq> ''items'') (tables d)))"
    using i(1) by (auto simp: intact_def distinct_map_filter)
  ultimately show "intact (migrated d (map BindItem items))"
    using i(1) by (auto simp: intact_def migrated_def)
  obtain t where "filter (\<lambda>(n, t). \<not> like_sqlite n) (tables d) = [(''items'', t)]" "objects d = []"
    using only_items_filter [OF i] by blast
  moreover have "filter (\<lambda>(n, t). \<not> like_sqlite n) (filter (\<lambda>(n, _). n \<noteq> ''items'') (tables d)) =
      filter (\<lambda>(n, _). n \<noteq> ''items'') (filter (\<lambda>(n, t). \<not> like_sqlite n) (tables d))"
    by (simp add: conj_commute case_prod_beta)
  ultimately show "only_items (migrated d (map BindItem items))"
    by (simp add: only_items_def user_objects_def migrated_def)
qed

lemma items_index:
  assumes "intact d" "only_items d" "map_of (tables d) ''items'' = Some t" "ix \<in> set (tb_indexes t)"
  shows "find_index (ix_name ix) d = Some ix"
proof -
  obtain u where u: "map_of (tables d) ''items'' = Some u"
    "concat (map (\<lambda>(n, t). tb_indexes t) (tables d)) = tb_indexes u" "intact_table (''items'', u)"
    using only_items_table [OF assms(1,2)] by metis
  then show ?thesis
    using assms(3,4) find_distinct [of ix_name "tb_indexes t" ix] by (auto simp: find_index_def intact_table_def)
qed

context sqlite_reliable
begin

lemma read_exact:
  assumes "ref_exec stmt (conn_db (view db)) = (Inr rep, conn_db (view db))" "in_scope stmt (conn_db (view db))"
    and "stmt \<noteq> SelectItems"
  shows "\<exists>db'. sq_exec conn stmt db = (Inr rep, db') \<and> view db' = view db"
proof -
  obtain q db' where q: "sq_exec conn stmt db = (Inr q, db')" using exec_total assms by blast
  with exec_ok [OF q assms(2)] assms show ?thesis by (auto simp: reply_matches_def)
qed

lemma total_read:
  assumes "ref_exec stmt (conn_db (view db)) = (Inr rep, conn_db (view db))" "in_scope stmt (conn_db (view db))"
    and "stmt \<noteq> SelectItems" and f: "\<And>db'. view db' = view db \<Longrightarrow> total (f rep) db'"
  shows "total (cbind (sq_exec conn stmt) f) db"
  using read_exact [OF assms(1-3)] f by (auto simp: total_def cbind_def)

lemma ValidateOnlyItemsObject_total:
  "only_items (conn_db (view db)) \<Longrightarrow> total (ValidateOnlyItemsObject conn) db"
  unfolding ValidateOnlyItemsObject_def ReadUserObjects_def cbind_assoc
  by (rule total_read) (auto simp: emap_strings only_items_def emap_strings [of "[''table:items'']", simplified])

lemma ValidateDeviceColumns_total:
  assumes "map_of (tables (conn_db (view db))) ''items'' = Some t" "tb_columns t = DeviceColumns"
    and "tb_indexes t = [ix]" "device_unique ix" "find_index (ix_name ix) (conn_db (view db)) = Some ix"
  shows "total (ValidateDeviceColumns conn) db"
proof -
  let ?d = "conn_db (view db)"
  have check: "total (cbind (check_indexes conn 0 [index_row (0, ix)]) (\<lambda>indexCount.
      if indexCount \<noteq> 1 then cthrow (DatabaseSchema ''items must have exactly one unique device_id index'')
      else cret ())) db'" if v: "view db' = view db" for db'
  proof -
    obtain db2 where "sq_exec conn (PragmaIndexInfo (ix_name ix)) db' =
        (Inr (reply [[SInteger 0, SInteger 0, SText ''device_id'']] 0), db2)"
      using read_exact [of "PragmaIndexInfo (ix_name ix)" db' "reply [[SInteger 0, SInteger 0, SText ''device_id'']] 0"] assms v
      by (auto simp: find_index_def device_unique_def)
    with assms(4) show ?thesis
      by (simp add: index_row_def device_unique_def getColumn_def total_def cbind_def cret_def clift_def)
  qed
  have "total (ValidateUniqueDeviceId conn) db'" if "view db' = view db" for db'
    unfolding ValidateUniqueDeviceId_def
    by (rule total_read [where rep = "reply [index_row (0, ix)] 0"]) (use assms check that in simp_all)
  then show ?thesis
    unfolding ValidateDeviceColumns_def ReadColumns_def cbind_assoc
    by (intro total_read [where rep = "reply (map column_row (enumerate 0 DeviceColumns)) 0"])
      (use assms in \<open>simp_all add: emap_columns\<close>)
qed

lemma ValidateExactCreateSql_total:
  "map_of (tables (conn_db (view db))) ''items'' = Some t \<Longrightarrow> NormalizeSql (tb_sql t) = NormalizeSql e \<Longrightarrow>
   total (ValidateExactCreateSql conn e n) db"
  unfolding ValidateExactCreateSql_def ReadCreateSql_def cbind_assoc
  by (rule total_read) (auto simp: getColumn_def cbind_def cret_def total_def)

lemma checks_total:
  assumes "intact (conn_db (view db))" "only_items (conn_db (view db))"
    and t: "map_of (tables (conn_db (view db))) ''items'' = Some t" "tb_columns t = DeviceColumns"
      "length (tb_indexes t) = 1" "list_all device_unique (tb_indexes t)"
  shows "total (ValidateOnlyItemsObject conn) db" "total (ValidateDeviceColumns conn) db"
proof -
  obtain ix where "tb_indexes t = [ix]" using t(3) by (auto simp: length_Suc_conv)
  with assms items_index [OF assms(1,2) t(1)]
  show "total (ValidateOnlyItemsObject conn) db" "total (ValidateDeviceColumns conn) db"
    by (auto intro: ValidateOnlyItemsObject_total ValidateDeviceColumns_total)
qed

lemma ValidateV1Schema_total:
  assumes "intact (conn_db (view db))" "only_items (conn_db (view db))" "ready (conn_db (view db))"
  shows "total (ValidateV1Schema conn) db"
proof -
  obtain t where t: "map_of (tables (conn_db (view db))) ''items'' = Some t" "tb_columns t = DeviceColumns"
    "length (tb_indexes t) = 1" "list_all device_unique (tb_indexes t)"
    "NormalizeSql (tb_sql t) = NormalizeSql CreateV1ItemsSql"
    using assms(3) by (auto simp: ready_def split: option.splits)
  show ?thesis
    unfolding ValidateV1Schema_def
  proof (rule total_seq [where view = view, OF checks_total(1) ValidateOnlyItemsObject_runs])
    fix db1
    assume 1: "conn_db (view db1) = conn_db (view db) \<and> only_items (conn_db (view db))"
    show "total (cseq (ValidateDeviceColumns conn) (ValidateExactCreateSql conn CreateV1ItemsSql ''schema v1'')) db1"
      by (rule total_seq [where view = view, OF checks_total(2) ValidateDeviceColumns_runs])
        (use 1 assms t in \<open>auto intro: ValidateExactCreateSql_total\<close>)
  qed (use assms t in auto)
qed

lemma total_step:
  assumes "ref_exec stmt (conn_db (view db)) = (Inr rep, d)" "in_scope stmt (conn_db (view db))" "stmt \<noteq> SelectItems"
    and "\<And>db'. conn_saved (view db') = conn_saved (view db) \<Longrightarrow> conn_db (view db') = d \<Longrightarrow> total n db'"
  shows "total (cseq (exec_ignore conn stmt) n) db"
  by (rule total_seq [where view = view, OF total_exec_ignore exec_ignore_runs_to]) (use assms in auto)

lemma create_fresh_total:
  assumes i: "intact (conn_db (view db))" and none: "conn_saved (view db) = None"
    and new: "map_of (tables (conn_db (view db))) ''items'' = None" "user_objects (conn_db (view db)) = []"
  shows "total (create_fresh conn) db"
proof -
  let ?d = "conn_db (view db)"
  let ?body = "cseq (exec_ignore conn (CreateTable CreateV1ItemsSql))
    (cseq (exec_ignore conn (PragmaSetUserVersion 1)) (ValidateV1Schema conn))"
  have obj: "objects ?d = []" using no_user_objects [OF i new(2)] .
  have body: "total ?body db2" if d2: "conn_db (view db2) = ?d" for db2
  proof (rule total_step [where d = "?d\<lparr>tables := tables ?d @ [(''items'', v1_table ''items'' CreateV1ItemsSql)]\<rparr>"])
    show "ref_exec (CreateTable CreateV1ItemsSql) (conn_db (view db2)) =
      (Inr (reply [] 0), ?d\<lparr>tables := tables ?d @ [(''items'', v1_table ''items'' CreateV1ItemsSql)]\<rparr>)"
      using d2 new by (simp add: ref_create_def Let_def)
    fix db3
    assume d3: "conn_db (view db3) = ?d\<lparr>tables := tables ?d @ [(''items'', v1_table ''items'' CreateV1ItemsSql)]\<rparr>"
    have d4: "total (ValidateV1Schema conn) db4" if "conn_db (view db4) = fresh_v1 ?d" for db4
      using fresh_v1_intact [OF i new(2,1)] ready_fresh [OF obj new(1)] that by (intro ValidateV1Schema_total) auto
    show "total (cseq (exec_ignore conn (PragmaSetUserVersion 1)) (ValidateV1Schema conn)) db3"
      by (rule total_step) (use d3 d4 in \<open>auto simp: fresh_v1_def\<close>)
  qed (use d2 obj in auto)
  have "total (with_transaction conn ?body) db'" if "view db' = view db" for db'
  proof (rule total_transaction [where Q = "\<lambda>_ _. True"])
    fix db2
    assume t: "conn_db (view db2) = conn_db (view db')" "conn_saved (view db2) = Some (conn_db (view db'))"
    have "runs view ?body db2 (\<lambda>_ _. True)"
      by (rule seq_tx [OF t(2)], rule exec_ignore_runs_to)
        (use t obj new that in \<open>auto simp: ref_create_def Let_def intro!: seq_tx [OF _ exec_ignore_runs_to]
          runs_conseq [OF ValidateV1Schema_runs]\<close>)
    then show "total ?body db2 \<and> runs view ?body db2 (\<lambda>_ _. True)" using body t that by simp
  qed (use none that in simp)
  then show ?thesis
    unfolding create_fresh_def ReadUserObjects_def cbind_assoc
    by (intro total_read [where rep = "reply [] 0"]) (use new in \<open>simp_all add: emap_strings [of "[]", simplified]\<close>)
qed

lemma insert_items_total:
  assumes d: "map_of (tables d) ''items_v1'' = None" "objects d = []" and v: "device_list items"
    and c: "conn_db (view db) = copying d []" "conn_saved (view db) = Some s"
  shows "total (cfor items (InsertItem conn ''items_v1'')) db"
  unfolding InsertItem_def
proof (rule total_for [where view = view and I = "\<lambda>pre d'. d' = copying d (map BindItem pre)"])
  fix pre x rest db'
  assume a: "items = pre @ x # rest" "conn_db (view db') = copying d (map BindItem pre)"
  have "valid_item x" "item_id x \<notin> ids pre" using v a(1) by (auto simp: device_list_def ids_def)
  then have i: "ref_exec (InsertItem_stmt ''items_v1'' (BindItem x)) (conn_db (view db')) =
      (Inr (reply [] 1), copying d (map BindItem (pre @ [x])))"
    using a(2) d validated_row_checks by (auto simp: insert_copying ids_def)
  moreover have "in_scope (InsertItem_stmt ''items_v1'' (BindItem x)) (conn_db (view db'))"
    using write_scope_copying [OF d] a(2) by simp
  ultimately show "total (exec_ignore conn (InsertItem_stmt ''items_v1'' (BindItem x))) db' \<and>
      runs view (exec_ignore conn (InsertItem_stmt ''items_v1'' (BindItem x))) db'
        (\<lambda>_ d'. d' = copying d (map BindItem (pre @ [x])))"
    by (auto intro: total_exec_ignore intro!: runs_exec_ignore simp del: ref_exec.simps)
qed (use c in simp)

lemma finish_migration_total:
  assumes d: "map_of (tables d) ''items_v1'' = None" "map_of (tables d) ''items'' = Some t" "objects d = []"
    and i: "intact d" "only_items d" "stores d items"
    and c: "conn_db (view db) = copying d (map BindItem items)"
  shows "total (finish_migration conn) db"
  unfolding finish_migration_def
proof (rule total_step, unfold c, rule finish_copying(1) [OF d(1,2)])
  let ?rows = "map BindItem items"
  fix db1
  assume h1: "conn_db (view db1) = copying d ?rows\<lparr>tables := filter (\<lambda>(n, _). n \<noteq> ''items'') (tables (copying d ?rows))\<rparr>"
  show "total (cseq (exec_ignore conn (AlterRename ''items_v1'' ''items''))
      (cseq (exec_ignore conn (PragmaSetUserVersion 1)) (ValidateV1Schema conn))) db1"
  proof (rule total_step, unfold h1, rule finish_copying(2) [OF d(1,2)])
    fix db2
    assume h2: "conn_db (view db2) = migrated d ?rows\<lparr>user_version := user_version d\<rparr>"
    have "total (ValidateV1Schema conn) db3" if "conn_db (view db3) = migrated d ?rows" for db3
      using migrated_intact [OF i] ready_migrated [OF d(3)] that by (intro ValidateV1Schema_total) auto
    then show "total (cseq (exec_ignore conn (PragmaSetUserVersion 1)) (ValidateV1Schema conn)) db2"
      by (intro total_step [of _ _ "reply [] 0" "migrated d ?rows"]) (use h2 in \<open>auto simp: migrated_def\<close>)
  qed (use d in \<open>auto simp: copying_def\<close>)
qed (use d in \<open>auto simp: copying_def\<close>)

lemma verify_count_total:
  "map_of (tables d) ''items_v1'' = None \<Longrightarrow> conn_db (view db) = copying d (map BindItem items) \<Longrightarrow>
   total (verify_count conn items) db"
  unfolding verify_count_def
  by (rule total_read [where rep = "reply [[SInteger (int (length items))]] 0"])
    (auto simp: read_scope_def copying_table v1_table_def ref_query_def device_table_def scalar_int_def getColumn_def)

lemma migrate_body_total:
  assumes i: "intact (conn_db (view db))" "only_items (conn_db (view db))"
    and t: "map_of (tables (conn_db (view db))) ''items'' = Some t" "tb_columns t = DeviceColumns"
    and tx: "conn_saved (view db) = Some s" and items: "stores (conn_db (view db)) items"
  shows "total (migrate_body conn) db"
  unfolding migrate_body_def
proof (rule total_read)
  let ?d = "conn_db (view db)"
  have d: "map_of (tables ?d) ''items_v1'' = None" "objects ?d = []"
    using only_items_table [OF i] only_items_filter [OF i] by auto
  have v: "device_list items" "tb_rows t = map BindItem items" "list_all valid_item items"
    using items t by (auto simp: stores_def device_list_def device_rows_def)
  show "ref_exec (SelectItemsByRowid ''items'') ?d = (Inr (reply (map BindItem items) 0), ?d)"
    using t v by (simp add: ref_query_def device_table_def)
  fix db1
  assume v1: "view db1 = view db"
  have "total (copy_items conn items) db1"
    unfolding copy_items_def
  proof (rule total_step)
    show "ref_exec (CreateTable CreateV1MigrationSql) (conn_db (view db1)) = (Inr (reply [] 0), copying ?d [])"
      using d v1 by (simp add: ref_create_def copying_def v1_table_def CreateV1MigrationSql_def CreateV1ItemsSql_def Let_def)
    fix db2
    assume d2: "conn_saved (view db2) = conn_saved (view db1)" "conn_db (view db2) = copying ?d []"
    then have s2: "conn_saved (view db2) = Some s" using tx v1 by simp
    show "total (cseq (cfor items (InsertItem conn ''items_v1'')) (cseq (verify_count conn items) (finish_migration conn))) db2"
    proof (rule total_seq [where view = view, OF insert_items_total [OF d v(1) d2(2) s2] insert_items_runs [OF d s2 d2(2)]])
      fix db3
      assume "conn_db (view db3) = copying ?d (map BindItem items) \<and> distinct (map item_id items)"
      then have d3: "conn_db (view db3) = copying ?d (map BindItem items)" by simp
      show "total (cseq (verify_count conn items) (finish_migration conn)) db3"
        by (rule total_seq [where view = view, OF verify_count_total [OF d(1) d3] verify_count_runs [OF d(1) d3]])
          (use d3 in \<open>auto intro: finish_migration_total [OF d(1) t(1) d(2) i items]\<close>)
    qed
  qed (use d v1 in auto)
  then show "total (cbind (clift (emap DecodeDatabaseItem (reply_rows (reply (map BindItem items) 0)))) (copy_items conn)) db1"
    by (simp add: decode_rows [OF v(3)])
qed (use t in \<open>auto simp: read_scope_def\<close>)

lemma Migrate_total:
  assumes i: "intact (conn_db (view db))" "unversioned_schema (conn_db (view db))"
    and none: "conn_saved (view db) = None" and items: "stores (conn_db (view db)) items"
  shows "total (MigrateUnversionedDeviceSchema conn) db"
proof -
  let ?d = "conn_db (view db)"
  obtain t where only: "only_items ?d" and t: "map_of (tables ?d) ''items'' = Some t" "tb_columns t = DeviceColumns"
    "length (tb_indexes t) = 1" "list_all device_unique (tb_indexes t)"
    "NormalizeSql (tb_sql t) = NormalizeSql CreateUnversionedItemsSql"
    using i(2) by (auto simp: unversioned_schema_def split: option.splits)
  have tx: "total (with_transaction conn (migrate_body conn)) db'" if "view db' = view db" for db'
    by (rule total_transaction [where Q = "\<lambda>_ _. True"])
      (use that none i(1) only t items in \<open>auto intro: migrate_body_total runs_conseq [OF migrate_body_runs]\<close>)
  have sql: "total (cseq (ValidateExactCreateSql conn CreateUnversionedItemsSql
      ''the supported unversioned device schema'') (with_transaction conn (migrate_body conn))) db'" if "view db' = view db" for db'
    by (rule total_seq [where view = view, OF ValidateExactCreateSql_total ValidateExactCreateSql_runs])
      (use that t tx in auto)
  have cols: "total (cseq (ValidateDeviceColumns conn) (cseq (ValidateExactCreateSql conn CreateUnversionedItemsSql
      ''the supported unversioned device schema'') (with_transaction conn (migrate_body conn)))) db'" if "view db' = view db" for db'
    by (rule total_seq [where view = view, OF checks_total(2) ValidateDeviceColumns_runs])
      (use that t only i(1) sql in auto)
  show ?thesis
    unfolding MigrateUnversionedDeviceSchema_def
    by (rule total_seq [where view = view, OF checks_total(1) ValidateOnlyItemsObject_runs])
      (use t only i(1) cols in auto)
qed

lemma unversioned_not_legacy: "NormalizeSql CreateUnversionedItemsSql \<noteq> NormalizeSql CreateLegacyItemsSql"
  by (simp add: CreateUnversionedItemsSql_def CreateLegacyItemsSql_def NormalizeSql_def sql_dropped_def
      isspace_def tolower_def byte_def)

lemma device_not_legacy_columns: "DeviceColumns \<noteq> LegacyKeyValueColumns"
  by (simp add: DeviceColumns_def LegacyKeyValueColumns_def)

lemma legacy_schema_device:
  assumes "map_of (tables (conn_db (view db))) ''items'' = Some t" "tb_columns t = DeviceColumns"
    and "\<And>db'. view db' = view db \<Longrightarrow> total n db'"
  shows "total (cbind (legacy_schema conn) (\<lambda>legacy. if legacy then k else n)) db"
  unfolding legacy_schema_def ReadColumns_def cbind_assoc
  by (rule total_read [where rep = "reply (map column_row (enumerate 0 DeviceColumns)) 0"])
    (use assms device_not_legacy_columns in \<open>auto simp: emap_columns cbind_def cret_def total_def\<close>)

lemma initialize_schema_total:
  assumes i: "intact (conn_db (view db))" and none: "conn_saved (view db) = None"
    and a: "acceptable (conn_db (view db))"
  shows "total (initialize_schema conn) db"
  unfolding initialize_schema_def
proof (rule total_read)
  let ?d = "conn_db (view db)"
  show "ref_exec PragmaUserVersion ?d = (Inr (reply [[SInteger (user_version ?d)]] 0), ?d)" by simp
  fix db1
  assume v1: "view db1 = view db"
  consider "user_version ?d = 1" "ready ?d" "only_items ?d"
    | "user_version ?d = 0" "map_of (tables ?d) ''items'' = None" "user_objects ?d = []"
    | items where "user_version ?d = 0" "unversioned_schema ?d" "stores ?d items"
    using a by (auto simp: acceptable_def)
  then show "total (cbind (clift (scalar_int (reply [[SInteger (user_version ?d)]] 0))) (\<lambda>version.
     if version = CurrentSchemaVersion then ValidateV1Schema conn
     else if version \<noteq> 0
     then cthrow (DatabaseSchema (''unsupported database schema version: '' @ dec_of_int version))
     else cbind (TableExists conn ''items'') (\<lambda>exists.
       if \<not> exists then create_fresh conn
       else cbind (legacy_schema conn) (\<lambda>legacy.
         if legacy
         then cthrow (DatabaseSchema ''legacy key/value items schema is unsupported and was left unchanged'')
         else MigrateUnversionedDeviceSchema conn)))) db1"
  proof cases
    case 1
    then show ?thesis
      using i v1 by (auto simp: scalar_int_def getColumn_def CurrentSchemaVersion_def intro: ValidateV1Schema_total)
  next
    case 2
    then show ?thesis
      using i none v1 unfolding TableExists_def cbind_assoc
      by (auto simp: scalar_int_def getColumn_def CurrentSchemaVersion_def
        intro!: total_read [where rep = "reply [] 0"] create_fresh_total)
  next
    case 3
    then obtain t where t: "map_of (tables ?d) ''items'' = Some t" "tb_columns t = DeviceColumns"
      by (auto simp: unversioned_schema_def split: option.splits)
    with 3 show ?thesis
      using i none v1 unfolding TableExists_def cbind_assoc
      by (auto simp: scalar_int_def getColumn_def CurrentSchemaVersion_def
        intro!: total_read [where rep = "reply [[SInteger 1]] 0"] legacy_schema_device Migrate_total)
  qed
qed simp_all

lemma Initialize_iff:
  assumes i: "intact (conn_db (view (sqdb_database s)))" and none: "conn_saved (view (sqdb_database s)) = None"
  shows "total (SQLiteDatabase_Initialize conn) s \<longleftrightarrow> acceptable (conn_db (view (sqdb_database s)))"
proof
  assume "total (SQLiteDatabase_Initialize conn) s"
  then show "acceptable (conn_db (view (sqdb_database s)))"
    using Initialize_cases [OF i none] by (fastforce simp: total_def initialized_from_def)
next
  assume "acceptable (conn_db (view (sqdb_database s)))"
  then have "total (initialize_schema conn) (sqdb_database s)" using initialize_schema_total [OF i none] by simp
  then show "total (SQLiteDatabase_Initialize conn) s"
    by (auto simp: SQLiteDatabase_Initialize_def total_def cseq_def cbind_def set_initialized_def on_database_def)
qed

end

section \<open>Properties\<close>

text \<open>
  C4: on an engine that executes the statements it supports, \<^verbatim>\<open>Initialize\<close> returns exactly on
  the supported databases: version 1 with the exact v1 schema, an empty unversioned file, or the
  exact unversioned device schema with decodable rows and distinct ids.
\<close>

theorem Initialize_returns_iff:
  assumes "sqlite_reliable conn view"
    and "intact (conn_db (view (sqdb_database s)))" and "conn_saved (view (sqdb_database s)) = None"
  shows "(\<exists>u s'. SQLiteDatabase_Initialize conn s = (Inr u, s')) \<longleftrightarrow> acceptable (conn_db (view (sqdb_database s)))"
  using sqlite_reliable.Initialize_iff [OF assms] by (simp add: total_def)

theorem Initialize_returns_witness:
  "(\<exists>u s'. SQLiteDatabase_Initialize ref_sqlite (closed_handle empty_db) = (Inr u, s')) \<longleftrightarrow>
     acceptable (conn_db (sqdb_database (closed_handle empty_db)))"
  by (rule Initialize_returns_iff [OF ref.sqlite_reliable_axioms empty_db_intact])

text \<open>
  Storing and reading back. After \<^verbatim>\<open>UpsertItem\<close> of a valid item, \<^verbatim>\<open>GetItem\<close> returns that item
  under its id and what was stored before under every other id; both calls return.
\<close>

theorem UpsertItem_GetItem:
  assumes e: "sqlite_reliable conn view" and o: "opened view s items" and v: "ValidateItem item = Inr ()"
  shows "\<exists>s1 s2. SQLiteDatabase_UpsertItem conn item s = (Inr (), s1) \<and> opened view s1 (upsert_item item items) \<and>
    SQLiteDatabase_GetItem conn i s1 = (Inr (if i = item_id item then Some item else lookup_item i items), s2)"
proof -
  note eng = sqlite_reliable.axioms(1) [OF e]
  have valid: "valid_item item" using v by (simp add: ValidateItem_Inr)
  obtain s1 where s1: "SQLiteDatabase_UpsertItem conn item s = (Inr (), s1)"
    using sqlite_reliable.UpsertItem_total [OF e o valid] by (auto simp: total_def)
  then have o1: "opened view s1 (upsert_item item items)"
    using sqlite_engine.UpsertItem_outcome [OF eng o, of item] by (auto simp: outcome_def)
  obtain x s2 where "SQLiteDatabase_GetItem conn i s1 = (Inr x, s2)"
    using sqlite_reliable.GetItem_total [OF e o1, of i] by (auto simp: total_def)
  moreover from this have "x = lookup_item i (upsert_item item items)"
    using sqlite_engine.GetItem_outcome [OF eng o1, of i] by (auto simp: outcome_def)
  ultimately show ?thesis using s1 o1 by (auto simp: lookup_item_upsert)
qed

theorem UpsertItem_GetItem_witness:
  "\<exists>s1 s2. SQLiteDatabase_UpsertItem ref_sqlite sample_item sample_handle = (Inr (), s1) \<and>
    opened (\<lambda>c. c) s1 (upsert_item sample_item [sample_item]) \<and>
    SQLiteDatabase_GetItem ref_sqlite ''b'' s1 =
      (Inr (if ''b'' = item_id sample_item then Some sample_item else lookup_item ''b'' [sample_item]), s2)"
  by (rule UpsertItem_GetItem [OF ref.sqlite_reliable_axioms sample_handle_opened]) (simp add: ValidateItem_Inr)

text \<open>
  \<^verbatim>\<open>RemoveItem\<close> returns, reports whether the id was stored, and removes exactly the device of
  that id: afterwards it is not found and every other device is found as before.
\<close>

theorem RemoveItem_GetItem:
  assumes e: "sqlite_reliable conn view" and o: "opened view s items"
  shows "\<exists>s1 s2. SQLiteDatabase_RemoveItem conn i s = (Inr (i \<in> ids items), s1) \<and>
    SQLiteDatabase_GetItem conn j s1 = (Inr (if j = i then None else lookup_item j items), s2)"
proof -
  note eng = sqlite_reliable.axioms(1) [OF e]
  obtain b s1 where s1: "SQLiteDatabase_RemoveItem conn i s = (Inr b, s1)"
    using sqlite_reliable.RemoveItem_total [OF e o, of i] by (auto simp: total_def)
  then have o1: "opened view s1 (remove_item i items)" "b = (i \<in> ids items)"
    using sqlite_engine.RemoveItem_outcome [OF eng o, of i] by (auto simp: outcome_def)
  obtain x s2 where "SQLiteDatabase_GetItem conn j s1 = (Inr x, s2)"
    using sqlite_reliable.GetItem_total [OF e o1(1), of j] by (auto simp: total_def)
  moreover from this have "x = lookup_item j (remove_item i items)"
    using sqlite_engine.GetItem_outcome [OF eng o1(1), of j] by (auto simp: outcome_def)
  ultimately show ?thesis using s1 o1 by (auto simp: lookup_item_remove)
qed

theorem RemoveItem_GetItem_witness:
  "\<exists>s1 s2. SQLiteDatabase_RemoveItem ref_sqlite ''a'' sample_handle = (Inr (''a'' \<in> ids [sample_item]), s1) \<and>
    SQLiteDatabase_GetItem ref_sqlite ''a'' s1 = (Inr (if ''a'' = ''a'' then None else lookup_item ''a'' [sample_item]), s2)"
  by (rule RemoveItem_GetItem [OF ref.sqlite_reliable_axioms sample_handle_opened])

end
