(* ===== verification/Sqlite_Thread_Worker.thy ===== *)
theory Sqlite_Thread_Worker
  imports Sqlite_Reliable
begin

text \<open>
  \<^verbatim>\<open>src/src/Watchlist/SQLiteThreadWorker.cpp\<close>: \<^verbatim>\<open>run_sqlitecpp_thread_worker\<close> opens a
  database file, initialises it, and logs a line for every device, in the order of the ids, and one
  with the number of devices. Opening belongs to the library: the connection it gives, or the
  exception it throws, is an argument. The lines given to \<^verbatim>\<open>LOG_INFO\<close> are part of the state, so
  that an exception leaves the ones already logged.
\<close>

section \<open>The worker\<close>

record 'db ThreadWorker =
  tw_database :: "'db SQLiteDatabase"
  tw_log :: "string list"

definition on_worker_database :: "('db SQLiteDatabase, 'a) comp \<Rightarrow> ('db ThreadWorker, 'a) comp" where
  "on_worker_database m w = (case m (tw_database w) of (r, d) \<Rightarrow> (r, w\<lparr>tw_database := d\<rparr>))"

definition worker_log :: "string \<Rightarrow> ('db ThreadWorker, unit) comp" where
  "worker_log line w = (Inr (), w\<lparr>tw_log := tw_log w @ [line]\<rparr>)"

definition device_line :: "DatabaseItem \<Rightarrow> string" where
  "device_line device = ''Thread worker 3 device: '' @ item_name device @ '' ('' @ item_id device @ '') at '' @
     item_ipAddress device @ '':'' @ dec_of_nat (unat (item_port device)) @ '' alive='' @
     (if item_alive device then ''true'' else ''false'')"

definition count_line :: "int \<Rightarrow> string" where
  "count_line n = ''Thread worker 3 device count: '' @ dec_of_int n"

definition thread_worker_body :: "'db sqlite \<Rightarrow> ('db ThreadWorker, unit) comp" where
  "thread_worker_body conn =
     cseq (on_worker_database (SQLiteDatabase_Initialize conn)) (
     cbind (on_worker_database (SQLiteDatabase_GetAllSortedById conn)) (\<lambda>devices.
     cseq (cfor devices (\<lambda>device. worker_log (device_line device))) (
     cbind (on_worker_database (SQLiteDatabase_CountItems conn)) (\<lambda>count.
     worker_log (count_line count)))))"

definition run_sqlitecpp_thread_worker ::
  "'db sqlite \<Rightarrow> cpp_exn + 'db \<Rightarrow> (cpp_exn + unit) \<times> string list" where
  "run_sqlitecpp_thread_worker conn file = (case file of
       Inl e \<Rightarrow> (Inl e, [])
     | Inr db \<Rightarrow>
         (case thread_worker_body conn
             \<lparr>tw_database = \<lparr>sqdb_database = db, sqdb_initialized = False\<rparr>, tw_log = []\<rparr> of
           (r, w) \<Rightarrow> (r, tw_log w)))"

section \<open>What it logs\<close>

lemma log_all:
  "cfor xs (\<lambda>x. worker_log (f x)) w = (Inr (), w\<lparr>tw_log := tw_log w @ map f xs\<rparr>)"
  by (induction xs arbitrary: w) (simp_all add: cret_def cseq_def cbind_def worker_log_def)

definition device_report :: "DatabaseItem list \<Rightarrow> string list" where
  "device_report items = map device_line (sort_key item_id items)"

text \<open>
  The lines are a true account of the stored devices: nothing, all devices, or all devices and
  their number; and the worker returns exactly in the last case. The devices stay as they are.
\<close>


context sqlite_engine
begin

lemma thread_worker_report:
  assumes i: "intact (conn_db (view (sqdb_database (tw_database w))))"
    and none: "conn_saved (view (sqdb_database (tw_database w))) = None"
    and st: "stores (conn_db (view (sqdb_database (tw_database w)))) items"
    and run: "thread_worker_body conn w = (r, w')"
  shows "case r of
      Inl e \<Rightarrow> tw_log w' = tw_log w \<or> tw_log w' = tw_log w @ device_report items
    | Inr u \<Rightarrow> tw_log w' = tw_log w @ device_report items @ [count_line (int (length items))] \<and>
        opened view (tw_database w') items"
proof -
  obtain r1 d1 where 1: "SQLiteDatabase_Initialize conn (tw_database w) = (r1, d1)" by fastforce
  show ?thesis
  proof (cases r1)
    case (Inl e)
    with 1 run show ?thesis by (auto simp: thread_worker_body_def on_worker_database_def cseq_def cbind_def)
  next
    case (Inr u)
    then have o1: "opened view d1 items"
      using Initialize_cases [OF i none 1] initialized_opened [OF _ st] by (simp add: opened_def)
    obtain r2 d2 where 2: "SQLiteDatabase_GetAllSortedById conn d1 = (r2, d2)" by fastforce
    have l2: "case r2 of Inl e \<Rightarrow> opened view d2 items | Inr xs \<Rightarrow> opened view d2 items \<and> xs = sort_key item_id items"
      using GetAllSortedById_outcome [OF o1] 2 by (auto simp: outcome_def split: sum.splits)
    then have o2: "opened view d2 items" by (simp split: sum.splits)
    obtain r3 d3 where 3: "SQLiteDatabase_CountItems conn d2 = (r3, d3)" by fastforce
    have l3: "case r3 of Inl e \<Rightarrow> True | Inr n \<Rightarrow> opened view d3 items \<and> n = int (length items)"
      using CountItems_outcome [OF o2] 3 by (auto simp: outcome_def split: sum.splits)
    show ?thesis using run 1 2 3 Inr l2 l3
      by (auto simp: thread_worker_body_def on_worker_database_def cseq_def cbind_def log_all worker_log_def
          device_report_def split: sum.splits)
  qed
qed

end

context sqlite_reliable
begin

lemma CountItems_total:
  assumes o: "opened view s items"
  shows "total (SQLiteDatabase_CountItems conn) s"
  unfolding SQLiteDatabase_CountItems_def
  by (rule total_query [OF o _ query_ready(5) [OF opened_scopes(1) [OF o]]])
    (use opened_scopes [OF o] in \<open>auto simp: reply_matches_def scalar_int_def getColumn_def\<close>)

lemma thread_worker_total:
  assumes i: "intact (conn_db (view (sqdb_database (tw_database w))))"
    and none: "conn_saved (view (sqdb_database (tw_database w))) = None"
    and st: "stores (conn_db (view (sqdb_database (tw_database w)))) items"
    and acc: "acceptable (conn_db (view (sqdb_database (tw_database w))))"
  shows "total (thread_worker_body conn) w"
proof -
  obtain d1 where 1: "SQLiteDatabase_Initialize conn (tw_database w) = (Inr (), d1)"
    using Initialize_iff [OF i none] acc by (auto simp: total_def)
  then have o1: "opened view d1 items"
    using Initialize_cases [OF i none 1] initialized_opened [OF _ st] by (simp add: opened_def)
  obtain xs d2 where 2: "SQLiteDatabase_GetAllSortedById conn d1 = (Inr xs, d2)"
    using GetAllSortedById_total [OF o1] by (auto simp: total_def)
  then have o2: "opened view d2 items" using GetAllSortedById_outcome [OF o1] by (auto simp: outcome_def)
  obtain n d3 where 3: "SQLiteDatabase_CountItems conn d2 = (Inr n, d3)"
    using CountItems_total [OF o2] by (auto simp: total_def)
  show ?thesis
    by (simp add: total_def thread_worker_body_def on_worker_database_def cseq_def cbind_def 1 2 3 log_all worker_log_def)
qed

end

text \<open>
  On an engine without I/O errors and a supported file the worker logs exactly the stored devices,
  sorted by id, and their number.
\<close>

theorem thread_worker_logs_devices:
  assumes e: "sqlite_reliable conn view" and i: "intact (conn_db (view db))" and none: "conn_saved (view db) = None"
    and st: "stores (conn_db (view db)) items" and acc: "acceptable (conn_db (view db))"
  shows "run_sqlitecpp_thread_worker conn (Inr db) =
    (Inr (), device_report items @ [count_line (int (length items))])"
proof -
  let ?w = "\<lparr>tw_database = \<lparr>sqdb_database = db, sqdb_initialized = False\<rparr>, tw_log = []\<rparr>"
  obtain w' where "thread_worker_body conn ?w = (Inr (), w')"
    using sqlite_reliable.thread_worker_total [OF e, of ?w] i none st acc by (auto simp: total_def)
  with sqlite_engine.thread_worker_report [OF sqlite_reliable.axioms(1) [OF e], of ?w] i none st show ?thesis
    by (fastforce simp: run_sqlitecpp_thread_worker_def)
qed

theorem thread_worker_logs_devices_witness:
  "run_sqlitecpp_thread_worker ref_sqlite (Inr (sqdb_database (closed_handle empty_db))) =
    (Inr (), [count_line 0])"
proof -
  have "acceptable (conn_db (sqdb_database (closed_handle empty_db)))"
    by (simp add: acceptable_def closed_handle_def empty_db_def user_objects_def)
  moreover have "stores (conn_db (sqdb_database (closed_handle empty_db))) []"
    by (simp add: stores_def device_rows_def closed_handle_def empty_db_def)
  ultimately have "run_sqlitecpp_thread_worker ref_sqlite (Inr (sqdb_database (closed_handle empty_db))) =
      (Inr (), device_report [] @ [count_line (int (length ([] :: DatabaseItem list)))])"
    by (rule thread_worker_logs_devices [OF ref.sqlite_reliable_axioms empty_db_intact, rotated])
  then show ?thesis by (simp add: device_report_def)
qed

end
