(* ===== verification/Kv_Store.thy ===== *)
theory Kv_Store
  imports Sqlite_Reliable
begin

text \<open>
  \<^verbatim>\<open>src/src/Watchlist/Storage/KeyValueStore.cpp\<close>: the key/value table behind
  \<^verbatim>\<open>store_database_value\<close>, over a connection parameter. The lemmas give the effect of
  \<^verbatim>\<open>Upsert\<close> and \<^verbatim>\<open>Get\<close> on the stored map, and what the table means for
  \<^verbatim>\<open>SQLiteDatabase::Initialize\<close> on the same file.
\<close>

definition KeyValueStore_Initialize :: "'db sqlite \<Rightarrow> ('db, unit) comp" where
  "KeyValueStore_Initialize conn = exec_ignore conn CreateKvStore"

definition KeyValueStore_Upsert :: "'db sqlite \<Rightarrow> string \<Rightarrow> string \<Rightarrow> ('db, unit) comp" where
  "KeyValueStore_Upsert conn key value = exec_ignore conn (UpsertKv key value)"

definition KeyValueStore_Get :: "'db sqlite \<Rightarrow> string \<Rightarrow> ('db, string option) comp" where
  "KeyValueStore_Get conn key =
     cbind (sq_exec conn (SelectKv key)) (\<lambda>query.
       case reply_rows query of
         [] \<Rightarrow> cret None
       | row # _ \<Rightarrow> cbind (clift (getColumn row 0)) (\<lambda>c. cret (Some (getString c))))"

section \<open>The stored map\<close>

definition kv_row :: "string \<times> string \<Rightarrow> sql_row" where
  "kv_row = (\<lambda>(k, v). [SText k, SText v])"

text \<open>The table \<^verbatim>\<open>kv_store\<close> exists and holds exactly the entries \<open>kvs\<close>, each key once.\<close>

definition kv_holds :: "ref_db \<Rightarrow> (string \<times> string) list \<Rightarrow> bool" where
  "kv_holds d kvs \<longleftrightarrow> objects d = [] \<and> distinct (map fst kvs) \<and>
     (case map_of (tables d) ''kv_store'' of
        None \<Rightarrow> False
      | Some t \<Rightarrow> tb_columns t = KvColumns \<and> tb_rows t = map kv_row kvs)"

fun kv_update :: "string \<Rightarrow> string \<Rightarrow> (string \<times> string) list \<Rightarrow> (string \<times> string) list" where
  "kv_update k v [] = [(k, v)]"
| "kv_update k v ((k', v') # kvs) = (if k' = k then (k, v) # kvs else (k', v') # kv_update k v kvs)"

lemma map_of_kv_update: "map_of (kv_update k v kvs) = (map_of kvs)(k \<mapsto> v)"
  by (induction k v kvs rule: kv_update.induct) (auto simp: fun_eq_iff)

lemma keys_kv_update: "set (map fst (kv_update k v kvs)) = insert k (set (map fst kvs))"
  by (induction k v kvs rule: kv_update.induct) auto

lemma distinct_kv_update: "distinct (map fst kvs) \<Longrightarrow> distinct (map fst (kv_update k v kvs))"
proof (induction k v kvs rule: kv_update.induct)
  case (2 k v k' v' kvs)
  then show ?case using keys_kv_update [of k v kvs] by auto
qed simp

lemma row_key_kv_row [simp]: "row_key (kv_row (k, v)) = SText k" "kv_row (k, v) = [SText k, SText v]"
  by (simp_all add: row_key_def kv_row_def)

lemma upsert_rows_kv:
  "distinct (map fst kvs) \<Longrightarrow> upsert_rows [SText k, SText v] (map kv_row kvs) = map kv_row (kv_update k v kvs)"
proof (induction k v kvs rule: kv_update.induct)
  case (1 k v)
  show ?case by (simp add: upsert_rows_def)
next
  case (2 k v k' v' kvs)
  have keep: "k \<notin> fst ` set kvs \<Longrightarrow>
      map (\<lambda>r. if row_key r = SText k then [SText k, SText v] else r) (map kv_row kvs) = map kv_row kvs"
    by (auto simp: row_key_def kv_row_def split: prod.splits) force
  show ?case
  proof (cases "k' = k")
    case True
    with 2 keep show ?thesis by (auto simp: upsert_rows_def row_key_def)
  next
    case False
    with 2 have "upsert_rows [SText k, SText v] (map kv_row kvs) = map kv_row (kv_update k v kvs)" by simp
    with False show ?thesis by (auto simp: upsert_rows_def row_key_def split: if_splits)
  qed
qed

lemma kv_scope_holds: "kv_holds d kvs \<Longrightarrow> kv_scope d"
  by (auto simp: kv_holds_def kv_scope_def split: option.splits)

lemma kv_store_tableE:
  assumes "kv_holds d kvs"
  obtains t where "kv_store_table d = Some t" "tb_rows t = map kv_row kvs" "map_of (tables d) ''kv_store'' = Some t"
    "tb_columns t = KvColumns" "objects d = []" "distinct (map fst kvs)"
  using assms by (auto simp: kv_holds_def kv_store_table_def split: option.splits)

lemma kv_holds_set_rows:
  "kv_holds d kvs \<Longrightarrow> distinct (map fst kvs') \<Longrightarrow> kv_holds (set_rows ''kv_store'' (map kv_row kvs') d) kvs'"
  by (auto simp: kv_holds_def set_rows_def map_of_update_table split: option.splits)

lemma filter_kv:
  "distinct (map fst kvs) \<Longrightarrow> filter (\<lambda>r. row_key r = SText k) (map kv_row kvs) =
     (case map_of kvs k of None \<Rightarrow> [] | Some v \<Rightarrow> [kv_row (k, v)])"
proof (induction kvs)
  case (Cons p kvs)
  then show ?case
    by (cases p) (auto simp: row_key_def image_iff split: option.splits dest!: map_of_SomeD)
qed simp

context sqlite_engine
begin

lemma KeyValueStore_Upsert_runs:
  assumes h: "kv_holds (conn_db (view db)) kvs"
  shows "runs view (KeyValueStore_Upsert conn k v) db (\<lambda>_ d. kv_holds d (kv_update k v kvs))"
  unfolding KeyValueStore_Upsert_def
proof (rule runs_exec_ignore)
  fix rep d
  assume r: "ref_exec (UpsertKv k v) (conn_db (view db)) = (Inr rep, d)"
  obtain t where t: "kv_store_table (conn_db (view db)) = Some t" "tb_rows t = map kv_row kvs" "distinct (map fst kvs)"
    using h by (rule kv_store_tableE)
  with r have "d = set_rows ''kv_store'' (map kv_row (kv_update k v kvs)) (conn_db (view db))"
    by (simp add: upsert_rows_kv)
  with kv_holds_set_rows [OF h distinct_kv_update [OF t(3)]] show "kv_holds d (kv_update k v kvs)" by simp
qed (use kv_scope_holds [OF h] in simp_all)

lemma KeyValueStore_Get_runs:
  assumes h: "kv_holds (conn_db (view db)) kvs"
  shows "runs view (KeyValueStore_Get conn k) db (\<lambda>x d. d = conn_db (view db) \<and> x = map_of kvs k)"
  unfolding KeyValueStore_Get_def
proof (rule runs_bind_read)
  obtain t where t: "kv_store_table (conn_db (view db)) = Some t" "tb_rows t = map kv_row kvs" "distinct (map fst kvs)"
    using h by (rule kv_store_tableE)
  show "runs view (sq_exec conn (SelectKv k)) db (\<lambda>q d. d = conn_db (view db) \<and>
      reply_rows q = (case map_of kvs k of None \<Rightarrow> [] | Some v \<Rightarrow> [[SText v]]))"
    by (rule runs_exec) (use kv_scope_holds [OF h] t in \<open>auto simp: reply_matches_def filter_kv split: option.splits\<close>)
qed (auto simp: getColumn_def split: option.splits intro!: runs_ret)

lemma KeyValueStore_Initialize_runs:
  assumes "kv_scope (conn_db (view db))"
  shows "runs view (KeyValueStore_Initialize conn) db (\<lambda>_ d.
    (map_of (tables (conn_db (view db))) ''kv_store'' = None \<longrightarrow> kv_holds d []) \<and>
    (\<forall>kvs. kv_holds (conn_db (view db)) kvs \<longrightarrow> kv_holds d kvs) \<and>
    (\<exists>t. map_of (tables d) ''kv_store'' = Some t))"
  unfolding KeyValueStore_Initialize_def
  by (rule runs_exec_ignore)
    (use assms in \<open>auto simp: kv_holds_def kv_scope_def map_add_def kv_table_def split: option.splits if_splits\<close>)

end

context sqlite_reliable
begin

lemma KeyValueStore_Upsert_total:
  assumes h: "kv_holds (conn_db (view db)) kvs"
  shows "total (KeyValueStore_Upsert conn k v) db"
  unfolding KeyValueStore_Upsert_def
  by (rule kv_store_tableE [OF h]) (use kv_scope_holds [OF h] in \<open>auto intro: total_exec_ignore\<close>)

lemma KeyValueStore_Get_total:
  assumes h: "kv_holds (conn_db (view db)) kvs"
  shows "total (KeyValueStore_Get conn k) db"
proof -
  obtain t where t: "kv_store_table (conn_db (view db)) = Some t" "tb_rows t = map kv_row kvs" "distinct (map fst kvs)"
    using h by (rule kv_store_tableE)
  then have "ref_exec (SelectKv k) (conn_db (view db)) =
      (Inr (reply (case map_of kvs k of None \<Rightarrow> [] | Some v \<Rightarrow> [[SText v]]) 0), conn_db (view db))"
    by (auto simp: filter_kv split: option.splits)
  then show ?thesis
    unfolding KeyValueStore_Get_def
    by (rule total_read) (use kv_scope_holds [OF h] in \<open>auto simp: getColumn_def split: option.splits\<close>)
qed

end

section \<open>The two stores on one file\<close>

text \<open>A database with a \<^verbatim>\<open>kv_store\<close> table is not one \<^verbatim>\<open>SQLiteDatabase::Initialize\<close> accepts.\<close>

lemma not_like_sqlite_kv: "\<not> like_sqlite ''kv_store''"
  by (simp add: like_sqlite_def tolower_def byte_def)

lemma kv_store_user_object:
  assumes "map_of (tables d) ''kv_store'' = Some t"
  shows "''table:kv_store'' \<in> set (user_objects d)"
proof -
  have "(''kv_store'', t) \<in> set (filter (\<lambda>(n, t). \<not> like_sqlite n) (tables d))"
    using map_of_SomeD [OF assms] not_like_sqlite_kv by simp
  then have "''table:'' @ ''kv_store'' \<in> set (map (\<lambda>(n, t). ''table:'' @ n) (filter (\<lambda>(n, t). \<not> like_sqlite n) (tables d)))"
    by (force simp only: list.set_map)
  then show ?thesis by (simp add: user_objects_def)
qed

lemma kv_store_not_acceptable: "map_of (tables d) ''kv_store'' = Some t \<Longrightarrow> \<not> acceptable d"
  using kv_store_user_object [of d t]
  by (auto simp: acceptable_def unversioned_schema_def only_items_def)

section \<open>Properties\<close>

definition kv_sample :: ref_conn where
  "kv_sample = \<lparr>conn_db = empty_db\<lparr>tables := [(''kv_store'', kv_table)]\<rparr>, conn_saved = None\<rparr>"

lemma kv_sample_holds: "kv_holds (conn_db kv_sample) []"
  by (simp add: kv_holds_def kv_sample_def empty_db_def kv_table_def)

text \<open>
  The key/value store keeps what it is given: after \<^verbatim>\<open>Upsert(k, v)\<close>, \<^verbatim>\<open>Get(k)\<close> returns
  \<^verbatim>\<open>v\<close> and every other key reads as before; both calls return.
\<close>

theorem KeyValueStore_Upsert_Get:
  assumes e: "sqlite_reliable conn view" and h: "kv_holds (conn_db (view db)) kvs"
  shows "\<exists>db1 db2. KeyValueStore_Upsert conn k v db = (Inr (), db1) \<and>
    KeyValueStore_Get conn j db1 = (Inr (if j = k then Some v else map_of kvs j), db2)"
proof -
  note eng = sqlite_reliable.axioms(1) [OF e]
  obtain db1 where db1: "KeyValueStore_Upsert conn k v db = (Inr (), db1)"
    using sqlite_reliable.KeyValueStore_Upsert_total [OF e h] by (auto simp: total_def)
  then have h1: "kv_holds (conn_db (view db1)) (kv_update k v kvs)"
    using sqlite_engine.KeyValueStore_Upsert_runs [OF eng h, of k v] by (auto simp: runs_def)
  obtain x db2 where x: "KeyValueStore_Get conn j db1 = (Inr x, db2)"
    using sqlite_reliable.KeyValueStore_Get_total [OF e h1, of j] by (auto simp: total_def)
  then have "x = map_of (kv_update k v kvs) j"
    using sqlite_engine.KeyValueStore_Get_runs [OF eng h1, of j] by (auto simp: runs_def)
  with db1 x show ?thesis by (auto simp: map_of_kv_update)
qed

theorem KeyValueStore_Upsert_Get_witness:
  "\<exists>db1 db2. KeyValueStore_Upsert ref_sqlite ''k'' ''v'' kv_sample = (Inr (), db1) \<and>
    KeyValueStore_Get ref_sqlite ''k'' db1 = (Inr (if ''k'' = ''k'' then Some ''v'' else map_of [] ''k''), db2)"
  by (rule KeyValueStore_Upsert_Get [OF ref.sqlite_reliable_axioms kv_sample_holds])

text \<open>
  C31: the two stores exclude each other. Once \<^verbatim>\<open>KeyValueStore::Initialize\<close> has returned on a
  file, every later \<^verbatim>\<open>SQLiteDatabase::Initialize\<close> on it throws, because its object check allows
  no table besides \<^verbatim>\<open>items\<close>. The server opens both on the same file.
\<close>

theorem kv_store_blocks_device_database:
  assumes eng: "sqlite_engine conn view" and "kv_scope (conn_db (view db))"
    and "KeyValueStore_Initialize conn db = (Inr (), db')"
    and db': "intact (conn_db (view db'))" "conn_saved (view db') = None"
  shows "\<exists>e s'. SQLiteDatabase_Initialize conn \<lparr>sqdb_database = db', sqdb_initialized = b\<rparr> = (Inl e, s')"
proof -
  obtain t where "map_of (tables (conn_db (view db'))) ''kv_store'' = Some t"
    using sqlite_engine.KeyValueStore_Initialize_runs [OF assms(1,2)] assms(3) by (auto simp: runs_def)
  then have "\<not> acceptable (conn_db (view db'))" by (rule kv_store_not_acceptable)
  moreover obtain r s' where r: "SQLiteDatabase_Initialize conn \<lparr>sqdb_database = db', sqdb_initialized = b\<rparr> = (r, s')"
    by fastforce
  ultimately show ?thesis
    using sqlite_engine.Initialize_cases [OF eng, of "\<lparr>sqdb_database = db', sqdb_initialized = b\<rparr>", OF _ _ r] db'
    by (cases r) (auto simp: initialized_from_def)
qed

theorem kv_store_blocks_device_database_witness:
  "\<exists>e s'. SQLiteDatabase_Initialize ref_sqlite \<lparr>sqdb_database = kv_sample, sqdb_initialized = False\<rparr> = (Inl e, s')"
proof (rule kv_store_blocks_device_database [OF ref.sqlite_engine_axioms])
  show "kv_scope (conn_db \<lparr>conn_db = empty_db, conn_saved = None\<rparr>)" by (simp add: kv_scope_def empty_db_def)
  show "KeyValueStore_Initialize ref_sqlite \<lparr>conn_db = empty_db, conn_saved = None\<rparr> = (Inr (), kv_sample)"
    by (simp add: KeyValueStore_Initialize_def exec_ignore_def cseq_def cbind_def cret_def ref_sqlite_def kv_sample_def empty_db_def)
  show "intact (conn_db kv_sample)"
    by (simp add: intact_def intact_table_def kv_sample_def empty_db_def kv_table_def not_like_sqlite_kv unique_on_def
      KvColumns_def DeviceColumns_def column_def)
qed (simp add: kv_sample_def)

end
