(* ===== verification/Mqtt_Messages.thy ===== *)
theory Mqtt_Messages
  imports Utf8
begin

text \<open>
  \<^verbatim>\<open>src/src/Watchlist/Messaging/MqttMessages.hpp\<close> and \<^verbatim>\<open>.cpp\<close>: the JSON envelopes of
  requests and acknowledgements. Serialisation is the code's own string building; parsing
  calls nlohmann's JSON library, which is a parameter (\<open>parse\<close>, \<open>None\<close> for a discarded
  document). What the code relies on is the locale \<open>json_reader\<close>, stated with the grammar of
  JSON strings. \<open>flat_json\<close> is an executable reader that satisfies it. The clock is the
  parameter \<open>now\<close>.
\<close>

section \<open>Data\<close>

datatype MessageType = ExecuteScript | SendToDevice | CmdToDevice | StoreDatabaseValue | QueryAiPrompt

record MqttRequest =
  rq_id :: string
  rq_type :: MessageType
  rq_createdUtc :: string
  rq_sourceClientId :: string
  rq_scriptName :: "string option"
  rq_deviceId :: "string option"
  rq_payload :: "string option"
  rq_command :: "string option"
  rq_key :: "string option"
  rq_value :: "string option"
  rq_prompt :: "string option"

record MqttAck =
  ack_requestId :: string
  ack_status :: string
  ack_message :: string
  ack_completedUtc :: string

record ParseResult =
  pr_request :: "MqttRequest option"
  pr_requestId :: string
  pr_sourceClientId :: string
  pr_error :: string

datatype json =
    JNull | JBool bool | JNumber | JString string | JArray "json list" | JObject "(string \<times> json) list"

section \<open>Serialisation\<close>

definition escape_char :: "char \<Rightarrow> string" where
  "escape_char c =
     (if c = CHR 0x5C then [CHR 0x5C, CHR 0x5C]
      else if c = CHR 0x22 then [CHR 0x5C, CHR 0x22]
      else if c = CHR 0x0A then [CHR 0x5C, CHR ''n'']
      else if c = CHR 0x0D then [CHR 0x5C, CHR ''r'']
      else if c = CHR 0x09 then [CHR 0x5C, CHR ''t'']
      else [c])"

definition EscapeJson :: "string \<Rightarrow> string" where
  "EscapeJson value = concat (map escape_char value)"

definition AppendField :: "string \<Rightarrow> string \<Rightarrow> string \<times> bool \<Rightarrow> string \<times> bool" where
  "AppendField name value = (\<lambda>(stream, first).
     (stream @ (if first then [] else '','') @ CHR 0x22 # name @ [CHR 0x22, CHR '':'', CHR 0x22] @ EscapeJson value @ [CHR 0x22],
      False))"

definition AppendOptionalField :: "string \<Rightarrow> string option \<Rightarrow> string \<times> bool \<Rightarrow> string \<times> bool" where
  "AppendOptionalField name value st = (case value of None \<Rightarrow> st | Some v \<Rightarrow> AppendField name v st)"

fun ToString :: "MessageType \<Rightarrow> string" where
  "ToString ExecuteScript = ''execute_script''"
| "ToString SendToDevice = ''send_to_device''"
| "ToString CmdToDevice = ''cmd_to_device''"
| "ToString StoreDatabaseValue = ''store_database_value''"
| "ToString QueryAiPrompt = ''query_AI_prompt''"

definition MessageTypeFromString :: "string \<Rightarrow> MessageType option" where
  "MessageTypeFromString value =
     (if value = ''execute_script'' then Some ExecuteScript
      else if value = ''send_to_device'' then Some SendToDevice
      else if value = ''cmd_to_device'' then Some CmdToDevice
      else if value = ''store_database_value'' then Some StoreDatabaseValue
      else if value = ''query_AI_prompt'' then Some QueryAiPrompt
      else None)"

definition IsValidClientId :: "string \<Rightarrow> bool" where
  "IsValidClientId value \<longleftrightarrow> value \<noteq> [] \<and> length value \<le> 128 \<and>
     list_all (\<lambda>c. isalnum c \<or> c = CHR ''-'' \<or> c = CHR ''_'' \<or> c = CHR ''.'') value"

definition SerializeRequest :: "MqttRequest \<Rightarrow> string" where
  "SerializeRequest request =
     (let st = (''{'', True);
          st = AppendField ''id'' (rq_id request) st;
          st = AppendField ''type'' (ToString (rq_type request)) st;
          st = AppendField ''created_utc'' (rq_createdUtc request) st;
          st = AppendField ''source_client_id'' (rq_sourceClientId request) st;
          st = AppendOptionalField ''script_name'' (rq_scriptName request) st;
          st = AppendOptionalField ''device_id'' (rq_deviceId request) st;
          st = AppendOptionalField ''payload'' (rq_payload request) st;
          st = AppendOptionalField ''command'' (rq_command request) st;
          st = AppendOptionalField ''key'' (rq_key request) st;
          st = AppendOptionalField ''value'' (rq_value request) st;
          st = AppendOptionalField ''prompt'' (rq_prompt request) st
      in fst st @ ''}'')"

definition SerializeAck :: "MqttAck \<Rightarrow> string" where
  "SerializeAck ack =
     (let st = (''{'', True);
          st = AppendField ''request_id'' (ack_requestId ack) st;
          st = AppendField ''status'' (ack_status ack) st;
          st = AppendField ''message'' (ack_message ack) st;
          st = AppendField ''completed_utc'' (ack_completedUtc ack) st
      in fst st @ ''}'')"

definition MakeAck :: "string \<Rightarrow> string \<Rightarrow> string \<Rightarrow> string \<Rightarrow> MqttAck" where
  "MakeAck now requestId status message =
     \<lparr>ack_requestId = requestId, ack_status = status, ack_message = message, ack_completedUtc = now\<rparr>"

section \<open>Parsing\<close>

definition JsonStringValue :: "(string \<times> json) list \<Rightarrow> string \<Rightarrow> string option" where
  "JsonStringValue object key =
     (case map_of object key of Some (JString s) \<Rightarrow> Some s | _ \<Rightarrow> None)"

definition envelope_fields :: "string list" where
  "envelope_fields = [''id'', ''type'', ''created_utc'', ''source_client_id'', ''script_name'', ''device_id'',
     ''payload'', ''command'', ''key'', ''value'', ''prompt'']"

fun non_string_loop :: "(string \<times> json) list \<Rightarrow> string list \<Rightarrow> string option" where
  "non_string_loop object [] = None"
| "non_string_loop object (field # rest) =
     (case map_of object field of
        None \<Rightarrow> non_string_loop object rest
      | Some (JString s) \<Rightarrow> non_string_loop object rest
      | Some _ \<Rightarrow> Some (''field must be a string: '' @ field))"

definition NonStringEnvelopeField :: "(string \<times> json) list \<Rightarrow> string option" where
  "NonStringEnvelopeField object = non_string_loop object envelope_fields"

definition missing :: "string \<Rightarrow> string" where
  "missing field = ''missing required field: '' @ field"

definition MissingRequiredField :: "MqttRequest \<Rightarrow> string option" where
  "MissingRequiredField request =
     (if rq_id request = [] then Some (missing ''id'')
      else if rq_createdUtc request = [] then Some (missing ''created_utc'')
      else if rq_sourceClientId request = [] then Some (missing ''source_client_id'')
      else if \<not> IsValidClientId (rq_sourceClientId request) then Some ''invalid field: source_client_id''
      else (case rq_type request of
          ExecuteScript \<Rightarrow> if rq_scriptName request = None then Some (missing ''script_name'') else None
        | SendToDevice \<Rightarrow>
            if rq_deviceId request = None then Some (missing ''device_id'')
            else if rq_payload request = None then Some (missing ''payload'') else None
        | CmdToDevice \<Rightarrow>
            if rq_deviceId request = None then Some (missing ''device_id'')
            else if rq_command request = None then Some (missing ''command'') else None
        | StoreDatabaseValue \<Rightarrow>
            if rq_key request = None then Some (missing ''key'')
            else if rq_value request = None then Some (missing ''value'') else None
        | QueryAiPrompt \<Rightarrow> if rq_prompt request = None then Some (missing ''prompt'') else None))"

definition value_or :: "string option \<Rightarrow> string \<Rightarrow> string" where
  "value_or v d = (case v of None \<Rightarrow> d | Some s \<Rightarrow> s)"

definition rejected :: "string \<Rightarrow> string \<Rightarrow> string \<Rightarrow> ParseResult" where
  "rejected requestId sourceClientId error =
     \<lparr>pr_request = None, pr_requestId = requestId, pr_sourceClientId = sourceClientId, pr_error = error\<rparr>"

definition request_of :: "(string \<times> json) list \<Rightarrow> MessageType \<Rightarrow> MqttRequest" where
  "request_of object type =
     \<lparr>rq_id = value_or (JsonStringValue object ''id'') [], rq_type = type,
      rq_createdUtc = value_or (JsonStringValue object ''created_utc'') [],
      rq_sourceClientId = value_or (JsonStringValue object ''source_client_id'') [],
      rq_scriptName = JsonStringValue object ''script_name'', rq_deviceId = JsonStringValue object ''device_id'',
      rq_payload = JsonStringValue object ''payload'', rq_command = JsonStringValue object ''command'',
      rq_key = JsonStringValue object ''key'', rq_value = JsonStringValue object ''value'',
      rq_prompt = JsonStringValue object ''prompt''\<rparr>"

definition ParseRequest :: "(string \<Rightarrow> json option) \<Rightarrow> string \<Rightarrow> ParseResult" where
  "ParseRequest parse text =
     (case parse text of
        Some (JObject object) \<Rightarrow>
          (let requestId = value_or (JsonStringValue object ''id'') [];
               sourceClientId = value_or (JsonStringValue object ''source_client_id'') []
           in (case NonStringEnvelopeField object of
                 Some invalidField \<Rightarrow> rejected requestId sourceClientId invalidField
               | None \<Rightarrow>
                   (case JsonStringValue object ''type'' of
                      None \<Rightarrow> rejected requestId sourceClientId (missing ''type'')
                    | Some typeValue \<Rightarrow>
                        (case MessageTypeFromString typeValue of
                           None \<Rightarrow> rejected requestId sourceClientId (''unknown message type: '' @ typeValue)
                         | Some type \<Rightarrow>
                             (let request = request_of object type in
                              (case MissingRequiredField request of
                                 Some absent \<Rightarrow> rejected requestId sourceClientId absent
                               | None \<Rightarrow> \<lparr>pr_request = Some request, pr_requestId = requestId,
                                   pr_sourceClientId = sourceClientId, pr_error = []\<rparr>))))))
      | _ \<Rightarrow> rejected [] [] ''invalid JSON object'')"

section \<open>JSON text\<close>

text \<open>The body of a JSON string literal, without escapes by code point, and the text it denotes.\<close>

definition escape_denotes :: "char \<Rightarrow> char option" where
  "escape_denotes e =
     (if e = CHR 0x22 \<or> e = CHR 0x5C \<or> e = CHR ''/'' then Some e
      else if e = CHR ''n'' then Some (CHR 0x0A)
      else if e = CHR ''r'' then Some (CHR 0x0D)
      else if e = CHR ''t'' then Some (CHR 0x09)
      else if e = CHR ''b'' then Some (CHR 0x08)
      else if e = CHR ''f'' then Some (CHR 0x0C)
      else None)"

fun json_unescape :: "string \<Rightarrow> string option" where
  "json_unescape [] = Some []"
| "json_unescape (c # cs) =
     (if c = CHR 0x5C then
        (case cs of
           [] \<Rightarrow> None
         | e # cs' \<Rightarrow>
             (case escape_denotes e of
                None \<Rightarrow> None
              | Some d \<Rightarrow> map_option (Cons d) (json_unescape cs')))
      else if c = CHR 0x22 \<or> byte c < 32 then None
      else map_option (Cons c) (json_unescape cs))"

fun json_body :: "string \<Rightarrow> bool" where
  "json_body [] = True"
| "json_body (c # cs) =
     (if c = CHR 0x5C then (case cs of [] \<Rightarrow> False | _ # cs' \<Rightarrow> json_body cs') else c \<noteq> CHR 0x22 \<and> json_body cs)"

definition member_text :: "string \<times> string \<Rightarrow> string" where
  "member_text = (\<lambda>(k, v). CHR 0x22 # k @ [CHR 0x22, CHR '':'', CHR 0x22] @ v @ [CHR 0x22])"

fun comma_join :: "string list \<Rightarrow> string" where
  "comma_join [] = []"
| "comma_join [p] = p"
| "comma_join (p # q # ps) = p @ CHR '','' # comma_join (q # ps)"

definition object_text :: "(string \<times> string) list \<Rightarrow> string" where
  "object_text ms = ''{'' @ comma_join (map member_text ms) @ ''}''"

definition plain_name :: "string \<Rightarrow> bool" where
  "plain_name k \<longleftrightarrow> list_all (\<lambda>c. isalnum c \<or> c = CHR ''_'') k"

text \<open>
  What a JSON reader does with an object whose members are string literals: it returns the
  members with the strings they denote, and it rejects the text when a literal contains an
  unescaped control character (RFC 8259, section 7).
\<close>

locale json_reader =
  fixes parse :: "string \<Rightarrow> json option"
  assumes parse_object:
    "list_all (\<lambda>(k, v). plain_name k \<and> IsValidUtf8 v \<and> json_unescape v \<noteq> None) ms \<Longrightarrow> distinct (map fst ms) \<Longrightarrow>
     \<exists>object. parse (object_text ms) = Some (JObject object) \<and>
       map_of object = map_of (map (\<lambda>(k, v). (k, JString (the (json_unescape v)))) ms)"
  and parse_control:
    "list_all (\<lambda>(k, v). plain_name k \<and> json_body v) ms \<Longrightarrow> (k, v) \<in> set ms \<Longrightarrow> c \<in> set v \<Longrightarrow> byte c < 32 \<Longrightarrow>
     parse (object_text ms) = None"

section \<open>Escaping\<close>

text \<open>The strings whose escaped form is a JSON string literal.\<close>

definition json_safe_char :: "char \<Rightarrow> bool" where
  "json_safe_char c \<longleftrightarrow> 32 \<le> byte c \<or> c = CHR 0x0A \<or> c = CHR 0x0D \<or> c = CHR 0x09"

definition json_safe :: "string \<Rightarrow> bool" where
  "json_safe s \<longleftrightarrow> IsValidUtf8 s \<and> list_all json_safe_char s"

lemma EscapeJson_simps [simp]: "EscapeJson [] = []" "EscapeJson (c # cs) = escape_char c @ EscapeJson cs"
  by (simp_all add: EscapeJson_def)

lemma json_unescape_escape_char:
  "json_safe_char c \<Longrightarrow> json_unescape (escape_char c @ cs) = map_option (Cons c) (json_unescape cs)"
  by (auto simp: escape_char_def escape_denotes_def json_safe_char_def)

lemma json_unescape_EscapeJson: "list_all json_safe_char s \<Longrightarrow> json_unescape (EscapeJson s) = Some s"
  by (induction s) (auto simp: json_unescape_escape_char)

lemma json_body_EscapeJson: "json_body (EscapeJson s)"
  by (induction s) (auto simp: escape_char_def)

lemma EscapeJson_control: "c \<in> set s \<Longrightarrow> \<not> json_safe_char c \<Longrightarrow> c \<in> set (EscapeJson s) \<and> byte c < 32"
  by (auto simp: EscapeJson_def escape_char_def json_safe_char_def byte_def intro!: bexI [of _ c])

definition escape_code :: "nat \<Rightarrow> nat list" where
  "escape_code cp = (if cp < 128 then map byte (escape_char (char_of cp)) else [cp])"

lemma utf8_encode_high: "128 \<le> cp \<Longrightarrow> \<forall>b \<in> set (utf8_encode cp). 128 \<le> b"
  by (auto simp: utf8_encode_def)

lemma escape_high: "128 \<le> byte c \<Longrightarrow> escape_char c = [c]"
  by (auto simp: escape_char_def byte_def)

lemma EscapeJson_append: "EscapeJson (a @ b) = EscapeJson a @ EscapeJson b"
  by (simp add: EscapeJson_def)

lemma escape_high_all: "\<forall>b \<in> set (map byte s). 128 \<le> b \<Longrightarrow> EscapeJson s = s"
  by (induction s) (auto simp: escape_high)

lemma escape_char_ascii: "byte c < 128 \<Longrightarrow> \<forall>x \<in> set (escape_char c). byte x < 128"
  by (auto simp: escape_char_def byte_def)

lemma encode_ascii: "\<forall>b \<in> set bs. b < 128 \<Longrightarrow> concat (map utf8_encode bs) = bs"
  by (induction bs) (auto simp: utf8_encode_def)

lemma EscapeJson_encoded:
  "map byte s = concat (map utf8_encode cps) \<Longrightarrow> \<forall>cp \<in> set cps. unicode_scalar cp \<Longrightarrow>
   map byte (EscapeJson s) = concat (map utf8_encode (concat (map escape_code cps))) \<and>
   (\<forall>cp \<in> set (concat (map escape_code cps)). unicode_scalar cp)"
proof (induction cps arbitrary: s)
  case (Cons cp cps)
  obtain a b where ab: "s = a @ b" "map byte a = utf8_encode cp" "map byte b = concat (map utf8_encode cps)"
    using Cons.prems(1) by (auto simp: map_eq_append_conv)
  note IH = Cons.IH [OF ab(3)]
  show ?case
  proof (cases "cp < 128")
    case True
    then obtain c where c: "a = [c]" "byte c = cp" using ab(2) by (auto simp: utf8_encode_def)
    then have code: "escape_code cp = map byte (escape_char c)" using True by (auto simp: escape_code_def byte_def)
    have low: "\<forall>b \<in> set (map byte (escape_char c)). b < 128" using escape_char_ascii [of c] True c(2) by simp
    then have "\<forall>b \<in> set (escape_code cp). unicode_scalar b" by (auto simp: code unicode_scalar_def)
    with encode_ascii [OF low] code c(1) ab(1) IH Cons.prems(2) show ?thesis by (simp add: ball_Un)
  next
    case False
    then have "EscapeJson a = a" using utf8_encode_high [of cp] ab(2) by (intro escape_high_all) simp
    with False ab IH Cons.prems(2) show ?thesis by (auto simp: escape_code_def EscapeJson_append)
  qed
qed simp

lemma IsValidUtf8_EscapeJson: "IsValidUtf8 s \<Longrightarrow> IsValidUtf8 (EscapeJson s)"
  unfolding IsValidUtf8_utf8_text utf8_text_def using EscapeJson_encoded by blast

section \<open>The serialised envelope as JSON text\<close>

definition optional_member :: "string \<Rightarrow> string option \<Rightarrow> (string \<times> string) list" where
  "optional_member name value = (case value of None \<Rightarrow> [] | Some v \<Rightarrow> [(name, v)])"

definition request_members :: "MqttRequest \<Rightarrow> (string \<times> string) list" where
  "request_members r =
     [(''id'', rq_id r), (''type'', ToString (rq_type r)), (''created_utc'', rq_createdUtc r),
      (''source_client_id'', rq_sourceClientId r)] @
     optional_member ''script_name'' (rq_scriptName r) @ optional_member ''device_id'' (rq_deviceId r) @
     optional_member ''payload'' (rq_payload r) @ optional_member ''command'' (rq_command r) @
     optional_member ''key'' (rq_key r) @ optional_member ''value'' (rq_value r) @
     optional_member ''prompt'' (rq_prompt r)"

definition escaped :: "(string \<times> string) list \<Rightarrow> (string \<times> string) list" where
  "escaped ms = map (\<lambda>(k, v). (k, EscapeJson v)) ms"

definition append_members :: "(string \<times> string) list \<Rightarrow> string \<times> bool \<Rightarrow> string \<times> bool" where
  "append_members ms st = fold (\<lambda>(k, v). AppendField k v) ms st"

lemma append_members_simps:
  "append_members [] st = st"
  "append_members (m # ms) st = append_members ms (AppendField (fst m) (snd m) st)"
  "append_members (a @ b) st = append_members b (append_members a st)"
  by (simp_all add: append_members_def case_prod_beta)

lemma AppendOptionalField_members: "AppendOptionalField n v st = append_members (optional_member n v) st"
  by (simp add: AppendOptionalField_def optional_member_def append_members_def split: option.splits)

lemma comma_join_Cons: "comma_join (p # ps) = p @ concat (map (Cons CHR '','') ps)"
  by (induction ps arbitrary: p) auto

lemma append_members_rest:
  "append_members ms (s, False) = (s @ concat (map (Cons CHR '','') (map member_text (escaped ms))), False)"
  by (induction ms arbitrary: s)
    (auto simp: append_members_simps AppendField_def member_text_def escaped_def split: prod.splits)

lemma append_members_object:
  "ms \<noteq> [] \<Longrightarrow> fst (append_members ms (''{'', True)) @ ''}'' = object_text (escaped ms)"
  by (cases ms)
    (auto simp: append_members_simps AppendField_def append_members_rest object_text_def comma_join_Cons member_text_def
      escaped_def split: prod.splits)

lemma SerializeRequest_object: "SerializeRequest r = object_text (escaped (request_members r))"
proof -
  have "SerializeRequest r = fst (append_members (request_members r) (''{'', True)) @ ''}''"
    by (simp add: SerializeRequest_def Let_def AppendOptionalField_members request_members_def append_members_simps)
  then show ?thesis by (simp add: append_members_object request_members_def)
qed

definition ack_members :: "MqttAck \<Rightarrow> (string \<times> string) list" where
  "ack_members a = [(''request_id'', ack_requestId a), (''status'', ack_status a), (''message'', ack_message a),
     (''completed_utc'', ack_completedUtc a)]"

lemma SerializeAck_object: "SerializeAck a = object_text (escaped (ack_members a))"
proof -
  have "SerializeAck a = fst (append_members (ack_members a) (''{'', True)) @ ''}''"
    by (simp add: SerializeAck_def Let_def ack_members_def append_members_simps)
  then show ?thesis by (simp add: append_members_object ack_members_def)
qed

lemma plain_names: "list_all plain_name envelope_fields"
  "list_all plain_name [''request_id'', ''status'', ''message'', ''completed_utc'']"
  by (simp_all add: envelope_fields_def plain_name_def isalnum_def isalpha_def isdigit_def byte_def)

lemma request_member_names:
  "set (map fst (request_members r)) \<subseteq> set envelope_fields" "distinct (map fst (request_members r))"
  by (auto simp: request_members_def optional_member_def envelope_fields_def split: option.splits)

lemma map_of_optional [simp]: "map_of (optional_member n v) = (\<lambda>k. if k = n then v else None)"
  by (auto simp: optional_member_def fun_eq_iff split: option.splits)

lemma request_member_lookup:
  "map_of (request_members r) ''id'' = Some (rq_id r)"
  "map_of (request_members r) ''type'' = Some (ToString (rq_type r))"
  "map_of (request_members r) ''created_utc'' = Some (rq_createdUtc r)"
  "map_of (request_members r) ''source_client_id'' = Some (rq_sourceClientId r)"
  "map_of (request_members r) ''script_name'' = rq_scriptName r"
  "map_of (request_members r) ''device_id'' = rq_deviceId r"
  "map_of (request_members r) ''payload'' = rq_payload r"
  "map_of (request_members r) ''command'' = rq_command r"
  "map_of (request_members r) ''key'' = rq_key r"
  "map_of (request_members r) ''value'' = rq_value r"
  "map_of (request_members r) ''prompt'' = rq_prompt r"
  by (simp_all add: request_members_def map_add_def split: option.splits)

section \<open>Message types\<close>

lemma MessageTypeFromString_ToString: "MessageTypeFromString (ToString t) = Some t"
  by (cases t) (simp_all add: MessageTypeFromString_def)

lemma MessageTypeFromString_Some: "MessageTypeFromString s = Some t \<Longrightarrow> s = ToString t"
  by (auto simp: MessageTypeFromString_def split: if_splits)

section \<open>Round trip\<close>

definition request_safe :: "MqttRequest \<Rightarrow> bool" where
  "request_safe r \<longleftrightarrow> list_all (\<lambda>(k, v). json_safe v) (request_members r)"

lemma map_of_escaped:
  "list_all (\<lambda>(k, v). json_safe v) ms \<Longrightarrow>
   map_of (map (\<lambda>(k, v). (k, JString (the (json_unescape v)))) (escaped ms)) k = map_option JString (map_of ms k)"
  by (induction ms) (auto simp: escaped_def json_safe_def json_unescape_EscapeJson)

lemma non_string_loop_strings:
  "(\<And>k j. map_of object k = Some j \<Longrightarrow> \<exists>s. j = JString s) \<Longrightarrow> non_string_loop object ks = None"
proof (induction ks)
  case (Cons k ks)
  show ?case
  proof (cases "map_of object k")
    case (Some j)
    then obtain s where "j = JString s" using Cons.prems by blast
    with Some Cons show ?thesis by simp
  qed (use Cons in simp)
qed simp

context json_reader
begin

lemma parse_members:
  assumes "list_all (\<lambda>(k, v). plain_name k \<and> json_safe v) ms" "distinct (map fst ms)"
  shows "\<exists>object. parse (object_text (escaped ms)) = Some (JObject object) \<and>
    (\<forall>k. map_of object k = map_option JString (map_of ms k))"
proof -
  have "list_all (\<lambda>(k, v). plain_name k \<and> IsValidUtf8 v \<and> json_unescape v \<noteq> None) (escaped ms)"
    using assms(1)
    by (auto simp: list_all_iff escaped_def json_safe_def IsValidUtf8_EscapeJson json_unescape_EscapeJson)
  moreover have "distinct (map fst (escaped ms))" using assms(2) by (simp add: escaped_def o_def case_prod_beta)
  ultimately obtain object where o: "parse (object_text (escaped ms)) = Some (JObject object)"
    "map_of object = map_of (map (\<lambda>(k, v). (k, JString (the (json_unescape v)))) (escaped ms))"
    using parse_object by blast
  moreover have "list_all (\<lambda>(k, v). json_safe v) ms" using assms(1) by (auto simp: list_all_iff)
  ultimately show ?thesis using map_of_escaped by (metis (no_types, lifting))
qed

lemma request_members_plain:
  "request_safe r \<Longrightarrow> list_all (\<lambda>(k, v). plain_name k \<and> json_safe v) (request_members r)"
  using request_member_names(1) [of r] plain_names(1) by (fastforce simp: request_safe_def list_all_iff)

lemma ParseRequest_SerializeRequest:
  assumes "request_safe r" "MissingRequiredField r = None"
  shows "ParseRequest parse (SerializeRequest r) =
    \<lparr>pr_request = Some r, pr_requestId = rq_id r, pr_sourceClientId = rq_sourceClientId r, pr_error = []\<rparr>"
proof -
  obtain object where o: "parse (SerializeRequest r) = Some (JObject object)"
    and m: "\<And>k. map_of object k = map_option JString (map_of (request_members r) k)"
    using parse_members [OF request_members_plain [OF assms(1)] request_member_names(2)]
    unfolding SerializeRequest_object by blast
  have j: "JsonStringValue object k = map_of (request_members r) k" for k
    by (simp add: JsonStringValue_def m split: option.splits)
  have n: "NonStringEnvelopeField object = None"
    unfolding NonStringEnvelopeField_def by (rule non_string_loop_strings) (auto simp: m)
  have "request_of object (rq_type r) = r"
    by (simp add: request_of_def j request_member_lookup value_or_def)
  with o n assms(2) show ?thesis
    by (simp add: ParseRequest_def Let_def j request_member_lookup MessageTypeFromString_ToString value_or_def)
qed

lemma ParseRequest_control:
  assumes "(k, v) \<in> set (request_members r)" "c \<in> set v" "\<not> json_safe_char c"
  shows "ParseRequest parse (SerializeRequest r) = rejected [] [] ''invalid JSON object''"
proof -
  have "list_all (\<lambda>(k, v). plain_name k \<and> json_body v) (escaped (request_members r))"
    using request_member_names(1) [of r] plain_names(1)
    by (fastforce simp: list_all_iff escaped_def json_body_EscapeJson)
  moreover have "(k, EscapeJson v) \<in> set (escaped (request_members r))" using assms(1) by (force simp: escaped_def)
  moreover have "c \<in> set (EscapeJson v)" "byte c < 32" using EscapeJson_control [OF assms(2,3)] by auto
  ultimately have "parse (SerializeRequest r) = None" unfolding SerializeRequest_object by (rule parse_control)
  then show ?thesis by (simp add: ParseRequest_def)
qed

end

section \<open>A reader of flat objects\<close>

fun read_body :: "string \<Rightarrow> (string \<times> string) option" where
  "read_body [] = None"
| "read_body (c # cs) =
     (if c = CHR 0x22 then Some ([], cs)
      else if c = CHR 0x5C then
        (case cs of [] \<Rightarrow> None | e # cs' \<Rightarrow> map_option (\<lambda>(b, r). (c # e # b, r)) (read_body cs'))
      else map_option (\<lambda>(b, r). (c # b, r)) (read_body cs))"

definition read_quoted :: "string \<Rightarrow> (string \<times> string) option" where
  "read_quoted s = (case s of c # cs \<Rightarrow> if c = CHR 0x22 then read_body cs else None | [] \<Rightarrow> None)"

definition read_member :: "string \<Rightarrow> ((string \<times> string) \<times> string) option" where
  "read_member s =
     (case read_quoted s of
        Some (k, c # r) \<Rightarrow>
          (if c = CHR '':'' then (case read_quoted r of Some (v, r') \<Rightarrow> Some ((k, v), r') | None \<Rightarrow> None) else None)
      | _ \<Rightarrow> None)"

fun read_members :: "nat \<Rightarrow> string \<Rightarrow> (string \<times> string) list option" where
  "read_members 0 s = None"
| "read_members (Suc n) s =
     (case read_member s of
        Some (m, [c]) \<Rightarrow> if c = CHR ''}'' then Some [m] else None
      | Some (m, c # r) \<Rightarrow> if c = CHR '','' then map_option (Cons m) (read_members n r) else None
      | _ \<Rightarrow> None)"

definition flat_json :: "string \<Rightarrow> json option" where
  "flat_json s =
     (if s = ''{}'' then Some (JObject [])
      else case s of
        c # r \<Rightarrow>
          (if c = CHR ''{'' then
             (case read_members (length r) r of
                Some ms \<Rightarrow>
                  (if list_all (\<lambda>(k, v). IsValidUtf8 v \<and> json_unescape v \<noteq> None) ms
                   then Some (JObject (map (\<lambda>(k, v). (k, JString (the (json_unescape v)))) ms)) else None)
              | None \<Rightarrow> None)
           else None)
      | [] \<Rightarrow> None)"

lemma read_body_append: "json_body v \<Longrightarrow> read_body (v @ CHR 0x22 # r) = Some (v, r)"
  by (induction v rule: json_body.induct) (auto split: list.splits if_splits)

lemma json_unescape_escape:
  assumes "json_unescape (CHR 0x5C # cs) \<noteq> None"
  obtains e cs' d where "cs = e # cs'" "escape_denotes e = Some d" "json_unescape cs' \<noteq> None"
  using assms by (cases cs; cases "escape_denotes (hd cs)") auto

lemma json_unescape_raw:
  assumes "json_unescape (c # cs) \<noteq> None" "c \<noteq> CHR 0x5C"
  shows "c \<noteq> CHR 0x22" "32 \<le> byte c" "json_unescape cs \<noteq> None"
  using assms by (auto simp: not_less split: if_splits)

lemma escape_denotes_printable: "escape_denotes e = Some d \<Longrightarrow> 32 \<le> byte e"
  by (auto simp: escape_denotes_def byte_def split: if_splits)

lemma json_literal: "json_unescape v \<noteq> None \<Longrightarrow> json_body v \<and> (\<forall>c \<in> set v. 32 \<le> byte c)"
proof (induction v rule: json_unescape.induct)
  case (2 c cs)
  show ?case
  proof (cases "c = CHR 0x5C")
    case True
    obtain e cs' d where e: "cs = e # cs'" "escape_denotes e = Some d" "json_unescape cs' \<noteq> None"
      using "2.prems" unfolding True by (rule json_unescape_escape)
    with "2.IH"(1) [OF True e] escape_denotes_printable [OF e(2)] True show ?thesis by (simp add: byte_def)
  next
    case False
    with json_unescape_raw [OF "2.prems" False] "2.IH"(2) show ?thesis by simp
  qed
qed simp

lemmas json_body_unescape = json_literal [THEN conjunct1]

lemma json_unescape_control: "json_unescape v \<noteq> None \<Longrightarrow> c \<in> set v \<Longrightarrow> 32 \<le> byte c"
  using json_literal by blast

lemma json_body_plain: "plain_name k \<Longrightarrow> json_body k"
proof (induction k)
  case (Cons c k)
  then have "c \<noteq> CHR 0x5C" "c \<noteq> CHR 0x22" by (auto simp: plain_name_def ctype_simps byte_def)
  with Cons show ?case by (auto simp: plain_name_def)
qed simp

lemma read_member_text:
  "plain_name k \<Longrightarrow> json_body v \<Longrightarrow> read_member (member_text (k, v) @ r) = Some ((k, v), r)"
  by (simp add: read_member_def read_quoted_def member_text_def read_body_append json_body_plain)

lemma read_members_text:
  "list_all (\<lambda>(k, v). plain_name k \<and> json_body v) ms \<Longrightarrow> ms \<noteq> [] \<Longrightarrow> length ms \<le> n \<Longrightarrow>
   read_members n (comma_join (map member_text ms) @ ''}'') = Some ms"
proof (induction ms arbitrary: n)
  case (Cons m ms)
  obtain k v where m: "m = (k, v)" by fastforce
  obtain n' where n: "n = Suc n'" using Cons.prems(3) by (cases n) auto
  have kv: "plain_name k" "json_body v" using Cons.prems(1) m by auto
  show ?case
  proof (cases ms)
    case Nil
    with m n kv show ?thesis by (simp add: read_member_text)
  next
    case (Cons m' ms')
    have "comma_join (map member_text ms) @ ''}'' \<noteq> []" by simp
    then obtain c r where r: "comma_join (map member_text ms) @ ''}'' = c # r" by (cases "comma_join (map member_text ms)") auto
    have "read_members n' (comma_join (map member_text ms) @ ''}'') = Some ms"
      using Cons.IH [of n'] Cons Cons.prems n by auto
    with m n kv r Cons show ?thesis by (simp add: read_member_text comma_join_Cons)
  qed
qed simp

lemma length_comma_join: "length ms \<le> length (comma_join (map member_text ms) @ ''}'')"
proof -
  have "length ms \<le> length (concat (map (Cons CHR '','') (map member_text ms)))" for ms
    by (induction ms) auto
  from this [of "tl ms"] show ?thesis by (cases ms) (auto simp: comma_join_Cons)
qed

lemma flat_json_object:
  assumes "list_all (\<lambda>(k, v). plain_name k \<and> json_body v) ms"
  shows "flat_json (object_text ms) =
    (if list_all (\<lambda>(k, v). IsValidUtf8 v \<and> json_unescape v \<noteq> None) ms
     then Some (JObject (map (\<lambda>(k, v). (k, JString (the (json_unescape v)))) ms)) else None)"
proof (cases "ms = []")
  case False
  then have "object_text ms \<noteq> ''{}''" by (cases ms) (auto simp: object_text_def comma_join_Cons member_text_def)
  with read_members_text [OF assms False length_comma_join] show ?thesis
    by (simp add: flat_json_def object_text_def)
qed (simp add: flat_json_def object_text_def)

interpretation flat: json_reader flat_json
proof
  fix ms :: "(string \<times> string) list"
  assume a: "list_all (\<lambda>(k, v). plain_name k \<and> IsValidUtf8 v \<and> json_unescape v \<noteq> None) ms"
  then have "list_all (\<lambda>(k, v). plain_name k \<and> json_body v) ms"
    using json_body_unescape by (fastforce simp: list_all_iff)
  moreover have "list_all (\<lambda>(k, v). IsValidUtf8 v \<and> json_unescape v \<noteq> None) ms" using a by (auto simp: list_all_iff)
  ultimately show "\<exists>object. flat_json (object_text ms) = Some (JObject object) \<and>
     map_of object = map_of (map (\<lambda>(k, v). (k, JString (the (json_unescape v)))) ms)"
    by (simp add: flat_json_object)
next
  fix ms k v c
  assume "list_all (\<lambda>(k, v). plain_name k \<and> json_body v) ms" "(k, v) \<in> set ms" "c \<in> set v" "byte c < 32"
  then show "flat_json (object_text ms) = None"
    using json_unescape_control [of v c] by (auto simp: flat_json_object list_all_iff intro!: bexI [of _ "(k, v)"])
qed

section \<open>What an accepted request satisfies\<close>

lemma ParseRequest_accepted:
  assumes "pr_request (ParseRequest parse text) = Some r"
  shows "MissingRequiredField r = None \<and> pr_error (ParseRequest parse text) = [] \<and>
    pr_requestId (ParseRequest parse text) = rq_id r \<and> pr_sourceClientId (ParseRequest parse text) = rq_sourceClientId r"
proof -
  from assms obtain object where "parse text = Some (JObject object)"
    by (auto simp: ParseRequest_def rejected_def split: option.splits json.splits)
  with assms show ?thesis
    by (auto simp: ParseRequest_def rejected_def Let_def request_of_def split: option.splits)
qed

section \<open>Properties\<close>

definition sample_request :: MqttRequest where
  "sample_request = \<lparr>rq_id = ''r1'', rq_type = StoreDatabaseValue, rq_createdUtc = ''t'', rq_sourceClientId = ''c1'',
     rq_scriptName = None, rq_deviceId = None, rq_payload = None, rq_command = None, rq_key = Some ''k'',
     rq_value = Some [CHR 0x22, CHR 0x5C, CHR 0x0A], rq_prompt = None\<rparr>"

lemmas request_eval = request_members_def optional_member_def MissingRequiredField_def IsValidClientId_def
  isalnum_def isalpha_def isdigit_def byte_def json_safe_def json_safe_char_def utf8_step_ascii

lemma sample_request_safe: "request_safe sample_request" "MissingRequiredField sample_request = None"
  by (simp_all add: request_safe_def sample_request_def request_eval)

text \<open>
  C23: requests survive the wire. For every JSON reader that decodes objects of strings as the
  JSON grammar says, a complete request whose texts are UTF-8 without control characters other
  than newline, carriage return and tab is parsed back to exactly itself.
\<close>

theorem request_round_trip:
  assumes "json_reader parse" "request_safe r" "MissingRequiredField r = None"
  shows "ParseRequest parse (SerializeRequest r) =
    \<lparr>pr_request = Some r, pr_requestId = rq_id r, pr_sourceClientId = rq_sourceClientId r, pr_error = []\<rparr>"
  by (rule json_reader.ParseRequest_SerializeRequest [OF assms])

theorem request_round_trip_witness:
  "ParseRequest flat_json (SerializeRequest sample_request) =
    \<lparr>pr_request = Some sample_request, pr_requestId = rq_id sample_request,
     pr_sourceClientId = rq_sourceClientId sample_request, pr_error = []\<rparr>"
  by (rule request_round_trip [OF flat.json_reader_axioms sample_request_safe])

text \<open>
  C24: a control character is fatal to its request. If any field of a request holds a character
  below \<^verbatim>\<open>0x20\<close> other than newline, carriage return and tab, \<^verbatim>\<open>EscapeJson\<close> passes it through
  raw, and the receiver refuses the whole envelope as invalid JSON, without the request id and the
  client that an error acknowledgement would need.
\<close>

theorem control_character_rejected:
  assumes "json_reader parse" "(k, v) \<in> set (request_members r)" "c \<in> set v" "\<not> json_safe_char c"
  shows "ParseRequest parse (SerializeRequest r) =
    \<lparr>pr_request = None, pr_requestId = [], pr_sourceClientId = [], pr_error = ''invalid JSON object''\<rparr>"
  using json_reader.ParseRequest_control [OF assms] by (simp add: rejected_def)

theorem control_character_rejected_witness:
  "ParseRequest flat_json (SerializeRequest (sample_request\<lparr>rq_key := Some [CHR 0x01]\<rparr>)) =
    \<lparr>pr_request = None, pr_requestId = [], pr_sourceClientId = [], pr_error = ''invalid JSON object''\<rparr>"
  by (rule control_character_rejected [OF flat.json_reader_axioms, of "''key''" "[CHR 0x01]" _ "CHR 0x01"])
    (simp_all add: sample_request_def request_eval)

text \<open>
  Nothing incomplete is accepted. A payload that \<^verbatim>\<open>ParseRequest\<close> accepts carries a non-empty
  id and timestamp, a client id of 1 to 128 letters, digits, hyphens, underscores and dots, and
  every field its message type needs; no error is reported with it.
\<close>

theorem accepted_request_complete:
  assumes "pr_request (ParseRequest parse text) = Some r"
  shows "pr_error (ParseRequest parse text) = [] \<and> rq_id r \<noteq> [] \<and> rq_createdUtc r \<noteq> [] \<and>
    IsValidClientId (rq_sourceClientId r) \<and>
    (case rq_type r of
       ExecuteScript \<Rightarrow> rq_scriptName r \<noteq> None
     | SendToDevice \<Rightarrow> rq_deviceId r \<noteq> None \<and> rq_payload r \<noteq> None
     | CmdToDevice \<Rightarrow> rq_deviceId r \<noteq> None \<and> rq_command r \<noteq> None
     | StoreDatabaseValue \<Rightarrow> rq_key r \<noteq> None \<and> rq_value r \<noteq> None
     | QueryAiPrompt \<Rightarrow> rq_prompt r \<noteq> None)"
  using ParseRequest_accepted [OF assms]
  by (auto simp: MissingRequiredField_def split: if_splits MessageType.splits)

theorem accepted_request_complete_witness:
  "pr_error (ParseRequest flat_json (SerializeRequest sample_request)) = [] \<and> rq_id sample_request \<noteq> [] \<and>
   rq_createdUtc sample_request \<noteq> [] \<and> IsValidClientId (rq_sourceClientId sample_request) \<and>
   (case rq_type sample_request of
       ExecuteScript \<Rightarrow> rq_scriptName sample_request \<noteq> None
     | SendToDevice \<Rightarrow> rq_deviceId sample_request \<noteq> None \<and> rq_payload sample_request \<noteq> None
     | CmdToDevice \<Rightarrow> rq_deviceId sample_request \<noteq> None \<and> rq_command sample_request \<noteq> None
     | StoreDatabaseValue \<Rightarrow> rq_key sample_request \<noteq> None \<and> rq_value sample_request \<noteq> None
     | QueryAiPrompt \<Rightarrow> rq_prompt sample_request \<noteq> None)"
  by (rule accepted_request_complete) (simp add: flat.ParseRequest_SerializeRequest [OF sample_request_safe])

end
