(* ===== verification/Mqtt_Topics.thy ===== *)
theory Mqtt_Topics
  imports Mqtt_Messages
begin

text \<open>
  Topic names (\<^verbatim>\<open>src/src/Watchlist/Messaging/MqttTopics.hpp\<close>) and the matching of a topic
  against a subscription filter (\<^verbatim>\<open>TopicMatches\<close> in \<^verbatim>\<open>MqttService.cpp\<close>). \<open>levels_match\<close>
  is the matching on lists of topic levels.
\<close>

definition RequestsTopic :: string where
  "RequestsTopic = ''watchlist/requests''"

definition AckTopicForClient :: "string \<Rightarrow> string" where
  "AckTopicForClient clientId = ''watchlist/acks/'' @ clientId"

text \<open>The loop on the rest of the filter and of the topic.\<close>

function TopicMatches :: "string \<Rightarrow> string \<Rightarrow> bool" where
  "TopicMatches pattern topic =
     (let filterLevel = upto_sep CHR ''/'' pattern; topicLevel = upto_sep CHR ''/'' topic in
      if filterLevel = ''#'' then after_sep CHR ''/'' pattern = None
      else if filterLevel \<noteq> ''+'' \<and> filterLevel \<noteq> topicLevel then False
      else (case (after_sep CHR ''/'' pattern, after_sep CHR ''/'' topic) of
              (Some pattern', Some topic') \<Rightarrow> TopicMatches pattern' topic'
            | (f, t) \<Rightarrow> f = None \<and> t = None))"
  by pat_completeness auto
termination
  by (relation "measure (\<lambda>(pattern, topic). length pattern)") (auto dest: after_sep_length [OF sym])

declare TopicMatches.simps [simp del]

fun levels_match :: "string list \<Rightarrow> string list \<Rightarrow> bool" where
  "levels_match (f # fs) (t # ts) =
     (if f = ''#'' then fs = []
      else (f = ''+'' \<or> f = t) \<and>
        (if fs = [] \<or> ts = [] then fs = [] \<and> ts = [] else levels_match fs ts))"
| "levels_match _ _ = False"

lemma TopicMatches_levels:
  "TopicMatches pattern topic \<longleftrightarrow> levels_match (split_sep CHR ''/'' pattern) (split_sep CHR ''/'' topic)"
proof (induction pattern topic rule: TopicMatches.induct)
  case (1 pattern topic)
  note unfold = TopicMatches.simps [of pattern topic] split_sep.simps [of "CHR ''/''" pattern]
    split_sep.simps [of "CHR ''/''" topic]
  show ?case
  proof (cases "after_sep CHR ''/'' pattern")
    case None
    then show ?thesis unfolding unfold by (auto simp: Let_def split: option.splits)
  next
    case (Some f)
    show ?thesis
    proof (cases "after_sep CHR ''/'' topic")
      case None
      with Some show ?thesis unfolding unfold by (auto simp: Let_def)
    next
      case (Some t)
      with \<open>after_sep CHR ''/'' pattern = Some f\<close> "1.IH" show ?thesis unfolding unfold by (auto simp: Let_def)
    qed
  qed
qed

text \<open>Filters without wildcards match only themselves.\<close>

definition wildcard_free :: "string \<Rightarrow> bool" where
  "wildcard_free s \<longleftrightarrow> CHR ''#'' \<notin> set s \<and> CHR ''+'' \<notin> set s"

lemma levels_match_literal:
  "list_all (\<lambda>f. f \<noteq> ''#'' \<and> f \<noteq> ''+'') fs \<Longrightarrow> levels_match fs ts \<longleftrightarrow> fs \<noteq> [] \<and> fs = ts"
proof (induction fs ts rule: levels_match.induct)
  case (1 f fs t ts)
  then show ?case by (cases "fs = [] \<or> ts = []") auto
qed auto

lemma TopicMatches_literal: "wildcard_free pattern \<Longrightarrow> TopicMatches pattern topic \<longleftrightarrow> pattern = topic"
proof -
  assume w: "wildcard_free pattern"
  have "list_all (\<lambda>f. f \<noteq> ''#'' \<and> f \<noteq> ''+'') (split_sep CHR ''/'' pattern)"
    using w split_sep_parts [of _ "CHR ''/''" pattern] by (fastforce simp: wildcard_free_def list_all_iff)
  then show ?thesis
    unfolding TopicMatches_levels by (simp add: levels_match_literal) (metis join_split)
qed

lemma client_id_chars:
  assumes "IsValidClientId c"
  shows "CHR ''/'' \<notin> set c" "wildcard_free c"
proof -
  have "c' \<notin> set c" if "\<not> (isalnum c' \<or> c' = CHR ''-'' \<or> c' = CHR ''_'' \<or> c' = CHR ''.'')" for c'
    using assms that by (auto simp: IsValidClientId_def list_all_iff)
  then show "CHR ''/'' \<notin> set c" "wildcard_free c"
    by (simp_all add: wildcard_free_def isalnum_def isdigit_def isalpha_def byte_def)
qed

lemma ack_topic_wildcard_free: "IsValidClientId c \<Longrightarrow> wildcard_free (AckTopicForClient c)"
  using client_id_chars [of c] by (auto simp: wildcard_free_def AckTopicForClient_def)

lemma ack_topic_inj: "AckTopicForClient a = AckTopicForClient b \<longleftrightarrow> a = b"
  by (simp add: AckTopicForClient_def)

lemma ack_topic_not_requests: "AckTopicForClient c \<noteq> RequestsTopic"
  by (simp add: AckTopicForClient_def RequestsTopic_def)

section \<open>Properties\<close>

definition level_ok :: "string \<Rightarrow> string \<Rightarrow> bool" where
  "level_ok f t \<longleftrightarrow> f \<noteq> ''#'' \<and> (f = ''+'' \<or> f = t)"

lemma levels_match_iff:
  "fs \<noteq> [] \<Longrightarrow> ts \<noteq> [] \<Longrightarrow> levels_match fs ts \<longleftrightarrow>
     list_all2 level_ok fs ts \<or>
     (\<exists>pre. fs = pre @ [''#''] \<and> length pre < length ts \<and> list_all2 level_ok pre (take (length pre) ts))"
proof (induction fs ts rule: levels_match.induct)
  case (1 f fs t ts)
  have pre: "(\<exists>pre. f # fs = pre @ [''#''] \<and> length pre < length (t # ts) \<and> list_all2 level_ok pre (take (length pre) (t # ts))) \<longleftrightarrow>
      (f = ''#'' \<and> fs = []) \<or>
      (level_ok f t \<and> (\<exists>pre. fs = pre @ [''#''] \<and> length pre < length ts \<and> list_all2 level_ok pre (take (length pre) ts)))"
    by (auto simp: Cons_eq_append_conv)
  show ?case
  proof (cases "f = ''#''")
    case True
    then show ?thesis unfolding pre by (simp add: level_ok_def)
  next
    case False
    then have lo: "f = ''+'' \<or> f = t \<longleftrightarrow> level_ok f t" by (simp add: level_ok_def)
    with 1 False show ?thesis unfolding pre levels_match.simps lo by (cases "fs = []"; cases "ts = []") auto
  qed
qed auto

text \<open>
  C30: topic filters. A filter matches a topic exactly when their levels agree one by one, a
  \<^verbatim>\<open>+\<close> agreeing with any level, or when the filter's last level is \<^verbatim>\<open>#\<close>, the levels before it
  agree, and the topic has at least one level more; a \<^verbatim>\<open>#\<close> in any other place never matches.
\<close>

theorem TopicMatches_iff:
  "TopicMatches pattern topic \<longleftrightarrow>
     (let fs = split_sep CHR ''/'' pattern; ts = split_sep CHR ''/'' topic in
      list_all2 level_ok fs ts \<or>
      (\<exists>pre. fs = pre @ [''#''] \<and> length pre < length ts \<and> list_all2 level_ok pre (take (length pre) ts)))"
  by (simp add: TopicMatches_levels levels_match_iff Let_def)

text \<open>
  Acknowledgements reach their client only. The acknowledgement topic of a valid client id,
  used as a subscription, matches the topic of the same client and of no other, and the request
  topic never matches an acknowledgement topic or the other way round.
\<close>

theorem ack_topics_separate:
  assumes "IsValidClientId c"
  shows "(TopicMatches (AckTopicForClient c) (AckTopicForClient d) \<longleftrightarrow> c = d) \<and>
    \<not> TopicMatches (AckTopicForClient c) RequestsTopic \<and> \<not> TopicMatches RequestsTopic (AckTopicForClient c)"
  using TopicMatches_literal [OF ack_topic_wildcard_free [OF assms]] TopicMatches_literal [of RequestsTopic]
    ack_topic_inj [of c d] ack_topic_not_requests [of c]
  by (auto simp: wildcard_free_def RequestsTopic_def)

theorem ack_topics_separate_witness:
  "(TopicMatches (AckTopicForClient ''c1'') (AckTopicForClient ''c2'') \<longleftrightarrow> ''c1'' = ''c2'') \<and>
    \<not> TopicMatches (AckTopicForClient ''c1'') RequestsTopic \<and> \<not> TopicMatches RequestsTopic (AckTopicForClient ''c1'')"
  by (rule ack_topics_separate) (simp add: request_eval)

end
