(* ===== verification/App_State.thy ===== *)
theory App_State
  imports Prelude
begin

text \<open>
  \<^verbatim>\<open>src/src/Watchlist/AppState.hpp\<close> and \<^verbatim>\<open>.cpp\<close>: the console form and the bounded event
  histories that the GUI, the MQTT callbacks and the dispatcher share. Every method holds the
  mutex for its whole body (\<open>DispatchOutbound\<close> once per section), so each is one step of an
  interleaving. The outbound handler is a parameter: \<open>Inl\<close> of the exception it throws.
\<close>

record ConsoleState =
  con_brokerHost :: string
  con_brokerPort :: int
  con_clientId :: string
  con_connectionStatus :: string
  con_selectedMessageType :: int
  con_scriptName :: string
  con_deviceId :: string
  con_payload :: string
  con_command :: string
  con_key :: string
  con_value :: string
  con_prompt :: string

definition default_console :: ConsoleState where
  "default_console =
     \<lparr>con_brokerHost = ''localhost'', con_brokerPort = 1883, con_clientId = ''watchlist-client'',
      con_connectionStatus = ''Offline'', con_selectedMessageType = 0, con_scriptName = ''script1'',
      con_deviceId = ''device-1'', con_payload = ''hello'', con_command = ''status'', con_key = ''sample'',
      con_value = ''42'', con_prompt = ''Summarize device health''\<rparr>"

record 'h AppState =
  app_handler :: "'h option"
  app_console :: ConsoleState
  app_outbound :: "string list"
  app_received :: "string list"
  app_acks :: "string list"
  app_activity :: "string list"

definition initial_app_state :: "'h AppState" where
  "initial_app_state = \<lparr>app_handler = None, app_console = default_console, app_outbound = [], app_received = [],
     app_acks = [], app_activity = []\<rparr>"

definition maxLines :: nat where
  "maxLines = 50"

definition AddBounded :: "string list \<Rightarrow> string \<Rightarrow> string list" where
  "AddBounded lines line =
     (let lines = lines @ [line] in
      if maxLines < length lines then drop (length lines - maxLines) lines else lines)"

definition SnapshotConsole :: "'h AppState \<Rightarrow> ConsoleState" where
  "SnapshotConsole s = app_console s"

definition UpdateConsole :: "ConsoleState \<Rightarrow> 'h AppState \<Rightarrow> 'h AppState" where
  "UpdateConsole console s = s\<lparr>app_console := console\<rparr>"

definition UpdateConsoleForm :: "ConsoleState \<Rightarrow> 'h AppState \<Rightarrow> 'h AppState" where
  "UpdateConsoleForm console s =
     s\<lparr>app_console := console\<lparr>con_connectionStatus := con_connectionStatus (app_console s)\<rparr>\<rparr>"

definition SetOutboundCommandHandler :: "'h option \<Rightarrow> 'h AppState \<Rightarrow> 'h AppState" where
  "SetOutboundCommandHandler handler s = s\<lparr>app_handler := handler\<rparr>"

definition AddOutbound :: "string \<Rightarrow> 'h AppState \<Rightarrow> 'h AppState" where
  "AddOutbound line s = s\<lparr>app_outbound := AddBounded (app_outbound s) line\<rparr>"

definition AddReceived :: "string \<Rightarrow> 'h AppState \<Rightarrow> 'h AppState" where
  "AddReceived line s = s\<lparr>app_received := AddBounded (app_received s) line\<rparr>"

definition AddAck :: "string \<Rightarrow> 'h AppState \<Rightarrow> 'h AppState" where
  "AddAck line s = s\<lparr>app_acks := AddBounded (app_acks s) line\<rparr>"

definition AddActivity :: "string \<Rightarrow> 'h AppState \<Rightarrow> 'h AppState" where
  "AddActivity line s = s\<lparr>app_activity := AddBounded (app_activity s) line\<rparr>"

text \<open>\<open>call handler payload\<close> is what calling the handler does: it returns or throws.\<close>

definition DispatchOutbound :: "('h \<Rightarrow> string \<Rightarrow> cpp_exn + unit) \<Rightarrow> string \<Rightarrow> 'h AppState \<Rightarrow> bool \<times> 'h AppState" where
  "DispatchOutbound call payload s =
     (case app_handler s of
        None \<Rightarrow> (False, AddActivity ''Unable to send request: no outbound command handler is installed'' s)
      | Some handler \<Rightarrow>
          (case call handler payload of
             Inr _ \<Rightarrow> (True, AddOutbound payload s)
           | Inl e \<Rightarrow>
               (False, AddActivity
                 (if is_std_exception e then ''Unable to send request: '' @ what e
                  else ''Unable to send request: outbound command failed with an unknown exception'') s)))"

section \<open>Histories\<close>

lemma AddBounded_keep_last: "length lines \<le> maxLines \<Longrightarrow> AddBounded lines line = keep_last maxLines (lines @ [line])"
  by (simp add: AddBounded_def keep_last_def Let_def)

text \<open>A history is the most recent lines of everything that was added.\<close>

lemma AddBounded_history: "AddBounded (keep_last maxLines xs) line = keep_last maxLines (xs @ [line])"
  by (simp add: AddBounded_keep_last keep_last_snoc)

lemma fold_AddBounded: "fold (\<lambda>line h. AddBounded h line) xs [] = keep_last maxLines xs"
proof (induction xs rule: rev_induct)
  case (snoc x xs)
  then show ?case by (simp add: AddBounded_history)
qed (simp add: keep_last_def)

datatype app_event =
    AppOutbound string | AppReceived string | AppAck string | AppActivity string
  | AppForm ConsoleState | AppConsole ConsoleState

fun app_act :: "app_event \<Rightarrow> 'h AppState \<Rightarrow> 'h AppState" where
  "app_act (AppOutbound l) s = AddOutbound l s"
| "app_act (AppReceived l) s = AddReceived l s"
| "app_act (AppAck l) s = AddAck l s"
| "app_act (AppActivity l) s = AddActivity l s"
| "app_act (AppForm c) s = UpdateConsoleForm c s"
| "app_act (AppConsole c) s = UpdateConsole c s"

fun outbound_lines :: "app_event list \<Rightarrow> string list" where
  "outbound_lines [] = []"
| "outbound_lines (AppOutbound l # es) = l # outbound_lines es"
| "outbound_lines (_ # es) = outbound_lines es"

fun received_lines :: "app_event list \<Rightarrow> string list" where
  "received_lines [] = []"
| "received_lines (AppReceived l # es) = l # received_lines es"
| "received_lines (_ # es) = received_lines es"

fun ack_lines :: "app_event list \<Rightarrow> string list" where
  "ack_lines [] = []"
| "ack_lines (AppAck l # es) = l # ack_lines es"
| "ack_lines (_ # es) = ack_lines es"

fun activity_lines :: "app_event list \<Rightarrow> string list" where
  "activity_lines [] = []"
| "activity_lines (AppActivity l # es) = l # activity_lines es"
| "activity_lines (_ # es) = activity_lines es"

lemmas app_defs = AddOutbound_def AddReceived_def AddAck_def AddActivity_def UpdateConsoleForm_def UpdateConsole_def

lemma app_histories:
  fixes s :: "'h AppState"
  assumes "app_outbound s = keep_last maxLines o'" "app_received s = keep_last maxLines r"
    "app_acks s = keep_last maxLines k" "app_activity s = keep_last maxLines a"
  shows "app_outbound (fold app_act es s) = keep_last maxLines (o' @ outbound_lines es) \<and>
    app_received (fold app_act es s) = keep_last maxLines (r @ received_lines es) \<and>
    app_acks (fold app_act es s) = keep_last maxLines (k @ ack_lines es) \<and>
    app_activity (fold app_act es s) = keep_last maxLines (a @ activity_lines es)"
  using assms
proof (induction es arbitrary: s o' r k a)
  case (Cons e es)
  show ?case
  proof (cases e)
    case (AppOutbound l)
    with Cons.IH [of "app_act e s" "o' @ [l]" r k a] Cons.prems show ?thesis
      by (simp add: app_defs AddBounded_history)
  next
    case (AppReceived l)
    with Cons.IH [of "app_act e s" o' "r @ [l]" k a] Cons.prems show ?thesis
      by (simp add: app_defs AddBounded_history)
  next
    case (AppAck l)
    with Cons.IH [of "app_act e s" o' r "k @ [l]" a] Cons.prems show ?thesis
      by (simp add: app_defs AddBounded_history)
  next
    case (AppActivity l)
    with Cons.IH [of "app_act e s" o' r k "a @ [l]"] Cons.prems show ?thesis
      by (simp add: app_defs AddBounded_history)
  qed (use Cons in \<open>simp_all add: app_defs\<close>)
qed simp

section \<open>Property\<close>

text \<open>
  The four histories. After any sequence of additions and console updates, each history of
  the shared state is the last 50 of the lines added to it, in the order of the calls, whatever
  happened to the other histories in between.
\<close>

theorem histories_keep_last_lines:
  fixes es :: "app_event list"
  defines "s \<equiv> fold app_act es (initial_app_state :: 'h AppState)"
  shows "app_outbound s = keep_last 50 (outbound_lines es) \<and> app_received s = keep_last 50 (received_lines es) \<and>
    app_acks s = keep_last 50 (ack_lines es) \<and> app_activity s = keep_last 50 (activity_lines es)"
  using app_histories [of "initial_app_state :: 'h AppState" "[]" "[]" "[]" "[]" es]
  by (simp add: s_def initial_app_state_def keep_last_def maxLines_def)

end
