(* ===== verification/Request_Dispatcher.thy ===== *)
theory Request_Dispatcher
  imports Kv_Store Mqtt_Topics App_State
begin

text \<open>
  \<^verbatim>\<open>src/src/Watchlist/Dispatch/RequestDispatcher.cpp\<close>: validation of incoming payloads,
  queueing on the worker pool, the request handlers and the acknowledgements. The pool is
  seen through its queue of tasks and whether it still accepts work; the acknowledgement
  publisher through the calls made on it; the JSON reader, the clock and the SQLite
  connection are parameters. \<open>open_db\<close> is the opening of the database file.
\<close>

record 'db RequestDispatcher =
  dsp_accepting :: bool
  dsp_appState :: "unit AppState option"
  dsp_hasPublisher :: bool
  dsp_published :: "(MqttRequest \<times> MqttAck) list"
  dsp_poolOpen :: bool
  dsp_tasks :: "MqttRequest list"
  dsp_database :: 'db

definition with_app :: "(unit AppState \<Rightarrow> unit AppState) \<Rightarrow> 'db RequestDispatcher \<Rightarrow> 'db RequestDispatcher" where
  "with_app f s = s\<lparr>dsp_appState := map_option f (dsp_appState s)\<rparr>"

definition RecordAndPublishAck :: "MqttRequest \<Rightarrow> MqttAck \<Rightarrow> 'db RequestDispatcher \<Rightarrow> 'db RequestDispatcher" where
  "RecordAndPublishAck request ack s =
     (let s = with_app (AddAck (SerializeAck ack)) s in
      if dsp_hasPublisher s \<and> IsValidClientId (rq_sourceClientId request)
      then s\<lparr>dsp_published := dsp_published s @ [(request, ack)]\<rparr> else s)"

definition Dispatch :: "MqttRequest \<Rightarrow> ('db RequestDispatcher, unit) comp" where
  "Dispatch request s =
     (if \<not> dsp_accepting s then (Inl (RuntimeError ''RequestDispatcher is not accepting requests''), s)
      else let s = with_app (AddActivity (''Queued '' @ ToString (rq_type request) @ '' request '' @ rq_id request)) s in
           if \<not> dsp_poolOpen s then (Inl (RuntimeError ''ThreadPoolManager is stopped''), s)
           else (Inr (), s\<lparr>dsp_tasks := dsp_tasks s @ [request]\<rparr>))"

definition route_of :: "ParseResult \<Rightarrow> MqttRequest" where
  "route_of r = \<lparr>rq_id = pr_requestId r, rq_type = ExecuteScript, rq_createdUtc = [], rq_sourceClientId = pr_sourceClientId r,
     rq_scriptName = None, rq_deviceId = None, rq_payload = None, rq_command = None, rq_key = None, rq_value = None,
     rq_prompt = None\<rparr>"

definition HandleIncomingPayload ::
  "(string \<Rightarrow> json option) \<Rightarrow> string \<Rightarrow> string \<Rightarrow> 'db RequestDispatcher \<Rightarrow> bool \<times> 'db RequestDispatcher" where
  "HandleIncomingPayload parse now payload s =
     (let s = with_app (AddReceived payload) s;
          parseResult = ParseRequest parse payload in
      case pr_request parseResult of
        None \<Rightarrow>
          (False, RecordAndPublishAck (route_of parseResult)
             (MakeAck now (pr_requestId parseResult) ''error'' (pr_error parseResult)) s)
      | Some request \<Rightarrow>
          (let shutdown = MakeAck now (rq_id request) ''error'' ''server shutting down'' in
           if \<not> dsp_accepting s then (False, RecordAndPublishAck request shutdown s)
           else case Dispatch request s of
             (Inr _, s') \<Rightarrow> (True, s')
           | (Inl _, s') \<Rightarrow> (False, RecordAndPublishAck request shutdown s')))"

definition StopAccepting :: "'db RequestDispatcher \<Rightarrow> 'db RequestDispatcher" where
  "StopAccepting s = s\<lparr>dsp_accepting := False\<rparr>"

section \<open>The handlers\<close>

definition handle_ExecuteScript :: "string \<Rightarrow> MqttRequest \<Rightarrow> MqttAck" where
  "handle_ExecuteScript now request =
     (if rq_scriptName request \<noteq> Some ''script1'' then MakeAck now (rq_id request) ''error'' ''script is not allowlisted''
      else MakeAck now (rq_id request) ''ok'' ''script1 executed'')"

definition handle_SendToDevice :: "string \<Rightarrow> MqttRequest \<Rightarrow> MqttAck" where
  "handle_SendToDevice now request =
     MakeAck now (rq_id request) ''ok'' (''sent payload to '' @ value_or (rq_deviceId request) ''device'')"

definition handle_CmdToDevice :: "string \<Rightarrow> MqttRequest \<Rightarrow> MqttAck" where
  "handle_CmdToDevice now request =
     MakeAck now (rq_id request) ''ok''
       (''sent command '' @ CHR 0x27 # value_or (rq_command request) [] @ CHR 0x27 #
        '' to '' @ value_or (rq_deviceId request) ''device'')"

definition handle_QueryAiPrompt :: "string \<Rightarrow> MqttRequest \<Rightarrow> MqttAck" where
  "handle_QueryAiPrompt now request =
     MakeAck now (rq_id request) ''ok'' (''AI prompt queued: '' @ value_or (rq_prompt request) [])"

text \<open>
  \<open>the\<close> stands for the dereference of \<^verbatim>\<open>request.key\<close> and \<^verbatim>\<open>request.value\<close>, which
  \<^verbatim>\<open>MissingRequiredField\<close> has checked (\<open>dispatcher_inv\<close>).
\<close>

definition handle_StoreDatabaseValue ::
  "('db, unit) comp \<Rightarrow> 'db sqlite \<Rightarrow> string \<Rightarrow> MqttRequest \<Rightarrow> ('db, MqttAck) comp" where
  "handle_StoreDatabaseValue open_db conn now request =
     cseq open_db (
     cseq (KeyValueStore_Initialize conn) (
     cseq (KeyValueStore_Upsert conn (the (rq_key request)) (the (rq_value request))) (
     cret (MakeAck now (rq_id request) ''ok'' (''stored key '' @ CHR 0x27 # the (rq_key request) @ [CHR 0x27])))))"

definition ExecuteWorkerRequest ::
  "('db, unit) comp \<Rightarrow> 'db sqlite \<Rightarrow> string \<Rightarrow> MqttRequest \<Rightarrow> ('db, MqttAck) comp" where
  "ExecuteWorkerRequest open_db conn now request =
     (case rq_type request of
        ExecuteScript \<Rightarrow> cret (handle_ExecuteScript now request)
      | SendToDevice \<Rightarrow> cret (handle_SendToDevice now request)
      | CmdToDevice \<Rightarrow> cret (handle_CmdToDevice now request)
      | StoreDatabaseValue \<Rightarrow> handle_StoreDatabaseValue open_db conn now request
      | QueryAiPrompt \<Rightarrow> cret (handle_QueryAiPrompt now request))"

text \<open>
  A worker runs the oldest task: the handler, then the acknowledgement. An exception of the
  handler goes into the discarded future.
\<close>

definition run_task ::
  "('db, unit) comp \<Rightarrow> 'db sqlite \<Rightarrow> string \<Rightarrow> 'db RequestDispatcher \<Rightarrow> 'db RequestDispatcher" where
  "run_task open_db conn now s =
     (case dsp_tasks s of
        [] \<Rightarrow> s
      | request # rest \<Rightarrow>
          (case ExecuteWorkerRequest open_db conn now request (dsp_database s) of
             (Inr ack, d) \<Rightarrow> RecordAndPublishAck request ack (s\<lparr>dsp_tasks := rest, dsp_database := d\<rparr>)
           | (Inl _, d) \<Rightarrow> s\<lparr>dsp_tasks := rest, dsp_database := d\<rparr>))"

section \<open>Lemmas\<close>

lemmas dispatcher_defs = RecordAndPublishAck_def with_app_def Dispatch_def Let_def

lemma with_app_simps [simp]:
  "dsp_accepting (with_app f s) = dsp_accepting s" "dsp_published (with_app f s) = dsp_published s"
  "dsp_tasks (with_app f s) = dsp_tasks s" "dsp_poolOpen (with_app f s) = dsp_poolOpen s"
  "dsp_database (with_app f s) = dsp_database s" "dsp_hasPublisher (with_app f s) = dsp_hasPublisher s"
  by (simp_all add: with_app_def)

lemma RecordAndPublishAck_tasks [simp]:
  "dsp_tasks (RecordAndPublishAck r a s) = dsp_tasks s"
  "dsp_accepting (RecordAndPublishAck r a s) = dsp_accepting s"
  "dsp_poolOpen (RecordAndPublishAck r a s) = dsp_poolOpen s"
  "dsp_hasPublisher (RecordAndPublishAck r a s) = dsp_hasPublisher s"
  "dsp_database (RecordAndPublishAck r a s) = dsp_database s"
  by (simp_all add: RecordAndPublishAck_def Let_def)

lemma RecordAndPublishAck_published:
  "dsp_published (RecordAndPublishAck r a s) =
     (if dsp_hasPublisher s \<and> IsValidClientId (rq_sourceClientId r) then dsp_published s @ [(r, a)] else dsp_published s)"
  by (simp add: RecordAndPublishAck_def Let_def)

text \<open>What may wait in the queue, and what may have been published.\<close>

definition dispatcher_inv :: "'db RequestDispatcher \<Rightarrow> bool" where
  "dispatcher_inv s \<longleftrightarrow> list_all (\<lambda>r. MissingRequiredField r = None) (dsp_tasks s) \<and>
     list_all (\<lambda>(r, a). IsValidClientId (rq_sourceClientId r) \<and> ack_requestId a = rq_id r) (dsp_published s)"

lemma MakeAck_id [simp]: "ack_requestId (MakeAck now i st m) = i"
  by (simp add: MakeAck_def)

lemma ExecuteWorkerRequest_id:
  "ExecuteWorkerRequest open_db conn now r d = (Inr a, d') \<Longrightarrow> ack_requestId a = rq_id r"
  by (auto simp: ExecuteWorkerRequest_def handle_ExecuteScript_def handle_SendToDevice_def handle_CmdToDevice_def
    handle_QueryAiPrompt_def handle_StoreDatabaseValue_def cseq_eq_Inr cret_def split: MessageType.splits if_splits)

lemma dispatcher_inv_ack:
  "dispatcher_inv s \<Longrightarrow> ack_requestId a = rq_id r \<Longrightarrow> dispatcher_inv (RecordAndPublishAck r a s)"
  by (simp add: dispatcher_inv_def RecordAndPublishAck_published)

lemma dispatcher_inv_with_app [simp]: "dispatcher_inv (with_app f s) = dispatcher_inv s"
  by (simp add: dispatcher_inv_def)

lemma HandleIncomingPayload_inv:
  assumes "dispatcher_inv s"
  shows "dispatcher_inv (snd (HandleIncomingPayload parse now payload s))"
proof (cases "pr_request (ParseRequest parse payload)")
  case None
  with assms show ?thesis by (simp add: HandleIncomingPayload_def Let_def dispatcher_inv_ack route_of_def)
next
  case (Some r)
  then have "MissingRequiredField r = None" using ParseRequest_accepted by blast
  with assms Some show ?thesis
    by (auto simp: HandleIncomingPayload_def Let_def Dispatch_def dispatcher_inv_ack)
      (simp add: dispatcher_inv_def)
qed

lemma run_task_inv:
  assumes "dispatcher_inv s"
  shows "dispatcher_inv (run_task open_db conn now s)"
proof (cases "dsp_tasks s")
  case (Cons r rest)
  obtain x d where x: "ExecuteWorkerRequest open_db conn now r (dsp_database s) = (x, d)" by fastforce
  have inv: "dispatcher_inv (s\<lparr>dsp_tasks := rest, dsp_database := d\<rparr>)" using assms Cons by (simp add: dispatcher_inv_def)
  show ?thesis
  proof (cases x)
    case (Inr a)
    with x Cons inv ExecuteWorkerRequest_id show ?thesis by (auto simp: run_task_def intro!: dispatcher_inv_ack)
  qed (use x Cons inv in \<open>simp add: run_task_def\<close>)
qed (use assms in \<open>simp add: run_task_def\<close>)

section \<open>Reachable dispatchers\<close>

definition initial_dispatcher :: "unit AppState option \<Rightarrow> bool \<Rightarrow> 'db \<Rightarrow> 'db RequestDispatcher" where
  "initial_dispatcher app publisher d =
     \<lparr>dsp_accepting = True, dsp_appState = app, dsp_hasPublisher = publisher, dsp_published = [],
      dsp_poolOpen = True, dsp_tasks = [], dsp_database = d\<rparr>"

text \<open>Payloads, worker turns, \<^verbatim>\<open>StopAccepting\<close> and the stop of the pool in any order and at any times.\<close>

inductive dispatcher_reachable ::
  "(string \<Rightarrow> json option) \<Rightarrow> ('db, unit) comp \<Rightarrow> 'db sqlite \<Rightarrow> 'db RequestDispatcher \<Rightarrow> bool"
  for parse open_db conn where
  Start: "dispatcher_reachable parse open_db conn (initial_dispatcher app publisher d)"
| Payload: "dispatcher_reachable parse open_db conn s \<Longrightarrow>
    dispatcher_reachable parse open_db conn (snd (HandleIncomingPayload parse now payload s))"
| Worker: "dispatcher_reachable parse open_db conn s \<Longrightarrow> dispatcher_reachable parse open_db conn (run_task open_db conn now s)"
| StopAccepting: "dispatcher_reachable parse open_db conn s \<Longrightarrow> dispatcher_reachable parse open_db conn (StopAccepting s)"
| StopPool: "dispatcher_reachable parse open_db conn s \<Longrightarrow> dispatcher_reachable parse open_db conn (s\<lparr>dsp_poolOpen := False\<rparr>)"

lemma dispatcher_reachable_inv: "dispatcher_reachable parse open_db conn s \<Longrightarrow> dispatcher_inv s"
proof (induction rule: dispatcher_reachable.induct)
  case (Payload s now payload)
  then show ?case by (intro HandleIncomingPayload_inv)
next
  case (Worker s now)
  then show ?case by (intro run_task_inv)
qed (simp_all add: dispatcher_inv_def initial_dispatcher_def StopAccepting_def)

section \<open>Properties\<close>

text \<open>
  C26: what the dispatcher lets through. In every reachable state every queued request is
  complete for its type, so no handler dereferences a missing field, and every published
  acknowledgement goes to a valid client id and carries the id of the request it answers.
\<close>

theorem dispatcher_queue_and_acks_safe:
  assumes "dispatcher_reachable parse open_db conn s"
  shows "list_all (\<lambda>r. MissingRequiredField r = None) (dsp_tasks s) \<and>
    list_all (\<lambda>(r, a). IsValidClientId (rq_sourceClientId r) \<and> ack_requestId a = rq_id r) (dsp_published s)"
  using dispatcher_reachable_inv [OF assms] by (simp add: dispatcher_inv_def)

theorem dispatcher_queue_and_acks_safe_witness:
  "\<exists>s. s = run_task (cret ()) ref_sqlite ''now''
       (snd (HandleIncomingPayload flat_json ''now'' ''nonsense'' (initial_dispatcher None True kv_sample))) \<and>
    list_all (\<lambda>r. MissingRequiredField r = None) (dsp_tasks s) \<and>
    list_all (\<lambda>(r, a). IsValidClientId (rq_sourceClientId r) \<and> ack_requestId a = rq_id r) (dsp_published s)"
  using dispatcher_queue_and_acks_safe [OF dispatcher_reachable.Worker [OF dispatcher_reachable.Payload [OF
    dispatcher_reachable.Start [of flat_json "cret ()" ref_sqlite None True kv_sample]]]]
  by blast


text \<open>
  C27: a worker turn answers its request exactly when the handler returns. If it does, one
  acknowledgement with the id of the oldest queued request is published to its client; if the
  handler throws (the database cannot be opened or written), the request leaves the queue and no
  acknowledgement is recorded or published, so the client waits in vain.
\<close>

theorem run_task_answer:
  assumes "dsp_tasks s = r # rest" "IsValidClientId (rq_sourceClientId r)" "dsp_hasPublisher s"
  shows "case ExecuteWorkerRequest open_db conn now r (dsp_database s) of
      (Inr a, d) \<Rightarrow> dsp_published (run_task open_db conn now s) = dsp_published s @ [(r, a)] \<and> ack_requestId a = rq_id r \<and>
        dsp_tasks (run_task open_db conn now s) = rest
    | (Inl e, d) \<Rightarrow> dsp_published (run_task open_db conn now s) = dsp_published s \<and>
        dsp_appState (run_task open_db conn now s) = dsp_appState s \<and> dsp_tasks (run_task open_db conn now s) = rest"
  using assms ExecuteWorkerRequest_id
  by (auto simp: run_task_def RecordAndPublishAck_published split: prod.splits sum.splits)

theorem run_task_answer_witness:
  "let s = initial_dispatcher None True kv_sample \<lparr>dsp_tasks := [sample_request]\<rparr> in
   case ExecuteWorkerRequest (cret ()) ref_sqlite ''now'' sample_request (dsp_database s) of
      (Inr a, d) \<Rightarrow> dsp_published (run_task (cret ()) ref_sqlite ''now'' s) = dsp_published s @ [(sample_request, a)] \<and>
        ack_requestId a = rq_id sample_request \<and> dsp_tasks (run_task (cret ()) ref_sqlite ''now'' s) = []
    | (Inl e, d) \<Rightarrow> dsp_published (run_task (cret ()) ref_sqlite ''now'' s) = dsp_published s \<and>
        dsp_appState (run_task (cret ()) ref_sqlite ''now'' s) = dsp_appState s \<and>
        dsp_tasks (run_task (cret ()) ref_sqlite ''now'' s) = []"
  unfolding Let_def
  by (rule run_task_answer) (simp_all add: initial_dispatcher_def sample_request_def request_eval)

end
