(* ===== verification/Mqtt_Service.thy ===== *)
theory Mqtt_Service
  imports Mqtt_Topics App_State
begin

text \<open>
  \<^verbatim>\<open>src/src/Watchlist/Messaging/MqttService.hpp\<close> and \<^verbatim>\<open>.cpp\<close>: the MQTT transport, its life
  cycle, subscriptions, pending operations and the callbacks of the Paho client. The client
  library is a parameter: a record of operations over a world \<open>'w\<close>, whose clients are values of
  type \<open>'c\<close>. Message handlers are values of type \<open>'h\<close>; what calling one does is a parameter, and
  the calls made are kept in the state, as are the calls of the status and error handlers.

  Every operation and every callback is one function of the state, except \<^verbatim>\<open>connection_lost\<close>,
  which releases the mutex between its test and its effect and is two. \<open>mqtt_step\<close> interleaves
  them; \<open>run_step\<close> is the loop of \<^verbatim>\<open>Run\<close> between its waits.
\<close>

section \<open>State\<close>

datatype LifecycleStatus = Offline | Connecting | Connected | Reconnecting | Disconnecting | StatusError

fun StatusText :: "LifecycleStatus \<Rightarrow> string" where
  "StatusText Offline = ''Offline''"
| "StatusText Connecting = ''Connecting''"
| "StatusText Connected = ''Connected''"
| "StatusText Reconnecting = ''Reconnecting''"
| "StatusText Disconnecting = ''Disconnecting''"
| "StatusText StatusError = ''Error''"

definition DeliveryQos :: int where
  "DeliveryQos = 1"

definition RetainMessages :: bool where
  "RetainMessages = False"

record create_options =
  co_sendWhileDisconnected :: "bool \<times> bool"
  co_maxBufferedMessages :: nat
  co_deleteOldestMessages :: bool

record connect_options =
  cn_cleanSession :: bool
  cn_keepAliveSeconds :: nat
  cn_automaticReconnect :: "nat \<times> nat"

text \<open>
  The client library. \<open>paho_disconnect\<close> is the call of \<^verbatim>\<open>disconnect\<close> and the wait for its token,
  \<open>False\<close> when the wait times out. Operations that complete later take the number of the listener
  that is told.
\<close>

record ('w, 'c) paho =
  paho_create :: "string \<Rightarrow> string \<Rightarrow> create_options \<Rightarrow> ('w, 'c) comp"
  paho_connect :: "'c \<Rightarrow> connect_options \<Rightarrow> ('w, unit) comp"
  paho_is_connected :: "'c \<Rightarrow> 'w \<Rightarrow> bool"
  paho_disconnect :: "'c \<Rightarrow> ('w, bool) comp"
  paho_disable_callbacks :: "'c \<Rightarrow> 'w \<Rightarrow> 'w"
  paho_subscribe :: "'c \<Rightarrow> string \<Rightarrow> int \<Rightarrow> nat \<Rightarrow> ('w, unit) comp"
  paho_unsubscribe :: "'c \<Rightarrow> string \<Rightarrow> nat \<Rightarrow> ('w, unit) comp"
  paho_publish :: "'c \<Rightarrow> string \<Rightarrow> string \<Rightarrow> int \<Rightarrow> bool \<Rightarrow> nat \<Rightarrow> ('w, unit) comp"

text \<open>
  Listeners are numbered in the order of their creation (\<open>mq_nextListener\<close> is the next number),
  which stands for their addresses. The map of subscriptions is its list of entries in key order.
\<close>

record ('w, 'c, 'h) MqttService =
  mq_world :: 'w
  mq_appState :: "unit AppState option"
  mq_client :: "'c option"
  mq_subscriptions :: "(string \<times> 'h) list"
  mq_pendingOperations :: "(nat \<times> string) list"
  mq_nextListener :: nat
  mq_hasStatusHandler :: bool
  mq_hasErrorHandler :: bool
  mq_status :: LifecycleStatus
  mq_shuttingDown :: bool
  mq_statusCalls :: "(LifecycleStatus \<times> string) list"
  mq_errorCalls :: "string list"
  mq_delivered :: "('h \<times> string \<times> string) list"

definition initial_mqtt :: "'w \<Rightarrow> unit AppState option \<Rightarrow> ('w, 'c, 'h) MqttService" where
  "initial_mqtt w app =
     \<lparr>mq_world = w, mq_appState = app, mq_client = None, mq_subscriptions = [], mq_pendingOperations = [],
      mq_nextListener = 0, mq_hasStatusHandler = False, mq_hasErrorHandler = False, mq_status = Offline,
      mq_shuttingDown = False, mq_statusCalls = [], mq_errorCalls = [], mq_delivered = []\<rparr>"

section \<open>Status and errors\<close>

definition note_app :: "string option \<Rightarrow> string \<Rightarrow> unit AppState \<Rightarrow> unit AppState" where
  "note_app status detail a =
     (let console = SnapshotConsole a;
          console = (case status of None \<Rightarrow> console | Some t \<Rightarrow> console\<lparr>con_connectionStatus := t\<rparr>)
      in AddActivity detail (UpdateConsole console a))"

definition SetStatus :: "LifecycleStatus \<Rightarrow> string \<Rightarrow> ('w, 'c, 'h) MqttService \<Rightarrow> ('w, 'c, 'h) MqttService" where
  "SetStatus status detail s =
     s\<lparr>mq_status := status,
       mq_appState := map_option (note_app (Some (StatusText status)) detail) (mq_appState s),
       mq_statusCalls := mq_statusCalls s @ (if mq_hasStatusHandler s then [(status, detail)] else [])\<rparr>"

definition ReportError :: "string \<Rightarrow> bool \<Rightarrow> ('w, 'c, 'h) MqttService \<Rightarrow> ('w, 'c, 'h) MqttService" where
  "ReportError error changesLifecycle s =
     (let changes = (\<not> mq_shuttingDown s \<and> changesLifecycle) in
      s\<lparr>mq_status := (if changes then StatusError else mq_status s),
        mq_appState := map_option (note_app (if changes then Some ''Error'' else None) error) (mq_appState s),
        mq_errorCalls := mq_errorCalls s @ (if mq_hasErrorHandler s then [error] else [])\<rparr>)"

definition SetStatusHandler :: "bool \<Rightarrow> ('w, 'c, 'h) MqttService \<Rightarrow> ('w, 'c, 'h) MqttService" where
  "SetStatusHandler present s = s\<lparr>mq_hasStatusHandler := present\<rparr>"

definition SetErrorHandler :: "bool \<Rightarrow> ('w, 'c, 'h) MqttService \<Rightarrow> ('w, 'c, 'h) MqttService" where
  "SetErrorHandler present s = s\<lparr>mq_hasErrorHandler := present\<rparr>"

section \<open>Pending operations\<close>

definition on_world :: "('w, 'a) comp \<Rightarrow> (('w, 'c, 'h) MqttService, 'a) comp" where
  "on_world m s = (case m (mq_world s) of (r, w) \<Rightarrow> (r, s\<lparr>mq_world := w\<rparr>))"

definition TrackOperation :: "string \<Rightarrow> ('w, 'c, 'h) MqttService \<Rightarrow> nat \<times> ('w, 'c, 'h) MqttService" where
  "TrackOperation operation s =
     (mq_nextListener s,
      s\<lparr>mq_pendingOperations := mq_pendingOperations s @ [(mq_nextListener s, operation)],
        mq_nextListener := mq_nextListener s + 1\<rparr>)"

definition CancelOperation :: "nat \<Rightarrow> ('w, 'c, 'h) MqttService \<Rightarrow> ('w, 'c, 'h) MqttService" where
  "CancelOperation listener s =
     s\<lparr>mq_pendingOperations := filter (\<lambda>p. fst p \<noteq> listener) (mq_pendingOperations s)\<rparr>"

fun erase_first :: "('a \<Rightarrow> bool) \<Rightarrow> 'a list \<Rightarrow> 'a list" where
  "erase_first P [] = []"
| "erase_first P (x # xs) = (if P x then xs else x # erase_first P xs)"

definition CompleteOperation :: "nat \<Rightarrow> string \<Rightarrow> ('w, 'c, 'h) MqttService \<Rightarrow> ('w, 'c, 'h) MqttService" where
  "CompleteOperation listener error s =
     (case List.find (\<lambda>p. fst p = listener) (mq_pendingOperations s) of
        None \<Rightarrow> s
      | Some found \<Rightarrow>
          (let s = s\<lparr>mq_pendingOperations := erase_first (\<lambda>p. fst p = listener) (mq_pendingOperations s)\<rparr> in
           if error \<noteq> [] then ReportError error False s else s))"

definition operation_failed :: "nat \<Rightarrow> string \<Rightarrow> int \<Rightarrow> ('w, 'c, 'h) MqttService \<Rightarrow> ('w, 'c, 'h) MqttService" where
  "operation_failed listener message code s =
     (case List.find (\<lambda>p. fst p = listener) (mq_pendingOperations s) of
        None \<Rightarrow> s
      | Some (_, operation) \<Rightarrow>
          CompleteOperation listener (operation @ '' failed: '' @ message @ '' (code '' @ dec_of_int code @ '')'') s)"

definition operation_succeeded :: "nat \<Rightarrow> ('w, 'c, 'h) MqttService \<Rightarrow> ('w, 'c, 'h) MqttService" where
  "operation_succeeded listener s = CompleteOperation listener [] s"

text \<open>
  The two nested \<^verbatim>\<open>try\<close> blocks around a call with a tracked listener: whatever is thrown cancels
  the operation; an \<^verbatim>\<open>mqtt::exception\<close> is then reported, anything else leaves the function.
\<close>

definition tracked_call ::
  "string \<Rightarrow> string \<Rightarrow> (nat \<Rightarrow> ('w, unit) comp) \<Rightarrow> (('w, 'c, 'h) MqttService, unit) comp" where
  "tracked_call operation failure call s =
     (case TrackOperation operation s of
        (listener, s1) \<Rightarrow>
          (case on_world (call listener) s1 of
             (Inr _, s2) \<Rightarrow> (Inr (), s2)
           | (Inl e, s2) \<Rightarrow>
               (let s3 = CancelOperation listener s2 in
                case e of
                  MqttException m \<Rightarrow> (Inr (), ReportError (failure @ '' failed: '' @ m) False s3)
                | _ \<Rightarrow> (Inl e, s3))))"

definition SubscribeClient :: "('w, 'c) paho \<Rightarrow> 'c option \<Rightarrow> string \<Rightarrow> (('w, 'c, 'h) MqttService, unit) comp" where
  "SubscribeClient paho client topic =
     (case client of
        None \<Rightarrow> cret ()
      | Some c \<Rightarrow>
          tracked_call (''MQTT subscription to '' @ topic) (''MQTT subscription to '' @ topic)
            (paho_subscribe paho c topic DeliveryQos))"

section \<open>Operations\<close>

text \<open>
  The end of \<^verbatim>\<open>ReleaseClient\<close>. An exception of \<^verbatim>\<open>disconnect\<close> that is not an
  \<^verbatim>\<open>mqtt::exception\<close> leaves the function before the callbacks are disabled.
\<close>

definition finish_release :: "('w, 'c) paho \<Rightarrow> 'c \<Rightarrow> ('w, 'c, 'h) MqttService \<Rightarrow> ('w, 'c, 'h) MqttService" where
  "finish_release paho c s =
     s\<lparr>mq_world := paho_disable_callbacks paho c (mq_world s), mq_pendingOperations := []\<rparr>"

definition ReleaseClient :: "('w, 'c) paho \<Rightarrow> (('w, 'c, 'h) MqttService, unit) comp" where
  "ReleaseClient paho s =
     (case mq_client s of
        None \<Rightarrow> (Inr (), s)
      | Some c \<Rightarrow>
          (let s1 = s\<lparr>mq_client := None\<rparr> in
           if paho_is_connected paho c (mq_world s1)
           then (case on_world (paho_disconnect paho c) s1 of
                   (Inr True, s2) \<Rightarrow> (Inr (), finish_release paho c s2)
                 | (Inr False, s2) \<Rightarrow>
                     (Inr (), finish_release paho c (ReportError ''Timed out waiting for MQTT disconnect'' False s2))
                 | (Inl (MqttException m), s2) \<Rightarrow>
                     (Inr (), finish_release paho c (ReportError (''MQTT disconnect failed: '' @ m) False s2))
                 | (Inl e, s2) \<Rightarrow> (Inl e, s2))
           else (Inr (), finish_release paho c s1)))"

definition default_create_options :: create_options where
  "default_create_options =
     \<lparr>co_sendWhileDisconnected = (True, True), co_maxBufferedMessages = 100, co_deleteOldestMessages = False\<rparr>"

definition default_connect_options :: connect_options where
  "default_connect_options = \<lparr>cn_cleanSession = True, cn_keepAliveSeconds = 20, cn_automaticReconnect = (1, 30)\<rparr>"

definition broker_uri :: "string \<Rightarrow> int \<Rightarrow> string" where
  "broker_uri host port = ''tcp://'' @ host @ '':'' @ dec_of_int port"

definition open_client :: "('w, 'c) paho \<Rightarrow> string \<Rightarrow> int \<Rightarrow> string \<Rightarrow> (('w, 'c, 'h) MqttService, unit) comp" where
  "open_client paho host port clientId =
     cbind (on_world (paho_create paho (broker_uri host port) clientId default_create_options)) (\<lambda>client.
     cseq (\<lambda>s. (Inr (), s\<lparr>mq_client := Some client\<rparr>))
       (on_world (paho_connect paho client default_connect_options)))"

definition connection_error :: "cpp_exn \<Rightarrow> string" where
  "connection_error e =
     (case e of
        MqttException m \<Rightarrow> ''MQTT connection attempt failed: '' @ m
      | _ \<Rightarrow> ''Unable to create MQTT transport: '' @ what e)"

definition Connect :: "('w, 'c) paho \<Rightarrow> string \<Rightarrow> int \<Rightarrow> string \<Rightarrow> (('w, 'c, 'h) MqttService, unit) comp" where
  "Connect paho host port clientId s =
     (if host = [] then (Inr (), ReportError ''MQTT broker host must not be empty'' True s)
      else if port < 1 \<or> port > 65535
      then (Inr (), ReportError (''MQTT broker port '' @ dec_of_int port @ '' is outside 1-65535'') True s)
      else if clientId = [] then (Inr (), ReportError ''MQTT client ID must not be empty'' True s)
      else if mq_status s = Connecting \<or> mq_status s = Connected \<or> mq_status s = Reconnecting then (Inr (), s)
      else case ReleaseClient paho (s\<lparr>mq_shuttingDown := False\<rparr>) of
             (Inl e, s1) \<Rightarrow> (Inl e, s1)
           | (Inr _, s1) \<Rightarrow>
               (let s2 = SetStatus Connecting
                      (''Connecting to '' @ host @ '':'' @ dec_of_int port @ '' as '' @ clientId) s1 in
                case open_client paho host port clientId s2 of
                  (Inr _, s3) \<Rightarrow> (Inr (), s3)
                | (Inl e, s3) \<Rightarrow>
                    (if is_std_exception e then (Inr (), ReportError (connection_error e) True s3) else (Inl e, s3))))"

text \<open>\<^verbatim>\<open>insert_or_assign\<close> and \<^verbatim>\<open>erase\<close> of a \<^verbatim>\<open>std::map\<close>.\<close>

fun insert_or_assign :: "string \<Rightarrow> 'h \<Rightarrow> (string \<times> 'h) list \<Rightarrow> (string \<times> 'h) list" where
  "insert_or_assign k v [] = [(k, v)]"
| "insert_or_assign k v ((k', v') # m) =
     (if k < k' then (k, v) # (k', v') # m
      else if k = k' then (k, v) # m
      else (k', v') # insert_or_assign k v m)"

definition erase_key :: "string \<Rightarrow> (string \<times> 'h) list \<Rightarrow> (string \<times> 'h) list" where
  "erase_key k m = filter (\<lambda>p. fst p \<noteq> k) m"

definition Subscribe :: "('w, 'c) paho \<Rightarrow> string \<Rightarrow> 'h option \<Rightarrow> (('w, 'c, 'h) MqttService, unit) comp" where
  "Subscribe paho topic handler s =
     (if topic = [] then (Inr (), ReportError ''Cannot subscribe to an empty MQTT topic'' False s)
      else case handler of
        None \<Rightarrow> (Inr (), ReportError (''Cannot subscribe to '' @ topic @ '' without a message handler'') False s)
      | Some h \<Rightarrow>
          (let s1 = s\<lparr>mq_subscriptions := insert_or_assign topic h (mq_subscriptions s)\<rparr> in
           if mq_status s1 = Connected then SubscribeClient paho (mq_client s1) topic s1 else (Inr (), s1)))"

definition Unsubscribe :: "('w, 'c) paho \<Rightarrow> string \<Rightarrow> (('w, 'c, 'h) MqttService, unit) comp" where
  "Unsubscribe paho topic s =
     (if topic = [] then (Inr (), ReportError ''Cannot unsubscribe from an empty MQTT topic'' False s)
      else let s1 = s\<lparr>mq_subscriptions := erase_key topic (mq_subscriptions s)\<rparr> in
        case mq_client s1 of
          None \<Rightarrow> (Inr (), s1)
        | Some c \<Rightarrow>
            (if mq_status s1 \<noteq> Connected then (Inr (), s1)
             else tracked_call (''MQTT unsubscribe from '' @ topic) (''MQTT unsubscribe from '' @ topic)
                    (paho_unsubscribe paho c topic) s1))"

definition Publish :: "('w, 'c) paho \<Rightarrow> string \<Rightarrow> string \<Rightarrow> (('w, 'c, 'h) MqttService, unit) comp" where
  "Publish paho topic payload s =
     (if topic = [] then (Inr (), ReportError ''Cannot publish to an empty MQTT topic'' False s)
      else case mq_client s of
        None \<Rightarrow> (Inr (), ReportError (''Cannot publish to '' @ topic @ '' before Connect'') False s)
      | Some c \<Rightarrow>
          tracked_call (''MQTT publish to '' @ topic) ''MQTT publish''
            (paho_publish paho c topic payload DeliveryQos RetainMessages) s)"

text \<open>The predicate of the bounded wait: the call returns whether it holds when the wait ends.\<close>

definition pending_done :: "('w, 'c, 'h) MqttService \<Rightarrow> bool" where
  "pending_done s \<longleftrightarrow> mq_pendingOperations s = []"

definition Disconnect :: "('w, 'c) paho \<Rightarrow> (('w, 'c, 'h) MqttService, unit) comp" where
  "Disconnect paho s =
     (let s1 = s\<lparr>mq_shuttingDown := True\<rparr>;
          s2 = (if mq_client s1 \<noteq> None then SetStatus Disconnecting ''Disconnecting from MQTT broker'' s1 else s1) in
      case ReleaseClient paho s2 of
        (Inl e, s3) \<Rightarrow> (Inl e, s3)
      | (Inr _, s3) \<Rightarrow> (Inr (), SetStatus Offline ''Offline'' s3))"

definition is_Connected :: "('w, 'c) paho \<Rightarrow> ('w, 'c, 'h) MqttService \<Rightarrow> bool" where
  "is_Connected paho s \<longleftrightarrow> mq_status s = Connected \<and>
     (case mq_client s of None \<Rightarrow> False | Some c \<Rightarrow> paho_is_connected paho c (mq_world s))"

section \<open>Callbacks\<close>

definition mark_connected :: "string \<Rightarrow> ('w, 'c, 'h) MqttService \<Rightarrow> ('w, 'c, 'h) MqttService" where
  "mark_connected detail s =
     s\<lparr>mq_status := Connected,
       mq_appState := map_option (note_app (Some ''Connected'') detail) (mq_appState s),
       mq_statusCalls := mq_statusCalls s @ (if mq_hasStatusHandler s then [(Connected, detail)] else [])\<rparr>"

definition HandleConnected :: "('w, 'c) paho \<Rightarrow> string \<Rightarrow> (('w, 'c, 'h) MqttService, unit) comp" where
  "HandleConnected paho detail s =
     (if mq_shuttingDown s \<or> mq_status s = Connected then (Inr (), s)
      else let client = mq_client s; topics = map fst (mq_subscriptions s) in
        cfor topics (SubscribeClient paho client) (mark_connected detail s))"

definition connected_callback :: "('w, 'c) paho \<Rightarrow> string \<Rightarrow> (('w, 'c, 'h) MqttService, unit) comp" where
  "connected_callback paho cause =
     HandleConnected paho (if cause = [] then ''Connected to MQTT broker'' else ''MQTT reconnected: '' @ cause)"

definition on_success :: "('w, 'c) paho \<Rightarrow> (('w, 'c, 'h) MqttService, unit) comp" where
  "on_success paho = HandleConnected paho ''Connected to MQTT broker''"

definition on_failure :: "string \<Rightarrow> int \<Rightarrow> ('w, 'c, 'h) MqttService \<Rightarrow> ('w, 'c, 'h) MqttService" where
  "on_failure message code =
     ReportError (if message = [] then ''MQTT connection attempt failed (code '' @ dec_of_int code @ '')''
                  else ''MQTT connection attempt failed: '' @ message) True"

text \<open>\<^verbatim>\<open>connection_lost\<close>: the test under the mutex, and the effect after it has been released.\<close>

definition connection_lost_test :: "('w, 'c, 'h) MqttService \<Rightarrow> bool" where
  "connection_lost_test s \<longleftrightarrow> \<not> mq_shuttingDown s"

definition connection_lost_effect :: "string \<Rightarrow> ('w, 'c, 'h) MqttService \<Rightarrow> ('w, 'c, 'h) MqttService" where
  "connection_lost_effect cause =
     SetStatus Reconnecting
       (if cause = [] then ''MQTT connection lost; reconnecting automatically''
        else ''MQTT connection lost: '' @ cause @ ''; reconnecting automatically'')"

definition connection_lost :: "string \<Rightarrow> ('w, 'c, 'h) MqttService \<Rightarrow> ('w, 'c, 'h) MqttService" where
  "connection_lost cause s = (if connection_lost_test s then connection_lost_effect cause s else s)"

definition call_handler ::
  "('h \<Rightarrow> string \<Rightarrow> string \<Rightarrow> cpp_exn + unit) \<Rightarrow> string \<Rightarrow> string \<Rightarrow> 'h \<Rightarrow> ('w, 'c, 'h) MqttService \<Rightarrow>
     ('w, 'c, 'h) MqttService" where
  "call_handler call topic payload h s =
     (let s1 = s\<lparr>mq_delivered := mq_delivered s @ [(h, topic, payload)]\<rparr> in
      case call h topic payload of
        Inr _ \<Rightarrow> s1
      | Inl e \<Rightarrow>
          ReportError
            (if is_std_exception e then ''MQTT message handler for '' @ topic @ '' failed: '' @ what e
             else ''MQTT message handler for '' @ topic @ '' failed with an unknown exception'') False s1)"

definition message_arrived ::
  "('h \<Rightarrow> string \<Rightarrow> string \<Rightarrow> cpp_exn + unit) \<Rightarrow> string \<Rightarrow> string \<Rightarrow> ('w, 'c, 'h) MqttService \<Rightarrow>
     ('w, 'c, 'h) MqttService" where
  "message_arrived call topic payload s =
     (let handlers = map snd (filter (\<lambda>p. TopicMatches (fst p) topic) (mq_subscriptions s)) in
      if handlers = []
      then ReportError (''Received MQTT message on '' @ topic @ '' without a registered handler'') False s
      else fold (call_handler call topic payload) handlers s)"

section \<open>The loop of \<^verbatim>\<open>Run\<close>\<close>

text \<open>
  The loop between its waits: \<open>RunCheck\<close> is the loop condition and the connection attempt, the
  next three points are its three waits, \<open>RunExit\<close> the final \<^verbatim>\<open>Disconnect\<close>. \<open>stop\<close> says whether
  a stop has been requested, \<open>expired\<close> whether a timed wait has run out; the delay is in seconds.
  \<open>None\<close>: the thread stays blocked. An exception leaves \<^verbatim>\<open>Run\<close>.
\<close>

datatype run_point = RunCheck | RunWait | RunBackoff | RunHold | RunExit | RunDone | RunThrown cpp_exn

definition active :: "LifecycleStatus \<Rightarrow> bool" where
  "active status \<longleftrightarrow> status = Connected \<or> status = Reconnecting"

definition run_step ::
  "('w, 'c) paho \<Rightarrow> string \<Rightarrow> int \<Rightarrow> string \<Rightarrow> bool \<Rightarrow> bool \<Rightarrow> run_point \<times> nat \<times> ('w, 'c, 'h) MqttService \<Rightarrow>
     (run_point \<times> nat \<times> ('w, 'c, 'h) MqttService) option" where
  "run_step paho host port clientId stop expired = (\<lambda>(point, retryDelay, s).
     (case point of
        RunCheck \<Rightarrow>
          (if stop then Some (RunExit, retryDelay, s)
           else case (if mq_status s = Offline \<or> mq_status s = StatusError then Connect paho host port clientId s else (Inr (), s)) of
             (Inr _, s') \<Rightarrow> Some (RunWait, retryDelay, s')
           | (Inl e, s') \<Rightarrow> Some (RunThrown e, retryDelay, s'))
      | RunWait \<Rightarrow>
          (if expired \<or> stop \<or> active (mq_status s) \<or> mq_status s = StatusError
           then Some (if mq_status s = StatusError then (RunBackoff, min (retryDelay * 2) 30, s) else (RunHold, 1, s))
           else None)
      | RunBackoff \<Rightarrow>
          (if expired \<or> stop \<or> mq_status s \<noteq> StatusError then Some (RunHold, retryDelay, s) else None)
      | RunHold \<Rightarrow> (if stop \<or> \<not> active (mq_status s) then Some (RunCheck, retryDelay, s) else None)
      | RunExit \<Rightarrow>
          (case Disconnect paho s of
             (Inr _, s') \<Rightarrow> Some (RunDone, retryDelay, s')
           | (Inl e, s') \<Rightarrow> Some (RunThrown e, retryDelay, s'))
      | RunDone \<Rightarrow> None
      | RunThrown e \<Rightarrow> None))"

section \<open>The contract of the client library\<close>

text \<open>
  The Paho calls report failures as \<^verbatim>\<open>mqtt::exception\<close> only.
\<close>

definition throws_mqtt :: "('w, 'a) comp \<Rightarrow> bool" where
  "throws_mqtt m \<longleftrightarrow> (\<forall>w e w'. m w = (Inl e, w') \<longrightarrow> (\<exists>msg. e = MqttException msg))"

locale paho_library =
  fixes paho :: "('w, 'c) paho"
  assumes create_throws: "throws_mqtt (paho_create paho uri clientId options)"
  and connect_throws: "throws_mqtt (paho_connect paho c options')"
  and disconnect_throws: "throws_mqtt (paho_disconnect paho c)"
  and subscribe_throws: "throws_mqtt (paho_subscribe paho c topic qos n)"
  and unsubscribe_throws: "throws_mqtt (paho_unsubscribe paho c topic n)"
  and publish_throws: "throws_mqtt (paho_publish paho c topic payload qos retain n)"

lemma throws_mqttE:
  assumes "throws_mqtt m"
  obtains x w' where "m w = (Inr x, w')" | msg w' where "m w = (Inl (MqttException msg), w')"
  using assms by (cases "m w"; cases "fst (m w)") (auto simp: throws_mqtt_def)

section \<open>The invariant\<close>

abbreviation console_status :: "('w, 'c, 'h) MqttService \<Rightarrow> string option" where
  "console_status s \<equiv> map_option (\<lambda>a. con_connectionStatus (app_console a)) (mq_appState s)"

definition mqtt_inv :: "('w, 'c, 'h) MqttService \<Rightarrow> bool" where
  "mqtt_inv s \<longleftrightarrow>
     (mq_client s = None \<longrightarrow> (mq_status s = Offline \<or> mq_status s = StatusError) \<and> mq_pendingOperations s = []) \<and>
     (mq_shuttingDown s \<longrightarrow> mq_status s = Offline \<and> mq_client s = None) \<and>
     mq_status s \<noteq> Disconnecting \<and>
     (mq_appState s \<noteq> None \<longrightarrow> console_status s = Some (StatusText (mq_status s))) \<and>
     sorted_wrt (<) (map fst (mq_subscriptions s)) \<and>
     distinct (map fst (mq_pendingOperations s)) \<and> list_all (\<lambda>p. fst p < mq_nextListener s) (mq_pendingOperations s)"

lemmas mqtt_defs = SetStatus_def ReportError_def note_app_def SnapshotConsole_def UpdateConsole_def AddActivity_def Let_def

lemma SetStatus_simps [simp]:
  "mq_status (SetStatus st d s) = st" "mq_client (SetStatus st d s) = mq_client s"
  "mq_pendingOperations (SetStatus st d s) = mq_pendingOperations s" "mq_shuttingDown (SetStatus st d s) = mq_shuttingDown s"
  "mq_subscriptions (SetStatus st d s) = mq_subscriptions s" "mq_nextListener (SetStatus st d s) = mq_nextListener s"
  "mq_world (SetStatus st d s) = mq_world s" "mq_appState (SetStatus st d s) = None \<longleftrightarrow> mq_appState s = None"
  "console_status (SetStatus st d s) = map_option (\<lambda>_. StatusText st) (mq_appState s)"
  by (simp_all add: mqtt_defs option.map_comp o_def)

lemma ReportError_simps [simp]:
  "mq_status (ReportError e c s) = (if \<not> mq_shuttingDown s \<and> c then StatusError else mq_status s)"
  "mq_client (ReportError e c s) = mq_client s"
  "mq_pendingOperations (ReportError e c s) = mq_pendingOperations s" "mq_shuttingDown (ReportError e c s) = mq_shuttingDown s"
  "mq_subscriptions (ReportError e c s) = mq_subscriptions s" "mq_nextListener (ReportError e c s) = mq_nextListener s"
  "mq_world (ReportError e c s) = mq_world s" "mq_appState (ReportError e c s) = None \<longleftrightarrow> mq_appState s = None"
  "mq_delivered (ReportError e c s) = mq_delivered s"
  "console_status (ReportError e c s) =
     (if \<not> mq_shuttingDown s \<and> c then map_option (\<lambda>_. ''Error'') (mq_appState s) else console_status s)"
  by (simp_all add: mqtt_defs option.map_comp o_def)

lemma mqtt_inv_ReportError: "mqtt_inv s \<Longrightarrow> mqtt_inv (ReportError e c s)"
  by (auto simp: mqtt_inv_def)

lemma mqtt_inv_world [simp]: "mqtt_inv (s\<lparr>mq_world := w\<rparr>) = mqtt_inv s"
  by (simp add: mqtt_inv_def)

lemma mqtt_inv_track:
  "mqtt_inv s \<Longrightarrow> mq_client s \<noteq> None \<Longrightarrow>
   mqtt_inv (s\<lparr>mq_pendingOperations := mq_pendingOperations s @ [(mq_nextListener s, op)], mq_nextListener := mq_nextListener s + 1\<rparr>)"
  by (auto simp: mqtt_inv_def list_all_iff)

lemma mqtt_inv_next [simp]: "mqtt_inv s \<Longrightarrow> mqtt_inv (s\<lparr>mq_nextListener := Suc (mq_nextListener s)\<rparr>)"
  by (auto simp: mqtt_inv_def list_all_iff)

text \<open>A tracked call either is pending afterwards under a new number or has been reported.\<close>

lemma tracked_call_effect:
  assumes "\<And>n. throws_mqtt (call n)" and "list_all (\<lambda>p. fst p < mq_nextListener s) (mq_pendingOperations s)"
  obtains (pending) w where "tracked_call operation failure call s =
      (Inr (), s\<lparr>mq_world := w, mq_pendingOperations := mq_pendingOperations s @ [(mq_nextListener s, operation)],
                 mq_nextListener := mq_nextListener s + 1\<rparr>)"
  | (reported) w m where "tracked_call operation failure call s =
      (Inr (), ReportError (failure @ '' failed: '' @ m) False (s\<lparr>mq_nextListener := mq_nextListener s + 1, mq_world := w\<rparr>))"
proof (cases rule: throws_mqttE [OF assms(1) [of "mq_nextListener s"], of "mq_world s"])
  case (1 x w)
  then show ?thesis by (intro pending [of w]) (simp add: tracked_call_def TrackOperation_def on_world_def)
next
  case (2 m w)
  have "filter (\<lambda>p. fst p \<noteq> mq_nextListener s) (mq_pendingOperations s) = mq_pendingOperations s"
    using assms(2) by (auto simp: filter_id_conv list_all_iff)
  with 2 show ?thesis
    by (intro reported [of m w]) (simp add: tracked_call_def TrackOperation_def on_world_def CancelOperation_def Let_def)
qed

lemma mqtt_inv_pending: "mqtt_inv s \<Longrightarrow> list_all (\<lambda>p. fst p < mq_nextListener s) (mq_pendingOperations s)"
  by (simp add: mqtt_inv_def)

lemma tracked_call_inv:
  assumes "\<And>n. throws_mqtt (call n)" "mqtt_inv s" "mq_client s \<noteq> None"
  shows "\<exists>s'. tracked_call operation failure call s = (Inr (), s') \<and> mqtt_inv s' \<and> mq_client s' = mq_client s"
proof (cases rule: tracked_call_effect [where call = call and operation = operation and failure = failure and s = s,
      OF assms(1) mqtt_inv_pending [OF assms(2)]])
  case (1 w)
  with mqtt_inv_track [OF assms(2,3)] show ?thesis
    by (auto simp: mqtt_inv_def)
next
  case (2 w m)
  have "mqtt_inv (s\<lparr>mq_nextListener := mq_nextListener s + 1, mq_world := w\<rparr>)" using assms(2) by simp
  with 2 show ?thesis by (simp add: mqtt_inv_ReportError)
qed

lemma insert_or_assign_keys: "fst ` set (insert_or_assign k v m) = insert k (fst ` set m)"
  by (induction k v m rule: insert_or_assign.induct) auto

lemma insert_or_assign_sorted:
  "sorted_wrt (<) (map fst m) \<Longrightarrow> sorted_wrt (<) (map fst (insert_or_assign k v m))"
  by (induction k v m rule: insert_or_assign.induct)
    (auto simp: insert_or_assign_keys dest: image_eqI)

lemma inv_console: "mqtt_inv s \<Longrightarrow> console_status s = map_option (\<lambda>_. StatusText (mq_status s)) (mq_appState s)"
  by (cases "mq_appState s") (auto simp: mqtt_inv_def)

text \<open>Two states that agree in everything the life cycle looks at.\<close>

definition same_session :: "('w, 'c, 'h) MqttService \<Rightarrow> ('w, 'c, 'h) MqttService \<Rightarrow> bool" where
  "same_session s s' \<longleftrightarrow> mq_status s' = mq_status s \<and> mq_shuttingDown s' = mq_shuttingDown s \<and>
     mq_subscriptions s' = mq_subscriptions s \<and> mq_nextListener s' = mq_nextListener s \<and>
     (mq_appState s' = None \<longleftrightarrow> mq_appState s = None) \<and> console_status s' = console_status s"

context paho_library
begin

lemma ReleaseClient_effect:
  assumes "mq_client s = None \<Longrightarrow> mq_pendingOperations s = []"
  shows "\<exists>s'. ReleaseClient paho s = (Inr (), s') \<and> mq_client s' = None \<and> mq_pendingOperations s' = [] \<and> same_session s s'"
proof (cases "mq_client s")
  case (Some c)
  show ?thesis
  proof (cases "paho_is_connected paho c (mq_world s)")
    case True
    show ?thesis
    proof (cases rule: throws_mqttE [OF disconnect_throws [of c], of "mq_world s"])
      case (1 x w)
      with Some True show ?thesis
        by (cases x) (auto simp: ReleaseClient_def on_world_def finish_release_def same_session_def)
    next
      case (2 m w)
      with Some True show ?thesis by (auto simp: ReleaseClient_def on_world_def finish_release_def same_session_def)
    qed
  qed (use Some in \<open>auto simp: ReleaseClient_def finish_release_def same_session_def\<close>)
qed (use assms in \<open>auto simp: ReleaseClient_def same_session_def\<close>)

lemma Disconnect_effect:
  assumes "mq_client s = None \<Longrightarrow> mq_pendingOperations s = []"
  shows "\<exists>s'. Disconnect paho s = (Inr (), s') \<and> mq_client s' = None \<and> mq_pendingOperations s' = [] \<and>
    mq_status s' = Offline \<and> mq_shuttingDown s' \<and> mq_subscriptions s' = mq_subscriptions s \<and>
    mq_nextListener s' = mq_nextListener s \<and> console_status s' = map_option (\<lambda>_. ''Offline'') (mq_appState s')"
proof -
  let ?s = "if mq_client s \<noteq> None then SetStatus Disconnecting ''Disconnecting from MQTT broker'' (s\<lparr>mq_shuttingDown := True\<rparr>)
    else s\<lparr>mq_shuttingDown := True\<rparr>"
  have "mq_client ?s = None \<Longrightarrow> mq_pendingOperations ?s = []" using assms by (auto split: if_splits)
  from ReleaseClient_effect [OF this] obtain s' where s': "ReleaseClient paho ?s = (Inr (), s')" "mq_client s' = None"
      "mq_pendingOperations s' = []" "same_session ?s s'"
    by blast
  then have "Disconnect paho s = (Inr (), SetStatus Offline ''Offline'' s')" by (simp add: Disconnect_def Let_def)
  with s' show ?thesis by (auto simp: same_session_def option.map_comp o_def split: if_splits) (auto simp: mqtt_defs)
qed

lemma Disconnect_inv: "mqtt_inv s \<Longrightarrow> \<exists>s'. Disconnect paho s = (Inr (), s') \<and> mqtt_inv s'"
  using Disconnect_effect [of s] by (fastforce simp: mqtt_inv_def)

lemma open_client_inv:
  assumes "mqtt_inv (s\<lparr>mq_status := Offline, mq_appState := None\<rparr>)" "mq_client s = None" "\<not> mq_shuttingDown s" "mq_status s = Connecting"
    "console_status s = map_option (\<lambda>_. ''Connecting'') (mq_appState s)"
  shows "case open_client paho host port clientId s of
      (Inr _, s') \<Rightarrow> mqtt_inv s'
    | (Inl e, s') \<Rightarrow> is_std_exception e \<and> mqtt_inv (ReportError (connection_error e) True s')"
proof (cases rule: throws_mqttE [OF create_throws [of "broker_uri host port" clientId default_create_options], of "mq_world s"])
  case (1 c w)
  show ?thesis
  proof (cases rule: throws_mqttE [OF connect_throws [of c default_connect_options], of w])
    case (1 x w')
    with \<open>paho_create paho _ _ _ _ = (Inr c, w)\<close> assms show ?thesis
      by (auto simp: open_client_def cbind_def cseq_def on_world_def mqtt_inv_def)
  next
    case (2 m w')
    with \<open>paho_create paho _ _ _ _ = (Inr c, w)\<close> assms show ?thesis
      by (auto simp: open_client_def cbind_def cseq_def on_world_def mqtt_inv_def)
  qed
next
  case (2 m w)
  with assms show ?thesis by (auto simp: open_client_def cbind_def on_world_def mqtt_inv_def)
qed

lemma Connect_inv:
  assumes inv: "mqtt_inv s"
  shows "\<exists>s'. Connect paho host port clientId s = (Inr (), s') \<and> mqtt_inv s'"
proof (cases "host = [] \<or> port < 1 \<or> port > 65535 \<or> clientId = [] \<or>
    mq_status s = Connecting \<or> mq_status s = Connected \<or> mq_status s = Reconnecting")
  case True
  with mqtt_inv_ReportError [OF inv] inv show ?thesis by (auto simp: Connect_def)
next
  case False
  let ?d = "''Connecting to '' @ host @ '':'' @ dec_of_int port @ '' as '' @ clientId"
  obtain s1 where s1: "ReleaseClient paho (s\<lparr>mq_shuttingDown := False\<rparr>) = (Inr (), s1)" "mq_client s1 = None"
      "mq_pendingOperations s1 = []" "same_session (s\<lparr>mq_shuttingDown := False\<rparr>) s1"
    using ReleaseClient_effect [of "s\<lparr>mq_shuttingDown := False\<rparr>"] inv by (auto simp: mqtt_inv_def)
  have "case open_client paho host port clientId (SetStatus Connecting ?d s1) of
      (Inr _, s') \<Rightarrow> mqtt_inv s'
    | (Inl e, s') \<Rightarrow> is_std_exception e \<and> mqtt_inv (ReportError (connection_error e) True s')"
    by (rule open_client_inv) (use s1 inv in \<open>auto simp: same_session_def mqtt_inv_def mqtt_defs split: option.splits\<close>)
  with False s1(1) show ?thesis
    by (auto simp: Connect_def Let_def split: prod.splits sum.splits)
qed

lemma SubscribeClient_inv:
  "mqtt_inv s \<Longrightarrow> mq_client s = Some c \<Longrightarrow>
   \<exists>s'. SubscribeClient paho (Some c) topic s = (Inr (), s') \<and> mqtt_inv s' \<and> mq_client s' = Some c"
  using tracked_call_inv [of "paho_subscribe paho c topic DeliveryQos" s] subscribe_throws
  by (simp add: SubscribeClient_def)

lemma Subscribe_inv:
  assumes inv: "mqtt_inv s"
  shows "\<exists>s'. Subscribe paho topic handler s = (Inr (), s') \<and> mqtt_inv s'"
proof (cases "topic = [] \<or> handler = None")
  case True
  with mqtt_inv_ReportError [OF inv] show ?thesis by (auto simp: Subscribe_def)
next
  case False
  then obtain h where h: "handler = Some h" by auto
  let ?s = "s\<lparr>mq_subscriptions := insert_or_assign topic h (mq_subscriptions s)\<rparr>"
  have i: "mqtt_inv ?s" using inv insert_or_assign_sorted by (auto simp: mqtt_inv_def)
  show ?thesis
  proof (cases "mq_status s = Connected")
    case True
    then obtain c where "mq_client ?s = Some c" using inv by (auto simp: mqtt_inv_def)
    with SubscribeClient_inv [OF i this] True False h show ?thesis by (auto simp: Subscribe_def Let_def)
  qed (use False h i in \<open>auto simp: Subscribe_def Let_def\<close>)
qed

lemma Unsubscribe_inv:
  assumes inv: "mqtt_inv s"
  shows "\<exists>s'. Unsubscribe paho topic s = (Inr (), s') \<and> mqtt_inv s'"
proof (cases "topic = []")
  case True
  with mqtt_inv_ReportError [OF inv] show ?thesis by (auto simp: Unsubscribe_def)
next
  case False
  let ?s = "s\<lparr>mq_subscriptions := erase_key topic (mq_subscriptions s)\<rparr>"
  have "sorted_wrt (<) (map fst (erase_key topic (mq_subscriptions s)))"
    using inv by (auto simp: mqtt_inv_def erase_key_def sorted_wrt_map intro: sorted_wrt_filter)
  then have i: "mqtt_inv ?s" using inv by (auto simp: mqtt_inv_def)
  show ?thesis
  proof (cases "mq_client s")
    case (Some c)
    then have "mq_client ?s \<noteq> None" by simp
    from tracked_call_inv [where call = "paho_unsubscribe paho c topic", OF unsubscribe_throws i this]
    have "\<exists>s'. tracked_call op f (paho_unsubscribe paho c topic) ?s = (Inr (), s') \<and> mqtt_inv s'" for op f by blast
    with Some False i show ?thesis by (simp add: Unsubscribe_def Let_def)
  qed (use False i in \<open>simp add: Unsubscribe_def Let_def\<close>)
qed

lemma Publish_inv:
  assumes inv: "mqtt_inv s"
  shows "\<exists>s'. Publish paho topic payload s = (Inr (), s') \<and> mqtt_inv s'"
proof (cases "topic = []")
  case True
  with mqtt_inv_ReportError [OF inv] show ?thesis by (auto simp: Publish_def)
next
  case False
  show ?thesis
  proof (cases "mq_client s")
    case (Some c)
    then have "mq_client s \<noteq> None" by simp
    from tracked_call_inv [where call = "paho_publish paho c topic payload DeliveryQos RetainMessages", OF publish_throws inv this]
    have "\<exists>s'. tracked_call op f (paho_publish paho c topic payload DeliveryQos RetainMessages) s = (Inr (), s') \<and> mqtt_inv s'" for op f
      by blast
    with Some False show ?thesis by (simp add: Publish_def)
  qed (use False mqtt_inv_ReportError [OF inv] in \<open>simp add: Publish_def\<close>)
qed

lemma subscribe_all_inv:
  "mqtt_inv s \<Longrightarrow> mq_client s = Some c \<Longrightarrow>
   \<exists>s'. cfor topics (SubscribeClient paho (Some c)) s = (Inr (), s') \<and> mqtt_inv s' \<and> mq_client s' = Some c"
proof (induction topics arbitrary: s)
  case (Cons t ts)
  obtain s1 where "SubscribeClient paho (Some c) t s = (Inr (), s1)" "mqtt_inv s1" "mq_client s1 = Some c"
    using SubscribeClient_inv [OF Cons.prems] by blast
  with Cons.IH [of s1] show ?case by (simp add: cseq_def cbind_def)
qed (simp add: cret_def)

lemma HandleConnected_inv:
  assumes inv: "mqtt_inv s" and c: "mq_client s = Some c"
  shows "\<exists>s'. HandleConnected paho detail s = (Inr (), s') \<and> mqtt_inv s'"
proof (cases "mq_shuttingDown s \<or> mq_status s = Connected")
  case False
  have "mqtt_inv (mark_connected detail s)" "mq_client (mark_connected detail s) = Some c"
    using inv c False by (auto simp: mqtt_inv_def mark_connected_def mqtt_defs)
  from subscribe_all_inv [OF this, of "map fst (mq_subscriptions s)"] c False show ?thesis
    by (auto simp: HandleConnected_def Let_def)
qed (use inv in \<open>auto simp: HandleConnected_def\<close>)

end

lemma CompleteOperation_inv: "mqtt_inv s \<Longrightarrow> mqtt_inv (CompleteOperation listener error s)"
proof -
  assume inv: "mqtt_inv s"
  have sub: "set (erase_first P xs) \<subseteq> set xs" "distinct (map fst xs) \<Longrightarrow> distinct (map fst (erase_first P xs))"
    for P and xs :: "(nat \<times> string) list"
    by (induction xs) (auto dest: image_eqI)
  let ?s = "s\<lparr>mq_pendingOperations := erase_first (\<lambda>p. fst p = listener) (mq_pendingOperations s)\<rparr>"
  have "mqtt_inv ?s" using inv sub [where P = "\<lambda>p. fst p = listener" and xs = "mq_pendingOperations s"] by (auto simp: mqtt_inv_def list_all_iff)
  with inv mqtt_inv_ReportError [of ?s] show ?thesis by (auto simp: CompleteOperation_def Let_def split: option.splits)
qed

lemma connection_lost_inv:
  "mqtt_inv s \<Longrightarrow> mq_client s \<noteq> None \<Longrightarrow> mqtt_inv (connection_lost cause s)"
  by (auto simp: mqtt_inv_def connection_lost_def connection_lost_effect_def connection_lost_test_def mqtt_defs)

lemma call_handler_inv: "mqtt_inv s \<Longrightarrow> mqtt_inv (call_handler call topic payload h s)"
  using mqtt_inv_ReportError [of "s\<lparr>mq_delivered := mq_delivered s @ [(h, topic, payload)]\<rparr>"]
  by (auto simp: call_handler_def Let_def split: sum.splits) (auto simp: mqtt_inv_def)

lemma call_handlers_inv: "mqtt_inv s \<Longrightarrow> mqtt_inv (fold (call_handler call topic payload) hs s)"
  by (induction hs arbitrary: s) (auto simp: call_handler_inv)

lemma call_handlers_delivered:
  "mq_delivered (fold (call_handler call topic payload) hs s) = mq_delivered s @ map (\<lambda>h. (h, topic, payload)) hs"
proof (induction hs arbitrary: s)
  case (Cons h hs)
  have "mq_delivered (call_handler call topic payload h s) = mq_delivered s @ [(h, topic, payload)]"
    by (simp add: call_handler_def Let_def split: sum.splits)
  with Cons.IH show ?case by simp
qed simp

section \<open>Reachable services\<close>

text \<open>
  Calls of the application and callbacks of a client the service holds, in any order. The library
  calls back only for a client that has been created and not yet released.
\<close>

inductive mqtt_reachable ::
  "('w, 'c) paho \<Rightarrow> ('h \<Rightarrow> string \<Rightarrow> string \<Rightarrow> cpp_exn + unit) \<Rightarrow> ('w, 'c, 'h) MqttService \<Rightarrow> bool"
  for paho call where
  Init: "app = None \<or> app = Some initial_app_state \<Longrightarrow> mqtt_reachable paho call (initial_mqtt w app)"
| Handlers: "mqtt_reachable paho call s \<Longrightarrow> mqtt_reachable paho call (SetErrorHandler b (SetStatusHandler b' s))"
| Connect: "mqtt_reachable paho call s \<Longrightarrow> Connect paho host port clientId s = (r, s') \<Longrightarrow> mqtt_reachable paho call s'"
| Subscribe: "mqtt_reachable paho call s \<Longrightarrow> Subscribe paho topic h s = (r, s') \<Longrightarrow> mqtt_reachable paho call s'"
| Unsubscribe: "mqtt_reachable paho call s \<Longrightarrow> Unsubscribe paho topic s = (r, s') \<Longrightarrow> mqtt_reachable paho call s'"
| Publish: "mqtt_reachable paho call s \<Longrightarrow> Publish paho topic payload s = (r, s') \<Longrightarrow> mqtt_reachable paho call s'"
| Disconnect: "mqtt_reachable paho call s \<Longrightarrow> Disconnect paho s = (r, s') \<Longrightarrow> mqtt_reachable paho call s'"
| Connected: "mqtt_reachable paho call s \<Longrightarrow> mq_client s \<noteq> None \<Longrightarrow> connected_callback paho cause s = (r, s') \<Longrightarrow>
    mqtt_reachable paho call s'"
| Success: "mqtt_reachable paho call s \<Longrightarrow> mq_client s \<noteq> None \<Longrightarrow> on_success paho s = (r, s') \<Longrightarrow> mqtt_reachable paho call s'"
| Failure: "mqtt_reachable paho call s \<Longrightarrow> mq_client s \<noteq> None \<Longrightarrow> mqtt_reachable paho call (on_failure message code s)"
| Lost: "mqtt_reachable paho call s \<Longrightarrow> mq_client s \<noteq> None \<Longrightarrow> mqtt_reachable paho call (connection_lost cause s)"
| Message: "mqtt_reachable paho call s \<Longrightarrow> mq_client s \<noteq> None \<Longrightarrow> mqtt_reachable paho call (message_arrived call topic payload s)"
| OperationDone: "mqtt_reachable paho call s \<Longrightarrow> mqtt_reachable paho call (operation_succeeded n s)"
| OperationFailed: "mqtt_reachable paho call s \<Longrightarrow> mqtt_reachable paho call (operation_failed n message code s)"
| World: "mqtt_reachable paho call s \<Longrightarrow> mqtt_reachable paho call (s\<lparr>mq_world := w\<rparr>)"
| Form: "mqtt_reachable paho call s \<Longrightarrow>
    mqtt_reachable paho call (s\<lparr>mq_appState := map_option (UpdateConsoleForm console) (mq_appState s)\<rparr>)"

context paho_library
begin

lemma reachable_inv: "mqtt_reachable paho call s \<Longrightarrow> mqtt_inv s"
proof (induction rule: mqtt_reachable.induct)
  case (Init app w)
  then show ?case by (auto simp: mqtt_inv_def initial_mqtt_def initial_app_state_def default_console_def)
next
  case (Handlers s b b')
  then show ?case by (simp add: mqtt_inv_def SetErrorHandler_def SetStatusHandler_def)
next
  case (Connect s host port clientId r s')
  with Connect_inv [of s host port clientId] show ?case by auto
next
  case (Subscribe s topic h r s')
  with Subscribe_inv [of s topic h] show ?case by auto
next
  case (Unsubscribe s topic r s')
  with Unsubscribe_inv [of s topic] show ?case by auto
next
  case (Publish s topic payload r s')
  with Publish_inv [of s topic payload] show ?case by auto
next
  case (Disconnect s r s')
  with Disconnect_inv [of s] show ?case by auto
next
  case (Connected s cause r s')
  then obtain c where "mq_client s = Some c" by auto
  from HandleConnected_inv [OF Connected.IH this] Connected.hyps(3) show ?case unfolding connected_callback_def by (metis prod.inject)
next
  case (Success s r s')
  then obtain c where "mq_client s = Some c" by auto
  from HandleConnected_inv [OF Success.IH this] Success.hyps(3) show ?case unfolding on_success_def by (metis prod.inject)
next
  case (Failure s message code)
  then show ?case by (simp add: on_failure_def mqtt_inv_ReportError)
next
  case (Lost s cause)
  then show ?case by (simp add: connection_lost_inv)
next
  case (Message s topic payload)
  then show ?case by (simp add: message_arrived_def Let_def mqtt_inv_ReportError call_handlers_inv)
next
  case (OperationDone s n)
  then show ?case by (simp add: operation_succeeded_def CompleteOperation_inv)
next
  case (OperationFailed s n message code)
  then show ?case by (auto simp: operation_failed_def CompleteOperation_inv split: option.splits)
next
  case (Form s console)
  then show ?case by (cases "mq_appState s") (auto simp: mqtt_inv_def UpdateConsoleForm_def)
qed simp

end

section \<open>A client library\<close>

text \<open>
  A library whose world is the log of the calls made; the flag says whether calls fail. Clients are
  their broker addresses.
\<close>

datatype paho_call =
    PahoCreate string string | PahoConnect string | PahoDisconnect string | PahoDisable string
  | PahoSubscribe string string nat | PahoUnsubscribe string string nat | PahoPublish string string string nat

definition paho_log :: "bool \<Rightarrow> paho_call \<Rightarrow> 'a \<Rightarrow> (paho_call list, 'a) comp" where
  "paho_log fails c x w = (if fails then (Inl (MqttException ''MQTT error [-1]''), w) else (Inr x, w @ [c]))"

definition log_paho :: "bool \<Rightarrow> (paho_call list, string) paho" where
  "log_paho fails =
     \<lparr>paho_create = (\<lambda>uri clientId options. paho_log fails (PahoCreate uri clientId) uri),
      paho_connect = (\<lambda>c options. paho_log fails (PahoConnect c) ()),
      paho_is_connected = (\<lambda>c w. PahoConnect c \<in> set w \<and> PahoDisconnect c \<notin> set w),
      paho_disconnect = (\<lambda>c. paho_log fails (PahoDisconnect c) True),
      paho_disable_callbacks = (\<lambda>c w. w @ [PahoDisable c]),
      paho_subscribe = (\<lambda>c topic qos n. paho_log fails (PahoSubscribe c topic n) ()),
      paho_unsubscribe = (\<lambda>c topic n. paho_log fails (PahoUnsubscribe c topic n) ()),
      paho_publish = (\<lambda>c topic payload qos retain n. paho_log fails (PahoPublish c topic payload n) ())\<rparr>"

interpretation logged: paho_library "log_paho fails" for fails
  by unfold_locales (auto simp: log_paho_def throws_mqtt_def paho_log_def split: if_splits)

section \<open>The loop ends when it is stopped\<close>

fun run_stopped :: "nat \<Rightarrow> ('w, 'c) paho \<Rightarrow> string \<Rightarrow> int \<Rightarrow> string \<Rightarrow> run_point \<times> nat \<times> ('w, 'c, 'h) MqttService \<Rightarrow>
    run_point \<times> nat \<times> ('w, 'c, 'h) MqttService" where
  "run_stopped 0 paho host port clientId st = st"
| "run_stopped (Suc n) paho host port clientId st =
     (case run_step paho host port clientId True False st of
        None \<Rightarrow> st
      | Some st' \<Rightarrow> run_stopped n paho host port clientId st')"

text \<open>Reachable states of the loop, while the service changes in any way between its steps.\<close>

inductive run_reachable ::
  "('w, 'c) paho \<Rightarrow> string \<Rightarrow> int \<Rightarrow> string \<Rightarrow> run_point \<times> nat \<times> ('w, 'c, 'h) MqttService \<Rightarrow> bool"
  for paho host port clientId where
  Start: "run_reachable paho host port clientId (RunCheck, 1, s)"
| Step: "run_reachable paho host port clientId st \<Longrightarrow> run_step paho host port clientId stop expired st = Some st' \<Longrightarrow>
    run_reachable paho host port clientId st'"
| Service: "run_reachable paho host port clientId (point, d, s) \<Longrightarrow> run_reachable paho host port clientId (point, d, s')"

lemma run_delay: "run_reachable paho host port clientId st \<Longrightarrow> fst (snd st) \<in> {1, 2, 4, 8, 16, 30}"
proof (induction rule: run_reachable.induct)
  case (Step st stop expired st')
  then show ?case
    by (cases st) (auto simp: run_step_def split: run_point.splits if_splits prod.splits sum.splits)
qed auto

context paho_library
begin

lemma run_stopped_ends:
  assumes "mq_client s = None \<Longrightarrow> mq_pendingOperations s = []" and "point \<in> {RunCheck, RunWait, RunBackoff, RunHold, RunExit}"
  shows "\<exists>d' s'. run_stopped 5 paho host port clientId (point, d, s) = (RunDone, d', s') \<and>
    mq_status s' = Offline \<and> mq_client s' = None \<and> mq_pendingOperations s' = []"
proof -
  obtain s' where "Disconnect paho s = (Inr (), s')" "mq_client s' = None" "mq_pendingOperations s' = []" "mq_status s' = Offline"
    using Disconnect_effect [OF assms(1)] by blast
  with assms(2) show ?thesis by (auto simp: numeral_eq_Suc run_step_def)
qed

lemma subscribe_all_pending:
  assumes "\<And>topic n w. \<exists>w'. paho_subscribe paho c topic DeliveryQos n w = (Inr (), w')"
  shows "\<exists>s'. cfor topics (SubscribeClient paho (Some c)) s = (Inr (), s') \<and> mq_status s' = mq_status s \<and>
    map snd (mq_pendingOperations s') = map snd (mq_pendingOperations s) @ map (\<lambda>t. ''MQTT subscription to '' @ t) topics"
proof (induction topics arbitrary: s)
  case (Cons t ts)
  obtain w where w: "paho_subscribe paho c t DeliveryQos (mq_nextListener s) (mq_world s) = (Inr (), w)" using assms by blast
  let ?s = "s\<lparr>mq_pendingOperations := mq_pendingOperations s @ [(mq_nextListener s, ''MQTT subscription to '' @ t)],
    mq_nextListener := mq_nextListener s + 1, mq_world := w\<rparr>"
  have "SubscribeClient paho (Some c) t s = (Inr (), ?s)"
    using w by (simp add: SubscribeClient_def tracked_call_def TrackOperation_def on_world_def)
  with Cons.IH [of ?s] show ?case by (simp add: cseq_def cbind_def)
qed (simp add: cret_def)

end

section \<open>Properties\<close>



text \<open>
  No exception escapes. Provided the library throws nothing but \<^verbatim>\<open>mqtt::exception\<close>, every
  operation and every callback of a reachable service returns, so nothing unwinds into the caller
  or into the library's threads.
\<close>

theorem mqtt_operations_return:
  assumes p: "paho_library paho" and s: "mqtt_reachable paho call s"
  shows "(\<exists>s'. Connect paho host port clientId s = (Inr (), s')) \<and> (\<exists>s'. Disconnect paho s = (Inr (), s')) \<and>
    (\<exists>s'. Subscribe paho topic handler s = (Inr (), s')) \<and> (\<exists>s'. Unsubscribe paho topic s = (Inr (), s')) \<and>
    (\<exists>s'. Publish paho topic payload s = (Inr (), s')) \<and>
    (mq_client s \<noteq> None \<longrightarrow> (\<exists>s'. HandleConnected paho detail s = (Inr (), s')))"
  using paho_library.Connect_inv [OF p] paho_library.Disconnect_inv [OF p] paho_library.Subscribe_inv [OF p]
    paho_library.Unsubscribe_inv [OF p] paho_library.Publish_inv [OF p] paho_library.HandleConnected_inv [OF p]
    paho_library.reachable_inv [OF p s]
  by blast

theorem mqtt_operations_return_witness:
  fixes s
  defines "s \<equiv> initial_mqtt [] None :: (paho_call list, string, unit) MqttService"
  shows "(\<exists>s'. Connect (log_paho True) ''h'' 1 ''c'' s = (Inr (), s')) \<and> (\<exists>s'. Disconnect (log_paho True) s = (Inr (), s')) \<and>
    (\<exists>s'. Subscribe (log_paho True) ''t'' (Some ()) s = (Inr (), s')) \<and> (\<exists>s'. Unsubscribe (log_paho True) ''t'' s = (Inr (), s')) \<and>
    (\<exists>s'. Publish (log_paho True) ''t'' ''p'' s = (Inr (), s'))"
proof -
  have "mqtt_reachable (log_paho True) (\<lambda>_ _ _. Inr ()) s" unfolding s_def by (rule mqtt_reachable.Init) simp
  from mqtt_operations_return [OF logged.paho_library_axioms this] show ?thesis by blast
qed

text \<open>
  Subscriptions survive reconnects. When a connection is established, every stored
  subscription is requested again, each once and in topic order; the second notification that the
  library sends for the same connection changes nothing.
\<close>

theorem connected_resubscribes:
  assumes "paho_library paho" and "mq_client s = Some c" "\<not> mq_shuttingDown s" "mq_status s \<noteq> Connected"
    and "\<And>topic n w. \<exists>w'. paho_subscribe paho c topic DeliveryQos n w = (Inr (), w')"
  shows "\<exists>s'. HandleConnected paho detail s = (Inr (), s') \<and> mq_status s' = Connected \<and>
    map snd (mq_pendingOperations s') =
      map snd (mq_pendingOperations s) @ map (\<lambda>t. ''MQTT subscription to '' @ t) (map fst (mq_subscriptions s)) \<and>
    HandleConnected paho detail' s' = (Inr (), s')"
  using paho_library.subscribe_all_pending [OF assms(1,5), of "map fst (mq_subscriptions s)" "mark_connected detail s"] assms(2-4)
  by (auto simp: HandleConnected_def Let_def mark_connected_def)

theorem connected_resubscribes_witness:
  fixes s
  defines "s \<equiv> (initial_mqtt [] None :: (paho_call list, string, unit) MqttService)
    \<lparr>mq_client := Some ''tcp'', mq_subscriptions := [(''a'', ()), (''b'', ())]\<rparr>"
  shows "\<exists>s'. HandleConnected (log_paho False) ''d'' s = (Inr (), s') \<and> mq_status s' = Connected \<and>
    map snd (mq_pendingOperations s') =
      map snd (mq_pendingOperations s) @ map (\<lambda>t. ''MQTT subscription to '' @ t) (map fst (mq_subscriptions s)) \<and>
    HandleConnected (log_paho False) ''e'' s' = (Inr (), s')"
  by (rule connected_resubscribes [OF logged.paho_library_axioms, of _ "''tcp''"])
    (simp_all add: s_def initial_mqtt_def log_paho_def paho_log_def)

text \<open>
  Delivery. An arriving message is handed to the handlers of exactly the subscriptions whose
  filter matches its topic, in filter order and once each, whether or not earlier handlers throw.
\<close>

theorem message_reaches_matching_handlers:
  "mq_delivered (message_arrived call topic payload s) =
     mq_delivered s @ map (\<lambda>p. (snd p, topic, payload)) (filter (\<lambda>p. TopicMatches (fst p) topic) (mq_subscriptions s))"
  by (auto simp: message_arrived_def Let_def call_handlers_delivered)

text \<open>
  C35: a lost connection can outlive the service. If \<^verbatim>\<open>connection_lost\<close> passes its test before
  \<^verbatim>\<open>Disconnect\<close> runs and acts after it, the service is left in the state reconnecting with no
  client, and from then on every \<^verbatim>\<open>Connect\<close> with valid arguments returns without doing anything.
\<close>

theorem connection_lost_race:
  assumes p: "paho_library paho" and s: "mqtt_reachable paho call s" and "connection_lost_test s"
    and d: "Disconnect paho s = (Inr (), s1)"
    and args: "host \<noteq> []" "1 \<le> port" "port \<le> 65535" "clientId \<noteq> []"
  shows "mq_status (connection_lost_effect cause s1) = Reconnecting \<and> mq_client (connection_lost_effect cause s1) = None \<and>
    Connect paho host port clientId (connection_lost_effect cause s1) = (Inr (), connection_lost_effect cause s1)"
proof -
  have "mq_client s = None \<Longrightarrow> mq_pendingOperations s = []"
    using paho_library.reachable_inv [OF p s] by (simp add: mqtt_inv_def)
  from paho_library.Disconnect_effect [OF p this] d have "mq_client s1 = None" by simp
  with args show ?thesis by (simp add: connection_lost_effect_def Connect_def)
qed

theorem connection_lost_race_witness:
  "\<exists>s1. Disconnect (log_paho False) (initial_mqtt [] None :: (paho_call list, string, unit) MqttService) = (Inr (), s1) \<and>
    mq_status (connection_lost_effect [] s1) = Reconnecting \<and> mq_client (connection_lost_effect [] s1) = None \<and>
    Connect (log_paho False) ''h'' 1883 ''c'' (connection_lost_effect [] s1) = (Inr (), connection_lost_effect [] s1)"
proof -
  let ?s = "initial_mqtt [] None :: (paho_call list, string, unit) MqttService"
  have r: "mqtt_reachable (log_paho False) (\<lambda>_ _ _. Inr ()) ?s" by (rule mqtt_reachable.Init) simp
  obtain s1 where d: "Disconnect (log_paho False) ?s = (Inr (), s1)"
    by (simp add: Disconnect_def initial_mqtt_def ReleaseClient_def Let_def)
  have "connection_lost_test ?s" by (simp add: connection_lost_test_def initial_mqtt_def)
  from connection_lost_race [OF logged.paho_library_axioms r this d, of "''h''" 1883 "''c''" "[]"] d show ?thesis by simp
qed

text \<open>
  \<^verbatim>\<open>Run\<close> backs off within bounds and stops. Its retry delay is always one of 1, 2, 4, 8, 16
  and 30 seconds, and once a stop has been requested the loop needs at most five more steps, from
  any of its waits and without waiting for a timeout, to disconnect: the service is then offline
  without a client.
\<close>

theorem Run_backs_off_and_stops:
  assumes p: "paho_library paho" and r: "run_reachable paho host port clientId (point, d, s)"
    and s: "mqtt_reachable paho call s" and point: "point \<in> {RunCheck, RunWait, RunBackoff, RunHold, RunExit}"
  shows "d \<in> {1, 2, 4, 8, 16, 30} \<and>
    (\<exists>d' s'. run_stopped 5 paho host port clientId (point, d, s) = (RunDone, d', s') \<and> mq_status s' = Offline \<and> mq_client s' = None)"
proof -
  have "mq_client s = None \<Longrightarrow> mq_pendingOperations s = []"
    using paho_library.reachable_inv [OF p s] by (simp add: mqtt_inv_def)
  from paho_library.run_stopped_ends [OF p this point] run_delay [OF r] show ?thesis by fastforce
qed

theorem Run_backs_off_and_stops_witness:
  "1 \<in> {1, 2, 4, 8, 16, 30 :: nat} \<and>
    (\<exists>d' s'. run_stopped 5 (log_paho False) ''h'' 1883 ''c''
        (RunCheck, 1, initial_mqtt [] None :: (paho_call list, string, unit) MqttService) = (RunDone, d', s') \<and>
      mq_status s' = Offline \<and> mq_client s' = None)"
  by (rule Run_backs_off_and_stops [OF logged.paho_library_axioms run_reachable.Start mqtt_reachable.Init [where call = "\<lambda>_ _ _. Inr ()"]])
    simp_all

end
