(* ===== verification/Thread_Pool.thy ===== *)
theory Thread_Pool
  imports Prelude "HOL-Library.Multiset"
begin

text \<open>
  \<^verbatim>\<open>src/src/Utils/Concurrency/ThreadPoolManager.hpp\<close>: a fixed set of workers that drain a
  queue of tasks. Each section under \<^verbatim>\<open>queueMutex_\<close> is one step; a worker runs its task
  between two of them. The lemmas show that tasks start in the order they were accepted, that
  every accepted task is run exactly once, that a stopped pool rejects tasks, and that joining
  the workers ends with every accepted task finished. Tasks are values of any type.
\<close>

datatype 't pool_worker = WorkerWaiting | WorkerRunning 't | WorkerExited

record 't ThreadPoolManager =
  tp_workers :: "'t pool_worker list"
  tp_tasks :: "'t list"
  tp_stop :: bool

section \<open>Construction\<close>

definition ValidateExplicitThreadCount :: "nat \<Rightarrow> cpp_exn + nat" where
  "ValidateExplicitThreadCount threadCount =
     (if threadCount = 0 then Inl (InvalidArgument ''ThreadPoolManager requires at least one worker'')
      else Inr threadCount)"

definition NormalizeDefaultThreadCount :: "nat \<Rightarrow> nat" where
  "NormalizeDefaultThreadCount hardwareConcurrency = (if hardwareConcurrency = 0 then 1 else hardwareConcurrency)"

text \<open>
  The constructor's loop: \<open>factory index\<close> is the exception the thread factory throws for that
  worker, if any. On an exception the workers created so far are stopped and joined; they
  find an empty queue and exit.
\<close>

fun create_workers :: "(nat \<Rightarrow> cpp_exn option) \<Rightarrow> nat \<Rightarrow> nat \<Rightarrow> 't pool_worker list \<Rightarrow>
    cpp_exn \<times> 't pool_worker list + 't pool_worker list" where
  "create_workers factory index 0 workers = Inr workers"
| "create_workers factory index (Suc n) workers =
     (case factory index of
        Some e \<Rightarrow> Inl (e, map (\<lambda>_. WorkerExited) workers)
      | None \<Rightarrow> create_workers factory (Suc index) n (workers @ [WorkerWaiting]))"

definition construct_pool :: "(nat \<Rightarrow> cpp_exn option) \<Rightarrow> nat \<Rightarrow> cpp_exn + 't ThreadPoolManager" where
  "construct_pool factory threadCount =
     (case create_workers factory 0 threadCount [] of
        Inl (e, workers) \<Rightarrow> Inl e
      | Inr workers \<Rightarrow> Inr \<lparr>tp_workers = workers, tp_tasks = [], tp_stop = False\<rparr>)"

definition ThreadPoolManager_explicit :: "(nat \<Rightarrow> cpp_exn option) \<Rightarrow> nat \<Rightarrow> cpp_exn + 't ThreadPoolManager" where
  "ThreadPoolManager_explicit factory threadCount =
     ebind (ValidateExplicitThreadCount threadCount) (construct_pool factory)"

definition ThreadPoolManager_default :: "(nat \<Rightarrow> cpp_exn option) \<Rightarrow> nat \<Rightarrow> cpp_exn + 't ThreadPoolManager" where
  "ThreadPoolManager_default factory hardwareConcurrency =
     construct_pool factory (NormalizeDefaultThreadCount hardwareConcurrency)"

section \<open>Operation\<close>

definition thread_count :: "'t ThreadPoolManager \<Rightarrow> nat" where
  "thread_count s = length (tp_workers s)"

definition enqueue :: "'t \<Rightarrow> ('t ThreadPoolManager, unit) comp" where
  "enqueue task s =
     (if tp_stop s then (Inl (RuntimeError ''ThreadPoolManager is stopped''), s)
      else (Inr (), s\<lparr>tp_tasks := tp_tasks s @ [task]\<rparr>))"

definition set_stop :: "'t ThreadPoolManager \<Rightarrow> 't ThreadPoolManager" where
  "set_stop s = s\<lparr>tp_stop := True\<rparr>"

definition set_worker :: "nat \<Rightarrow> 't pool_worker \<Rightarrow> 't ThreadPoolManager \<Rightarrow> 't ThreadPoolManager" where
  "set_worker i w s = s\<lparr>tp_workers := (tp_workers s)[i := w]\<rparr>"

text \<open>
  One turn of worker \<open>i\<close> in \<^verbatim>\<open>WorkerThread\<close>: the section that waits and takes a task, or the
  end of the task it runs. \<open>None\<close>: there is no such worker, it has returned, or it is blocked.
\<close>

definition worker_turn :: "nat \<Rightarrow> 't ThreadPoolManager \<Rightarrow> 't ThreadPoolManager option" where
  "worker_turn i s =
     (if length (tp_workers s) \<le> i then None
      else case tp_workers s ! i of
        WorkerExited \<Rightarrow> None
      | WorkerRunning task \<Rightarrow> Some (set_worker i WorkerWaiting s)
      | WorkerWaiting \<Rightarrow>
          (case tp_tasks s of
             [] \<Rightarrow> if tp_stop s then Some (set_worker i WorkerExited s) else None
           | task # rest \<Rightarrow> Some (set_worker i (WorkerRunning task) (s\<lparr>tp_tasks := rest\<rparr>))))"

text \<open>Reachable pools with the tasks accepted, started and finished so far.\<close>

definition running :: "'t ThreadPoolManager \<Rightarrow> 't list" where
  "running s = concat (map (\<lambda>w. case w of WorkerRunning t \<Rightarrow> [t] | _ \<Rightarrow> []) (tp_workers s))"

inductive pool_reachable :: "'t ThreadPoolManager \<Rightarrow> 't list \<Rightarrow> 't list \<Rightarrow> 't list \<Rightarrow> bool" where
  Init: "construct_pool factory n = Inr s \<Longrightarrow> pool_reachable s [] [] []"
| Enqueue: "pool_reachable s accepted started finished \<Longrightarrow> enqueue task s = (Inr (), s') \<Longrightarrow>
    pool_reachable s' (accepted @ [task]) started finished"
| Rejected: "pool_reachable s accepted started finished \<Longrightarrow> enqueue task s = (Inl e, s') \<Longrightarrow>
    pool_reachable s' accepted started finished"
| Stop: "pool_reachable s accepted started finished \<Longrightarrow> pool_reachable (set_stop s) accepted started finished"
| Take: "pool_reachable s accepted started finished \<Longrightarrow> i < length (tp_workers s) \<Longrightarrow> tp_workers s ! i = WorkerWaiting \<Longrightarrow>
    worker_turn i s = Some s' \<Longrightarrow>
    pool_reachable s' accepted (started @ (case tp_workers s' ! i of WorkerRunning t \<Rightarrow> [t] | _ \<Rightarrow> [])) finished"
| Finish: "pool_reachable s accepted started finished \<Longrightarrow> i < length (tp_workers s) \<Longrightarrow> tp_workers s ! i = WorkerRunning task \<Longrightarrow>
    worker_turn i s = Some s' \<Longrightarrow> pool_reachable s' accepted started (finished @ [task])"

definition pool_inv :: "'t ThreadPoolManager \<Rightarrow> 't list \<Rightarrow> 't list \<Rightarrow> 't list \<Rightarrow> bool" where
  "pool_inv s accepted started finished \<longleftrightarrow> accepted = started @ tp_tasks s \<and>
     mset started = mset finished + mset (running s) \<and>
     (WorkerExited \<in> set (tp_workers s) \<longrightarrow> tp_stop s \<and> tp_tasks s = [])"

lemma mset_running_update:
  assumes "i < length ws"
  shows "mset (concat (map f (ws[i := w]))) + mset (f (ws ! i)) = mset (concat (map f ws)) + mset (f w)"
proof -
  obtain a x b where "ws = a @ x # b" "i = length a" using assms by (metis id_take_nth_drop length_take min.absorb4)
  then show ?thesis by simp
qed

lemma create_workers_waiting:
  "create_workers factory index n ws = Inr ws' \<Longrightarrow> ws' = ws @ replicate n WorkerWaiting"
  by (induction factory index n ws rule: create_workers.induct)
    (auto split: option.splits simp: replicate_append_same)

lemma construct_pool_Inr:
  "construct_pool factory n = Inr s \<Longrightarrow> s = \<lparr>tp_workers = replicate n WorkerWaiting, tp_tasks = [], tp_stop = False\<rparr>"
  by (auto simp: construct_pool_def dest: create_workers_waiting split: sum.splits)

lemma pool_invariant: "pool_reachable s accepted started finished \<Longrightarrow> pool_inv s accepted started finished"
proof (induction rule: pool_reachable.induct)
  case (Init factory n s)
  from construct_pool_Inr [OF this] show ?case
    by (auto simp: pool_inv_def running_def concat_eq_Nil_conv)
next
  case (Enqueue s accepted started finished task s')
  then show ?case by (auto simp: pool_inv_def enqueue_def running_def split: if_splits)
next
  case (Rejected s accepted started finished task e s')
  then show ?case by (auto simp: enqueue_def split: if_splits)
next
  case (Stop s accepted started finished)
  then show ?case by (auto simp: pool_inv_def set_stop_def running_def)
next
  case (Take s accepted started finished i s')
  note upd = mset_running_update [OF Take.hyps(2), of "\<lambda>w. case w of WorkerRunning t \<Rightarrow> [t] | _ \<Rightarrow> []"]
  show ?case
  proof (cases "tp_tasks s")
    case Nil
    with Take show ?thesis
      using upd [of WorkerExited]
      by (auto simp: pool_inv_def worker_turn_def set_worker_def running_def split: if_splits)
  next
    case (Cons t rest)
    with Take show ?thesis
      using upd [of "WorkerRunning t"] set_update_subset_insert [of "tp_workers s" i "WorkerRunning t"]
      by (auto simp: pool_inv_def worker_turn_def set_worker_def running_def split: if_splits)
  qed
next
  case (Finish s accepted started finished i task s')
  with mset_running_update [OF Finish.hyps(2), of "\<lambda>w. case w of WorkerRunning t \<Rightarrow> [t] | _ \<Rightarrow> []" WorkerWaiting]
    set_update_subset_insert [of "tp_workers s" i WorkerWaiting]
  show ?case by (auto simp: pool_inv_def worker_turn_def set_worker_def running_def split: if_splits)
qed

section \<open>Joining\<close>

definition worker_weight :: "'t pool_worker \<Rightarrow> nat" where
  "worker_weight w = (case w of WorkerWaiting \<Rightarrow> 1 | WorkerRunning _ \<Rightarrow> 2 | WorkerExited \<Rightarrow> 0)"

lemma worker_weight_0: "worker_weight w = 0 \<longleftrightarrow> w = WorkerExited"
  by (cases w) (auto simp: worker_weight_def)

definition pool_weight :: "'t ThreadPoolManager \<Rightarrow> nat" where
  "pool_weight s = 2 * length (tp_tasks s) + sum_list (map worker_weight (tp_workers s))"

lemma sum_list_update_weight:
  assumes "i < length ws"
  shows "sum_list (map worker_weight (ws[i := w])) + worker_weight (ws ! i) =
     sum_list (map worker_weight ws) + worker_weight w"
proof -
  obtain a x b where "ws = a @ x # b" "i = length a" using assms by (metis id_take_nth_drop length_take min.absorb4)
  then show ?thesis by simp
qed

lemma worker_turn_weight:
  assumes "worker_turn i s = Some s'"
  shows "pool_weight s' < pool_weight s"
proof -
  have i: "i < length (tp_workers s)" using assms by (simp add: worker_turn_def split: if_splits)
  note w = sum_list_update_weight [OF i]
  show ?thesis
  proof (cases "tp_workers s ! i")
    case WorkerWaiting
    with assms w [of WorkerExited] w [of "WorkerRunning (hd (tp_tasks s))"] show ?thesis
      by (cases "tp_tasks s") (auto simp: worker_turn_def pool_weight_def set_worker_def worker_weight_def split: if_splits)
  next
    case (WorkerRunning t)
    with assms w [of WorkerWaiting] show ?thesis
      by (auto simp: worker_turn_def pool_weight_def set_worker_def worker_weight_def split: if_splits)
  qed (use assms in \<open>auto simp: worker_turn_def split: if_splits\<close>)
qed

lemma stopped_worker_enabled:
  "tp_stop s \<Longrightarrow> i < length (tp_workers s) \<Longrightarrow> tp_workers s ! i \<noteq> WorkerExited \<Longrightarrow> \<exists>s'. worker_turn i s = Some s'"
  by (auto simp: worker_turn_def split: pool_worker.splits list.splits)

text \<open>
  \<^verbatim>\<open>StopAndJoinWorkers\<close> after the flag is set: the workers take turns, in any fixed order of
  preference \<open>first_enabled\<close>, until none can move.
\<close>

definition first_enabled :: "'t ThreadPoolManager \<Rightarrow> 't ThreadPoolManager option" where
  "first_enabled s =
     (case List.find (\<lambda>i. worker_turn i s \<noteq> None) [0..<length (tp_workers s)] of
        None \<Rightarrow> None
      | Some i \<Rightarrow> worker_turn i s)"

fun join_workers :: "nat \<Rightarrow> 't ThreadPoolManager \<Rightarrow> 't ThreadPoolManager" where
  "join_workers 0 s = s"
| "join_workers (Suc n) s = (case first_enabled s of None \<Rightarrow> s | Some s' \<Rightarrow> join_workers n s')"

definition StopAndJoinWorkers :: "'t ThreadPoolManager \<Rightarrow> 't ThreadPoolManager" where
  "StopAndJoinWorkers s = join_workers (pool_weight s) (set_stop s)"

lemma first_enabled_turn: "first_enabled s = Some s' \<Longrightarrow> \<exists>i. worker_turn i s = Some s'"
  by (auto simp: first_enabled_def split: option.splits)

lemma first_enabled_None:
  assumes "first_enabled s = None" "tp_stop s"
  shows "\<forall>w \<in> set (tp_workers s). w = WorkerExited"
proof -
  have "worker_turn i s = None" if "i < length (tp_workers s)" for i
    using assms(1) that by (auto simp: first_enabled_def find_eq_None_iff split: option.splits dest!: find_Some_member)
  then show ?thesis using stopped_worker_enabled [OF assms(2)] by (fastforce simp: in_set_conv_nth)
qed

lemma worker_turn_reachable:
  assumes r: "pool_reachable s accepted started finished" and t: "worker_turn i s = Some s'"
  shows "\<exists>started' finished'. pool_reachable s' accepted started' finished'"
proof -
  have i: "i < length (tp_workers s)" using t by (simp add: worker_turn_def split: if_splits)
  show ?thesis
  proof (cases "tp_workers s ! i")
    case WorkerWaiting
    with pool_reachable.Take [OF r i] t show ?thesis by blast
  next
    case (WorkerRunning task)
    with pool_reachable.Finish [OF r i] t show ?thesis by blast
  qed (use t in \<open>auto simp: worker_turn_def split: if_splits\<close>)
qed

lemma worker_turn_stop: "worker_turn i s = Some s' \<Longrightarrow> tp_stop s' = tp_stop s"
  by (auto simp: worker_turn_def set_worker_def split: if_splits pool_worker.splits list.splits)

lemma join_workers_ends:
  "pool_reachable s accepted started finished \<Longrightarrow> tp_stop s \<Longrightarrow> pool_weight s \<le> n \<Longrightarrow>
   (\<forall>w \<in> set (tp_workers (join_workers n s)). w = WorkerExited) \<and>
   (\<exists>started' finished'. pool_reachable (join_workers n s) accepted started' finished')"
proof (induction n arbitrary: s started finished)
  case 0
  then have "\<forall>w \<in> set (tp_workers s). worker_weight w = 0"
    by (auto simp: pool_weight_def sum_list_eq_0_iff)
  with 0 show ?case by (auto simp: worker_weight_0)
next
  case (Suc n)
  show ?case
  proof (cases "first_enabled s")
    case None
    with Suc.prems first_enabled_None [OF None Suc.prems(2)] show ?thesis by auto
  next
    case (Some s')
    then obtain i where t: "worker_turn i s = Some s'" using first_enabled_turn by blast
    obtain st fi where "pool_reachable s' accepted st fi" using worker_turn_reachable [OF Suc.prems(1) t] by blast
    with Suc.IH worker_turn_weight [OF t] worker_turn_stop [OF t] Suc.prems Some show ?thesis by auto
  qed
qed

lemma StopAndJoinWorkers_drains:
  assumes "pool_reachable s accepted started finished" and "tp_workers s \<noteq> []"
  shows "\<exists>started' finished'. pool_reachable (StopAndJoinWorkers s) accepted started' finished' \<and>
    (\<forall>w \<in> set (tp_workers (StopAndJoinWorkers s)). w = WorkerExited) \<and>
    started' = accepted \<and> mset finished' = mset accepted"
proof -
  let ?t = "StopAndJoinWorkers s"
  have "pool_weight (set_stop s) \<le> pool_weight s" "tp_stop (set_stop s)" by (simp_all add: pool_weight_def set_stop_def)
  from join_workers_ends [OF pool_reachable.Stop [OF assms(1)] this(2,1)]
  obtain st fi where t: "\<forall>w \<in> set (tp_workers ?t). w = WorkerExited" "pool_reachable ?t accepted st fi"
    by (auto simp: StopAndJoinWorkers_def)
  have "length (tp_workers (join_workers n s')) = length (tp_workers s')" for n and s' :: "'a ThreadPoolManager"
  proof (induction n arbitrary: s')
    case (Suc n)
    have "length (tp_workers u) = length (tp_workers s')" if "worker_turn i s' = Some u" for i u
      using that by (auto simp: worker_turn_def set_worker_def split: if_splits pool_worker.splits list.splits)
    with Suc show ?case by (auto split: option.splits dest: first_enabled_turn)
  qed simp
  then have "tp_workers ?t \<noteq> []" using assms(2) by (simp add: StopAndJoinWorkers_def set_stop_def flip: length_greater_0_conv)
  with t(1) have "WorkerExited \<in> set (tp_workers ?t)" by (metis last_in_set)
  moreover have "running ?t = []" using t(1) by (auto simp: running_def concat_eq_Nil_conv)
  ultimately show ?thesis using pool_invariant [OF t(2)] t by (auto simp: pool_inv_def)
qed

section \<open>Properties\<close>

lemma sample_pool:
  "pool_reachable \<lparr>tp_workers = [WorkerWaiting], tp_tasks = [''t''], tp_stop = False\<rparr> [''t''] [] []"
proof -
  have "construct_pool (\<lambda>_. None) 1 = Inr (\<lparr>tp_workers = [WorkerWaiting], tp_tasks = [], tp_stop = False\<rparr> :: string ThreadPoolManager)"
    by (simp add: construct_pool_def)
  from pool_reachable.Enqueue [OF pool_reachable.Init [OF this], of "''t''"] show ?thesis by (simp add: enqueue_def)
qed

text \<open>
  C21: every accepted task runs exactly once, in the order of acceptance. In every interleaving of
  clients, stop requests and workers, the tasks started so far followed by the queue are the tasks
  accepted, a started task is either finished or held by one worker, and a worker leaves only when
  the pool is stopped and its queue is empty.
\<close>

theorem pool_runs_tasks_once_in_order:
  assumes "pool_reachable s accepted started finished"
  shows "accepted = started @ tp_tasks s \<and> mset started = mset finished + mset (running s) \<and>
    (WorkerExited \<in> set (tp_workers s) \<longrightarrow> tp_stop s \<and> tp_tasks s = [])"
  using pool_invariant [OF assms] by (simp add: pool_inv_def)

theorem pool_runs_tasks_witness:
  "let s = \<lparr>tp_workers = [WorkerWaiting], tp_tasks = [''t''], tp_stop = False\<rparr> in
   [''t''] = [] @ tp_tasks s \<and> mset [] = mset [] + mset (running s) \<and>
    (WorkerExited \<in> set (tp_workers s) \<longrightarrow> tp_stop s \<and> tp_tasks s = [])"
  unfolding Let_def by (rule pool_runs_tasks_once_in_order [OF sample_pool])

text \<open>
  C22: destruction drains the pool. \<^verbatim>\<open>StopAndJoinWorkers\<close> on a pool with at least one worker ends
  with every worker returned and every task that was ever accepted started in order and finished.
\<close>

theorem StopAndJoinWorkers_finishes_all:
  assumes "pool_reachable s accepted started finished" and "tp_workers s \<noteq> []"
  shows "\<exists>finished'. pool_reachable (StopAndJoinWorkers s) accepted accepted finished' \<and>
    mset finished' = mset accepted \<and> list_all (\<lambda>w. w = WorkerExited) (tp_workers (StopAndJoinWorkers s))"
  using StopAndJoinWorkers_drains [OF assms] by (auto simp: list_all_iff)

theorem StopAndJoinWorkers_witness:
  "let s = \<lparr>tp_workers = [WorkerWaiting], tp_tasks = [''t''], tp_stop = False\<rparr> in
   \<exists>finished'. pool_reachable (StopAndJoinWorkers s) [''t''] [''t''] finished' \<and>
    mset finished' = mset [''t''] \<and> list_all (\<lambda>w. w = WorkerExited) (tp_workers (StopAndJoinWorkers s))"
  unfolding Let_def by (rule StopAndJoinWorkers_finishes_all [OF sample_pool]) simp

end
