(* ===== verification/Logger.thy ===== *)
theory Logger
  imports Prelude
begin

text \<open>
  \<^verbatim>\<open>src/src/Utils/Logger/Logger.hpp\<close> and \<^verbatim>\<open>.cpp\<close>: the process-wide log with a bounded
  history and an output stream, and the part of \<^verbatim>\<open>src/src/Gui/ApplicationLogWindow.cpp\<close> that
  follows the history. The clock and its formatting are a parameter (\<open>now\<close>, its text as
  \<^verbatim>\<open>std::format\<close> prints a time point); \<open>formats\<close> says whether formatting and allocation
  succeed. Sequence numbers are 64-bit words, as in the code.
\<close>

datatype LogLevel = LogInfo | LogWarning | LogError | LogFatal | LogDebug | LogTrace

fun level_char :: "LogLevel \<Rightarrow> char" where
  "level_char LogInfo = CHR ''I''"
| "level_char LogWarning = CHR ''W''"
| "level_char LogError = CHR ''E''"
| "level_char LogFatal = CHR ''F''"
| "level_char LogDebug = CHR ''D''"
| "level_char LogTrace = CHR ''T''"

record LogEntry =
  log_sequence :: "64 word"
  log_level :: LogLevel
  log_timestamp :: string
  log_source :: string
  log_message :: string

record LoggerState =
  lg_output :: string
  lg_entries :: "LogEntry list"
  lg_nextSequence :: "64 word"
  lg_terminated :: bool

definition initial_logger :: LoggerState where
  "initial_logger = \<lparr>lg_output = [], lg_entries = [], lg_nextSequence = 1, lg_terminated = False\<rparr>"

definition MaxLogEntries :: nat where
  "MaxLogEntries = 10000"

section \<open>Records\<close>

text \<open>\<^verbatim>\<open>find_last_of\<close> for a slash or a backslash, and the rest of the path after it.\<close>

fun find_last_sep :: "string \<Rightarrow> nat option" where
  "find_last_sep [] = None"
| "find_last_sep (c # cs) =
     (case find_last_sep cs of
        Some i \<Rightarrow> Some (Suc i)
      | None \<Rightarrow> if c = CHR ''/'' \<or> c = CHR 0x5C then Some 0 else None)"

definition Filename :: "string \<Rightarrow> string" where
  "Filename path = (case find_last_sep path of None \<Rightarrow> path | Some separator \<Rightarrow> drop (separator + 1) path)"

definition source_name :: "string \<Rightarrow> nat \<Rightarrow> string" where
  "source_name file line = Filename file @ '':'' @ dec_of_nat line"

definition log_text :: "LogLevel \<Rightarrow> string \<Rightarrow> string \<Rightarrow> string \<Rightarrow> string" where
  "log_text level timestamp source message =
     ''['' @ level_char level # ''] '' @ timestamp @ '' | '' @ source @ '' | '' @ message"

definition EmitRecord :: "string \<Rightarrow> LogLevel \<Rightarrow> string \<Rightarrow> string \<times> nat \<Rightarrow> LoggerState \<Rightarrow> LoggerState" where
  "EmitRecord now level message = (\<lambda>(file, line) s.
     (let sourceName = source_name file line;
          record = log_text level now sourceName message @ [CHR 0x0A];
          entry = \<lparr>log_sequence = lg_nextSequence s, log_level = level, log_timestamp = now,
                   log_source = sourceName, log_message = message\<rparr>;
          entries = lg_entries s @ [entry];
          entries = (if MaxLogEntries < length entries then tl entries else entries)
      in s\<lparr>lg_entries := entries, lg_nextSequence := lg_nextSequence s + 1, lg_output := lg_output s @ record\<rparr>))"

definition EmitFormattingFailure :: "LoggerState \<Rightarrow> LoggerState" where
  "EmitFormattingFailure s = s\<lparr>lg_output := lg_output s @ ''[E] logger failed to format record'' @ [CHR 0x0A]\<rparr>"

definition EmitLogRecord :: "bool \<Rightarrow> string \<Rightarrow> LogLevel \<Rightarrow> string \<Rightarrow> string \<times> nat \<Rightarrow> LoggerState \<Rightarrow> LoggerState" where
  "EmitLogRecord formats now level message source s =
     (if formats then EmitRecord now level message source s else EmitFormattingFailure s)"

definition log_fatal :: "bool \<Rightarrow> string \<Rightarrow> string \<Rightarrow> string \<times> nat \<Rightarrow> LoggerState \<Rightarrow> LoggerState" where
  "log_fatal formats now message source s = (EmitLogRecord formats now LogFatal message source s)\<lparr>lg_terminated := True\<rparr>"

definition Log :: "bool \<Rightarrow> string \<Rightarrow> LogLevel \<Rightarrow> string \<Rightarrow> string \<times> nat \<Rightarrow> LoggerState \<Rightarrow> LoggerState" where
  "Log formats now level message source s =
     (if level = LogFatal then log_fatal formats now message source s
      else EmitLogRecord formats now level message source s)"

definition GetLogEntriesSince :: "64 word \<Rightarrow> LoggerState \<Rightarrow> LogEntry list" where
  "GetLogEntriesSince sequence s = filter (\<lambda>entry. sequence < log_sequence entry) (lg_entries s)"

definition ClearLogEntries :: "LoggerState \<Rightarrow> LoggerState" where
  "ClearLogEntries s = s\<lparr>lg_entries := []\<rparr>"

section \<open>The log window\<close>

record DisplayEntry =
  de_entry :: LogEntry
  de_lines :: "string list"

record LogWindow =
  lw_displayedEntries :: "DisplayEntry list"
  lw_lastSequence :: "64 word"

definition MaxDisplayedEntries :: nat where
  "MaxDisplayedEntries = 10000"

definition initial_window :: LogWindow where
  "initial_window = \<lparr>lw_displayedEntries = [], lw_lastSequence = 0\<rparr>"

definition severity_order :: "LogLevel list" where
  "severity_order = [LogFatal, LogError, LogWarning, LogInfo, LogDebug, LogTrace]"

fun severity_loop :: "LogLevel \<Rightarrow> nat \<Rightarrow> LogLevel list \<Rightarrow> nat" where
  "severity_loop level index [] = length severity_order - 1"
| "severity_loop level index (l # ls) = (if l = level then index else severity_loop level (index + 1) ls)"

definition SeverityIndex :: "LogLevel \<Rightarrow> nat" where
  "SeverityIndex level = severity_loop level 0 severity_order"

function format_loop :: "string \<Rightarrow> string list" where
  "format_loop rest =
     (case after_sep (CHR 0x0A) rest of
        None \<Rightarrow> [rest]
      | Some r \<Rightarrow> upto_sep (CHR 0x0A) rest # format_loop r)"
  by pat_completeness auto
termination
  by (relation "measure length") (auto dest: after_sep_length)

declare format_loop.simps [simp del]

definition FormatLogEntryLines :: "LogEntry \<Rightarrow> string list" where
  "FormatLogEntryLines entry =
     format_loop (log_text (log_level entry) (log_timestamp entry) (log_source entry) (log_message entry))"

text \<open>The update of the displayed entries at the start of \<^verbatim>\<open>ShowApplicationLog\<close>, and its Clear button.\<close>

definition follow_log :: "LoggerState \<Rightarrow> LogWindow \<Rightarrow> LogWindow" where
  "follow_log s w =
     (let newEntries = GetLogEntriesSince (lw_lastSequence w) s in
      if newEntries = [] then w
      else let displayed = lw_displayedEntries w @ map (\<lambda>e. \<lparr>de_entry = e, de_lines = FormatLogEntryLines e\<rparr>) newEntries
           in w\<lparr>lw_lastSequence := log_sequence (last newEntries),
                lw_displayedEntries := drop (length displayed - MaxDisplayedEntries) displayed\<rparr>)"

definition clear_log :: "LoggerState \<Rightarrow> LogWindow \<Rightarrow> LoggerState \<times> LogWindow" where
  "clear_log s w = (ClearLogEntries s, w\<lparr>lw_displayedEntries := []\<rparr>)"

section \<open>Lemmas\<close>

lemma find_last_sep_Some:
  "find_last_sep p = Some i \<Longrightarrow> i < length p \<and> (p ! i = CHR ''/'' \<or> p ! i = CHR 0x5C) \<and>
     CHR ''/'' \<notin> set (drop (Suc i) p) \<and> CHR 0x5C \<notin> set (drop (Suc i) p)"
proof (induction p arbitrary: i)
  case (Cons c p)
  have none: "find_last_sep q = None \<Longrightarrow> CHR ''/'' \<notin> set q \<and> CHR 0x5C \<notin> set q" for q
    by (induction q) (auto split: option.splits if_splits)
  from Cons show ?case by (auto split: option.splits if_splits dest: none)
qed simp

lemma find_last_sep_None: "find_last_sep q = None \<Longrightarrow> CHR ''/'' \<notin> set q \<and> CHR 0x5C \<notin> set q"
  by (induction q) (auto split: option.splits if_splits)

lemma Filename_no_separator: "CHR ''/'' \<notin> set (Filename p) \<and> CHR 0x5C \<notin> set (Filename p)"
  by (auto simp: Filename_def split: option.splits dest: find_last_sep_None find_last_sep_Some)

lemma Filename_suffix: "\<exists>d. p = d @ Filename p"
  by (auto simp: Filename_def split: option.splits) (metis append_take_drop_id)

text \<open>The number of the record after \<open>n\<close> records, until the counter would wrap.\<close>

definition log_inv :: "LoggerState \<Rightarrow> nat \<Rightarrow> bool" where
  "log_inv s n \<longleftrightarrow> n < 2 ^ 64 - 1 \<and> unat (lg_nextSequence s) = n + 1 \<and> length (lg_entries s) \<le> MaxLogEntries \<and>
     (\<exists>k \<le> n. map (\<lambda>e. unat (log_sequence e)) (lg_entries s) = [Suc k..<Suc n])"

lemma log_inv_initial: "log_inv initial_logger 0"
  by (simp add: log_inv_def initial_logger_def)

lemma log_inv_emit:
  assumes inv: "log_inv s n" and n: "n + 1 < 2 ^ 64 - 1"
  shows "log_inv (EmitRecord now level message source s) (n + 1)"
proof -
  from inv obtain k where k: "k \<le> n" "map (\<lambda>e. unat (log_sequence e)) (lg_entries s) = [Suc k..<Suc n]"
    "unat (lg_nextSequence s) = n + 1" "length (lg_entries s) \<le> MaxLogEntries"
    by (auto simp: log_inv_def)
  let ?seq = "\<lambda>e. unat (log_sequence e)"
  define e where "e = \<lparr>log_sequence = lg_nextSequence s, log_level = level, log_timestamp = now,
    log_source = source_name (fst source) (snd source), log_message = message\<rparr>"
  have e: "?seq e = n + 1" using k(3) by (simp add: e_def)
  have emit: "lg_entries (EmitRecord now level message source s) =
      (if MaxLogEntries < length (lg_entries s @ [e]) then tl (lg_entries s @ [e]) else lg_entries s @ [e])"
    "lg_nextSequence (EmitRecord now level message source s) = lg_nextSequence s + 1"
    by (simp_all add: EmitRecord_def Let_def e_def case_prod_beta)
  have all: "map ?seq (lg_entries s @ [e]) = [Suc k..<Suc (n + 1)]" using k(1,2) e by simp
  have "unat (lg_nextSequence s + 1) = n + 2"
    using k(3) n by (simp add: unat_word_ariths)
  moreover have "\<exists>k' \<le> n + 1. map ?seq (lg_entries (EmitRecord now level message source s)) = [Suc k'..<Suc (n + 1)]"
  proof (cases "MaxLogEntries < length (lg_entries s @ [e])")
    case True
    have "map ?seq (tl (lg_entries s @ [e])) = tl [Suc k..<Suc (n + 1)]" using all by (metis map_tl)
    with True emit(1) k(1) show ?thesis by (auto simp: tl_upt simp del: upt_Suc)
  next
    case False
    with all emit(1) k(1) show ?thesis by (intro exI [where x = k]) (simp del: upt_Suc)
  qed
  moreover have "length (lg_entries (EmitRecord now level message source s)) \<le> MaxLogEntries"
    using k(4) emit(1) by auto
  ultimately show ?thesis using n emit(2) by (simp add: log_inv_def del: upt_Suc)
qed

text \<open>The lines a window shows for an entry are its text split at line ends.\<close>

lemma format_loop_split: "format_loop s = split_sep (CHR 0x0A) s"
proof (induction s rule: format_loop.induct)
  case (1 rest)
  show ?case
  proof (cases "after_sep (CHR 0x0A) rest")
    case None
    then have "upto_sep (CHR 0x0A) rest = rest" by (simp add: upto_sep_notin after_sep_None)
    with None show ?thesis by (simp add: format_loop.simps [of rest] split_sep.simps [of _ rest])
  next
    case (Some r)
    with 1 show ?thesis by (simp add: format_loop.simps [of rest] split_sep.simps [of _ rest])
  qed
qed

section \<open>Following the log\<close>

definition displayed_sequences :: "LogWindow \<Rightarrow> nat list" where
  "displayed_sequences w = map (\<lambda>d. unat (log_sequence (de_entry d))) (lw_displayedEntries w)"

lemma GetLogEntriesSince_sequences:
  assumes inv: "log_inv s n" and m: "unat m \<le> n"
  shows "map (\<lambda>e. unat (log_sequence e)) (GetLogEntriesSince m s) =
    filter (\<lambda>i. unat m < i) (map (\<lambda>e. unat (log_sequence e)) (lg_entries s))"
  by (simp add: GetLogEntriesSince_def filter_map o_def word_less_nat_alt)

definition window_inv :: "LogWindow \<Rightarrow> nat \<Rightarrow> bool" where
  "window_inv w n \<longleftrightarrow> unat (lw_lastSequence w) \<le> n \<and> length (lw_displayedEntries w) \<le> MaxDisplayedEntries \<and>
     sorted_wrt (<) (displayed_sequences w) \<and> list_all (\<lambda>i. i \<le> unat (lw_lastSequence w)) (displayed_sequences w)"

lemma sorted_wrt_drop: "sorted_wrt P xs \<Longrightarrow> sorted_wrt P (drop n xs)"
  by (metis append_take_drop_id sorted_wrt_append)

lemma list_all_drop: "list_all P xs \<Longrightarrow> list_all P (drop n xs)"
  by (auto simp: list_all_iff dest: in_set_dropD)

lemma sorted_le_last: "sorted_wrt (<) (xs :: nat list) \<Longrightarrow> x \<in> set xs \<Longrightarrow> x \<le> last xs"
  by (cases xs rule: rev_cases) (auto simp: sorted_wrt_append less_imp_le)

lemma follow_log_inv:
  assumes s: "log_inv s n" and w: "window_inv w n"
  shows "window_inv (follow_log s w) n"
proof (cases "GetLogEntriesSince (lw_lastSequence w) s = []")
  case True
  with w show ?thesis by (simp add: follow_log_def)
next
  case False
  let ?seq = "\<lambda>e. unat (log_sequence e)" and ?m = "unat (lw_lastSequence w)"
  let ?new = "GetLogEntriesSince (lw_lastSequence w) s"
  obtain k where k: "map ?seq (lg_entries s) = [Suc k..<Suc n]" using s by (auto simp: log_inv_def)
  have new: "map ?seq ?new = filter (\<lambda>i. ?m < i) [Suc k..<Suc n]"
    using GetLogEntriesSince_sequences [OF s, of "lw_lastSequence w"] w k by (simp add: window_inv_def)
  have sorted: "sorted_wrt (<) (map ?seq ?new)" unfolding new by (intro sorted_wrt_filter sorted_wrt_upt)
  have range: "\<forall>i \<in> set (map ?seq ?new). ?m < i \<and> i \<le> n" unfolding new by auto
  have last: "unat (log_sequence (last ?new)) = last (map ?seq ?new)" using False by (simp add: last_map)
  have "\<forall>i \<in> set (map ?seq ?new). i \<le> last (map ?seq ?new)"
    using sorted sorted_le_last by blast
  moreover have "last (map ?seq ?new) \<in> set (map ?seq ?new)" using False by (metis Nil_is_map_conv last_in_set)
  ultimately have le: "last (map ?seq ?new) \<le> n" "?m < last (map ?seq ?new)"
    "\<forall>i \<in> set (map ?seq ?new). i \<le> last (map ?seq ?new)" using range by auto
  let ?all = "lw_displayedEntries w @ map (\<lambda>e. \<lparr>de_entry = e, de_lines = FormatLogEntryLines e\<rparr>) ?new"
  have seqs: "displayed_sequences (follow_log s w) =
      drop (length ?all - MaxDisplayedEntries) (displayed_sequences w @ map ?seq ?new)"
    using False by (simp add: follow_log_def displayed_sequences_def Let_def drop_map [symmetric] o_def)
  have "sorted_wrt (<) (displayed_sequences w @ map ?seq ?new)"
    using w sorted range by (fastforce simp: sorted_wrt_append window_inv_def list_all_iff)
  then have 1: "sorted_wrt (<) (displayed_sequences (follow_log s w))" unfolding seqs by (rule sorted_wrt_drop)
  have "list_all (\<lambda>i. i \<le> last (map ?seq ?new)) (displayed_sequences w @ map ?seq ?new)"
    using w le by (fastforce simp: window_inv_def list_all_iff)
  then have 2: "list_all (\<lambda>i. i \<le> last (map ?seq ?new)) (displayed_sequences (follow_log s w))"
    unfolding seqs by (rule list_all_drop)
  have 3: "unat (lw_lastSequence (follow_log s w)) = last (map ?seq ?new)"
    "length (lw_displayedEntries (follow_log s w)) \<le> MaxDisplayedEntries"
    using False last by (simp_all add: follow_log_def Let_def)
  from 1 2 3 le show ?thesis by (simp add: window_inv_def)
qed

section \<open>Properties\<close>

type_synonym log_call = "string \<times> LogLevel \<times> string \<times> (string \<times> nat)"

definition emit :: "log_call \<Rightarrow> LoggerState \<Rightarrow> LoggerState" where
  "emit = (\<lambda>(now, level, message, source). EmitRecord now level message source)"

definition call_entry :: "nat \<times> log_call \<Rightarrow> LogEntry" where
  "call_entry = (\<lambda>(k, now, level, message, file, line).
     \<lparr>log_sequence = of_nat k, log_level = level, log_timestamp = now, log_source = source_name file line, log_message = message\<rparr>)"

lemma tl_keep_last: "(if n < length (xs @ [x]) then tl (xs @ [x]) else xs @ [x]) = keep_last n (xs @ [x])" if "length xs \<le> n"
  using that by (cases xs; cases "length xs = n") (auto simp: keep_last_def drop_Suc)

lemma emit_all:
  "lg_entries (fold emit cs initial_logger) = keep_last MaxLogEntries (map call_entry (enumerate 1 cs)) \<and>
   lg_nextSequence (fold emit cs initial_logger) = of_nat (Suc (length cs))"
proof (induction cs rule: rev_induct)
  case (snoc c cs)
  obtain now level message path line where c: "c = (now, level, message, path, line)" by (metis surj_pair)
  let ?s = "fold emit cs initial_logger" and ?e = "call_entry (Suc (length cs), c)"
  have e: "?e = \<lparr>log_sequence = lg_nextSequence ?s, log_level = level, log_timestamp = now,
      log_source = source_name path line, log_message = message\<rparr>"
    using snoc by (simp add: c call_entry_def)
  have "lg_entries (emit c ?s) =
      (if MaxLogEntries < length (lg_entries ?s @ [?e]) then tl (lg_entries ?s @ [?e]) else lg_entries ?s @ [?e])"
    "lg_nextSequence (emit c ?s) = lg_nextSequence ?s + 1"
    unfolding e by (simp_all add: c emit_def EmitRecord_def Let_def)
  moreover have "length (lg_entries ?s) \<le> MaxLogEntries" using snoc by simp
  ultimately have "lg_entries (emit c ?s) = keep_last MaxLogEntries (lg_entries ?s @ [?e])"
    "lg_nextSequence (emit c ?s) = lg_nextSequence ?s + 1"
    by (simp_all only: tl_keep_last)
  with snoc show ?case by (simp add: keep_last_snoc enumerate_append_eq)
qed (simp add: initial_logger_def)

text \<open>
  The log keeps the latest 10000 records. After any calls the entries are the last 10000 of
  them, in order, numbered consecutively from 1 in the order of emission (modulo 2 to the 64).
\<close>

theorem log_keeps_latest:
  "lg_entries (fold emit cs initial_logger) = keep_last 10000 (map call_entry (enumerate 1 cs))"
  using emit_all [of cs] by (simp add: MaxLogEntries_def)

text \<open>
  The log window follows the log without repetition. After fewer than 2 to the 64 records, a
  refresh keeps at most 10000 displayed entries, in strictly increasing order of their numbers, and
  remembers the newest number, so that no entry is shown twice.
\<close>

theorem log_window_follows:
  assumes "log_inv s n" "window_inv w n"
  shows "length (lw_displayedEntries (follow_log s w)) \<le> 10000 \<and>
    sorted_wrt (<) (displayed_sequences (follow_log s w)) \<and>
    list_all (\<lambda>i. i \<le> unat (lw_lastSequence (follow_log s w))) (displayed_sequences (follow_log s w)) \<and>
    unat (lw_lastSequence (follow_log s w)) \<le> n"
  using follow_log_inv [OF assms] by (simp add: window_inv_def MaxDisplayedEntries_def)

theorem log_window_follows_witness:
  "let s = EmitRecord ''now'' LogInfo ''m'' (''f'', 1) initial_logger in
    length (lw_displayedEntries (follow_log s initial_window)) \<le> 10000 \<and>
    sorted_wrt (<) (displayed_sequences (follow_log s initial_window)) \<and>
    list_all (\<lambda>i. i \<le> unat (lw_lastSequence (follow_log s initial_window))) (displayed_sequences (follow_log s initial_window)) \<and>
    unat (lw_lastSequence (follow_log s initial_window)) \<le> 0 + 1"
  unfolding Let_def
  by (rule log_window_follows [OF log_inv_emit [OF log_inv_initial]])
    (simp_all add: window_inv_def initial_window_def displayed_sequences_def)

end
