(* ===== verification/Imgui.thy ===== *)
theory Imgui
  imports Prelude
begin

text \<open>
  The boundary to Dear ImGui, which is not part of the repository. A window function of
  \<^verbatim>\<open>src/src/Gui\<close> is a computation that makes calls of the library and works on the program's
  data. The calls are recorded with the truth value they return; what the library answers
  (is a window visible, was a button pressed, what does a text field hold now) is a parameter
  \<open>imgui\<close> that may depend on everything called before in the frame, so it stands for any user.
  The locale \<open>imgui_library\<close> states what the code relies on: a combo box yields one of its
  items or leaves its value, a character buffer keeps its size and its terminator, the list
  clipper yields rows of the list, and items between \<^verbatim>\<open>BeginDisabled(true)\<close> and
  \<^verbatim>\<open>EndDisabled\<close> do not react. The lemmas are a calculus for the obligation of immediate-mode code that every
  scope opened is closed again, together with an invariant of the data: \<open>scoped I m st P\<close>.
\<close>

named_theorems scoped_intros \<open>rules for the scopes that a computation opens and closes\<close>

section \<open>Calls\<close>

datatype (plugins only: code) ui_call =
    UBegin string | UEnd
  | UBeginChild string | UEndChild
  | UBeginTable string nat | UEndTable
  | UBeginPopupModal string | UEndPopup
  | UBeginDisabled bool | UEndDisabled
  | UPushID string | UPopID
  | UPushStyleColor string | UPopStyleColor
  | UPushStyleVar string | UPopStyleVar nat
  | UOpenPopup string | UCloseCurrentPopup
  | UText string | UTextDisabled string | UTextWrapped string
  | USameLine | USpacing | USeparator
  | UTableSetupColumn string | UTableHeadersRow | UTableNextRow | UTableNextColumn | UTableSetColumnIndex nat
  | UButton string | USmallButton string | USelectable string bool | UCheckbox string bool | UCollapsingHeader string
  | UInputText string string | UInputTextMultiline string string | UInputInt string int | UCombo string int nat
  | UInputTextWithHint string string string | USliderFloat string "32 word" | UIsKeyPressed string
  | USetNext string | USetCursorPosX | UTextColored string
  | UListClipper nat | UScrolledToBottom | USetScrollHereY
  | UDockBuilderGetNode | UDockBuilder string | UDockSpace

type_synonym ui_event = "ui_call \<times> bool"

text \<open>
  The scopes. A window and a child are closed whether or not they are visible; a table and a
  popup only when opening them returned true.
\<close>

datatype ui_scope = ScWindow | ScChild | ScTable | ScPopup | ScDisabled bool | ScID | ScColor | ScVar

definition opens :: "ui_call \<Rightarrow> bool \<Rightarrow> ui_scope option" where
  "opens c b =
     (case c of
        UBegin _ \<Rightarrow> Some ScWindow
      | UBeginChild _ \<Rightarrow> Some ScChild
      | UBeginTable _ _ \<Rightarrow> if b then Some ScTable else None
      | UBeginPopupModal _ \<Rightarrow> if b then Some ScPopup else None
      | UBeginDisabled d \<Rightarrow> Some (ScDisabled d)
      | UPushID _ \<Rightarrow> Some ScID
      | UPushStyleColor _ \<Rightarrow> Some ScColor
      | UPushStyleVar _ \<Rightarrow> Some ScVar
      | _ \<Rightarrow> None)"

definition pop_scopes :: "nat \<Rightarrow> (ui_scope \<Rightarrow> bool) \<Rightarrow> ui_scope list \<Rightarrow> ui_scope list option" where
  "pop_scopes n P st = (if n \<le> length st \<and> list_all P (take n st) then Some (drop n st) else None)"

text \<open>
  A style variable may be pushed before a window and popped inside it: the stack of style
  variables is the library's, not the window's.
\<close>

fun pop_vars :: "nat \<Rightarrow> ui_scope list \<Rightarrow> ui_scope list option" where
  "pop_vars 0 st = Some st"
| "pop_vars (Suc n) st = (if ScVar \<in> set st then pop_vars n (remove1 ScVar st) else None)"

definition closes :: "ui_call \<Rightarrow> ui_scope list \<Rightarrow> ui_scope list option" where
  "closes c =
     (case c of
        UEnd \<Rightarrow> pop_scopes 1 (\<lambda>sc. sc = ScWindow)
      | UEndChild \<Rightarrow> pop_scopes 1 (\<lambda>sc. sc = ScChild)
      | UEndTable \<Rightarrow> pop_scopes 1 (\<lambda>sc. sc = ScTable)
      | UEndPopup \<Rightarrow> pop_scopes 1 (\<lambda>sc. sc = ScPopup)
      | UEndDisabled \<Rightarrow> pop_scopes 1 (\<lambda>sc. sc = ScDisabled True \<or> sc = ScDisabled False)
      | UPopID \<Rightarrow> pop_scopes 1 (\<lambda>sc. sc = ScID)
      | UPopStyleColor \<Rightarrow> pop_scopes 1 (\<lambda>sc. sc = ScColor)
      | UPopStyleVar n \<Rightarrow> pop_vars n
      | _ \<Rightarrow> Some)"

definition scope_step :: "ui_event \<Rightarrow> ui_scope list \<Rightarrow> ui_scope list option" where
  "scope_step e st = (case opens (fst e) (snd e) of Some sc \<Rightarrow> Some (sc # st) | None \<Rightarrow> closes (fst e) st)"

fun scopes :: "ui_event list \<Rightarrow> ui_scope list \<Rightarrow> ui_scope list option" where
  "scopes [] st = Some st"
| "scopes (e # es) st = (case scope_step e st of None \<Rightarrow> None | Some st' \<Rightarrow> scopes es st')"

lemma scopes_append: "scopes (xs @ ys) st = (case scopes xs st of None \<Rightarrow> None | Some st' \<Rightarrow> scopes ys st')"
  by (induction xs arbitrary: st) (auto split: option.splits)

definition disabled :: "ui_event list \<Rightarrow> bool" where
  "disabled es \<longleftrightarrow> (case scopes es [] of None \<Rightarrow> False | Some st \<Rightarrow> ScDisabled True \<in> set st)"

section \<open>Computations\<close>

record imgui =
  im_bool :: "ui_event list \<Rightarrow> ui_call \<Rightarrow> bool"
  im_open :: "ui_event list \<Rightarrow> ui_call \<Rightarrow> bool"
  im_text :: "ui_event list \<Rightarrow> ui_call \<Rightarrow> string"
  im_int :: "ui_event list \<Rightarrow> ui_call \<Rightarrow> int"
  im_rows :: "ui_event list \<Rightarrow> nat \<Rightarrow> (nat \<times> nat) list"

record 's ui =
  ui_events :: "ui_event list"
  ui_data :: 's

type_synonym ('s, 'a) window = "('s ui, 'a) comp"

definition ui_note :: "ui_call \<Rightarrow> bool \<Rightarrow> 's ui \<Rightarrow> 's ui" where
  "ui_note c b s = s\<lparr>ui_events := ui_events s @ [(c, b)]\<rparr>"

definition ui_do :: "ui_call \<Rightarrow> ('s, unit) window" where
  "ui_do c s = (Inr (), ui_note c True s)"

definition ui_ask :: "imgui \<Rightarrow> ui_call \<Rightarrow> ('s, bool) window" where
  "ui_ask im c s = (let b = im_bool im (ui_events s) c in (Inr b, ui_note c b s))"

text \<open>A window with a close button: whether it is visible, and the value of \<^verbatim>\<open>*p_open\<close> afterwards.\<close>

definition ui_begin :: "imgui \<Rightarrow> string \<Rightarrow> bool \<Rightarrow> ('s, bool \<times> bool) window" where
  "ui_begin im name is_open s =
     (let b = im_bool im (ui_events s) (UBegin name) in
      (Inr (b, is_open \<and> im_open im (ui_events s) (UBegin name)), ui_note (UBegin name) b s))"

definition ui_edit :: "imgui \<Rightarrow> ui_call \<Rightarrow> ('s, string) window" where
  "ui_edit im c s = (Inr (im_text im (ui_events s) c), ui_note c True s)"

definition ui_number :: "imgui \<Rightarrow> ui_call \<Rightarrow> ('s, int) window" where
  "ui_number im c s = (Inr (im_int im (ui_events s) c), ui_note c True s)"

text \<open>A slider over a \<^verbatim>\<open>float\<close>, which the program does not compute with: its 32 bits.\<close>

definition ui_float :: "imgui \<Rightarrow> ui_call \<Rightarrow> ('s, 32 word) window" where
  "ui_float im c = cbind (ui_number im c) (\<lambda>v. cret (word_of_int v))"

text \<open>\<^verbatim>\<open>ImGuiListClipper\<close>: the ranges of rows that its steps yield.\<close>

definition ui_clipper :: "imgui \<Rightarrow> nat \<Rightarrow> ('s, (nat \<times> nat) list) window" where
  "ui_clipper im n s = (Inr (im_rows im (ui_events s) n), ui_note (UListClipper n) True s)"

text \<open>A check box flips its value when it is pressed, and says so.\<close>

definition ui_checkbox :: "imgui \<Rightarrow> string \<Rightarrow> bool \<Rightarrow> ('s, bool \<times> bool) window" where
  "ui_checkbox im label v = cbind (ui_ask im (UCheckbox label v)) (\<lambda>pressed. cret (pressed, v \<noteq> pressed))"

definition ui_get :: "('s \<Rightarrow> 'a) \<Rightarrow> ('s, 'a) window" where
  "ui_get f s = (Inr (f (ui_data s)), s)"

definition ui_update :: "('s \<Rightarrow> 's) \<Rightarrow> ('s, unit) window" where
  "ui_update f s = (Inr (), s\<lparr>ui_data := f (ui_data s)\<rparr>)"

definition ui_method :: "('s \<Rightarrow> 'a \<times> 's) \<Rightarrow> ('s, 'a) window" where
  "ui_method f s = (case f (ui_data s) of (x, d) \<Rightarrow> (Inr x, s\<lparr>ui_data := d\<rparr>))"

definition cwhen :: "bool \<Rightarrow> ('s, unit) comp \<Rightarrow> ('s, unit) comp" where
  "cwhen b m = (if b then m else cret ())"

text \<open>A block of statements.\<close>

fun block :: "('s, unit) comp list \<Rightarrow> ('s, unit) comp" where
  "block [] = cret ()"
| "block (m # ms) = cseq m (block ms)"

text \<open>What a C string shows of a byte string.\<close>

definition c_str :: "string \<Rightarrow> string" where
  "c_str s = takeWhile (\<lambda>c. c \<noteq> CHR 0x00) s"

section \<open>Scopes of a computation\<close>

text \<open>
  \<open>scoped I m st P\<close>: from a state whose open scopes are \<open>st\<close> and whose data satisfy \<open>I\<close>, the
  computation returns some \<open>x\<close>, never closes a scope out of turn, leaves the scopes \<open>P x\<close> open
  and keeps \<open>I\<close>.
\<close>

definition scoped :: "('s \<Rightarrow> bool) \<Rightarrow> ('s, 'a) window \<Rightarrow> ui_scope list \<Rightarrow> ('a \<Rightarrow> ui_scope list) \<Rightarrow> bool" where
  "scoped I m st P \<longleftrightarrow>
     (\<forall>s. scopes (ui_events s) [] = Some st \<and> I (ui_data s) \<longrightarrow>
        (\<exists>x s'. m s = (Inr x, s') \<and> scopes (ui_events s') [] = Some (P x) \<and> I (ui_data s')))"

lemma scopedI:
  "(\<And>s. scopes (ui_events s) [] = Some st \<Longrightarrow> I (ui_data s) \<Longrightarrow>
      \<exists>x s'. m s = (Inr x, s') \<and> scopes (ui_events s') [] = Some (P x) \<and> I (ui_data s')) \<Longrightarrow> scoped I m st P"
  by (simp add: scoped_def)

lemma scopedE:
  assumes "scoped I m st P" "scopes (ui_events s) [] = Some st" "I (ui_data s)"
  obtains x s' where "m s = (Inr x, s')" "scopes (ui_events s') [] = Some (P x)" "I (ui_data s')"
  using assms unfolding scoped_def by metis

lemma scoped_cret [scoped_intros]: "scoped I (cret x) st (\<lambda>_. st)"
  by (simp add: scoped_def cret_def)

lemma scoped_cbind:
  fixes m :: "('s, 'a) window"
  assumes "scoped I m st P" "\<And>x. scoped I (f x) (P x) Q"
  shows "scoped I (cbind m f) st Q"
proof (rule scopedI)
  fix s :: "'s ui" assume "scopes (ui_events s) [] = Some st" "I (ui_data s)"
  with assms(1) obtain x s1 where 1: "m s = (Inr x, s1)" "scopes (ui_events s1) [] = Some (P x)" "I (ui_data s1)"
    by (rule scopedE)
  from assms(2) 1(2,3) obtain y s2 where
    "f x s1 = (Inr y, s2)" "scopes (ui_events s2) [] = Some (Q y)" "I (ui_data s2)" by (rule scopedE)
  with 1(1) show "\<exists>y s'. cbind m f s = (Inr y, s') \<and> scopes (ui_events s') [] = Some (Q y) \<and> I (ui_data s')"
    by (simp add: cbind_def)
qed

lemma scoped_cseq [scoped_intros]: "scoped I m st P \<Longrightarrow> scoped I n (P ()) Q \<Longrightarrow> scoped I (cseq m n) st Q"
  by (simp add: cseq_def scoped_cbind)

lemma scoped_block [scoped_intros]:
  "scoped I (block []) st (\<lambda>_. st)"
  "scoped I m st P \<Longrightarrow> scoped I (block ms) (P ()) Q \<Longrightarrow> scoped I (block (m # ms)) st Q"
  by (simp_all add: scoped_cret scoped_cseq)

lemma scoped_if [scoped_intros]:
  "(b \<Longrightarrow> scoped I m st P) \<Longrightarrow> (\<not> b \<Longrightarrow> scoped I n st P) \<Longrightarrow> scoped I (if b then m else n) st P"
  by simp

lemma scoped_option [scoped_intros]:
  "scoped I m st P \<Longrightarrow> (\<And>x. scoped I (f x) st P) \<Longrightarrow> scoped I (case v of None \<Rightarrow> m | Some x \<Rightarrow> f x) st P"
  by (cases v) auto

lemma scoped_prod [scoped_intros]:
  "(\<And>x y. scoped I (f x y) st P) \<Longrightarrow> scoped I (case v of (x, y) \<Rightarrow> f x y) st P"
  by (cases v) auto

lemma scoped_Let [scoped_intros]: "(\<And>x. scoped I (f x) st P) \<Longrightarrow> scoped I (let x = v in f x) st P"
  by simp

lemma scoped_cwhen [scoped_intros]: "(b \<Longrightarrow> scoped I m st (\<lambda>_. st)) \<Longrightarrow> scoped I (cwhen b m) st (\<lambda>_. st)"
  by (simp add: cwhen_def scoped_cret)

lemma scoped_cfor [scoped_intros]: "(\<And>x. scoped I (f x) st (\<lambda>_. st)) \<Longrightarrow> scoped I (cfor xs f) st (\<lambda>_. st)"
  by (induction xs) (auto intro: scoped_cret scoped_cseq)

lemma scoped_get [scoped_intros]: "scoped I (ui_get f) st (\<lambda>_. st)"
  by (auto simp: scoped_def ui_get_def)

lemma scoped_update: "(\<And>d. I d \<Longrightarrow> I (f d)) \<Longrightarrow> scoped I (ui_update f) st (\<lambda>_. st)"
  by (auto simp: scoped_def ui_update_def)

lemma scoped_method: "(\<And>d. I d \<Longrightarrow> I (snd (f d))) \<Longrightarrow> scoped I (ui_method f) st (\<lambda>_. st)"
  by (auto simp: scoped_def ui_method_def split: prod.splits) (metis snd_conv)

text \<open>A part may rely on, and keep, more than the whole: what it reads at its start.\<close>

lemma scoped_get_strengthen:
  fixes f :: "'s \<Rightarrow> 'a"
  assumes "\<And>x. scoped (K x) (g x) st P" "\<And>d. I d \<Longrightarrow> K (f d) d" "\<And>x d. K x d \<Longrightarrow> I d"
  shows "scoped I (cbind (ui_get f) g) st P"
proof (rule scopedI)
  fix s :: "'s ui" assume s: "scopes (ui_events s) [] = Some st" "I (ui_data s)"
  from assms(1) [of "f (ui_data s)"] s(1) assms(2) [OF s(2)] obtain y s' where
    "g (f (ui_data s)) s = (Inr y, s')" "scopes (ui_events s') [] = Some (P y)" "K (f (ui_data s)) (ui_data s')"
    by (rule scopedE)
  then show "\<exists>y s'. cbind (ui_get f) g s = (Inr y, s') \<and> scopes (ui_events s') [] = Some (P y) \<and> I (ui_data s')"
    using assms(3) by (simp add: cbind_def ui_get_def)
qed

lemmas scope_eval = scope_step_def opens_def closes_def pop_scopes_def

text \<open>Calls that open, close or leave the scopes; a call that is asked may answer either way.\<close>

lemma scoped_do: "scope_step (c, True) st = Some st' \<Longrightarrow> scoped I (ui_do c) st (\<lambda>_. st')"
  by (auto simp: scoped_def ui_do_def ui_note_def scopes_append)

lemma scoped_ask:
  "scope_step (c, True) st = Some st1 \<Longrightarrow> scope_step (c, False) st = Some st2 \<Longrightarrow>
     scoped I (ui_ask im c) st (\<lambda>b. if b then st1 else st2)"
  by (auto simp: scoped_def ui_ask_def ui_note_def Let_def scopes_append)

lemma scoped_opening [scoped_intros]:
  "scoped I (ui_do (UBegin n)) st (\<lambda>_. ScWindow # st)"
  "scoped I (ui_do (UBeginChild n)) st (\<lambda>_. ScChild # st)"
  "scoped I (ui_do (UBeginDisabled d)) st (\<lambda>_. ScDisabled d # st)"
  "scoped I (ui_do (UPushID n)) st (\<lambda>_. ScID # st)"
  "scoped I (ui_do (UPushStyleColor n)) st (\<lambda>_. ScColor # st)"
  "scoped I (ui_do (UPushStyleVar n)) st (\<lambda>_. ScVar # st)"
  by (rule scoped_do, simp add: scope_eval)+

lemma scoped_closing [scoped_intros]:
  "scoped I (ui_do UEnd) (ScWindow # st) (\<lambda>_. st)"
  "scoped I (ui_do UEndChild) (ScChild # st) (\<lambda>_. st)"
  "scoped I (ui_do UEndTable) (ScTable # st) (\<lambda>_. st)"
  "scoped I (ui_do UEndPopup) (ScPopup # st) (\<lambda>_. st)"
  "scoped I (ui_do UEndDisabled) (ScDisabled d # st) (\<lambda>_. st)"
  "scoped I (ui_do UPopID) (ScID # st) (\<lambda>_. st)"
  "scoped I (ui_do UPopStyleColor) (ScColor # st) (\<lambda>_. st)"
  "scoped I (ui_do (UPopStyleVar 3)) (ScWindow # ScVar # ScVar # ScVar # st) (\<lambda>_. ScWindow # st)"
  by (rule scoped_do, cases d, simp_all add: scope_eval numeral_3_eq_3)+

definition neutral :: "ui_call \<Rightarrow> bool" where
  "neutral c \<longleftrightarrow> opens c True = None \<and> opens c False = None \<and> closes c = Some"

lemma neutral_scope: "neutral c \<Longrightarrow> scope_step (c, b) st = Some st"
  by (cases b) (simp_all add: neutral_def scope_step_def)

lemma scoped_neutral:
  assumes "neutral c"
  shows "scoped I (ui_do c) st (\<lambda>_. st)" "scoped I (ui_ask im c) st (\<lambda>_. st)"
    "scoped I (ui_edit im c) st (\<lambda>_. st)" "scoped I (ui_number im c) st (\<lambda>_. st)"
  using neutral_scope [OF assms]
  by (auto simp: scoped_def ui_do_def ui_ask_def ui_edit_def ui_number_def ui_note_def Let_def scopes_append)

lemma neutral_calls [simp]:
  "neutral (UOpenPopup n)" "neutral UCloseCurrentPopup" "neutral (UText t)" "neutral (UTextDisabled t)"
  "neutral (UTextWrapped t)" "neutral USameLine" "neutral USpacing" "neutral USeparator"
  "neutral (UTableSetupColumn n)" "neutral UTableHeadersRow" "neutral UTableNextRow" "neutral UTableNextColumn"
  "neutral (UTableSetColumnIndex i)" "neutral (UButton n)" "neutral (USmallButton n)" "neutral (USelectable n b)"
  "neutral (UCheckbox n b)" "neutral (UCollapsingHeader n)" "neutral (UInputText n t)"
  "neutral (UInputTextMultiline n t)" "neutral (UInputInt n j)" "neutral (UCombo n j k)" "neutral (USliderFloat n f)"
  "neutral (UIsKeyPressed n)" "neutral (USetNext n)" "neutral UScrolledToBottom" "neutral USetScrollHereY"
  "neutral (UInputTextWithHint n h t)" "neutral USetCursorPosX" "neutral (UTextColored t)" "neutral (UListClipper k)"
  "neutral UDockBuilderGetNode" "neutral (UDockBuilder n)" "neutral UDockSpace"
  by (simp_all add: neutral_def opens_def closes_def)

lemma scoped_window [scoped_intros]:
  "scoped I (ui_ask im (UBegin n)) st (\<lambda>_. ScWindow # st)"
  "scoped I (ui_ask im (UBeginChild n)) st (\<lambda>_. ScChild # st)"
  "scoped I (ui_begin im n p) st (\<lambda>_. ScWindow # st)"
  by (auto simp: scoped_def ui_ask_def ui_begin_def ui_note_def scope_eval Let_def scopes_append)

lemma scoped_checkbox [scoped_intros]: "scoped I (ui_checkbox im label v) st (\<lambda>_. st)"
  unfolding ui_checkbox_def by (rule scoped_cbind scoped_intros scoped_neutral | simp)+

lemma scoped_float [scoped_intros]: "neutral c \<Longrightarrow> scoped I (ui_float im c) st (\<lambda>_. st)"
  unfolding ui_float_def by (rule scoped_cbind scoped_intros scoped_neutral | simp)+

lemma scoped_clipper [scoped_intros]: "scoped I (ui_clipper im n) st (\<lambda>_. st)"
  using neutral_scope [of "UListClipper n" True]
  by (auto simp: scoped_def ui_clipper_def ui_note_def scopes_append)

text \<open>A table and a popup are entered only when they were opened.\<close>

lemma scoped_entered [scoped_intros]:
  assumes "\<And>b. b \<Longrightarrow> scoped I (f b) (ScTable # st) Q" "\<And>b. \<not> b \<Longrightarrow> scoped I (f b) st Q"
  shows "scoped I (cbind (ui_ask im (UBeginTable n k)) f) st Q"
  by (rule scoped_cbind [OF scoped_ask [of _ _ "ScTable # st" st]]) (use assms in \<open>auto simp: scope_eval\<close>)

lemma scoped_entered_popup [scoped_intros]:
  assumes "\<And>b. b \<Longrightarrow> scoped I (f b) (ScPopup # st) Q" "\<And>b. \<not> b \<Longrightarrow> scoped I (f b) st Q"
  shows "scoped I (cbind (ui_ask im (UBeginPopupModal n)) f) st Q"
  by (rule scoped_cbind [OF scoped_ask [of _ _ "ScPopup # st" st]]) (use assms in \<open>auto simp: scope_eval\<close>)

lemmas scoped_rules = scoped_intros scoped_cbind scoped_neutral

section \<open>Computations that change what holds of the data\<close>

text \<open>\<open>runs I m st P J\<close>: as \<open>scoped\<close>, but the data satisfy \<open>J x\<close> afterwards.\<close>

definition runs :: "('s \<Rightarrow> bool) \<Rightarrow> ('s, 'a) window \<Rightarrow> ui_scope list \<Rightarrow> ('a \<Rightarrow> ui_scope list) \<Rightarrow> ('a \<Rightarrow> 's \<Rightarrow> bool) \<Rightarrow> bool" where
  "runs I m st P J \<longleftrightarrow>
     (\<forall>s. scopes (ui_events s) [] = Some st \<and> I (ui_data s) \<longrightarrow>
        (\<exists>x s'. m s = (Inr x, s') \<and> scopes (ui_events s') [] = Some (P x) \<and> J x (ui_data s')))"

lemma runs_scoped: "scoped I m st P \<Longrightarrow> (\<And>x d. I d \<Longrightarrow> J x d) \<Longrightarrow> runs I m st P J"
  unfolding runs_def scoped_def by blast

lemma scoped_runs: "runs I m st P (\<lambda>_. I) \<Longrightarrow> scoped I m st P"
  unfolding runs_def scoped_def by blast

lemma runs_pre: "runs I m st P J \<Longrightarrow> (\<And>d. I' d \<Longrightarrow> I d) \<Longrightarrow> runs I' m st P J"
  unfolding runs_def by blast

lemma runs_cret: "(\<And>d. I d \<Longrightarrow> J x d) \<Longrightarrow> runs I (cret x) st (\<lambda>_. st) J"
  by (simp add: runs_def cret_def)

lemma runs_get: "(\<And>d. I d \<Longrightarrow> J (f d) d) \<Longrightarrow> runs I (ui_get f) st (\<lambda>_. st) J"
  by (simp add: runs_def ui_get_def)

lemma runs_update: "(\<And>d. I d \<Longrightarrow> J () (f d)) \<Longrightarrow> runs I (ui_update f) st (\<lambda>_. st) J"
  by (simp add: runs_def ui_update_def)

lemma runs_cbind:
  fixes m :: "('s, 'a) window"
  assumes "runs I m st P J" "\<And>x. runs (J x) (f x) (P x) Q K"
  shows "runs I (cbind m f) st Q K"
  unfolding runs_def
proof (intro allI impI)
  fix s :: "'s ui" assume s: "scopes (ui_events s) [] = Some st \<and> I (ui_data s)"
  with assms(1) obtain x s1 where 1: "m s = (Inr x, s1)" "scopes (ui_events s1) [] = Some (P x)" "J x (ui_data s1)"
    unfolding runs_def by blast
  with assms(2) [of x] obtain y s2 where
    "f x s1 = (Inr y, s2)" "scopes (ui_events s2) [] = Some (Q y)" "K y (ui_data s2)"
    unfolding runs_def by blast
  with 1(1) show "\<exists>y s'. cbind m f s = (Inr y, s') \<and> scopes (ui_events s') [] = Some (Q y) \<and> K y (ui_data s')"
    by (simp add: cbind_def)
qed

lemma runs_cseq: "runs I m st P J \<Longrightarrow> runs (J ()) n (P ()) Q K \<Longrightarrow> runs I (cseq m n) st Q K"
  by (simp add: cseq_def runs_cbind)

lemma runs_cwhen:
  "(b \<Longrightarrow> runs I m st (\<lambda>_. st) J) \<Longrightarrow> (\<And>d. \<not> b \<Longrightarrow> I d \<Longrightarrow> J () d) \<Longrightarrow> runs I (cwhen b m) st (\<lambda>_. st) J"
  by (simp add: cwhen_def runs_cret)

text \<open>A loop over an index range, with an invariant that follows the index.\<close>

lemma runs_cfor_upt:
  assumes "\<And>i. i < n \<Longrightarrow> runs (J i) (f i) st (\<lambda>_. st) (\<lambda>_. J (Suc i))"
  shows "runs (J 0) (cfor [0..<n] f) st (\<lambda>_. st) (\<lambda>_. J n)"
proof -
  have "runs (J a) (cfor [a..<n] f) st (\<lambda>_. st) (\<lambda>_. J n)" if "a \<le> n" for a
    using that
  proof (induction "n - a" arbitrary: a)
    case 0
    then show ?case by (simp add: runs_cret)
  next
    case (Suc k)
    then have a: "a < n" "[a..<n] = a # [Suc a..<n]" by (simp_all add: upt_conv_Cons)
    from Suc(2) a(1) have "runs (J (Suc a)) (cfor [Suc a..<n] f) st (\<lambda>_. st) (\<lambda>_. J n)" by (intro Suc(1)) auto
    with assms [OF a(1)] have "runs (J a) (cseq (f a) (cfor [Suc a..<n] f)) st (\<lambda>_. st) (\<lambda>_. J n)"
      by (rule runs_cseq)
    with a(2) show ?case by simp
  qed
  then show ?thesis by simp
qed

section \<open>What the code relies on\<close>

locale imgui_library =
  fixes im :: imgui
  assumes combo_item: "im_int im es (UCombo label v n) = v \<or>
      0 \<le> im_int im es (UCombo label v n) \<and> im_int im es (UCombo label v n) < int n"
    and disabled_text: "disabled es \<Longrightarrow> im_text im es (UInputText label t) = t"
    and buffer_text: "CHR 0x00 \<in> set buffer \<Longrightarrow>
      length (im_text im es (UInputTextWithHint label hint buffer)) = length buffer \<and>
      CHR 0x00 \<in> set (im_text im es (UInputTextWithHint label hint buffer))"
    and rows_within: "(a, b) \<in> set (im_rows im es n) \<Longrightarrow> b \<le> n"
    and disabled_button: "disabled es \<Longrightarrow> \<not> im_bool im es (UButton label)"

text \<open>A user who presses the buttons with one label and leaves everything else alone.\<close>

definition pressing :: "string \<Rightarrow> imgui" where
  "pressing label =
     \<lparr>im_bool = (\<lambda>es c. case c of
          UButton l \<Rightarrow> l = label \<and> \<not> disabled es
        | USmallButton l \<Rightarrow> l = label \<and> \<not> disabled es
        | USelectable l _ \<Rightarrow> l = label
        | UCheckbox l _ \<Rightarrow> l = label
        | UIsKeyPressed l \<Rightarrow> l = label
        | _ \<Rightarrow> True),
      im_open = (\<lambda>es c. True),
      im_text = (\<lambda>es c. case c of UInputText l v \<Rightarrow> v | UInputTextMultiline l v \<Rightarrow> v |
        UInputTextWithHint l h v \<Rightarrow> v | _ \<Rightarrow> []),
      im_int = (\<lambda>es c. case c of UInputInt l v \<Rightarrow> v | UCombo l v n \<Rightarrow> v | USliderFloat l v \<Rightarrow> uint v | _ \<Rightarrow> 0),
      im_rows = (\<lambda>es n. [(0, n)])\<rparr>"

interpretation pressing: imgui_library "pressing label" for label
  by unfold_locales (simp_all add: pressing_def)

end
