(* ===== verification/Device_Monitor.thy ===== *)
theory Device_Monitor
  imports Prelude
begin

text \<open>
  \<^verbatim>\<open>src/src/Gui/DeviceMonitorState.hpp\<close> and \<^verbatim>\<open>.cpp\<close>: the device table of the GUI, its
  editor and delete sessions and the queue of storage commands. The state is the class's six
  members; a method that returns a value gives it together with the new state. The lemmas show
  that device ids stay unique, that every queued command carries what the storage worker needs,
  and that the visible devices are the replay of the queued commands.
\<close>

record DeviceViewModel =
  dv_id :: string
  dv_name :: string
  dv_address :: string
  dv_port :: "16 word"
  dv_alive :: bool

record DeviceDraft =
  draft_id :: string
  draft_name :: string
  draft_address :: string
  draft_port :: int
  draft_alive :: bool

datatype DeviceCommandKind = CommandRefresh | CommandAdd | CommandEdit | CommandDelete | CommandSetAlive

record DeviceCommand =
  cmd_kind :: DeviceCommandKind
  cmd_targetId :: string
  cmd_device :: "DeviceViewModel option"

datatype DeviceEditorMode = EditorAdd | EditorEdit

record DeviceEditorState =
  editor_mode :: DeviceEditorMode
  editor_originalId :: string
  editor_draft :: DeviceDraft

record DeviceMonitorState =
  mon_devices :: "DeviceViewModel list"
  mon_editor :: "DeviceEditorState option"
  mon_pendingDeleteId :: "string option"
  mon_error :: "string option"
  mon_commands :: "DeviceCommand list"
  mon_exitRequested :: bool

definition initial_monitor :: DeviceMonitorState where
  "initial_monitor = \<lparr>mon_devices = [], mon_editor = None, mon_pendingDeleteId = None, mon_error = None,
     mon_commands = [], mon_exitRequested = False\<rparr>"

section \<open>The methods\<close>

definition SetError :: "string \<Rightarrow> DeviceMonitorState \<Rightarrow> DeviceMonitorState" where
  "SetError e s = s\<lparr>mon_error := Some e\<rparr>"

definition ClearError :: "DeviceMonitorState \<Rightarrow> DeviceMonitorState" where
  "ClearError s = s\<lparr>mon_error := None\<rparr>"

definition push_command :: "DeviceCommand \<Rightarrow> DeviceMonitorState \<Rightarrow> DeviceMonitorState" where
  "push_command c s = s\<lparr>mon_commands := mon_commands s @ [c]\<rparr>"

definition FindDevice :: "string \<Rightarrow> DeviceMonitorState \<Rightarrow> DeviceViewModel option" where
  "FindDevice i s = List.find (\<lambda>device. dv_id device = i) (mon_devices s)"

text \<open>Writing through, and erasing, the iterator that \<^verbatim>\<open>FindDevice\<close> returns.\<close>

fun update_device :: "string \<Rightarrow> (DeviceViewModel \<Rightarrow> DeviceViewModel) \<Rightarrow> DeviceViewModel list \<Rightarrow> DeviceViewModel list" where
  "update_device i f [] = []"
| "update_device i f (d # ds) = (if dv_id d = i then f d # ds else d # update_device i f ds)"

fun erase_device :: "string \<Rightarrow> DeviceViewModel list \<Rightarrow> DeviceViewModel list" where
  "erase_device i [] = []"
| "erase_device i (d # ds) = (if dv_id d = i then ds else d # erase_device i ds)"

definition ReplaceDevices :: "DeviceViewModel list \<Rightarrow> DeviceMonitorState \<Rightarrow> DeviceMonitorState" where
  "ReplaceDevices devices s = s\<lparr>mon_devices := devices, mon_error := None\<rparr>"

definition RequestRefresh :: "DeviceMonitorState \<Rightarrow> DeviceMonitorState" where
  "RequestRefresh s = push_command \<lparr>cmd_kind = CommandRefresh, cmd_targetId = [], cmd_device = None\<rparr> s"

definition empty_draft :: DeviceDraft where
  "empty_draft = \<lparr>draft_id = [], draft_name = [], draft_address = [], draft_port = 0, draft_alive = False\<rparr>"

definition BeginAdd :: "DeviceMonitorState \<Rightarrow> DeviceMonitorState" where
  "BeginAdd s = s\<lparr>mon_error := None,
     mon_editor := Some \<lparr>editor_mode = EditorAdd, editor_originalId = [], editor_draft = empty_draft\<rparr>\<rparr>"

definition draft_of :: "DeviceViewModel \<Rightarrow> DeviceDraft" where
  "draft_of d = \<lparr>draft_id = dv_id d, draft_name = dv_name d, draft_address = dv_address d,
     draft_port = uint (dv_port d), draft_alive = dv_alive d\<rparr>"

definition BeginEdit :: "string \<Rightarrow> DeviceMonitorState \<Rightarrow> bool \<times> DeviceMonitorState" where
  "BeginEdit i s =
     (case FindDevice i s of
        None \<Rightarrow> (False, SetError ''The selected device no longer exists.'' s)
      | Some found \<Rightarrow>
          (True, s\<lparr>mon_error := None,
             mon_editor := Some \<lparr>editor_mode = EditorEdit, editor_originalId = dv_id found, editor_draft = draft_of found\<rparr>\<rparr>))"

text \<open>The editor window writes the draft through the pointer \<^verbatim>\<open>EditSession\<close> returns.\<close>

definition EditSession :: "DeviceDraft \<Rightarrow> DeviceMonitorState \<Rightarrow> DeviceMonitorState" where
  "EditSession draft s =
     (case mon_editor s of None \<Rightarrow> s | Some e \<Rightarrow> s\<lparr>mon_editor := Some (e\<lparr>editor_draft := draft\<rparr>)\<rparr>)"

definition CancelEditor :: "DeviceMonitorState \<Rightarrow> DeviceMonitorState" where
  "CancelEditor s = s\<lparr>mon_editor := None\<rparr>"

definition ValidateDraft :: "DeviceEditorState \<Rightarrow> DeviceMonitorState \<Rightarrow> bool \<times> DeviceMonitorState" where
  "ValidateDraft editor s =
     (let draft = editor_draft editor in
      if draft_id draft = [] \<or> draft_name draft = [] \<or> draft_address draft = []
      then (False, SetError ''ID, name, and address are required.'' s)
      else if draft_port draft < 0 \<or> 65535 < draft_port draft
      then (False, SetError ''Port must be between 0 and 65535.'' s)
      else (True, s))"

definition draft_device :: "DeviceDraft \<Rightarrow> DeviceViewModel" where
  "draft_device draft = \<lparr>dv_id = draft_id draft, dv_name = draft_name draft, dv_address = draft_address draft,
     dv_port = word_of_int (draft_port draft), dv_alive = draft_alive draft\<rparr>"

definition finish_editor :: "DeviceMonitorState \<Rightarrow> bool \<times> DeviceMonitorState" where
  "finish_editor s = (True, s\<lparr>mon_editor := None, mon_error := None\<rparr>)"

definition SubmitEditor :: "DeviceMonitorState \<Rightarrow> bool \<times> DeviceMonitorState" where
  "SubmitEditor s =
     (case mon_editor s of
        None \<Rightarrow> (False, s)
      | Some editor \<Rightarrow>
          (case ValidateDraft editor s of
             (False, s') \<Rightarrow> (False, s')
           | (True, s) \<Rightarrow>
               (let device = draft_device (editor_draft editor) in
                if editor_mode editor = EditorAdd then
                  (if FindDevice (dv_id device) s \<noteq> None
                   then (False, SetError ''A device with this ID already exists.'' s)
                   else finish_editor (push_command
                     \<lparr>cmd_kind = CommandAdd, cmd_targetId = dv_id device, cmd_device = Some device\<rparr>
                     (s\<lparr>mon_devices := mon_devices s @ [device]\<rparr>)))
                else if dv_id device \<noteq> editor_originalId editor
                then (False, SetError ''A device ID cannot be changed after creation.'' s)
                else if FindDevice (editor_originalId editor) s = None
                then (False, SetError ''The device being edited no longer exists.'' s)
                else finish_editor (push_command
                  \<lparr>cmd_kind = CommandEdit, cmd_targetId = dv_id device, cmd_device = Some device\<rparr>
                  (s\<lparr>mon_devices := update_device (editor_originalId editor) (\<lambda>_. device) (mon_devices s)\<rparr>)))))"

definition RequestDelete :: "string \<Rightarrow> DeviceMonitorState \<Rightarrow> bool \<times> DeviceMonitorState" where
  "RequestDelete i s =
     (if FindDevice i s = None then (False, SetError ''The selected device no longer exists.'' s)
      else (True, s\<lparr>mon_pendingDeleteId := Some i\<rparr>))"

definition CancelDelete :: "DeviceMonitorState \<Rightarrow> DeviceMonitorState" where
  "CancelDelete s = s\<lparr>mon_pendingDeleteId := None\<rparr>"

definition ConfirmDelete :: "DeviceMonitorState \<Rightarrow> bool \<times> DeviceMonitorState" where
  "ConfirmDelete s =
     (case mon_pendingDeleteId s of
        None \<Rightarrow> (False, s)
      | Some i \<Rightarrow>
          (if FindDevice i s = None
           then (False, SetError ''The device selected for deletion no longer exists.'' (s\<lparr>mon_pendingDeleteId := None\<rparr>))
           else (True, (push_command \<lparr>cmd_kind = CommandDelete, cmd_targetId = i, cmd_device = None\<rparr>
                   (s\<lparr>mon_devices := erase_device i (mon_devices s)\<rparr>))
                     \<lparr>mon_pendingDeleteId := None, mon_error := None\<rparr>)))"

definition SetAlive :: "string \<Rightarrow> bool \<Rightarrow> DeviceMonitorState \<Rightarrow> bool \<times> DeviceMonitorState" where
  "SetAlive i alive s =
     (case FindDevice i s of
        None \<Rightarrow> (False, SetError ''The selected device no longer exists.'' s)
      | Some found \<Rightarrow>
          (True, (push_command \<lparr>cmd_kind = CommandSetAlive, cmd_targetId = i, cmd_device = Some (found\<lparr>dv_alive := alive\<rparr>)\<rparr>
             (s\<lparr>mon_devices := update_device i (\<lambda>d. d\<lparr>dv_alive := alive\<rparr>) (mon_devices s)\<rparr>))\<lparr>mon_error := None\<rparr>))"

definition RequestExit :: "DeviceMonitorState \<Rightarrow> DeviceMonitorState" where
  "RequestExit s = s\<lparr>mon_exitRequested := True\<rparr>"

definition ConsumeCommands :: "DeviceMonitorState \<Rightarrow> DeviceCommand list \<times> DeviceMonitorState" where
  "ConsumeCommands s = (mon_commands s, s\<lparr>mon_commands := []\<rparr>)"

section \<open>User actions\<close>

text \<open>The calls the windows make on the state, between two runs of the storage pump.\<close>

datatype monitor_action =
    ActRefresh | ActBeginAdd | ActBeginEdit string | ActDraft DeviceDraft | ActCancelEditor | ActSubmit
  | ActRequestDelete string | ActCancelDelete | ActConfirmDelete | ActSetAlive string bool
  | ActExit | ActSetError string | ActClearError

fun monitor_act :: "monitor_action \<Rightarrow> DeviceMonitorState \<Rightarrow> DeviceMonitorState" where
  "monitor_act ActRefresh s = RequestRefresh s"
| "monitor_act ActBeginAdd s = BeginAdd s"
| "monitor_act (ActBeginEdit i) s = snd (BeginEdit i s)"
| "monitor_act (ActDraft d) s = EditSession d s"
| "monitor_act ActCancelEditor s = CancelEditor s"
| "monitor_act ActSubmit s = snd (SubmitEditor s)"
| "monitor_act (ActRequestDelete i) s = snd (RequestDelete i s)"
| "monitor_act ActCancelDelete s = CancelDelete s"
| "monitor_act ActConfirmDelete s = snd (ConfirmDelete s)"
| "monitor_act (ActSetAlive i b) s = snd (SetAlive i b s)"
| "monitor_act ActExit s = RequestExit s"
| "monitor_act (ActSetError e) s = SetError e s"
| "monitor_act ActClearError s = ClearError s"

section \<open>Commands and their effect on a list of devices\<close>

definition command_ok :: "DeviceCommand \<Rightarrow> bool" where
  "command_ok c \<longleftrightarrow>
     (case cmd_kind c of
        CommandRefresh \<Rightarrow> True
      | CommandDelete \<Rightarrow> True
      | _ \<Rightarrow> (case cmd_device c of None \<Rightarrow> False | Some d \<Rightarrow> dv_id d = cmd_targetId c))"

definition upsert_device :: "DeviceViewModel \<Rightarrow> DeviceViewModel list \<Rightarrow> DeviceViewModel list" where
  "upsert_device d ds =
     (if dv_id d \<in> dv_id ` set ds then map (\<lambda>x. if dv_id x = dv_id d then d else x) ds else ds @ [d])"

definition apply_command :: "DeviceCommand \<Rightarrow> DeviceViewModel list \<Rightarrow> DeviceViewModel list" where
  "apply_command c ds =
     (case (cmd_kind c, cmd_device c) of
        (CommandAdd, Some d) \<Rightarrow> ds @ [d]
      | (CommandEdit, Some d) \<Rightarrow> upsert_device d ds
      | (CommandSetAlive, Some d) \<Rightarrow> upsert_device d ds
      | (CommandDelete, _) \<Rightarrow> filter (\<lambda>d. dv_id d \<noteq> cmd_targetId c) ds
      | _ \<Rightarrow> ds)"

lemma FindDevice_None: "FindDevice i s = None \<longleftrightarrow> i \<notin> dv_id ` set (mon_devices s)"
  by (auto simp: FindDevice_def find_eq_None_iff)

lemma FindDevice_Some: "FindDevice i s = Some d \<Longrightarrow> d \<in> set (mon_devices s) \<and> dv_id d = i"
  by (auto simp: FindDevice_def dest: find_Some_member)

lemma map_id_update [simp]: "(\<And>d. dv_id d = i \<Longrightarrow> dv_id (f d) = i) \<Longrightarrow> map dv_id (update_device i f ds) = map dv_id ds"
  by (induction ds) auto

lemma update_device_eq_map:
  "distinct (map dv_id ds) \<Longrightarrow> update_device i f ds = map (\<lambda>d. if dv_id d = i then f d else d) ds"
proof (induction ds)
  case (Cons d ds)
  then have "dv_id d = i \<Longrightarrow> map (\<lambda>d. if dv_id d = i then f d else d) ds = ds"
    by (intro map_idI) (auto simp: image_iff)
  with Cons show ?case by simp
qed simp

lemma erase_device_eq_filter: "distinct (map dv_id ds) \<Longrightarrow> erase_device i ds = filter (\<lambda>d. dv_id d \<noteq> i) ds"
proof (induction ds)
  case (Cons d ds)
  then have "dv_id d = i \<Longrightarrow> filter (\<lambda>d. dv_id d \<noteq> i) ds = ds"
    by (intro filter_True) (auto simp: image_iff)
  with Cons show ?case by simp
qed simp

lemmas monitor_defs = SetError_def ClearError_def push_command_def RequestRefresh_def BeginAdd_def
  EditSession_def CancelEditor_def RequestDelete_def CancelDelete_def RequestExit_def finish_editor_def

text \<open>
  Every action appends commands to the queue and changes the devices exactly as those commands
  say (\<open>action_commands\<close> is the suffix it appends).
\<close>

definition replays :: "DeviceMonitorState \<Rightarrow> DeviceMonitorState \<Rightarrow> bool" where
  "replays s s' \<longleftrightarrow> (\<exists>cs. mon_commands s' = mon_commands s @ cs \<and> list_all command_ok cs \<and>
     mon_devices s' = fold apply_command cs (mon_devices s) \<and> distinct (map dv_id (mon_devices s')))"

lemma replays_none:
  "mon_commands s' = mon_commands s \<Longrightarrow> mon_devices s' = mon_devices s \<Longrightarrow> distinct (map dv_id (mon_devices s)) \<Longrightarrow>
   replays s s'"
  by (auto simp: replays_def intro: exI [where x = "[]"])

lemma replays_one:
  "mon_commands s' = mon_commands s @ [c] \<Longrightarrow> command_ok c \<Longrightarrow> mon_devices s' = apply_command c (mon_devices s) \<Longrightarrow>
   distinct (map dv_id (mon_devices s')) \<Longrightarrow> replays s s'"
  by (auto simp: replays_def intro: exI [where x = "[c]"])

lemma distinct_upsert_device [simp]: "distinct (map dv_id ds) \<Longrightarrow> distinct (map dv_id (upsert_device d ds))"
proof -
  have "map dv_id (map (\<lambda>x. if dv_id x = dv_id d then d else x) ds) = map dv_id ds" by simp
  then show "distinct (map dv_id ds) \<Longrightarrow> distinct (map dv_id (upsert_device d ds))"
    by (simp only: upsert_device_def split: if_splits) auto
qed

lemma update_device_upsert:
  assumes "distinct (map dv_id ds)" "i \<in> dv_id ` set ds" "dv_id d = i"
  shows "update_device i (\<lambda>_. d) ds = upsert_device d ds"
  using assms by (simp add: update_device_eq_map upsert_device_def)

lemma update_found_upsert:
  assumes "distinct (map dv_id ds)" "d \<in> set ds" "dv_id (f d) = dv_id d"
  shows "update_device (dv_id d) f ds = upsert_device (f d) ds"
proof -
  have "x = d" if "x \<in> set ds" "dv_id x = dv_id d" for x
    using assms(1,2) that by (auto simp: distinct_map inj_on_def)
  with assms show ?thesis by (auto simp: update_device_eq_map upsert_device_def)
qed

lemma SubmitEditor_replays:
  assumes d: "distinct (map dv_id (mon_devices s))"
  shows "replays s (snd (SubmitEditor s))"
proof (cases "mon_editor s")
  case None
  with d show ?thesis by (simp add: SubmitEditor_def replays_none)
next
  case (Some editor)
  let ?dev = "draft_device (editor_draft editor)"
  show ?thesis
  proof (cases "ValidateDraft editor s = (True, s)")
    case False
    then have "\<exists>e. ValidateDraft editor s = (False, SetError e s)"
      by (auto simp: ValidateDraft_def Let_def split: if_splits)
    with Some d show ?thesis by (auto simp: SubmitEditor_def monitor_defs intro!: replays_none)
  next
    case True
    show ?thesis
    proof (cases "editor_mode editor")
      case EditorAdd
      with True Some d show ?thesis
        by (cases "FindDevice (dv_id ?dev) s")
          (auto simp: SubmitEditor_def Let_def monitor_defs FindDevice_None command_ok_def apply_command_def
            intro: replays_none replays_one)
    next
      case EditorEdit
      show ?thesis
      proof (cases "dv_id ?dev = editor_originalId editor \<and> FindDevice (editor_originalId editor) s \<noteq> None")
        case True
        then have "update_device (editor_originalId editor) (\<lambda>_. ?dev) (mon_devices s) = upsert_device ?dev (mon_devices s)"
          using d by (intro update_device_upsert) (auto simp: FindDevice_None)
        with True EditorEdit Some d \<open>ValidateDraft editor s = (True, s)\<close> show ?thesis
          by (intro replays_one [where c = "\<lparr>cmd_kind = CommandEdit, cmd_targetId = dv_id ?dev, cmd_device = Some ?dev\<rparr>"])
            (auto simp: SubmitEditor_def Let_def monitor_defs command_ok_def apply_command_def)
      next
        case False
        with EditorEdit Some d \<open>ValidateDraft editor s = (True, s)\<close> show ?thesis
          by (auto simp: SubmitEditor_def Let_def monitor_defs intro!: replays_none)
      qed
    qed
  qed
qed

lemma ConfirmDelete_replays:
  assumes d: "distinct (map dv_id (mon_devices s))"
  shows "replays s (snd (ConfirmDelete s))"
proof (cases "\<exists>i. mon_pendingDeleteId s = Some i \<and> FindDevice i s \<noteq> None")
  case True
  then obtain i where "mon_pendingDeleteId s = Some i" "FindDevice i s \<noteq> None" by auto
  with d show ?thesis
    by (intro replays_one [where c = "\<lparr>cmd_kind = CommandDelete, cmd_targetId = i, cmd_device = None\<rparr>"])
      (auto simp: ConfirmDelete_def monitor_defs command_ok_def apply_command_def erase_device_eq_filter distinct_map_filter)
next
  case False
  with d show ?thesis
    by (intro replays_none) (auto simp: ConfirmDelete_def monitor_defs split: option.splits)
qed

lemma SetAlive_replays:
  assumes d: "distinct (map dv_id (mon_devices s))"
  shows "replays s (snd (SetAlive i b s))"
proof (cases "FindDevice i s")
  case None
  with d show ?thesis by (simp add: SetAlive_def monitor_defs replays_none)
next
  case (Some found)
  let ?f = "\<lambda>d. d\<lparr>dv_alive := b\<rparr>"
  have i: "dv_id found = i" and up: "update_device i ?f (mon_devices s) = upsert_device (?f found) (mon_devices s)"
    using FindDevice_Some [OF Some] update_found_upsert [OF d, of found ?f] by auto
  have "distinct (map dv_id (update_device i ?f (mon_devices s)))" using d by simp
  with Some i up show ?thesis
    by (intro replays_one [where c = "\<lparr>cmd_kind = CommandSetAlive, cmd_targetId = i, cmd_device = Some (?f found)\<rparr>"])
      (simp_all add: SetAlive_def monitor_defs command_ok_def apply_command_def)
qed

lemma monitor_act_replays:
  assumes "distinct (map dv_id (mon_devices s))"
  shows "replays s (monitor_act a s)"
proof (cases a)
  case ActSubmit
  with assms show ?thesis by (simp add: SubmitEditor_replays)
next
  case ActConfirmDelete
  with assms show ?thesis by (simp add: ConfirmDelete_replays)
next
  case (ActSetAlive i b)
  with assms show ?thesis by (simp add: SetAlive_replays)
next
  case ActRefresh
  with assms show ?thesis
    by (auto simp: monitor_defs command_ok_def apply_command_def intro: replays_one)
next
  case (ActBeginEdit i)
  with assms show ?thesis
    by (cases "FindDevice i s") (auto simp: BeginEdit_def monitor_defs intro!: replays_none)
next
  case (ActDraft d)
  with assms show ?thesis by (cases "mon_editor s") (auto simp: monitor_defs intro!: replays_none)
qed (use assms in \<open>auto simp: monitor_defs intro!: replays_none\<close>)

lemma replays_trans: "replays s t \<Longrightarrow> replays t u \<Longrightarrow> replays s u"
  by (auto simp: replays_def)

lemma replays_fold:
  "distinct (map dv_id (mon_devices s)) \<Longrightarrow> replays s (fold monitor_act as s)"
proof (induction as arbitrary: s)
  case Nil
  then show ?case by (simp add: replays_none)
next
  case (Cons a as)
  from monitor_act_replays [OF Cons.prems, of a] have "distinct (map dv_id (mon_devices (monitor_act a s)))"
    by (auto simp: replays_def)
  with Cons monitor_act_replays [OF Cons.prems, of a] show ?case by (auto intro: replays_trans)
qed

section \<open>Property\<close>

text \<open>
  The GUI state and its command queue tell the same story. Whatever the user does (editing,
  adding, deleting, toggling, cancelling, in any order and with any drafts), the device list is
  the old list with exactly the newly queued commands applied in order, every queued command that
  needs device data carries it under its own id, and ids stay unique.
\<close>

theorem monitor_actions_replay_commands:
  assumes "distinct (map dv_id (mon_devices s))"
  shows "\<exists>cs. mon_commands (fold monitor_act as s) = mon_commands s @ cs \<and> list_all command_ok cs \<and>
    mon_devices (fold monitor_act as s) = fold apply_command cs (mon_devices s) \<and>
    distinct (map dv_id (mon_devices (fold monitor_act as s)))"
  using replays_fold [OF assms] by (simp add: replays_def)

theorem monitor_actions_replay_witness:
  "\<exists>cs. mon_commands (fold monitor_act [ActBeginAdd, ActRefresh] initial_monitor) = mon_commands initial_monitor @ cs \<and>
    list_all command_ok cs \<and>
    mon_devices (fold monitor_act [ActBeginAdd, ActRefresh] initial_monitor) = fold apply_command cs (mon_devices initial_monitor) \<and>
    distinct (map dv_id (mon_devices (fold monitor_act [ActBeginAdd, ActRefresh] initial_monitor)))"
  by (rule monitor_actions_replay_commands) (simp add: initial_monitor_def)

end
