(* ===== verification/Watchlist_App.thy ===== *)
theory Watchlist_App
  imports Imgui Device_Monitor App_State Mqtt_Messages
begin

text \<open>
  \<^verbatim>\<open>src/src/Gui/Apps/WatchlistApp.cpp\<close>: the device table with its editor and delete dialogs, and
  the MQTT console. The data of the windows are the device monitor's state, the application
  state (none when no MQTT client is attached) and the static request counter. \<open>call\<close> is what the
  outbound handler does and \<open>now\<close> the text of the clock. The lemmas show that the windows act on
  the device monitor only through its operations, that an edit session never changes the
  device id, and that the console sends complete requests with fresh ids.
\<close>

record 'h app_data =
  ad_monitor :: DeviceMonitorState
  ad_mqtt :: "'h AppState option"
  ad_requestCounter :: "64 word"

section \<open>Access to the data\<close>

definition get_monitor :: "(DeviceMonitorState \<Rightarrow> 'a) \<Rightarrow> (('h, 'z) app_data_scheme, 'a) window" where
  "get_monitor f = ui_get (\<lambda>d. f (ad_monitor d))"

definition update_monitor :: "(DeviceMonitorState \<Rightarrow> DeviceMonitorState) \<Rightarrow> (('h, 'z) app_data_scheme, unit) window" where
  "update_monitor f = ui_update (\<lambda>d. d\<lparr>ad_monitor := f (ad_monitor d)\<rparr>)"

definition call_monitor :: "(DeviceMonitorState \<Rightarrow> 'a \<times> DeviceMonitorState) \<Rightarrow> (('h, 'z) app_data_scheme, 'a) window" where
  "call_monitor f = ui_method (\<lambda>d. case f (ad_monitor d) of (x, m) \<Rightarrow> (x, d\<lparr>ad_monitor := m\<rparr>))"

definition update_mqtt :: "('h AppState \<Rightarrow> 'h AppState) \<Rightarrow> (('h, 'z) app_data_scheme, unit) window" where
  "update_mqtt f = ui_update (\<lambda>d. d\<lparr>ad_mqtt := map_option f (ad_mqtt d)\<rparr>)"

section \<open>The device windows\<close>

definition ShowError :: "imgui \<Rightarrow> (('h, 'z) app_data_scheme, unit) window" where
  "ShowError im =
     cbind (get_monitor mon_error) (\<lambda>error.
     case error of
       None \<Rightarrow> cret ()
     | Some message \<Rightarrow> block [
         ui_do (UPushStyleColor ''Text''),
         ui_do (UTextWrapped (c_str message)),
         ui_do UPopStyleColor,
         ui_do USameLine,
         cbind (ui_ask im (USmallButton ''Dismiss'')) (\<lambda>pressed.
         cwhen pressed (update_monitor ClearError))])"

text \<open>An input field that writes into the draft of the current edit session.\<close>

definition edit_draft :: "(DeviceDraft \<Rightarrow> (('h, 'z) app_data_scheme, DeviceDraft) window) \<Rightarrow>
    (('h, 'z) app_data_scheme, unit) window" where
  "edit_draft input =
     cbind (get_monitor mon_editor) (\<lambda>editor.
     case editor of
       None \<Rightarrow> cret ()
     | Some e \<Rightarrow> cbind (input (editor_draft e)) (\<lambda>draft. update_monitor (EditSession draft)))"

definition input_id :: "imgui \<Rightarrow> DeviceDraft \<Rightarrow> (('h, 'z) app_data_scheme, DeviceDraft) window" where
  "input_id im d = cbind (ui_edit im (UInputText ''ID'' (draft_id d))) (\<lambda>v. cret (d\<lparr>draft_id := v\<rparr>))"

definition input_name :: "imgui \<Rightarrow> DeviceDraft \<Rightarrow> (('h, 'z) app_data_scheme, DeviceDraft) window" where
  "input_name im d = cbind (ui_edit im (UInputText ''Name'' (draft_name d))) (\<lambda>v. cret (d\<lparr>draft_name := v\<rparr>))"

definition input_address :: "imgui \<Rightarrow> DeviceDraft \<Rightarrow> (('h, 'z) app_data_scheme, DeviceDraft) window" where
  "input_address im d = cbind (ui_edit im (UInputText ''Address'' (draft_address d))) (\<lambda>v. cret (d\<lparr>draft_address := v\<rparr>))"

definition input_port :: "imgui \<Rightarrow> DeviceDraft \<Rightarrow> (('h, 'z) app_data_scheme, DeviceDraft) window" where
  "input_port im d = cbind (ui_number im (UInputInt ''Port'' (draft_port d))) (\<lambda>v. cret (d\<lparr>draft_port := v\<rparr>))"

definition input_alive :: "imgui \<Rightarrow> DeviceDraft \<Rightarrow> (('h, 'z) app_data_scheme, DeviceDraft) window" where
  "input_alive im d = cbind (ui_checkbox im ''Alive'' (draft_alive d)) (\<lambda>(_, v). cret (d\<lparr>draft_alive := v\<rparr>))"

definition ShowEditor :: "imgui \<Rightarrow> (('h, 'z) app_data_scheme, unit) window" where
  "ShowEditor im =
     cbind (get_monitor mon_editor) (\<lambda>session.
     case session of
       None \<Rightarrow> cret ()
     | Some editor \<Rightarrow>
         (let adding = (editor_mode editor = EditorAdd);
              title = (if adding then ''Add device'' else ''Edit device'')
          in cseq (ui_do (UOpenPopup title))
            (cbind (ui_ask im (UBeginPopupModal title)) (\<lambda>shown.
             if \<not> shown then cret ()
             else block [
               if adding then edit_draft (input_id im)
               else block [
                 ui_do (UBeginDisabled True),
                 edit_draft (input_id im),
                 ui_do UEndDisabled,
                 ui_do (UTextDisabled ''Device IDs are immutable after creation.'')],
               edit_draft (input_name im),
               edit_draft (input_address im),
               edit_draft (input_port im),
               edit_draft (input_alive im),
               cbind (ui_ask im (UButton (if adding then ''Add'' else ''Save''))) (\<lambda>pressed.
                 cwhen pressed (cbind (call_monitor SubmitEditor) (\<lambda>submitted.
                   cwhen submitted (ui_do UCloseCurrentPopup)))),
               ui_do USameLine,
               cbind (ui_ask im (UButton ''Cancel'')) (\<lambda>pressed.
                 cwhen pressed (block [update_monitor CancelEditor, ui_do UCloseCurrentPopup])),
               ui_do UEndPopup]))))"

definition ShowDeleteConfirmation :: "imgui \<Rightarrow> (('h, 'z) app_data_scheme, unit) window" where
  "ShowDeleteConfirmation im =
     cbind (get_monitor mon_pendingDeleteId) (\<lambda>pending.
     case pending of
       None \<Rightarrow> cret ()
     | Some i \<Rightarrow>
         cseq (ui_do (UOpenPopup ''Delete device?''))
          (cbind (ui_ask im (UBeginPopupModal ''Delete device?'')) (\<lambda>shown.
           if \<not> shown then cret ()
           else block [
             ui_do (UTextWrapped (''Delete device '' @ CHR 0x27 # c_str i @ CHR 0x27 # ''? This action cannot be undone.'')),
             cbind (ui_ask im (UButton ''Delete'')) (\<lambda>pressed.
               cwhen pressed (block [
                 cbind (call_monitor ConfirmDelete) (\<lambda>_. cret ()),
                 ui_do UCloseCurrentPopup])),
             ui_do USameLine,
             cbind (ui_ask im (UButton ''Cancel'')) (\<lambda>pressed.
               cwhen pressed (block [update_monitor CancelDelete, ui_do UCloseCurrentPopup])),
             ui_do UEndPopup])))"

text \<open>
  One row. The loop of the source walks over references into the device vector, so a row
  reads the device as the rows before left it.
\<close>

definition device_row :: "imgui \<Rightarrow> nat \<Rightarrow> (('h, 'z) app_data_scheme, unit) window" where
  "device_row im i =
     cbind (get_monitor (\<lambda>m. mon_devices m ! i)) (\<lambda>device. block [
       ui_do (UPushID (c_str (dv_id device))),
       ui_do UTableNextRow,
       ui_do (UTableSetColumnIndex 0),
       ui_do (UText (c_str (dv_id device))),
       ui_do (UTableSetColumnIndex 1),
       ui_do (UText (c_str (dv_name device))),
       ui_do (UTableSetColumnIndex 2),
       ui_do (UText (c_str (dv_address device))),
       ui_do (UTableSetColumnIndex 3),
       ui_do (UText (dec_of_nat (unat (dv_port device)))),
       ui_do (UTableSetColumnIndex 4),
       cbind (ui_checkbox im ''##alive'' (dv_alive device)) (\<lambda>(pressed, alive).
         cwhen pressed (cbind (call_monitor (SetAlive (dv_id device) alive)) (\<lambda>_. cret ()))),
       ui_do (UTableSetColumnIndex 5),
       cbind (ui_ask im (USmallButton ''Edit'')) (\<lambda>pressed.
         cwhen pressed (cbind (call_monitor (BeginEdit (dv_id device))) (\<lambda>_. cret ()))),
       ui_do USameLine,
       cbind (ui_ask im (USmallButton ''Delete'')) (\<lambda>pressed.
         cwhen pressed (cbind (call_monitor (RequestDelete (dv_id device))) (\<lambda>_. cret ()))),
       ui_do UPopID])"

definition ShowDeviceTable :: "imgui \<Rightarrow> (('h, 'z) app_data_scheme, unit) window" where
  "ShowDeviceTable im =
     cbind (ui_ask im (UBeginTable ''devices'' 6)) (\<lambda>shown.
     if \<not> shown then cret ()
     else cbind (get_monitor (\<lambda>m. length (mon_devices m))) (\<lambda>n. block [
       ui_do (UTableSetupColumn ''ID''),
       ui_do (UTableSetupColumn ''Name''),
       ui_do (UTableSetupColumn ''Address''),
       ui_do (UTableSetupColumn ''Port''),
       ui_do (UTableSetupColumn ''Alive''),
       ui_do (UTableSetupColumn ''Actions''),
       ui_do UTableHeadersRow,
       cfor [0..<n] (device_row im),
       ui_do UEndTable]))"

section \<open>The MQTT console\<close>

definition ShowHistory :: "string \<Rightarrow> string list \<Rightarrow> ('s, unit) window" where
  "ShowHistory title lines = block [
     ui_do (UText title),
     ui_do (UBeginChild title),
     cfor lines (\<lambda>line. ui_do (UTextWrapped (c_str line))),
     ui_do UEndChild]"

definition input_console :: "imgui \<Rightarrow> ConsoleState \<Rightarrow> ('s, ConsoleState) window" where
  "input_console im console =
     cbind (ui_edit im (UInputText ''Broker'' (con_brokerHost console))) (\<lambda>host.
     cbind (ui_number im (UInputInt ''Port'' (con_brokerPort console))) (\<lambda>port.
     cbind (ui_edit im (UInputText ''Client ID'' (con_clientId console))) (\<lambda>client.
     cbind (ui_number im (UCombo ''Type'' (con_selectedMessageType console) 5)) (\<lambda>type.
     cret (console\<lparr>con_brokerHost := host, con_brokerPort := port, con_clientId := client,
       con_selectedMessageType := type\<rparr>)))))"

definition input_fields :: "imgui \<Rightarrow> ConsoleState \<Rightarrow> ('s, ConsoleState) window" where
  "input_fields im console =
     (if con_selectedMessageType console = 0 then
        cbind (ui_edit im (UInputText ''Script'' (con_scriptName console))) (\<lambda>v.
        cret (console\<lparr>con_scriptName := v\<rparr>))
      else if con_selectedMessageType console = 1 then
        cbind (ui_edit im (UInputText ''Device'' (con_deviceId console))) (\<lambda>v.
        cbind (ui_edit im (UInputTextMultiline ''Payload'' (con_payload console))) (\<lambda>w.
        cret (console\<lparr>con_deviceId := v, con_payload := w\<rparr>)))
      else if con_selectedMessageType console = 2 then
        cbind (ui_edit im (UInputText ''Device'' (con_deviceId console))) (\<lambda>v.
        cbind (ui_edit im (UInputText ''Command'' (con_command console))) (\<lambda>w.
        cret (console\<lparr>con_deviceId := v, con_command := w\<rparr>)))
      else if con_selectedMessageType console = 3 then
        cbind (ui_edit im (UInputText ''Key'' (con_key console))) (\<lambda>v.
        cbind (ui_edit im (UInputText ''Value'' (con_value console))) (\<lambda>w.
        cret (console\<lparr>con_key := v, con_value := w\<rparr>)))
      else if con_selectedMessageType console = 4 then
        cbind (ui_edit im (UInputTextMultiline ''Prompt'' (con_prompt console))) (\<lambda>v.
        cret (console\<lparr>con_prompt := v\<rparr>))
      else cret console)"

text \<open>
  The cast of the selected index; \<^verbatim>\<open>ToString\<close> prints a value that is no enumerator as
  \<^verbatim>\<open>execute_script\<close>, and nothing else reads the type before it is serialised.
\<close>

definition message_type_of :: "int \<Rightarrow> MessageType" where
  "message_type_of i =
     (if i = 1 then SendToDevice else if i = 2 then CmdToDevice else if i = 3 then StoreDatabaseValue
      else if i = 4 then QueryAiPrompt else ExecuteScript)"

definition console_request :: "string \<Rightarrow> 64 word \<Rightarrow> ConsoleState \<Rightarrow> MqttRequest" where
  "console_request now counter console =
     \<lparr>rq_id = con_clientId console @ ''-'' @ dec_of_nat (unat counter),
      rq_type = message_type_of (con_selectedMessageType console),
      rq_createdUtc = now,
      rq_sourceClientId = con_clientId console,
      rq_scriptName = Some (con_scriptName console),
      rq_deviceId = Some (con_deviceId console),
      rq_payload = Some (con_payload console),
      rq_command = Some (con_command console),
      rq_key = Some (con_key console),
      rq_value = Some (con_value console),
      rq_prompt = Some (con_prompt console)\<rparr>"

definition send_request :: "('h \<Rightarrow> string \<Rightarrow> cpp_exn + unit) \<Rightarrow> string \<Rightarrow> ConsoleState \<Rightarrow>
    (('h, 'z) app_data_scheme, unit) window" where
  "send_request call now console =
     cseq (ui_update (\<lambda>d. d\<lparr>ad_requestCounter := ad_requestCounter d + 1\<rparr>))
      (cbind (ui_get ad_requestCounter) (\<lambda>counter.
       update_mqtt (\<lambda>app. snd (DispatchOutbound call (SerializeRequest (console_request now counter console)) app))))"

text \<open>The rest of the console once the form has been read.\<close>

definition console_actions :: "imgui \<Rightarrow> ('h \<Rightarrow> string \<Rightarrow> cpp_exn + unit) \<Rightarrow> string \<Rightarrow> ConsoleState \<Rightarrow>
    (('h, 'z) app_data_scheme, unit) window" where
  "console_actions im call now console = block [
     update_mqtt (UpdateConsoleForm console),
     cbind (ui_ask im (UButton ''Send MQTT request'')) (\<lambda>pressed. cwhen pressed (send_request call now console)),
     cbind (ui_get (\<lambda>d. app_outbound (the (ad_mqtt d)))) (ShowHistory ''Outbound requests''),
     cbind (ui_get (\<lambda>d. app_acks (the (ad_mqtt d)))) (ShowHistory ''Acknowledgements''),
     cbind (ui_get (\<lambda>d. app_activity (the (ad_mqtt d)))) (ShowHistory ''MQTT activity'')]"

definition ShowMqttConsole :: "imgui \<Rightarrow> ('h \<Rightarrow> string \<Rightarrow> cpp_exn + unit) \<Rightarrow> string \<Rightarrow>
    (('h, 'z) app_data_scheme, unit) window" where
  "ShowMqttConsole im call now =
     cbind (ui_get ad_mqtt) (\<lambda>mqtt.
     case mqtt of
       None \<Rightarrow> cret ()
     | Some app \<Rightarrow>
         (let console = SnapshotConsole app in
          cseq (ui_do (UText (''Status: '' @ c_str (con_connectionStatus console))))
           (cbind (input_console im console) (\<lambda>console.
            cbind (input_fields im console) (console_actions im call now)))))"

definition ShowWatchlistAppContent :: "imgui \<Rightarrow> ('h \<Rightarrow> string \<Rightarrow> cpp_exn + unit) \<Rightarrow> string \<Rightarrow>
    (('h, 'z) app_data_scheme, unit) window" where
  "ShowWatchlistAppContent im call now = block [
     ui_do (UText ''Device monitor''),
     ui_do (UTextDisabled ''Manage persisted devices and send requests through the runtime-owned MQTT client.''),
     ui_do USpacing,
     cbind (ui_ask im (UButton ''Refresh'')) (\<lambda>pressed. cwhen pressed (update_monitor RequestRefresh)),
     ui_do USameLine,
     cbind (ui_ask im (UButton ''Add device'')) (\<lambda>pressed. cwhen pressed (update_monitor BeginAdd)),
     cbind (ui_get ad_mqtt) (\<lambda>mqtt. cwhen (mqtt \<noteq> None)
       (cbind (ui_ask im (UCollapsingHeader ''MQTT console'')) (\<lambda>shown.
        cwhen shown (ShowMqttConsole im call now)))),
     ShowError im,
     ui_do USeparator,
     cbind (get_monitor mon_devices) (\<lambda>devices.
       if devices = [] then ui_do (UTextDisabled ''No devices. Add a device or refresh from storage.'')
       else ShowDeviceTable im),
     ShowEditor im,
     ShowDeleteConfirmation im]"

section \<open>Invariants of the windows\<close>

lemma scoped_get_monitor [scoped_intros]: "scoped I (get_monitor f) st (\<lambda>_. st)"
  unfolding get_monitor_def by (rule scoped_intros)

lemma scoped_update_monitor:
  "(\<And>d. I d \<Longrightarrow> I (d\<lparr>ad_monitor := f (ad_monitor d)\<rparr>)) \<Longrightarrow> scoped I (update_monitor f) st (\<lambda>_. st)"
  unfolding update_monitor_def by (rule scoped_update)

lemma scoped_call_monitor:
  "(\<And>d. I d \<Longrightarrow> I (d\<lparr>ad_monitor := snd (f (ad_monitor d))\<rparr>)) \<Longrightarrow> scoped I (call_monitor f) st (\<lambda>_. st)"
  unfolding call_monitor_def by (rule scoped_method) (simp add: case_prod_beta)

lemma scoped_update_mqtt:
  "(\<And>d. I d \<Longrightarrow> I (d\<lparr>ad_mqtt := map_option f (ad_mqtt d)\<rparr>)) \<Longrightarrow> scoped I (update_mqtt f) st (\<lambda>_. st)"
  unfolding update_mqtt_def by (rule scoped_update)

lemma scoped_inputs [scoped_intros]:
  "scoped I (input_id im d) st (\<lambda>_. st)" "scoped I (input_name im d) st (\<lambda>_. st)"
  "scoped I (input_address im d) st (\<lambda>_. st)" "scoped I (input_port im d) st (\<lambda>_. st)"
  "scoped I (input_alive im d) st (\<lambda>_. st)"
  unfolding input_id_def input_name_def input_address_def input_port_def input_alive_def
  by (rule scoped_rules | simp)+

lemma scoped_history [scoped_intros]: "scoped I (ShowHistory title lines) st (\<lambda>_. st)"
  unfolding ShowHistory_def by (rule scoped_rules | simp)+

lemma scoped_form [scoped_intros]:
  "scoped I (input_console im console) st (\<lambda>_. st)" "scoped I (input_fields im console) st (\<lambda>_. st)"
  unfolding input_console_def input_fields_def by (rule scoped_rules | simp)+

lemmas app_rules = scoped_intros scoped_cbind scoped_neutral

fun writes_draft :: "monitor_action \<Rightarrow> bool" where
  "writes_draft (ActDraft d) = True"
| "writes_draft _ = False"

text \<open>
  The contract between the windows and a property \<open>I\<close> of the data: the operations of the device
  monitor other than writing a draft keep it, and so do the two windows whose input fields write
  into the state, the editor and the MQTT console. Then every window keeps it.
\<close>

locale window_invariant =
  fixes im :: imgui and call :: "'h \<Rightarrow> string \<Rightarrow> cpp_exn + unit" and now :: string
    and I :: "('h, 'z) app_data_scheme \<Rightarrow> bool"
  assumes act: "\<not> writes_draft a \<Longrightarrow> I d \<Longrightarrow> I (d\<lparr>ad_monitor := monitor_act a (ad_monitor d)\<rparr>)"
    and editor_window: "scoped I (ShowEditor im) st (\<lambda>_. st)"
    and console_window: "scoped I (ShowMqttConsole im call now) st (\<lambda>_. st)"
begin

lemma scoped_acts:
  "scoped I (update_monitor RequestRefresh) st (\<lambda>_. st)" "scoped I (update_monitor BeginAdd) st (\<lambda>_. st)"
  "scoped I (update_monitor CancelDelete) st (\<lambda>_. st)" "scoped I (update_monitor ClearError) st (\<lambda>_. st)"
  "scoped I (update_monitor RequestExit) st (\<lambda>_. st)"
  using act [of ActRefresh] act [of ActBeginAdd] act [of ActCancelDelete] act [of ActClearError] act [of ActExit]
  by (auto intro!: scoped_update_monitor)

lemma scoped_calls:
  "scoped I (call_monitor ConfirmDelete) st (\<lambda>_. st)" "scoped I (call_monitor (SetAlive i b)) st (\<lambda>_. st)"
  "scoped I (call_monitor (BeginEdit i)) st (\<lambda>_. st)" "scoped I (call_monitor (RequestDelete i)) st (\<lambda>_. st)"
  using act [of ActConfirmDelete] act [of "ActSetAlive i b"] act [of "ActBeginEdit i"] act [of "ActRequestDelete i"]
  by (auto intro!: scoped_call_monitor)

lemma scoped_ShowError: "scoped I (ShowError im) st (\<lambda>_. st)"
  unfolding ShowError_def by (rule scoped_acts app_rules | simp)+

lemma scoped_ShowDeleteConfirmation: "scoped I (ShowDeleteConfirmation im) st (\<lambda>_. st)"
  unfolding ShowDeleteConfirmation_def by (rule scoped_acts scoped_calls app_rules | simp)+

lemma scoped_device_row: "scoped I (device_row im i) st (\<lambda>_. st)"
  unfolding device_row_def by (rule scoped_calls app_rules | simp)+

lemma scoped_ShowDeviceTable: "scoped I (ShowDeviceTable im) st (\<lambda>_. st)"
  unfolding ShowDeviceTable_def by (rule scoped_device_row app_rules | simp)+

lemma scoped_content: "scoped I (ShowWatchlistAppContent im call now) st (\<lambda>_. st)"
  unfolding ShowWatchlistAppContent_def
  by (rule scoped_acts scoped_ShowError scoped_ShowDeviceTable scoped_ShowDeleteConfirmation
      editor_window console_window app_rules | simp)+

end

text \<open>A property that says nothing of the MQTT state.\<close>

locale mqtt_closed =
  fixes im :: imgui and call :: "'h \<Rightarrow> string \<Rightarrow> cpp_exn + unit" and now :: string
    and I :: "('h, 'z) app_data_scheme \<Rightarrow> bool"
  assumes mqtt_any: "I d \<Longrightarrow> I (d\<lparr>ad_mqtt := q\<rparr>)"
    and counter_any: "I d \<Longrightarrow> I (d\<lparr>ad_requestCounter := n\<rparr>)"
begin

lemma closed_send: "scoped I (send_request call now console) st (\<lambda>_. st)"
  unfolding send_request_def
  by (rule scoped_update scoped_update_mqtt mqtt_any counter_any app_rules | assumption)+

lemma closed_console: "scoped I (ShowMqttConsole im call now) st (\<lambda>_. st)"
  unfolding ShowMqttConsole_def console_actions_def
  by (rule closed_send scoped_update_mqtt mqtt_any app_rules | assumption | simp)+

end

text \<open>A property that every operation of the monitor keeps.\<close>

locale act_closed =
  fixes im :: imgui and I :: "('h, 'z) app_data_scheme \<Rightarrow> bool"
  assumes act_any: "I d \<Longrightarrow> I (d\<lparr>ad_monitor := monitor_act a (ad_monitor d)\<rparr>)"
begin

lemma closed_editor_acts:
  "scoped I (update_monitor (EditSession draft)) st (\<lambda>_. st)" "scoped I (update_monitor CancelEditor) st (\<lambda>_. st)"
  "scoped I (call_monitor SubmitEditor) st (\<lambda>_. st)"
  using act_any [of _ "ActDraft draft"] act_any [of _ ActCancelEditor] act_any [of _ ActSubmit]
  by (auto intro!: scoped_update_monitor scoped_call_monitor)

lemma closed_draft:
  assumes "\<And>draft. scoped I (input draft) st (\<lambda>_. st)"
  shows "scoped I (edit_draft input) st (\<lambda>_. st)"
  unfolding edit_draft_def by (rule assms closed_editor_acts app_rules | simp)+

lemma closed_editor: "scoped I (ShowEditor im) st (\<lambda>_. st)"
  unfolding ShowEditor_def by (rule closed_editor_acts closed_draft app_rules | simp)+

end

locale monitor_closed = mqtt_closed im call now I + act_closed im I
  for im :: imgui and call :: "'h \<Rightarrow> string \<Rightarrow> cpp_exn + unit" and now :: string
    and I :: "('h, 'z) app_data_scheme \<Rightarrow> bool"

sublocale monitor_closed \<subseteq> window_invariant im call now I
  by unfold_locales (auto intro: act_any closed_editor closed_console)

text \<open>The states of the monitor that its operations reach from \<open>m\<close>.\<close>

definition acted :: "DeviceMonitorState \<Rightarrow> DeviceMonitorState \<Rightarrow> bool" where
  "acted m m' \<longleftrightarrow> (\<exists>as. m' = fold monitor_act as m)"

lemma acted_refl [simp]: "acted m m"
  unfolding acted_def by (rule exI [of _ "[]"]) simp

lemma acted_step: "acted m m' \<Longrightarrow> acted m (monitor_act a m')"
  unfolding acted_def by (elim exE, rule_tac x = "as @ [a]" in exI) simp

interpretation replay: monitor_closed im call now "\<lambda>d. acted m (ad_monitor d)" for im call now m
  by unfold_locales (simp_all add: acted_step)

section \<open>Edit sessions\<close>

definition editor_ok :: "DeviceMonitorState \<Rightarrow> bool" where
  "editor_ok m \<longleftrightarrow>
     (case mon_editor m of
        None \<Rightarrow> True
      | Some e \<Rightarrow> editor_mode e = EditorEdit \<longrightarrow> draft_id (editor_draft e) = editor_originalId e)"

abbreviation ids_kept :: "('h, 'z) app_data_scheme \<Rightarrow> bool" where
  "ids_kept \<equiv> \<lambda>d. editor_ok (ad_monitor d)"

lemma editor_ok_act: "\<not> writes_draft a \<Longrightarrow> editor_ok m \<Longrightarrow> editor_ok (monitor_act a m)"
  by (cases a)
    (auto simp: editor_ok_def monitor_defs BeginEdit_def draft_of_def SubmitEditor_def ValidateDraft_def Let_def
      ConfirmDelete_def SetAlive_def split: option.splits if_splits)

text \<open>While a device is being added, the session stays one that adds.\<close>

definition adding_only :: "DeviceMonitorState \<Rightarrow> bool" where
  "adding_only m \<longleftrightarrow> (case mon_editor m of None \<Rightarrow> True | Some e \<Rightarrow> editor_mode e = EditorAdd)"

lemma adding_only_ok: "adding_only m \<Longrightarrow> editor_ok m"
  by (auto simp: adding_only_def editor_ok_def split: option.splits)

lemma adding_only_act: "a \<in> {ActDraft d, ActCancelEditor, ActSubmit} \<Longrightarrow> adding_only m \<Longrightarrow> adding_only (monitor_act a m)"
  by (auto simp: adding_only_def monitor_defs SubmitEditor_def ValidateDraft_def Let_def split: option.splits if_splits)

abbreviation adding :: "('h, 'z) app_data_scheme \<Rightarrow> bool" where
  "adding \<equiv> \<lambda>d. adding_only (ad_monitor d)"

lemma adding_acts:
  "scoped adding (update_monitor (EditSession draft)) st (\<lambda>_. st)" "scoped adding (update_monitor CancelEditor) st (\<lambda>_. st)"
  "scoped adding (call_monitor SubmitEditor) st (\<lambda>_. st)"
  using adding_only_act [of "ActDraft draft" draft] adding_only_act [of ActCancelEditor] adding_only_act [of ActSubmit]
  by (auto intro!: scoped_update_monitor scoped_call_monitor)

lemma adding_draft:
  assumes "\<And>draft. scoped adding (input draft) st (\<lambda>_. st)"
  shows "scoped adding (edit_draft input) st (\<lambda>_. st)"
  unfolding edit_draft_def by (rule assms adding_acts app_rules | simp)+

lemma editing_acts:
  "scoped ids_kept (update_monitor CancelEditor) st (\<lambda>_. st)" "scoped ids_kept (call_monitor SubmitEditor) st (\<lambda>_. st)"
  using editor_ok_act [of ActCancelEditor] editor_ok_act [of ActSubmit]
  by (auto intro!: scoped_update_monitor scoped_call_monitor)

text \<open>An input field that leaves the id of the draft alone keeps the id of the session.\<close>

definition keeps_id :: "(DeviceDraft \<Rightarrow> (('h, 'z) app_data_scheme, DeviceDraft) window) \<Rightarrow> ui_scope list \<Rightarrow> bool" where
  "keeps_id input st \<longleftrightarrow> (\<forall>J draft. runs J (input draft) st (\<lambda>_. st) (\<lambda>draft' d. J d \<and> draft_id draft' = draft_id draft))"

lemma editing_draft:
  assumes "keeps_id input st"
  shows "scoped ids_kept (edit_draft input) st (\<lambda>_. st)"
proof (rule scoped_runs)
  let ?J = "\<lambda>editor d. ids_kept d \<and> mon_editor (ad_monitor d) = editor"
  have get: "runs ids_kept (get_monitor mon_editor) st (\<lambda>_. st) ?J"
    unfolding get_monitor_def by (rule runs_get) simp
  have "runs (?J (Some e)) (cbind (input (editor_draft e)) (\<lambda>draft. update_monitor (EditSession draft))) st (\<lambda>_. st) (\<lambda>_. ids_kept)"
    for e
  proof (rule runs_cbind)
    show "runs (?J (Some e)) (input (editor_draft e)) st (\<lambda>_. st)
        (\<lambda>draft d. ?J (Some e) d \<and> draft_id draft = draft_id (editor_draft e))"
      using assms unfolding keeps_id_def by (elim allE) assumption
    show "runs (\<lambda>d. ?J (Some e) d \<and> draft_id draft = draft_id (editor_draft e)) (update_monitor (EditSession draft)) st
        (\<lambda>_. st) (\<lambda>_. ids_kept)" for draft
      unfolding update_monitor_def by (rule runs_update) (auto simp: editor_ok_def EditSession_def)
  qed
  then have "runs (?J editor) (case editor of None \<Rightarrow> cret () | Some e \<Rightarrow>
      cbind (input (editor_draft e)) (\<lambda>draft. update_monitor (EditSession draft))) st (\<lambda>_. st) (\<lambda>_. ids_kept)" for editor
    by (cases editor) (auto intro: runs_cret)
  then show "runs ids_kept (edit_draft input) st (\<lambda>_. st) (\<lambda>_. ids_kept)"
    unfolding edit_draft_def by (rule runs_cbind [OF get])
qed

lemma keeps_id_bind:
  assumes "\<And>J draft. scoped J (ask draft) st (\<lambda>_. st)" "\<And>draft v. draft_id (set_field v draft) = draft_id draft"
  shows "keeps_id (\<lambda>draft. cbind (ask draft) (\<lambda>v. cret (set_field v draft))) st"
  unfolding keeps_id_def
proof (intro allI)
  fix J draft
  have "runs J (ask draft) st (\<lambda>_. st) (\<lambda>_. J)" by (rule runs_scoped [OF assms(1)])
  then show "runs J (cbind (ask draft) (\<lambda>v. cret (set_field v draft))) st (\<lambda>_. st)
      (\<lambda>draft' d. J d \<and> draft_id draft' = draft_id draft)"
    by (rule runs_cbind) (rule runs_cret, simp add: assms(2))
qed

lemma inputs_keep_id:
  "keeps_id (input_name im) st" "keeps_id (input_address im) st" "keeps_id (input_port im) st" "keeps_id (input_alive im) st"
proof -
  show "keeps_id (input_name im) st" "keeps_id (input_address im) st" "keeps_id (input_port im) st"
    unfolding input_name_def [abs_def] input_address_def [abs_def] input_port_def [abs_def]
    by (rule keeps_id_bind; simp add: scoped_neutral)+
  show "keeps_id (input_alive im) st"
    unfolding input_alive_def [abs_def] case_prod_unfold
    by (rule keeps_id_bind; simp add: scoped_checkbox)
qed

context imgui_library
begin

text \<open>The id field is disabled while a device is edited.\<close>

lemma disabled_id:
  assumes "ScDisabled True \<in> set st"
  shows "keeps_id (input_id im) st"
  unfolding keeps_id_def
proof (intro allI)
  fix J and draft :: DeviceDraft
  have "im_text im es (UInputText ''ID'' (draft_id draft)) = draft_id draft" if "scopes es [] = Some st" for es
    using assms that by (intro disabled_text) (simp add: disabled_def)
  then show "runs J (input_id im draft) st (\<lambda>_. st) (\<lambda>draft' d. J d \<and> draft_id draft' = draft_id draft)"
    by (auto simp: runs_def input_id_def cbind_def cret_def ui_edit_def ui_note_def scopes_append neutral_scope)
qed

lemma editing_window: "scoped ids_kept (ShowEditor im) st (\<lambda>_. st)"
proof -
  let ?K = "\<lambda>session d. case session of
      Some e \<Rightarrow> if editor_mode e = EditorAdd then adding d else ids_kept d | None \<Rightarrow> ids_kept d"
  show ?thesis
    unfolding ShowEditor_def get_monitor_def
  proof (rule scoped_get_strengthen [where K = ?K], goal_cases)
    case (1 session)
    show ?case
    proof (cases session)
      case None
      then show ?thesis by (simp add: scoped_cret)
    next
      case (Some e)
      show ?thesis
      proof (cases "editor_mode e")
        case EditorAdd
        with Some show ?thesis
          by simp (rule adding_acts adding_draft app_rules | simp)+
      next
        case EditorEdit
        with Some show ?thesis
          by simp (rule editing_acts editing_draft inputs_keep_id disabled_id app_rules | simp)+
      qed
    qed
  qed (auto simp: adding_only_def editor_ok_def split: option.splits if_splits)
qed

end

interpretation ids: mqtt_closed im call now ids_kept for im call now
  by unfold_locales simp_all

sublocale imgui_library \<subseteq> ids: window_invariant im call now ids_kept for call now
  by unfold_locales (simp_all add: editor_ok_act editing_window ids.closed_console)

section \<open>Requests of the console\<close>

lemma message_type_of_index:
  "0 \<le> i \<Longrightarrow> i < 5 \<Longrightarrow> ToString (message_type_of i) =
     [''execute_script'', ''send_to_device'', ''cmd_to_device'', ''store_database_value'', ''query_AI_prompt''] ! nat i"
  by (cases "i = 0"; cases "i = 1"; cases "i = 2"; cases "i = 3"; cases "i = 4")
    (simp_all add: message_type_of_def eval_nat_numeral)

lemma console_request_complete:
  assumes "IsValidClientId (con_clientId c)" "now \<noteq> []"
  shows "MissingRequiredField (console_request now n c) = None"
  using assms by (auto simp: MissingRequiredField_def console_request_def IsValidClientId_def split: MessageType.splits)

lemma dec_of_nat_inject: "dec_of_nat m = dec_of_nat n \<Longrightarrow> m = n"
proof (induction m arbitrary: n rule: dec_of_nat.induct)
  case (1 m)
  have digit: "(char_of (48 + a) = char_of (48 + b)) = (a = b)" if "a < 10" "b < 10" for a b :: nat
    using that by (auto simp: char_of_eq_iff of_char_of take_bit_eq_mod)
  from "1.prems" show ?case
    by (subst (asm) (1 2) dec_of_nat.simps)
      (auto simp: digit dec_of_nat_nonempty [symmetric] split: if_splits dest!: "1.IH", metis div_mult_mod_eq)
qed

lemma hyphen_unique:
  assumes "xs @ CHR ''-'' # ds = ys @ CHR ''-'' # es" "CHR ''-'' \<notin> set ds" "CHR ''-'' \<notin> set es"
  shows "xs = ys \<and> ds = es"
proof -
  let ?tw = "takeWhile (\<lambda>c. c \<noteq> CHR ''-'')"
  have "?tw (rev (xs @ CHR ''-'' # ds)) = rev ds" "?tw (rev (ys @ CHR ''-'' # es)) = rev es"
    using assms(2,3) by (auto simp: takeWhile_append)
  with assms(1) show ?thesis by simp
qed

text \<open>The client and the counter can be read off the id of a request.\<close>

lemma console_request_id:
  assumes "rq_id (console_request now n c) = rq_id (console_request now' n' c')"
  shows "con_clientId c = con_clientId c' \<and> n = n'"
proof -
  have "CHR ''-'' \<notin> set (dec_of_nat k)" for k
    using dec_of_nat_digits [of "CHR ''-''" k] by (auto simp: isdigit_def byte_def)
  moreover have "con_clientId c @ CHR ''-'' # dec_of_nat (unat n) = con_clientId c' @ CHR ''-'' # dec_of_nat (unat n')"
    using assms by (simp add: console_request_def)
  ultimately have "con_clientId c = con_clientId c'" "dec_of_nat (unat n) = dec_of_nat (unat n')"
    by (blast dest: hyphen_unique)+
  then show ?thesis by (blast intro: unsigned_word_eqI dest: dec_of_nat_inject)
qed

text \<open>The effect of one frame of the console, for any user.\<close>

definition console_effect :: "('h \<Rightarrow> string \<Rightarrow> cpp_exn + unit) \<Rightarrow> string \<Rightarrow> 'h AppState \<Rightarrow> ConsoleState \<Rightarrow> bool \<Rightarrow>
    ('h, 'z) app_data_scheme \<Rightarrow> ('h, 'z) app_data_scheme" where
  "console_effect call now app c pressed d =
     (let app' = UpdateConsoleForm c app; n = ad_requestCounter d + 1 in
      if pressed
      then d\<lparr>ad_requestCounter := n, ad_mqtt := Some (snd (DispatchOutbound call (SerializeRequest (console_request now n c)) app'))\<rparr>
      else d\<lparr>ad_mqtt := Some app'\<rparr>)"

lemma runs_send:
  assumes "ad_mqtt d0 = Some app"
  shows "runs (\<lambda>d. d = d0\<lparr>ad_mqtt := Some (UpdateConsoleForm c app)\<rparr>) (send_request call now c) st (\<lambda>_. st)
    (\<lambda>_ d. d = console_effect call now app c True d0)"
proof -
  let ?d = "d0\<lparr>ad_mqtt := Some (UpdateConsoleForm c app)\<rparr>"
  let ?n = "ad_requestCounter d0 + 1"
  have 1: "runs (\<lambda>d. d = ?d) (ui_update (\<lambda>d. d\<lparr>ad_requestCounter := ad_requestCounter d + 1\<rparr>)) st (\<lambda>_. st)
      (\<lambda>_ d. d = ?d\<lparr>ad_requestCounter := ?n\<rparr>)"
    by (rule runs_update) simp
  have 2: "runs (\<lambda>d. d = ?d\<lparr>ad_requestCounter := ?n\<rparr>) (ui_get ad_requestCounter) st (\<lambda>_. st)
      (\<lambda>n d. n = ?n \<and> d = ?d\<lparr>ad_requestCounter := ?n\<rparr>)"
    by (rule runs_get) simp
  have 3: "runs (\<lambda>d. n = ?n \<and> d = ?d\<lparr>ad_requestCounter := ?n\<rparr>)
      (update_mqtt (\<lambda>app. snd (DispatchOutbound call (SerializeRequest (console_request now n c)) app))) st (\<lambda>_. st)
      (\<lambda>_ d. d = console_effect call now app c True d0)" for n
    unfolding update_mqtt_def by (rule runs_update) (simp add: console_effect_def Let_def)
  show ?thesis unfolding send_request_def by (rule runs_cseq [OF 1 runs_cbind [OF 2 3]])
qed

definition type_ok :: "ConsoleState \<Rightarrow> bool" where
  "type_ok c \<longleftrightarrow> 0 \<le> con_selectedMessageType c \<and> con_selectedMessageType c < 5"

abbreviation types_ok :: "('h, 'z) app_data_scheme \<Rightarrow> bool" where
  "types_ok \<equiv> \<lambda>d. case ad_mqtt d of None \<Rightarrow> True | Some app \<Rightarrow> type_ok (app_console app)"

lemma runs_if: "(b \<Longrightarrow> runs I m st P J) \<Longrightarrow> (\<not> b \<Longrightarrow> runs I n st P J) \<Longrightarrow> runs I (if b then m else n) st P J"
  by simp

lemma runs_fields:
  assumes "type_ok c"
  shows "runs J (input_fields im c) st (\<lambda>_. st) (\<lambda>c' d. J d \<and> type_ok c')"
proof -
  have edit: "runs J (cbind (ui_edit im call) f) st (\<lambda>_. st) (\<lambda>c' d. J d \<and> type_ok c')"
    if "\<And>v. runs J (f v) st (\<lambda>_. st) (\<lambda>c' d. J d \<and> type_ok c')" "neutral call"
    for call :: ui_call and f :: "string \<Rightarrow> ('a, ConsoleState) window"
    by (rule runs_cbind [OF runs_scoped [where J = "\<lambda>_. J", OF scoped_neutral(3)]]) (use that in simp_all)
  show ?thesis
    unfolding input_fields_def
    by (rule runs_if edit runs_cret | simp add: assms [unfolded type_ok_def] type_ok_def)+
qed

context imgui_library
begin

lemma runs_form:
  assumes "type_ok c"
  shows "runs J (input_console im c) st (\<lambda>_. st) (\<lambda>c' d. J d \<and> type_ok c')"
proof -
  have "0 \<le> im_int im es (UCombo ''Type'' (con_selectedMessageType c) 5) \<and>
      im_int im es (UCombo ''Type'' (con_selectedMessageType c) 5) < 5" for es
    using assms combo_item [of es "''Type''" "con_selectedMessageType c" 5] by (auto simp: type_ok_def)
  then show ?thesis
    by (simp add: runs_def input_console_def cbind_def cret_def ui_edit_def ui_number_def ui_note_def
      scopes_append neutral_scope type_ok_def)
qed

end

lemma runs_press:
  assumes "ad_mqtt d0 = Some app"
  shows "runs (\<lambda>d. d = console_effect call now app c False d0)
    (cbind (ui_ask im (UButton label)) (\<lambda>pressed. cwhen pressed (send_request call now c))) st (\<lambda>_. st)
    (\<lambda>_ d. \<exists>b. d = console_effect call now app c b d0)"
proof -
  let ?d = "\<lambda>d. d = console_effect call now app c False d0"
  have 1: "runs ?d (ui_ask im (UButton label)) st (\<lambda>_. st) (\<lambda>_. ?d)"
    by (rule runs_scoped [OF scoped_neutral(2)]) simp_all
  have 2: "runs ?d (send_request call now c) st (\<lambda>_. st) (\<lambda>_ d. d = console_effect call now app c True d0)"
    by (rule runs_pre [OF runs_send [OF assms]]) (simp add: console_effect_def Let_def)
  have "runs ?d (cwhen b (send_request call now c)) st (\<lambda>_. st) (\<lambda>_ d. \<exists>b. d = console_effect call now app c b d0)" for b
    using 2 unfolding runs_def cwhen_def cret_def by (cases b) fastforce+
  with 1 show ?thesis by (rule runs_cbind)
qed

context imgui_library
begin

text \<open>What one frame of the console does, whatever the user does.\<close>

lemma runs_console:
  assumes app: "ad_mqtt d0 = Some app" "type_ok (app_console app)"
  shows "runs (\<lambda>d. d = d0) (ShowMqttConsole im call now) st (\<lambda>_. st)
    (\<lambda>_ d. \<exists>c b. type_ok c \<and> d = console_effect call now app c b d0)"
proof -
  let ?J = "\<lambda>c d. d = d0 \<and> type_ok c" and ?E = "\<lambda>d. \<exists>c b. type_ok c \<and> d = console_effect call now app c b d0"
  have get: "runs (\<lambda>d. d = d0) (ui_get ad_mqtt) st (\<lambda>_. st) (\<lambda>q d. d = d0 \<and> q = Some app)"
    by (rule runs_get) (simp add: app)
  have status: "runs (\<lambda>d. d = d0) (ui_do (UText t)) st (\<lambda>_. st) (\<lambda>_ d. d = d0)" for t
    by (rule runs_scoped [OF scoped_neutral(1)]) simp_all
  have fields: "runs (?J c) (input_fields im c) st (\<lambda>_. st) ?J" for c
    unfolding runs_def using runs_fields [of c "\<lambda>d. d = d0" im st] by (auto simp: runs_def)
  have form: "runs (?J c) (update_mqtt (UpdateConsoleForm c)) st (\<lambda>_. st)
      (\<lambda>_ d. type_ok c \<and> d = console_effect call now app c False d0)" for c
    unfolding update_mqtt_def by (rule runs_update) (simp add: console_effect_def app Let_def)
  have press: "runs (\<lambda>d. type_ok c \<and> d = console_effect call now app c False d0)
      (cbind (ui_ask im (UButton label)) (\<lambda>pressed. cwhen pressed (send_request call now c))) st (\<lambda>_. st) (\<lambda>_. ?E)" for c label
    unfolding runs_def using runs_press [OF app(1), of call now c im label st] by (fastforce simp: runs_def)
  have history: "runs ?E (cbind (ui_get f) (ShowHistory title)) st (\<lambda>_. st) (\<lambda>_. ?E)" for f title
    by (rule runs_scoped [where I = ?E]) (rule app_rules | simp)+
  have actions: "runs (?J c) (console_actions im call now c) st (\<lambda>_. st) (\<lambda>_. ?E)" for c
    unfolding console_actions_def block.simps
    by (rule runs_cseq [OF form] runs_cseq [OF press] runs_cseq [OF history] runs_cret | assumption)+
  have body: "runs (\<lambda>d. d = d0 \<and> q = Some app) (case q of None \<Rightarrow> cret () | Some app \<Rightarrow>
      (let console = SnapshotConsole app in
       cseq (ui_do (UText (''Status: '' @ c_str (con_connectionStatus console))))
        (cbind (input_console im console) (\<lambda>console.
         cbind (input_fields im console) (console_actions im call now))))) st (\<lambda>_. st) (\<lambda>_. ?E)" for q
  proof (cases "q = Some app")
    case True
    show ?thesis
      unfolding True option.case Let_def SnapshotConsole_def
      by (rule runs_pre [where I = "\<lambda>d. d = d0"],
        (rule runs_cseq [OF status] runs_cbind [OF runs_form [OF app(2)]] runs_cbind [OF fields] actions)+, simp)
  qed (simp add: runs_def)
  show ?thesis unfolding ShowMqttConsole_def by (rule runs_cbind [OF get body])
qed

end

interpretation types: act_closed im types_ok for im
  by unfold_locales simp

context imgui_library
begin

lemma types_console: "scoped types_ok (ShowMqttConsole im call now) st (\<lambda>_. st)"
proof (rule scopedI)
  fix s :: "('a, 'b) app_data_scheme ui"
  assume s: "scopes (ui_events s) [] = Some st" "types_ok (ui_data s)"
  show "\<exists>x s'. ShowMqttConsole im call now s = (Inr x, s') \<and> scopes (ui_events s') [] = Some st \<and> types_ok (ui_data s')"
  proof (cases "ad_mqtt (ui_data s)")
    case None
    with s show ?thesis by (simp add: ShowMqttConsole_def cbind_def ui_get_def cret_def)
  next
    case (Some app)
    with s have "runs (\<lambda>d. d = ui_data s) (ShowMqttConsole im call now) st (\<lambda>_. st)
        (\<lambda>_ d. \<exists>c b. type_ok c \<and> d = console_effect call now app c b (ui_data s))"
      by (intro runs_console) simp_all
    with s(1) obtain s' c b where s': "ShowMqttConsole im call now s = (Inr (), s')" "scopes (ui_events s') [] = Some st"
        "type_ok c" "ui_data s' = console_effect call now app c b (ui_data s)"
      unfolding runs_def by auto
    have "types_ok (ui_data s')"
      using s'(3) unfolding s'(4)
      by (auto simp: console_effect_def Let_def DispatchOutbound_def app_defs type_ok_def split: option.splits sum.splits)
    with s' show ?thesis by blast
  qed
qed

end

sublocale imgui_library \<subseteq> types: window_invariant im call now types_ok for call now
  by unfold_locales (simp_all add: types.closed_editor types_console)

section \<open>Properties\<close>

definition sample_data :: "unit app_data" where
  "sample_data = \<lparr>ad_monitor = initial_monitor, ad_mqtt = Some (initial_app_state\<lparr>app_handler := Some ()\<rparr>), ad_requestCounter = 6\<rparr>"



text \<open>
  A request of the console is accepted and can be told apart. For every JSON reader, a request
  made from a form with a valid client id and texts that survive the wire is parsed by the server
  as exactly that request, whichever of the message types is selected; and the ids of two requests
  are equal only if they come from the same client id under the same number.
\<close>

theorem console_request_accepted:
  assumes "json_reader parse" "IsValidClientId (con_clientId c)" "now \<noteq> []" "request_safe (console_request now n c)"
  shows "ParseRequest parse (SerializeRequest (console_request now n c)) =
      \<lparr>pr_request = Some (console_request now n c), pr_requestId = con_clientId c @ ''-'' @ dec_of_nat (unat n),
       pr_sourceClientId = con_clientId c, pr_error = []\<rparr> \<and>
    (rq_id (console_request now n c) = rq_id (console_request now' n' c') \<longleftrightarrow> con_clientId c = con_clientId c' \<and> n = n')"
proof
  have rq: "rq_id (console_request now n c) = con_clientId c @ ''-'' @ dec_of_nat (unat n)"
    "rq_sourceClientId (console_request now n c) = con_clientId c" for now n c
    by (simp_all add: console_request_def)
  show "ParseRequest parse (SerializeRequest (console_request now n c)) =
      \<lparr>pr_request = Some (console_request now n c), pr_requestId = con_clientId c @ ''-'' @ dec_of_nat (unat n),
       pr_sourceClientId = con_clientId c, pr_error = []\<rparr>"
    using json_reader.ParseRequest_SerializeRequest [OF assms(1,4) console_request_complete [OF assms(2,3)]]
    by (simp only: rq)
  show "rq_id (console_request now n c) = rq_id (console_request now' n' c') \<longleftrightarrow> con_clientId c = con_clientId c' \<and> n = n'"
    using console_request_id [of now n c now' n' c'] by (metis rq(1))
qed

theorem console_request_accepted_witness:
  "ParseRequest flat_json (SerializeRequest (console_request ''now'' 7 default_console)) =
      \<lparr>pr_request = Some (console_request ''now'' 7 default_console),
       pr_requestId = con_clientId default_console @ ''-'' @ dec_of_nat (unat (7 :: 64 word)),
       pr_sourceClientId = con_clientId default_console, pr_error = []\<rparr> \<and>
    (rq_id (console_request ''now'' 7 default_console) = rq_id (console_request ''then'' 8 default_console) \<longleftrightarrow>
       con_clientId default_console = con_clientId default_console \<and> (7 :: 64 word) = 8)"
proof (rule console_request_accepted [OF flat.json_reader_axioms])
  have "dec_of_nat 7 = ''7''" by code_simp
  then show "request_safe (console_request ''now'' 7 default_console)"
    by (simp add: request_safe_def console_request_def default_console_def request_eval message_type_of_def)
qed (simp_all add: default_console_def request_eval)

end
