(* ===== verification/Gui_Windows.thy ===== *)
theory Gui_Windows
  imports Watchlist_App Logger
begin

text \<open>
  The windows of the GUI around the Watchlist application: \<^verbatim>\<open>src/src/Gui/Apps/AiChatApp.cpp\<close>,
  \<^verbatim>\<open>HomeAssistantApp.cpp\<close>, \<^verbatim>\<open>src/src/Gui/Workspace\<close> (the rail, the centre, the detached
  windows and the application map), \<^verbatim>\<open>src/src/Gui/ApplicationLogWindow.cpp\<close> and
  \<^verbatim>\<open>src/src/Gui/MyApp.cpp\<close>. The function-local static variables of the source are fields of
  the data that a frame works on. The table of applications is an argument of the workspace; a
  frame runs with \<open>Applications\<close>. The lemmas show that a frame closes every scope, keeps the
  indices and buffers within their bounds, acts on the device monitor only through its operations
  and draws every application at most once.
\<close>

record 'h gui_data = "'h app_data" +
  gd_activeApplication :: nat
  gd_detached :: "bool list"
  gd_showApplicationMap :: bool
  gd_showApplicationLog :: bool
  gd_logger :: LoggerState
  gd_logWindow :: LogWindow
  gd_severityEnabled :: "bool list"
  gd_autoScroll :: bool
  gd_prompt :: string
  gd_livingRoomLights :: bool
  gd_nightMode :: bool
  gd_targetTemperature :: "32 word"

text \<open>The values the statics start with; \<^verbatim>\<open>21.5f\<close> by its bits.\<close>

definition initial_gui :: "DeviceMonitorState \<Rightarrow> 'h AppState option \<Rightarrow> LoggerState \<Rightarrow> 'h gui_data" where
  "initial_gui monitor mqtt logger =
     \<lparr>ad_monitor = monitor, ad_mqtt = mqtt, ad_requestCounter = 0,
      gd_activeApplication = 0, gd_detached = replicate 3 False, gd_showApplicationMap = False,
      gd_showApplicationLog = True, gd_logger = logger, gd_logWindow = initial_window,
      gd_severityEnabled = replicate 6 True, gd_autoScroll = True, gd_prompt = replicate 1024 (CHR 0x00),
      gd_livingRoomLights = True, gd_nightMode = False, gd_targetTemperature = 0x41AC0000\<rparr>"

section \<open>The preview applications\<close>

definition input_prompt :: "imgui \<Rightarrow> (('h, 'z) gui_data_scheme, unit) window" where
  "input_prompt im =
     cbind (ui_get gd_prompt) (\<lambda>prompt.
     cbind (ui_edit im (UInputTextWithHint ''##AiChatPrompt'' ''Message...'' prompt)) (\<lambda>edited.
     ui_update (\<lambda>d. d\<lparr>gd_prompt := edited\<rparr>)))"

definition ShowAiChatAppContent :: "imgui \<Rightarrow> (('h, 'z) gui_data_scheme, unit) window" where
  "ShowAiChatAppContent im = block [
     ui_do (UText ''AI chat controller''),
     ui_do (UTextDisabled ''Concept preview - keep each provider adapter behind this independent view.''),
     ui_do USpacing,
     cbind (ui_ask im (UBeginChild ''ChatPreview'')) (\<lambda>shown. cwhen shown (block [
       ui_do (UTextDisabled ''ASSISTANT''),
       ui_do (UTextWrapped ''This detachable surface can host a conversation without coupling it to the other apps.'')])),
     ui_do UEndChild,
     ui_do (USetNext ''ItemWidth''),
     input_prompt im,
     ui_do USameLine,
     cbind (ui_get (\<lambda>d. hd (gd_prompt d) = CHR 0x00)) (\<lambda>no_text. block [
       ui_do (UBeginDisabled no_text),
       cbind (ui_ask im (UButton ''Send'')) (\<lambda>pressed.
         cwhen pressed (ui_update (\<lambda>d. d\<lparr>gd_prompt := (gd_prompt d)[0 := CHR 0x00]\<rparr>))),
       ui_do UEndDisabled])]"

definition ShowHomeAssistantAppContent :: "imgui \<Rightarrow> (('h, 'z) gui_data_scheme, unit) window" where
  "ShowHomeAssistantAppContent im = block [
     ui_do (UText ''Home Assistant controller''),
     ui_do (UTextDisabled ''Concept preview - controls are intentionally local and are not connected yet.''),
     ui_do USpacing,
     cbind (ui_get gd_livingRoomLights) (\<lambda>v. cbind (ui_checkbox im ''Living room lights'' v) (\<lambda>(_, v).
       ui_update (\<lambda>d. d\<lparr>gd_livingRoomLights := v\<rparr>))),
     cbind (ui_get gd_nightMode) (\<lambda>v. cbind (ui_checkbox im ''Night mode'' v) (\<lambda>(_, v).
       ui_update (\<lambda>d. d\<lparr>gd_nightMode := v\<rparr>))),
     ui_do (USetNext ''ItemWidth''),
     cbind (ui_get gd_targetTemperature) (\<lambda>v. cbind (ui_float im (USliderFloat ''Target temperature'' v)) (\<lambda>v.
       ui_update (\<lambda>d. d\<lparr>gd_targetTemperature := v\<rparr>))),
     ui_do USpacing,
     ui_do USeparator,
     ui_do (UTextDisabled ''CONNECTION''),
     ui_do (UTextColored ''Not configured'')]"

section \<open>The workspace\<close>

datatype DetachableAppId = AppWatchlist | AppHomeAssistant | AppAiChat | AppCount

record 's DetachableAppDescriptor =
  desc_id :: DetachableAppId
  desc_name :: string
  desc_shortName :: string
  desc_description :: string
  desc_detachedWindowName :: string
  desc_render :: "('s, unit) window"

definition Applications :: "imgui \<Rightarrow> ('h \<Rightarrow> string \<Rightarrow> cpp_exn + unit) \<Rightarrow> string \<Rightarrow>
    ('h, 'z) gui_data_scheme DetachableAppDescriptor list" where
  "Applications im call now = [
     \<lparr>desc_id = AppWatchlist, desc_name = ''Watchlist'', desc_shortName = ''WL'',
      desc_description = ''Devices and MQTT requests'',
      desc_detachedWindowName = ''Watchlist###DetachedWatchlist'',
      desc_render = ShowWatchlistAppContent im call now\<rparr>,
     \<lparr>desc_id = AppHomeAssistant, desc_name = ''Home Assistant'', desc_shortName = ''HA'',
      desc_description = ''Rooms, devices, and automations'',
      desc_detachedWindowName = ''Home Assistant###DetachedHomeAssistant'',
      desc_render = ShowHomeAssistantAppContent im\<rparr>,
     \<lparr>desc_id = AppAiChat, desc_name = ''AI Chat'', desc_shortName = ''AI'',
      desc_description = ''Conversations and model controls'',
      desc_detachedWindowName = ''AI Chat###DetachedAiChat'',
      desc_render = ShowAiChatAppContent im\<rparr>]"

definition ApplicationRailWindowName :: string where
  "ApplicationRailWindowName = ''Applications###ApplicationRail''"

definition ApplicationContentWindowName :: string where
  "ApplicationContentWindowName = ''App Content###ApplicationContent''"

definition ApplicationConsoleWindowName :: string where
  "ApplicationConsoleWindowName = ''Console###ApplicationLog''"

definition rail_row :: "imgui \<Rightarrow> ('h, 'z) gui_data_scheme DetachableAppDescriptor list \<Rightarrow> nat \<Rightarrow>
    (('h, 'z) gui_data_scheme, unit) window" where
  "rail_row im apps index =
     (let application = apps ! index in block [
       ui_do (UPushID (dec_of_nat index)),
       cbind (ui_get (\<lambda>d. gd_activeApplication d = index)) (\<lambda>selected.
         cbind (ui_ask im (USelectable (desc_name application) selected)) (\<lambda>pressed.
         cwhen pressed (ui_update (\<lambda>d. d\<lparr>gd_activeApplication := index\<rparr>)))),
       ui_do (UTextDisabled (desc_shortName application @ ''  '' @ desc_description application)),
       cbind (ui_get (\<lambda>d. gd_detached d ! index)) (\<lambda>detached.
         cbind (ui_ask im (USmallButton (if detached then ''Attach to center'' else ''Open separately''))) (\<lambda>pressed.
         cwhen pressed (ui_update (\<lambda>d. d\<lparr>gd_activeApplication := index,
           gd_detached := (gd_detached d)[index := \<not> gd_detached d ! index]\<rparr>)))),
       ui_do USpacing,
       ui_do UPopID])"

definition ShowApplicationRail :: "imgui \<Rightarrow> ('h, 'z) gui_data_scheme DetachableAppDescriptor list \<Rightarrow>
    (('h, 'z) gui_data_scheme, unit) window" where
  "ShowApplicationRail im apps =
     cbind (ui_ask im (UBegin ApplicationRailWindowName)) (\<lambda>shown.
     if \<not> shown then ui_do UEnd
     else block [
       ui_do (UTextDisabled ''WORKSPACE''),
       ui_do (UTextWrapped ''Choose an app or pop it into its own ImGui window.''),
       ui_do USpacing,
       ui_do USeparator,
       cfor [0..<length apps] (rail_row im apps),
       ui_do USeparator,
       cbind (ui_get gd_showApplicationLog) (\<lambda>v. cbind (ui_checkbox im ''Console (F12)'' v) (\<lambda>(_, v).
         ui_update (\<lambda>d. d\<lparr>gd_showApplicationLog := v\<rparr>))),
       cbind (ui_ask im (UButton ''Application map'')) (\<lambda>pressed.
         cwhen pressed (ui_update (\<lambda>d. d\<lparr>gd_showApplicationMap := True\<rparr>))),
       cbind (ui_ask im (UButton ''Exit'')) (\<lambda>pressed. cwhen pressed (update_monitor RequestExit)),
       ui_do UEnd])"

definition active_detached :: "(('h, 'z) gui_data_scheme, bool) window" where
  "active_detached = ui_get (\<lambda>d. gd_detached d ! gd_activeApplication d)"

definition detach_active :: "bool \<Rightarrow> (('h, 'z) gui_data_scheme, unit) window" where
  "detach_active b = ui_update (\<lambda>d. d\<lparr>gd_detached := (gd_detached d)[gd_activeApplication d := b]\<rparr>)"

definition ShowCentralApplication :: "imgui \<Rightarrow> ('h, 'z) gui_data_scheme DetachableAppDescriptor list \<Rightarrow>
    (('h, 'z) gui_data_scheme, unit) window" where
  "ShowCentralApplication im apps =
     cbind (ui_ask im (UBegin ApplicationContentWindowName)) (\<lambda>shown.
     if \<not> shown then ui_do UEnd
     else cbind (ui_get gd_activeApplication) (\<lambda>active.
       (let application = apps ! active in block [
         ui_do (UTextDisabled ''ACTIVE APP''),
         ui_do USameLine,
         ui_do (UText (desc_name application)),
         ui_do USameLine,
         ui_do USetCursorPosX,
         cbind active_detached (\<lambda>detached.
           if detached
           then cbind (ui_ask im (UButton ''Attach here'')) (\<lambda>pressed. cwhen pressed (detach_active False))
           else cbind (ui_ask im (UButton ''Detach app'')) (\<lambda>pressed. cwhen pressed (detach_active True))),
         ui_do USeparator,
         ui_do USpacing,
         cbind active_detached (\<lambda>detached.
           if detached
           then block [
             ui_do (UTextWrapped (desc_name application @ '' is running in a separate ImGui window.'')),
             ui_do (UTextDisabled ''The center remains the switchable workspace for every attached app.'')]
           else desc_render application),
         ui_do UEnd])))"

definition detached_window :: "imgui \<Rightarrow> ('h, 'z) gui_data_scheme DetachableAppDescriptor list \<Rightarrow> nat \<Rightarrow>
    (('h, 'z) gui_data_scheme, unit) window" where
  "detached_window im apps index =
     cbind (ui_get (\<lambda>d. gd_detached d ! index)) (\<lambda>detached.
     if \<not> detached then cret ()
     else (let application = apps ! index in
       cseq (ui_do (USetNext ''WindowSize''))
        (cbind (ui_begin im (desc_detachedWindowName application) True) (\<lambda>(shown, is_open). block [
           cwhen shown (block [
             ui_do (UTextDisabled ''DETACHED APP  |  shared shell, isolated frontend''),
             ui_do USeparator,
             desc_render application]),
           ui_do UEnd,
           cwhen (\<not> is_open) (ui_update (\<lambda>d. d\<lparr>gd_detached := (gd_detached d)[index := False]\<rparr>))]))))"

definition ShowDetachedApplications :: "imgui \<Rightarrow> ('h, 'z) gui_data_scheme DetachableAppDescriptor list \<Rightarrow>
    (('h, 'z) gui_data_scheme, unit) window" where
  "ShowDetachedApplications im apps = cfor [0..<length apps] (detached_window im apps)"

definition map_row :: "('h, 'z) gui_data_scheme DetachableAppDescriptor \<Rightarrow> (('h, 'z) gui_data_scheme, unit) window" where
  "map_row application = block [
     ui_do UTableNextRow,
     ui_do UTableNextColumn,
     ui_do (UText (desc_name application)),
     ui_do UTableNextColumn,
     ui_do (UText ''ImGui shell | logging | storage''),
     ui_do UTableNextColumn,
     ui_do (UTextDisabled ''None'')]"

definition map_table :: "imgui \<Rightarrow> ('h, 'z) gui_data_scheme DetachableAppDescriptor list \<Rightarrow>
    (('h, 'z) gui_data_scheme, unit) window" where
  "map_table im apps =
     cbind (ui_ask im (UBeginTable ''ApplicationRelationships'' 3)) (\<lambda>opened.
     if \<not> opened then cret ()
     else block [
       ui_do (UTableSetupColumn ''Detachable app''),
       ui_do (UTableSetupColumn ''Shared framework''),
       ui_do (UTableSetupColumn ''Direct app links''),
       ui_do UTableHeadersRow,
       cfor apps map_row,
       ui_do UEndTable])"

definition ShowApplicationMap :: "imgui \<Rightarrow> ('h, 'z) gui_data_scheme DetachableAppDescriptor list \<Rightarrow>
    (('h, 'z) gui_data_scheme, unit) window" where
  "ShowApplicationMap im apps =
     cbind (ui_get gd_showApplicationMap) (\<lambda>shows.
     if \<not> shows then cret ()
     else cseq (ui_do (USetNext ''WindowSize''))
      (cbind (ui_begin im ''Application map###ApplicationMap'' shows) (\<lambda>(shown, is_open).
       cseq (ui_update (\<lambda>d. d\<lparr>gd_showApplicationMap := is_open\<rparr>))
        (if \<not> shown then ui_do UEnd
         else block [
           ui_do (UTextWrapped (''Apps are independent by default. Shared framework services are the deliberate common boundary; direct ''
             @ ''app-to-app links should be added here when they become necessary.'')),
           ui_do USpacing,
           map_table im apps,
           ui_do USpacing,
           ui_do (UTextDisabled ''Recommendation: show future integrations here with direction, data type, and health.''),
           ui_do UEnd]))))"

definition ShowDetachableAppWorkspace :: "imgui \<Rightarrow> ('h, 'z) gui_data_scheme DetachableAppDescriptor list \<Rightarrow>
    (('h, 'z) gui_data_scheme, unit) window" where
  "ShowDetachableAppWorkspace im apps = block [
     ShowApplicationRail im apps,
     ShowCentralApplication im apps,
     ShowDetachedApplications im apps,
     ShowApplicationMap im apps]"

section \<open>The log window\<close>

definition severity_names :: "string list" where
  "severity_names = [''Fatal'', ''Error'', ''Warning'', ''Info'', ''Debug'', ''Trace'']"

definition visibleRows :: "DisplayEntry list \<Rightarrow> bool list \<Rightarrow> (nat \<times> nat) list" where
  "visibleRows displayedEntries severityEnabled =
     concat (map (\<lambda>index. let displayedEntry = displayedEntries ! index in
       if \<not> severityEnabled ! SeverityIndex (log_level (de_entry displayedEntry)) then []
       else map (\<lambda>lineIndex. (index, lineIndex)) [0..<length (de_lines displayedEntry)]) [0..<length displayedEntries])"

definition severity_filter :: "imgui \<Rightarrow> nat \<Rightarrow> (('h, 'z) gui_data_scheme, unit) window" where
  "severity_filter im index = block [
     ui_do USameLine,
     ui_do (UPushStyleColor (severity_names ! index)),
     cbind (ui_get (\<lambda>d. gd_severityEnabled d ! index)) (\<lambda>v.
       cbind (ui_checkbox im (severity_names ! index) v) (\<lambda>(_, v).
       ui_update (\<lambda>d. d\<lparr>gd_severityEnabled := (gd_severityEnabled d)[index := v]\<rparr>))),
     ui_do UPopStyleColor]"

definition log_row :: "DisplayEntry list \<Rightarrow> (nat \<times> nat) list \<Rightarrow> nat \<Rightarrow> ('s, unit) window" where
  "log_row displayedEntries rows row =
     (case rows ! row of (entryIndex, lineIndex) \<Rightarrow>
       (let displayedEntry = displayedEntries ! entryIndex in block [
         ui_do (UPushStyleColor (severity_names ! SeverityIndex (log_level (de_entry displayedEntry)))),
         ui_do (UText (c_str (de_lines displayedEntry ! lineIndex))),
         ui_do UPopStyleColor]))"

text \<open>
  The child window with the rows. The number of rows goes through \<^verbatim>\<open>static_cast<int>\<close>, which
  is exact below 2 to the 31.
\<close>

definition log_entries :: "imgui \<Rightarrow> bool \<Rightarrow> (('h, 'z) gui_data_scheme, unit) window" where
  "log_entries im receivedNewEntries =
     cbind (ui_get (\<lambda>d. (lw_displayedEntries (gd_logWindow d), gd_severityEnabled d, gd_autoScroll d)))
       (\<lambda>(displayedEntries, severityEnabled, autoScroll).
     (let rows = visibleRows displayedEntries severityEnabled in block [
       ui_do USeparator,
       cbind (ui_ask im (UBeginChild ''ApplicationLogEntries'')) (\<lambda>shown. cwhen shown
         (cbind (ui_ask im UScrolledToBottom) (\<lambda>wasAtBottom.
          cbind (ui_clipper im (length rows)) (\<lambda>ranges. block [
            cfor ranges (\<lambda>(display_start, display_end). cfor [display_start..<display_end] (log_row displayedEntries rows)),
            cwhen (autoScroll \<and> wasAtBottom \<and> receivedNewEntries \<and> rows \<noteq> []) (ui_do USetScrollHereY)])))),
       ui_do UEndChild]))"

definition ShowApplicationLog :: "imgui \<Rightarrow> (('h, 'z) gui_data_scheme, unit) window" where
  "ShowApplicationLog im =
     cbind (ui_get (\<lambda>d. GetLogEntriesSince (lw_lastSequence (gd_logWindow d)) (gd_logger d) \<noteq> [])) (\<lambda>receivedNewEntries.
     cseq (ui_update (\<lambda>d. d\<lparr>gd_logWindow := follow_log (gd_logger d) (gd_logWindow d)\<rparr>))
     (cbind (ui_get gd_showApplicationLog) (\<lambda>p_open.
      cbind (ui_begin im ApplicationConsoleWindowName p_open) (\<lambda>(shown, is_open).
      cseq (ui_update (\<lambda>d. d\<lparr>gd_showApplicationLog := is_open\<rparr>))
       (if \<not> shown then ui_do UEnd
        else block [
          cbind (ui_ask im (UButton ''Clear'')) (\<lambda>pressed. cwhen pressed (ui_update (\<lambda>d.
            case clear_log (gd_logger d) (gd_logWindow d) of (logger, window) \<Rightarrow> d\<lparr>gd_logger := logger, gd_logWindow := window\<rparr>))),
          ui_do USameLine,
          cbind (ui_get gd_autoScroll) (\<lambda>v. cbind (ui_checkbox im ''Auto-scroll'' v) (\<lambda>(_, v).
            ui_update (\<lambda>d. d\<lparr>gd_autoScroll := v\<rparr>))),
          ui_do USameLine,
          ui_do (UText ''Filters:''),
          cfor [0..<length severity_order] (severity_filter im),
          log_entries im receivedNewEntries,
          ui_do UEnd])))))"

section \<open>A frame\<close>

definition ShowViewportDockSpace :: "imgui \<Rightarrow> ('s, unit) window" where
  "ShowViewportDockSpace im = block [
     ui_do (USetNext ''WindowPos''),
     ui_do (USetNext ''WindowSize''),
     ui_do (USetNext ''WindowViewport''),
     ui_do (USetNext ''WindowBgAlpha''),
     ui_do (UPushStyleVar ''WindowRounding''),
     ui_do (UPushStyleVar ''WindowBorderSize''),
     ui_do (UPushStyleVar ''WindowPadding''),
     ui_do (UBegin ''Watchlist DockSpace Host''),
     ui_do (UPopStyleVar 3),
     cbind (ui_ask im UDockBuilderGetNode) (\<lambda>known. cwhen (\<not> known) (block [
       ui_do (UDockBuilder ''AddNode''),
       ui_do (UDockBuilder ''SetNodePos''),
       ui_do (UDockBuilder ''SetNodeSize''),
       ui_do (UDockBuilder ''SplitNode Down''),
       ui_do (UDockBuilder ''SplitNode Left''),
       ui_do (UDockBuilder (''DockWindow left '' @ ApplicationRailWindowName)),
       ui_do (UDockBuilder (''DockWindow central '' @ ApplicationContentWindowName)),
       ui_do (UDockBuilder (''DockWindow bottom '' @ ApplicationConsoleWindowName)),
       ui_do (UDockBuilder ''Finish'')])),
     ui_do UDockSpace,
     ui_do UEnd]"

definition ShowWindow :: "imgui \<Rightarrow> ('h \<Rightarrow> string \<Rightarrow> cpp_exn + unit) \<Rightarrow> string \<Rightarrow>
    (('h, 'z) gui_data_scheme, unit) window" where
  "ShowWindow im call now =
     cbind (get_monitor mon_exitRequested) (\<lambda>exits.
     if exits then cret ()
     else block [
       cbind (ui_ask im (UIsKeyPressed ''F12'')) (\<lambda>pressed.
         cwhen pressed (ui_update (\<lambda>d. d\<lparr>gd_showApplicationLog := \<not> gd_showApplicationLog d\<rparr>))),
       ShowViewportDockSpace im,
       ShowDetachableAppWorkspace im (Applications im call now),
       cbind (ui_get gd_showApplicationLog) (\<lambda>shows. cwhen shows (ShowApplicationLog im))])"

section \<open>Invariants of a frame\<close>

lemma scoped_conj:
  "scoped I m st P \<Longrightarrow> scoped J m st P \<Longrightarrow> scoped (\<lambda>d. I d \<and> J d) m st P"
  unfolding scoped_def by (metis Inr_inject Pair_inject)

lemma scoped_cfor_in: "(\<And>x. x \<in> set xs \<Longrightarrow> scoped I (f x) st (\<lambda>_. st)) \<Longrightarrow> scoped I (cfor xs f) st (\<lambda>_. st)"
  by (induction xs) (auto intro: scoped_cret scoped_cseq)

lemma scoped_get_known:
  "(\<And>x. R x \<Longrightarrow> scoped I (g x) st P) \<Longrightarrow> (\<And>d. I d \<Longrightarrow> R (f d)) \<Longrightarrow> scoped I (cbind (ui_get f) g) st P"
  by (simp add: scoped_def cbind_def ui_get_def)

lemma scoped_dockspace [scoped_intros]: "scoped I (ShowViewportDockSpace im) st (\<lambda>_. st)"
  unfolding ShowViewportDockSpace_def by (rule app_rules | simp)+

lemma scoped_map_row [scoped_intros]: "scoped I (map_row application) st (\<lambda>_. st)"
  unfolding map_row_def by (rule app_rules | simp)+

lemma scoped_map_table [scoped_intros]: "scoped I (map_table im apps) st (\<lambda>_. st)"
  unfolding map_table_def by (rule scoped_map_row app_rules | simp)+

lemma scoped_log_row [scoped_intros]: "scoped I (log_row entries rows row) st (\<lambda>_. st)"
  unfolding log_row_def by (rule app_rules | simp)+

lemma scoped_log_entries [scoped_intros]: "scoped I (log_entries im received) st (\<lambda>_. st)"
  unfolding log_entries_def by (rule scoped_log_row app_rules | simp)+

text \<open>
  The contract between the applications and a property \<open>I\<close> of the data: that of the Watchlist
  windows, and that \<open>I\<close> survives what the two previews write.
\<close>

locale app_invariant = window_invariant im call now I
  for im :: imgui and call :: "'h \<Rightarrow> string \<Rightarrow> cpp_exn + unit" and now :: string
    and I :: "('h, 'z) gui_data_scheme \<Rightarrow> bool" +
  assumes lights: "I d \<Longrightarrow> I (d\<lparr>gd_livingRoomLights := b\<rparr>)"
    and night: "I d \<Longrightarrow> I (d\<lparr>gd_nightMode := b\<rparr>)"
    and temperature: "I d \<Longrightarrow> I (d\<lparr>gd_targetTemperature := t\<rparr>)"
    and prompt_edit: "I d \<Longrightarrow> I (d\<lparr>gd_prompt := im_text im es (UInputTextWithHint label hint (gd_prompt d))\<rparr>)"
    and prompt_send: "I d \<Longrightarrow> I (d\<lparr>gd_prompt := (gd_prompt d)[0 := CHR 0x00]\<rparr>)"
begin

lemma scoped_input_prompt: "scoped I (input_prompt im) st (\<lambda>_. st)"
  by (simp add: scoped_def input_prompt_def cbind_def ui_get_def ui_edit_def ui_update_def ui_note_def
      scopes_append neutral_scope prompt_edit)

lemma scoped_chat: "scoped I (ShowAiChatAppContent im) st (\<lambda>_. st)"
  unfolding ShowAiChatAppContent_def
  by (rule scoped_input_prompt scoped_update prompt_send app_rules | assumption | simp)+

lemma scoped_home: "scoped I (ShowHomeAssistantAppContent im) st (\<lambda>_. st)"
  unfolding ShowHomeAssistantAppContent_def
  by (rule scoped_update lights night temperature app_rules | assumption | simp)+

lemma scoped_application:
  assumes "index < 3"
  shows "scoped I (desc_render (Applications im call now ! index)) st (\<lambda>_. st)"
proof -
  from assms have "index = 0 \<or> index = 1 \<or> index = 2" by auto
  then show ?thesis by (auto simp: Applications_def scoped_content scoped_home scoped_chat)
qed

end

text \<open>The contract of the whole frame.\<close>

locale frame_invariant = app_invariant im call now I
  for im :: imgui and call :: "'h \<Rightarrow> string \<Rightarrow> cpp_exn + unit" and now :: string
    and I :: "('h, 'z) gui_data_scheme \<Rightarrow> bool" +
  assumes within: "I d \<Longrightarrow> gd_activeApplication d < 3"
    and activate: "I d \<Longrightarrow> i < 3 \<Longrightarrow> I (d\<lparr>gd_activeApplication := i\<rparr>)"
    and detach: "I d \<Longrightarrow> I (d\<lparr>gd_detached := (gd_detached d)[i := b]\<rparr>)"
    and show_map: "I d \<Longrightarrow> I (d\<lparr>gd_showApplicationMap := b\<rparr>)"
    and show_log: "I d \<Longrightarrow> I (d\<lparr>gd_showApplicationLog := b\<rparr>)"
    and follow: "I d \<Longrightarrow> I (d\<lparr>gd_logWindow := follow_log (gd_logger d) (gd_logWindow d)\<rparr>)"
    and clear: "I d \<Longrightarrow> I (d\<lparr>gd_logger := ClearLogEntries (gd_logger d),
      gd_logWindow := (gd_logWindow d)\<lparr>lw_displayedEntries := []\<rparr>\<rparr>)"
    and severity: "I d \<Longrightarrow> I (d\<lparr>gd_severityEnabled := (gd_severityEnabled d)[i := b]\<rparr>)"
    and scrolls: "I d \<Longrightarrow> I (d\<lparr>gd_autoScroll := b\<rparr>)"
begin

lemma scoped_rail_row:
  assumes "index < 3"
  shows "scoped I (rail_row im apps index) st (\<lambda>_. st)"
proof -
  have toggle: "I (d\<lparr>gd_activeApplication := index, gd_detached := (gd_detached d)[index := b]\<rparr>)" if "I d" for d b
    using detach [OF activate [OF that assms]] by simp
  show ?thesis
    unfolding rail_row_def
    by (rule scoped_update toggle activate assms app_rules | assumption | simp)+
qed

lemma scoped_rail:
  assumes "length apps = 3"
  shows "scoped I (ShowApplicationRail im apps) st (\<lambda>_. st)"
  unfolding ShowApplicationRail_def
  by (rule scoped_cfor_in scoped_rail_row scoped_acts scoped_update show_log show_map app_rules | assumption | simp add: assms)+

lemma scoped_central:
  assumes "\<And>index st. index < 3 \<Longrightarrow> scoped I (desc_render (apps ! index)) st (\<lambda>_. st)"
  shows "scoped I (ShowCentralApplication im apps) st (\<lambda>_. st)"
  unfolding ShowCentralApplication_def active_detached_def detach_active_def Let_def
  by (rule scoped_get_known [where R = "\<lambda>i. i < 3"] assms scoped_update detach within app_rules | assumption | simp)+

lemma scoped_detached:
  assumes "\<And>index st. index < 3 \<Longrightarrow> scoped I (desc_render (apps ! index)) st (\<lambda>_. st)" "length apps = 3"
  shows "scoped I (ShowDetachedApplications im apps) st (\<lambda>_. st)"
  unfolding ShowDetachedApplications_def detached_window_def Let_def
  by (rule scoped_cfor_in assms scoped_update detach app_rules | assumption | simp add: assms)+

lemma scoped_map: "scoped I (ShowApplicationMap im apps) st (\<lambda>_. st)"
  unfolding ShowApplicationMap_def
  by (rule scoped_map_table scoped_update show_map app_rules | assumption | simp)+

lemma scoped_severity: "scoped I (severity_filter im index) st (\<lambda>_. st)"
  unfolding severity_filter_def by (rule scoped_update severity app_rules | assumption | simp)+

lemma scoped_log: "scoped I (ShowApplicationLog im) st (\<lambda>_. st)"
  unfolding ShowApplicationLog_def clear_log_def prod.case
  by (rule scoped_severity scoped_log_entries scoped_update follow show_log clear scrolls app_rules | assumption | simp)+

lemma scoped_frame: "scoped I (ShowWindow im call now) st (\<lambda>_. st)"
  unfolding ShowWindow_def ShowDetachableAppWorkspace_def
  by (rule scoped_dockspace scoped_rail scoped_central scoped_detached scoped_map scoped_application scoped_log scoped_update
      show_log app_rules | assumption | simp add: Applications_def)+

end

section \<open>What a frame keeps\<close>

text \<open>The indices and the fixed-size arrays of the workspace and of the log window.\<close>

definition shape_ok :: "('h, 'z) gui_data_scheme \<Rightarrow> bool" where
  "shape_ok d \<longleftrightarrow> gd_activeApplication d < 3 \<and> length (gd_detached d) = 3 \<and> length (gd_severityEnabled d) = 6"

definition prompt_ok :: "string \<Rightarrow> bool" where
  "prompt_ok prompt \<longleftrightarrow> length prompt = 1024 \<and> CHR 0x00 \<in> set prompt"

definition gui_ok :: "('h, 'z) gui_data_scheme \<Rightarrow> bool" where
  "gui_ok d \<longleftrightarrow> (shape_ok d \<and> prompt_ok (gd_prompt d)) \<and> editor_ok (ad_monitor d) \<and>
     (case ad_mqtt d of None \<Rightarrow> True | Some app \<Rightarrow> type_ok (app_console app))"

lemma prompt_ok_send: "prompt_ok p \<Longrightarrow> prompt_ok (p[0 := CHR 0x00])"
  by (cases p) (auto simp: prompt_ok_def)

lemma gui_ok_initial:
  "editor_ok monitor \<Longrightarrow> (case mqtt of None \<Rightarrow> True | Some app \<Rightarrow> type_ok (app_console app)) \<Longrightarrow>
   gui_ok (initial_gui monitor mqtt logger)"
  by (simp add: gui_ok_def shape_ok_def prompt_ok_def initial_gui_def)

interpretation statics: monitor_closed im call now "\<lambda>d. shape_ok d \<and> prompt_ok (gd_prompt d)" for im call now
  by unfold_locales (simp_all add: shape_ok_def)

interpretation traced: monitor_closed im call now "\<lambda>d. shape_ok d \<and> acted m (ad_monitor d)" for im call now m
  by unfold_locales (simp_all add: shape_ok_def acted_step)

interpretation traced: frame_invariant im call now "\<lambda>d. shape_ok d \<and> acted m (ad_monitor d)" for im call now m
  by unfold_locales (simp_all add: shape_ok_def)

sublocale imgui_library \<subseteq> gui: frame_invariant im call now gui_ok for call now
proof unfold_locales
  show "gui_ok (d\<lparr>gd_prompt := im_text im es (UInputTextWithHint label hint (gd_prompt d))\<rparr>)" if "gui_ok d" for d es label hint
    using that buffer_text [of "gd_prompt d" es label hint] by (simp add: gui_ok_def shape_ok_def prompt_ok_def)
  show "scoped gui_ok (ShowEditor im) st (\<lambda>_. st)" "scoped gui_ok (ShowMqttConsole im call now) st (\<lambda>_. st)" for call now st
    unfolding gui_ok_def
    by (intro scoped_conj statics.closed_editor statics.closed_console editing_window ids.closed_console
        types.closed_editor types_console)+
qed (auto simp: gui_ok_def shape_ok_def prompt_ok_send editor_ok_act)

context imgui_library
begin

lemma scoped_gui_frame: "scoped gui_ok (ShowWindow im call now) st (\<lambda>_. st)"
  by (rule gui.scoped_frame)

end

section \<open>Every application is drawn at most once\<close>

text \<open>The table of applications with a record of the indices whose renderers are called.\<close>

record 'h drawn_data = "'h gui_data" +
  dd_drawn :: "nat list"

definition note_drawn :: "nat \<Rightarrow> (('h, 'z) drawn_data_scheme, unit) window" where
  "note_drawn i = ui_update (\<lambda>d. d\<lparr>dd_drawn := dd_drawn d @ [i]\<rparr>)"

definition recording :: "('h, 'z) drawn_data_scheme DetachableAppDescriptor list \<Rightarrow>
    ('h, 'z) drawn_data_scheme DetachableAppDescriptor list" where
  "recording apps = map (\<lambda>(i, a). a\<lparr>desc_render := cseq (note_drawn i) (desc_render a)\<rparr>) (enumerate 0 apps)"

lemma length_recording [simp]: "length (recording apps) = length apps"
  by (simp add: recording_def)

lemma desc_recording:
  "i < length apps \<Longrightarrow> desc_render (recording apps ! i) = cseq (note_drawn i) (desc_render (apps ! i))"
  by (simp add: recording_def nth_enumerate_eq)

text \<open>The renderers leave the workspace and the record alone.\<close>

abbreviation drawing :: "nat \<Rightarrow> bool list \<Rightarrow> nat list \<Rightarrow> ('h, 'z) drawn_data_scheme \<Rightarrow> bool" where
  "drawing active detached drawn \<equiv> \<lambda>d. gd_activeApplication d = active \<and> gd_detached d = detached \<and> dd_drawn d = drawn"

interpretation drawing: monitor_closed im call now "drawing active detached drawn" for im call now active detached drawn
  by unfold_locales simp_all

interpretation drawing: app_invariant im call now "drawing active detached drawn" for im call now active detached drawn
  by unfold_locales simp_all

lemma draw_once:
  assumes "i < 3"
  shows "runs (drawing active detached drawn) (desc_render (recording (Applications im call now) ! i)) st (\<lambda>_. st)
    (\<lambda>_. drawing active detached (drawn @ [i]))"
proof -
  have "i < length (Applications im call now)" using assms by (simp add: Applications_def)
  show ?thesis
    unfolding desc_recording [OF \<open>i < length (Applications im call now)\<close>] note_drawn_def
    by (rule runs_cseq, rule runs_update [where J = "\<lambda>_. drawing active detached (drawn @ [i])"], simp)
      (rule runs_scoped [OF drawing.scoped_application [OF assms]])
qed

lemma draw_then:
  assumes "i < 3" and step: "\<And>d d'. I d \<Longrightarrow> drawing (gd_activeApplication d) (gd_detached d) (dd_drawn d @ [i]) d' \<Longrightarrow> J d'"
  shows "runs I (desc_render (recording (Applications im call now) ! i)) st (\<lambda>_. st) (\<lambda>_. J)"
  unfolding runs_def
proof (intro allI impI)
  fix s :: "('a, 'b) drawn_data_scheme ui"
  assume s: "scopes (ui_events s) [] = Some st \<and> I (ui_data s)"
  let ?d = "ui_data s"
  have "runs (drawing (gd_activeApplication ?d) (gd_detached ?d) (dd_drawn ?d))
      (desc_render (recording (Applications im call now) ! i)) st (\<lambda>_. st)
      (\<lambda>_. drawing (gd_activeApplication ?d) (gd_detached ?d) (dd_drawn ?d @ [i]))"
    by (rule draw_once [OF assms(1)])
  with s obtain x s' where "desc_render (recording (Applications im call now) ! i) s = (Inr x, s')"
    "scopes (ui_events s') [] = Some st" "drawing (gd_activeApplication ?d) (gd_detached ?d) (dd_drawn ?d @ [i]) (ui_data s')"
    unfolding runs_def by blast
  with s step show "\<exists>x s'. desc_render (recording (Applications im call now) ! i) s = (Inr x, s') \<and>
      scopes (ui_events s') [] = Some st \<and> J (ui_data s')" by blast
qed

text \<open>The workspace, with a property \<open>R\<close> of what has been drawn.\<close>

abbreviation drawn_ok :: "(nat list \<Rightarrow> bool) \<Rightarrow> ('h, 'z) drawn_data_scheme \<Rightarrow> bool" where
  "drawn_ok R \<equiv> \<lambda>d. gd_activeApplication d < 3 \<and> length (gd_detached d) = 3 \<and> R (dd_drawn d)"

interpretation drawn: monitor_closed im call now "drawn_ok R" for im call now R
  by unfold_locales simp_all

interpretation drawn: frame_invariant im call now "drawn_ok R" for im call now R
  by unfold_locales simp_all

definition drawn_attached :: "('h, 'z) drawn_data_scheme \<Rightarrow> bool" where
  "drawn_attached d \<longleftrightarrow> drawn_ok distinct d \<and> (\<forall>i \<in> set (dd_drawn d). \<not> gd_detached d ! i)"

lemma runs_scoped_then: "scoped I m st P \<Longrightarrow> runs I n (P ()) Q K \<Longrightarrow> runs I (cseq m n) st Q K"
  by (rule runs_cseq [OF runs_scoped])

abbreviation undrawn :: "nat \<Rightarrow> ('h, 'z) drawn_data_scheme \<Rightarrow> bool" where
  "undrawn a \<equiv> \<lambda>d. drawn_ok (\<lambda>r. r = []) d \<and> gd_activeApplication d = a"

lemma runs_central_content:
  "runs (undrawn a) (cbind active_detached (\<lambda>detached. if detached
      then block [ui_do (UTextWrapped t), ui_do (UTextDisabled u)]
      else desc_render (recording (Applications im call now) ! a))) st (\<lambda>_. st) (\<lambda>_. drawn_attached)"
  unfolding active_detached_def
proof (rule runs_cbind [OF runs_get [where J = "\<lambda>b d. undrawn a d \<and> gd_detached d ! a = b"]], goal_cases)
  case (2 b)
  show ?case
  proof (cases "a < 3")
    case True
    show ?thesis
      by (cases b, simp_all only: if_True if_False)
        (rule runs_scoped, (rule app_rules | simp)+, simp add: drawn_attached_def,
         rule draw_then [OF True], auto simp: drawn_attached_def)
  qed (auto simp: runs_def)
qed simp

lemma runs_central:
  "runs (drawn_ok (\<lambda>r. r = [])) (ShowCentralApplication im (recording (Applications im call now))) st (\<lambda>_. st) (\<lambda>_. drawn_attached)"
  unfolding ShowCentralApplication_def
proof (rule runs_cbind [OF runs_scoped [OF scoped_window(1)]], assumption, goal_cases)
  case (1 shown)
  have toggle: "scoped (undrawn a) (cbind active_detached (\<lambda>detached. if detached
      then cbind (ui_ask im (UButton l)) (\<lambda>pressed. cwhen pressed (detach_active False))
      else cbind (ui_ask im (UButton l')) (\<lambda>pressed. cwhen pressed (detach_active True)))) st' (\<lambda>_. st')" for a l l' st'
    unfolding active_detached_def detach_active_def by (rule scoped_update app_rules | simp)+
  show ?case
  proof (rule runs_if, goal_cases)
    case 1
    show ?case by (rule runs_scoped, rule app_rules) (simp add: drawn_attached_def)
  next
    case 2
    show ?case
      unfolding Let_def block.simps
      by (rule runs_cbind [OF runs_get [where J = undrawn]], simp)
        (rule runs_cseq [OF runs_central_content [unfolded block.simps]] runs_scoped_then toggle runs_cret app_rules | assumption | simp)+
  qed
qed

text \<open>Before the \<open>i\<close>-th detached window: what was drawn is attached or has had its turn.\<close>

definition drawn_before :: "nat \<Rightarrow> ('h, 'z) drawn_data_scheme \<Rightarrow> bool" where
  "drawn_before i d \<longleftrightarrow> drawn_ok distinct d \<and> (\<forall>x \<in> set (dd_drawn d). x < i \<or> \<not> gd_detached d ! x)"

lemma drawn_before_close: "drawn_before (Suc i) d \<Longrightarrow> drawn_before (Suc i) (d\<lparr>gd_detached := (gd_detached d)[i := False]\<rparr>)"
  by (auto simp: drawn_before_def nth_list_update)

lemma runs_detached_window:
  assumes "i < 3"
  shows "runs (drawn_before i) (detached_window im (recording (Applications im call now)) i) st (\<lambda>_. st) (\<lambda>_. drawn_before (Suc i))"
proof -
  let ?K = "\<lambda>d. drawn_before i d \<and> gd_detached d ! i"
  have draw: "runs ?K (cwhen shown (block [ui_do (UTextDisabled t), ui_do USeparator,
      desc_render (recording (Applications im call now) ! i)])) st' (\<lambda>_. st') (\<lambda>_. drawn_before (Suc i))" for shown t st'
    unfolding block.simps
    by (rule runs_cwhen runs_scoped_then runs_cseq [OF draw_then [OF assms, where J = "drawn_before (Suc i)"]] runs_cret app_rules
      | simp | force simp: drawn_before_def)+
  have close: "scoped (drawn_before (Suc i)) (ui_update (\<lambda>d. d\<lparr>gd_detached := (gd_detached d)[i := False]\<rparr>)) st' (\<lambda>_. st')" for st'
    by (rule scoped_update) (rule drawn_before_close)
  have opened: "runs ?K (cseq (ui_do (USetNext n)) (cbind (ui_begin im name True) (\<lambda>(shown, is_open). block [
      cwhen shown (block [ui_do (UTextDisabled t), ui_do USeparator, desc_render (recording (Applications im call now) ! i)]),
      ui_do UEnd,
      cwhen (\<not> is_open) (ui_update (\<lambda>d. d\<lparr>gd_detached := (gd_detached d)[i := False]\<rparr>))]))) st (\<lambda>_. st)
      (\<lambda>_. drawn_before (Suc i))" for n name t
  proof (rule runs_scoped_then [OF scoped_neutral(1)], simp, rule runs_cbind [OF runs_scoped [OF scoped_window(3)]],
      assumption, goal_cases)
    case (1 v)
    obtain shown is_open where v: "v = (shown, is_open)" by (cases v)
    show ?case
      unfolding v prod.case block.simps
      by (rule runs_cseq [OF draw [unfolded block.simps]] runs_scoped_then close runs_cret app_rules | assumption)+
  qed
  show ?thesis
    unfolding detached_window_def Let_def
  proof (rule runs_cbind [OF runs_get [where J = "\<lambda>b d. drawn_before i d \<and> gd_detached d ! i = b"]], simp, rule runs_if, goal_cases)
    case (1 b)
    then show ?case by (auto simp: drawn_before_def less_Suc_eq intro!: runs_cret)
  next
    case (2 b)
    then show ?case by (intro runs_pre [OF opened]) auto
  qed
qed

lemma runs_workspace:
  "runs (drawn_ok (\<lambda>r. r = [])) (ShowDetachableAppWorkspace im (recording (Applications im call now))) st (\<lambda>_. st)
    (\<lambda>_. drawn_ok distinct)"
proof -
  let ?apps = "recording (Applications im call now)"
  have rail: "scoped (drawn_ok (\<lambda>r. r = [])) (ShowApplicationRail im ?apps) st (\<lambda>_. st)"
    by (rule drawn.scoped_rail) (simp add: Applications_def)
  have loop: "runs (drawn_before 0) (ShowDetachedApplications im ?apps) st (\<lambda>_. st) (\<lambda>_. drawn_before 3)"
    unfolding ShowDetachedApplications_def length_recording
    by (rule subst [of 3 "length (Applications im call now)"], simp add: Applications_def)
      (rule runs_cfor_upt, rule runs_detached_window)
  show ?thesis
    unfolding ShowDetachableAppWorkspace_def block.simps
    by (rule runs_scoped_then [OF rail], rule runs_cseq [OF runs_central], rule runs_cseq [OF runs_pre [OF loop]])
      (auto simp: drawn_attached_def drawn_before_def intro!: runs_pre [OF runs_scoped_then [OF drawn.scoped_map]] runs_cret)
qed

section \<open>The rows of the log window\<close>

definition enabled :: "bool list \<Rightarrow> DisplayEntry \<Rightarrow> bool" where
  "enabled severityEnabled e \<longleftrightarrow> severityEnabled ! SeverityIndex (log_level (de_entry e))"

lemma concat_map_if: "concat (map (\<lambda>x. if P x then [] else f x) xs) = concat (map f (filter (\<lambda>x. \<not> P x) xs))"
  by (induction xs) auto

lemma visibleRows_lines:
  "map (\<lambda>(i, j). de_lines (entries ! i) ! j) (visibleRows entries severityEnabled) =
   concat (map de_lines (filter (enabled severityEnabled) entries))"
proof -
  let ?f = "\<lambda>(i, j). de_lines (entries ! i) ! j"
  have row: "map ?f (if \<not> enabled severityEnabled (entries ! i) then [] else map (\<lambda>j. (i, j)) [0..<length (de_lines (entries ! i))]) =
      (if \<not> enabled severityEnabled (entries ! i) then [] else de_lines (entries ! i))" for i
    by (simp add: o_def map_nth)
  have "map ?f (visibleRows entries severityEnabled) =
      concat (map (\<lambda>i. if \<not> enabled severityEnabled (entries ! i) then [] else de_lines (entries ! i)) [0..<length entries])"
    unfolding visibleRows_def enabled_def [symmetric] Let_def map_concat map_map o_def row ..
  also have "\<dots> = concat (map (\<lambda>e. if \<not> enabled severityEnabled e then [] else de_lines e) (map ((!) entries) [0..<length entries]))"
    by (simp add: o_def)
  finally show ?thesis by (simp add: map_nth concat_map_if)
qed

lemma visibleRows_within:
  "(i, j) \<in> set (visibleRows entries severityEnabled) \<Longrightarrow>
   i < length entries \<and> j < length (de_lines (entries ! i)) \<and> enabled severityEnabled (entries ! i)"
  by (auto simp: visibleRows_def enabled_def Let_def split: if_splits)

section \<open>Properties\<close>

text \<open>
  C7: whatever the user does, a frame leaves nothing open and tells the storage what it did. For every
  answer of ImGui, one frame of the GUI closes every window, child, table, popup, id, colour and
  disabled block that it opens, in turn, keeps the indices of the workspace within its arrays, and
  changes the device list exactly as the storage commands say that it appends to the queue.
\<close>

theorem frame_replays_commands:
  assumes "distinct (map dv_id (mon_devices m))"
  shows "runs (\<lambda>d. shape_ok d \<and> ad_monitor d = m) (ShowWindow im call now) st (\<lambda>_. st)
    (\<lambda>_ d. shape_ok d \<and> (\<exists>cs. mon_commands (ad_monitor d) = mon_commands m @ cs \<and> list_all command_ok cs \<and>
       mon_devices (ad_monitor d) = fold apply_command cs (mon_devices m) \<and>
       distinct (map dv_id (mon_devices (ad_monitor d)))))"
proof -
  have *: "acted m m' \<Longrightarrow> replays m m'" for m' using replays_fold [OF assms] by (auto simp: acted_def)
  show ?thesis
    by (rule runs_pre [OF runs_scoped [OF traced.scoped_frame [of m]]]) (auto dest!: * simp: replays_def)
qed

theorem frame_replays_commands_witness:
  "runs (\<lambda>d. shape_ok d \<and> ad_monitor d = initial_monitor)
    (ShowWindow (pressing ''Add device'') (\<lambda>_ _. Inr ()) ''now'') [] (\<lambda>_. [])
    (\<lambda>_ d. shape_ok d \<and> (\<exists>cs. mon_commands (ad_monitor d) = mon_commands initial_monitor @ cs \<and> list_all command_ok cs \<and>
       mon_devices (ad_monitor d) = fold apply_command cs (mon_devices initial_monitor) \<and>
       distinct (map dv_id (mon_devices (ad_monitor d)))))"
  by (rule frame_replays_commands) (simp add: initial_monitor_def)

text \<open>
  C8: the GUI state stays well formed. If ImGui keeps its contract for combo boxes, disabled items and
  character buffers, every frame keeps the selected application and the selected message type
  within their tables, the prompt buffer 1024 characters long and terminated, and the id of a
  device being edited equal to the id it was opened with.
\<close>

theorem frame_keeps_gui_ok:
  assumes "imgui_library im"
  shows "scoped gui_ok (ShowWindow im call now) st (\<lambda>_. st)"
  by (rule imgui_library.scoped_gui_frame [OF assms])

theorem frame_keeps_gui_ok_witness:
  "scoped gui_ok (ShowWindow (pressing ''Edit'') (\<lambda>_ _. Inr ()) ''now'') [] (\<lambda>_. []) \<and>
   gui_ok (initial_gui initial_monitor (Some (initial_app_state :: unit AppState)) initial_logger)"
proof
  show "scoped gui_ok (ShowWindow (pressing ''Edit'') (\<lambda>_ _. Inr ()) ''now'') [] (\<lambda>_. [])"
    by (rule frame_keeps_gui_ok [OF pressing.imgui_library_axioms])
  show "gui_ok (initial_gui initial_monitor (Some (initial_app_state :: unit AppState)) initial_logger)"
    by (rule gui_ok_initial)
      (simp_all add: editor_ok_def initial_monitor_def type_ok_def initial_app_state_def default_console_def)
qed

text \<open>
  C9: no application is drawn twice in a frame. However the user selects, detaches, attaches and closes
  applications during the frame, each of the three renderers is called at most once, in the centre
  or in its own window.
\<close>

theorem applications_drawn_once:
  "runs (\<lambda>d. gd_activeApplication d < 3 \<and> length (gd_detached d) = 3 \<and> dd_drawn d = [])
    (ShowDetachableAppWorkspace im (recording (Applications im call now))) st (\<lambda>_. st)
    (\<lambda>_ d. gd_activeApplication d < 3 \<and> length (gd_detached d) = 3 \<and> distinct (dd_drawn d))"
  by (rule runs_workspace)

text \<open>
  The log window shows the enabled entries line by line. The rows it computes are, in order,
  exactly the lines of the displayed entries whose severity is enabled, and every row names an
  existing line of an existing entry.
\<close>

theorem log_rows_are_enabled_lines:
  "map (\<lambda>(i, j). de_lines (entries ! i) ! j) (visibleRows entries severityEnabled) =
     concat (map de_lines (filter (\<lambda>e. severityEnabled ! SeverityIndex (log_level (de_entry e))) entries)) \<and>
   list_all (\<lambda>(i, j). i < length entries \<and> j < length (de_lines (entries ! i))) (visibleRows entries severityEnabled)"
  using visibleRows_lines [of entries severityEnabled] visibleRows_within
  by (auto simp: list_all_iff enabled_def [abs_def])

end
