(* ===== verification/Device_Storage.thy ===== *)
theory Device_Storage
  imports Device_Monitor Database_Interface
begin

text \<open>
  \<^verbatim>\<open>src/src/Watchlist/DeviceStorageService.hpp\<close> and \<^verbatim>\<open>.cpp\<close>: the worker that executes
  batches of device commands against an \<^verbatim>\<open>IDatabase\<close> (a parameter of the model) and posts
  one result per batch. Each section under the mutex, and each call on the database between
  two such sections, is one definition; \<open>storage_step\<close> interleaves them with the calls of
  other threads. The lemmas show the effect of a batch, that batches are executed exactly once
  in the order of submission with one result each, and that a stop request drains the queue.
\<close>

record DeviceStorageResult =
  res_success :: bool
  res_error :: string
  res_devices :: "DeviceViewModel list"

datatype ExecutionMode = OwnedThread | CallingThread

text \<open>Where the thread that runs \<^verbatim>\<open>Run\<close> is.\<close>

datatype worker_point = NotRunning | Initializing | Waiting | Executing "DeviceCommand list" | Finished

record 'd DeviceStorageService =
  svc_database :: 'd
  svc_commands :: "DeviceCommand list list"
  svc_results :: "DeviceStorageResult list"
  svc_stopRequested :: bool
  svc_executionMode :: ExecutionMode
  svc_runStarted :: bool
  svc_worker :: worker_point

section \<open>Executing a batch\<close>

definition ToDatabaseItem :: "DeviceViewModel \<Rightarrow> DatabaseItem" where
  "ToDatabaseItem device = \<lparr>item_id = dv_id device, item_name = dv_name device, item_ipAddress = dv_address device,
     item_port = dv_port device, item_alive = dv_alive device\<rparr>"

definition ToViewModel :: "DatabaseItem \<Rightarrow> DeviceViewModel" where
  "ToViewModel device = \<lparr>dv_id = item_id device, dv_name = item_name device, dv_address = item_ipAddress device,
     dv_port = item_port device, dv_alive = item_alive device\<rparr>"

definition execute_command :: "'d IDatabase \<Rightarrow> DeviceCommand \<Rightarrow> ('d, unit) comp" where
  "execute_command db command =
     (case cmd_kind command of
        CommandRefresh \<Rightarrow> cret ()
      | CommandAdd \<Rightarrow>
          (case cmd_device command of
             None \<Rightarrow> cthrow (InvalidArgument ''Add command is missing device data'')
           | Some device \<Rightarrow> idb_AddItem db (ToDatabaseItem device))
      | CommandDelete \<Rightarrow> cbind (idb_RemoveItem db (cmd_targetId command)) (\<lambda>_. cret ())
      | _ \<Rightarrow>
          (case cmd_device command of
             None \<Rightarrow> cthrow (InvalidArgument ''Update command is missing device data'')
           | Some device \<Rightarrow> idb_UpsertItem db (ToDatabaseItem device)))"

definition failed_result :: "string \<Rightarrow> DeviceStorageResult" where
  "failed_result e = \<lparr>res_success = False, res_error = e, res_devices = []\<rparr>"

definition Execute :: "'d IDatabase \<Rightarrow> DeviceCommand list \<Rightarrow> 'd \<Rightarrow> DeviceStorageResult \<times> 'd" where
  "Execute db commands s =
     (case cseq (cfor commands (execute_command db)) (idb_GetAllSortedById db) s of
        (Inr items, s') \<Rightarrow> (\<lparr>res_success = True, res_error = [], res_devices = map ToViewModel items\<rparr>, s')
      | (Inl e, s') \<Rightarrow>
          (failed_result (if is_std_exception e then what e else ''Unknown storage command failure''), s'))"

section \<open>The service\<close>

definition Submit :: "DeviceCommand list \<Rightarrow> 'd DeviceStorageService \<Rightarrow> 'd DeviceStorageService" where
  "Submit commands s = (if commands = [] then s else s\<lparr>svc_commands := svc_commands s @ [commands]\<rparr>)"

definition push_result :: "DeviceStorageResult \<Rightarrow> 'd DeviceStorageService \<Rightarrow> 'd DeviceStorageService" where
  "push_result r s = s\<lparr>svc_results := svc_results s @ [r]\<rparr>"

definition PollResults :: "'d DeviceStorageService \<Rightarrow> DeviceStorageResult list \<times> 'd DeviceStorageService" where
  "PollResults s = (svc_results s, s\<lparr>svc_results := []\<rparr>)"

definition RequestStop :: "'d DeviceStorageService \<Rightarrow> 'd DeviceStorageService" where
  "RequestStop s = s\<lparr>svc_stopRequested := True\<rparr>"

text \<open>
  The constructor. A null database is the value \<open>None\<close>; the worker thread of the owned mode
  starts at its first section whenever the scheduler lets it (\<open>Run_begin\<close>).
\<close>

definition refresh_command :: DeviceCommand where
  "refresh_command = \<lparr>cmd_kind = CommandRefresh, cmd_targetId = [], cmd_device = None\<rparr>"

definition construct_service :: "'d option \<Rightarrow> ExecutionMode \<Rightarrow> cpp_exn + 'd DeviceStorageService" where
  "construct_service database mode =
     (case database of
        None \<Rightarrow> Inl (InvalidArgument ''Device storage database cannot be null'')
      | Some d \<Rightarrow> Inr (Submit [refresh_command]
          \<lparr>svc_database = d, svc_commands = [], svc_results = [], svc_stopRequested = False,
           svc_executionMode = mode, svc_runStarted = False, svc_worker = NotRunning\<rparr>))"

text \<open>\<^verbatim>\<open>Run\<close>, section by section.\<close>

definition Run_begin :: "'d DeviceStorageService \<Rightarrow> 'd DeviceStorageService" where
  "Run_begin s =
     (if svc_runStarted s then push_result (failed_result ''Device storage worker was started more than once'') s
      else s\<lparr>svc_runStarted := True, svc_worker := Initializing\<rparr>)"

definition RunOnCallingThread_begin :: "'d DeviceStorageService \<Rightarrow> 'd DeviceStorageService" where
  "RunOnCallingThread_begin s =
     (if svc_executionMode s \<noteq> CallingThread
      then push_result (failed_result ''RunOnCallingThread requires CallingThread execution mode'') s
      else Run_begin s)"

definition Run_initialize :: "'d IDatabase \<Rightarrow> 'd DeviceStorageService \<Rightarrow> 'd DeviceStorageService" where
  "Run_initialize db s =
     (case idb_Initialize db (svc_database s) of
        (Inr _, d) \<Rightarrow> s\<lparr>svc_database := d, svc_worker := Waiting\<rparr>
      | (Inl e, d) \<Rightarrow>
          push_result (failed_result (if is_std_exception e then what e else ''Unknown storage initialization failure''))
            (s\<lparr>svc_database := d, svc_worker := Finished\<rparr>))"

text \<open>The wait of the loop: \<open>None\<close> while the worker stays blocked on the condition.\<close>

definition Run_take :: "'d DeviceStorageService \<Rightarrow> 'd DeviceStorageService option" where
  "Run_take s =
     (case svc_commands s of
        [] \<Rightarrow> if svc_stopRequested s then Some (s\<lparr>svc_worker := Finished\<rparr>) else None
      | commands # rest \<Rightarrow> Some (s\<lparr>svc_commands := rest, svc_worker := Executing commands\<rparr>))"

definition Run_execute :: "'d IDatabase \<Rightarrow> DeviceCommand list \<Rightarrow> 'd DeviceStorageService \<Rightarrow> 'd DeviceStorageService" where
  "Run_execute db commands s =
     (case Execute db commands (svc_database s) of
        (r, d) \<Rightarrow> push_result r (s\<lparr>svc_database := d, svc_worker := Waiting\<rparr>))"

text \<open>One step of the worker, and the worker run for at most \<open>n\<close> steps.\<close>

definition worker_step :: "'d IDatabase \<Rightarrow> 'd DeviceStorageService \<Rightarrow> 'd DeviceStorageService option" where
  "worker_step db s =
     (case svc_worker s of
        NotRunning \<Rightarrow> None
      | Initializing \<Rightarrow> Some (Run_initialize db s)
      | Waiting \<Rightarrow> Run_take s
      | Executing commands \<Rightarrow> Some (Run_execute db commands s)
      | Finished \<Rightarrow> None)"

fun run_worker :: "nat \<Rightarrow> 'd IDatabase \<Rightarrow> 'd DeviceStorageService \<Rightarrow> 'd DeviceStorageService" where
  "run_worker 0 db s = s"
| "run_worker (Suc n) db s = (case worker_step db s of None \<Rightarrow> s | Some s' \<Rightarrow> run_worker n db s')"

datatype storage_event =
    EvSubmit "DeviceCommand list"
  | EvPoll "DeviceStorageResult list"
  | EvStop
  | EvStart
  | EvWorker

inductive storage_step :: "'d IDatabase \<Rightarrow> 'd DeviceStorageService \<Rightarrow> storage_event \<Rightarrow> 'd DeviceStorageService \<Rightarrow> bool"
  for db where
  Submit: "storage_step db s (EvSubmit cs) (Submit cs s)"
| Poll: "PollResults s = (rs, s') \<Longrightarrow> storage_step db s (EvPoll rs) s'"
| Stop: "storage_step db s EvStop (RequestStop s)"
| Start: "\<not> svc_runStarted s \<Longrightarrow> storage_step db s EvStart (Run_begin s)"
| Worker: "worker_step db s = Some s' \<Longrightarrow> storage_step db s EvWorker s'"

inductive storage_run :: "'d IDatabase \<Rightarrow> 'd DeviceStorageService \<Rightarrow> storage_event list \<Rightarrow> 'd DeviceStorageService \<Rightarrow> bool"
  for db where
  Nil: "storage_run db s [] s"
| Snoc: "storage_run db s evs t \<Longrightarrow> storage_step db t ev u \<Longrightarrow> storage_run db s (evs @ [ev]) u"

inductive_cases storage_stepE: "storage_step db s ev s'"

fun submitted :: "storage_event list \<Rightarrow> DeviceCommand list list" where
  "submitted [] = []"
| "submitted (EvSubmit cs # evs) = (if cs = [] then submitted evs else cs # submitted evs)"
| "submitted (_ # evs) = submitted evs"

fun polled :: "storage_event list \<Rightarrow> DeviceStorageResult list" where
  "polled [] = []"
| "polled (EvPoll rs # evs) = rs @ polled evs"
| "polled (_ # evs) = polled evs"

lemma submitted_append [simp]: "submitted (a @ b) = submitted a @ submitted b"
  by (induction a rule: submitted.induct) auto

lemma polled_append [simp]: "polled (a @ b) = polled a @ polled b"
  by (induction a rule: polled.induct) auto

section \<open>Batches in sequence\<close>

fun batch_results :: "'d IDatabase \<Rightarrow> DeviceCommand list list \<Rightarrow> 'd \<Rightarrow> DeviceStorageResult list \<times> 'd" where
  "batch_results db [] d = ([], d)"
| "batch_results db (b # bs) d =
     (case Execute db b d of (r, d') \<Rightarrow> (case batch_results db bs d' of (rs, d'') \<Rightarrow> (r # rs, d'')))"

lemma batch_results_snoc:
  "batch_results db (bs @ [b]) d =
     (case batch_results db bs d of (rs, d') \<Rightarrow> (case Execute db b d' of (r, d'') \<Rightarrow> (rs @ [r], d'')))"
  by (induction bs arbitrary: d) (auto split: prod.splits)

lemma length_batch_results: "batch_results db bs d = (rs, d') \<Longrightarrow> length rs = length bs"
  by (induction bs arbitrary: d rs) (auto split: prod.splits)

definition executing :: "'d DeviceStorageService \<Rightarrow> DeviceCommand list list" where
  "executing s = (case svc_worker s of Executing b \<Rightarrow> [b] | _ \<Rightarrow> [])"

text \<open>
  What holds of a service that started from database \<open>d0\<close>, after the batches \<open>subs\<close> were
  submitted and the results \<open>rs\<close> were posted (polled or still waiting).
\<close>

definition storage_inv :: "'d IDatabase \<Rightarrow> 'd \<Rightarrow> DeviceCommand list list \<Rightarrow> DeviceStorageResult list \<Rightarrow>
    'd DeviceStorageService \<Rightarrow> bool" where
  "storage_inv db d0 subs rs s \<longleftrightarrow>
     (case svc_worker s of
        NotRunning \<Rightarrow> \<not> svc_runStarted s \<and> svc_database s = d0 \<and> svc_commands s = subs \<and> rs = []
      | Initializing \<Rightarrow> svc_runStarted s \<and> svc_database s = d0 \<and> svc_commands s = subs \<and> rs = []
      | _ \<Rightarrow> svc_runStarted s \<and>
          (case idb_Initialize db d0 of
             (Inr _, d1) \<Rightarrow> (\<exists>bs. subs = bs @ executing s @ svc_commands s \<and> batch_results db bs d1 = (rs, svc_database s) \<and>
               (svc_worker s = Finished \<longrightarrow> svc_stopRequested s))
           | (Inl e, d1) \<Rightarrow> svc_worker s = Finished \<and> svc_database s = d1 \<and> svc_commands s = subs \<and>
               rs = [failed_result (if is_std_exception e then what e else ''Unknown storage initialization failure'')]))"

lemma storage_inv_worker:
  assumes inv: "storage_inv db d0 subs rs s" and step: "worker_step db s = Some s'"
  shows "\<exists>new. svc_results s' = svc_results s @ new \<and> storage_inv db d0 subs (rs @ new) s'"
proof (cases "svc_worker s")
  case Initializing
  then have s': "s' = Run_initialize db s" using step by (simp add: worker_step_def)
  obtain r d1 where i: "idb_Initialize db d0 = (r, d1)" by fastforce
  show ?thesis
  proof (cases r)
    case (Inl e)
    with inv i s' Initializing show ?thesis
      by (auto simp: storage_inv_def Run_initialize_def push_result_def)
  next
    case (Inr u)
    with inv i s' Initializing show ?thesis
      by (auto simp: storage_inv_def Run_initialize_def executing_def)
  qed
next
  case Waiting
  obtain r d1 where i: "idb_Initialize db d0 = (r, d1)" by fastforce
  with inv Waiting obtain u where r: "r = Inr u" by (cases r) (auto simp: storage_inv_def)
  from step Waiting have t: "Run_take s = Some s'" by (simp add: worker_step_def)
  with inv Waiting i r show ?thesis
    by (auto simp: storage_inv_def Run_take_def executing_def split: list.splits if_splits)
next
  case (Executing b)
  obtain r d1 where i: "idb_Initialize db d0 = (r, d1)" by fastforce
  with inv Executing obtain u where r: "r = Inr u" by (cases r) (auto simp: storage_inv_def)
  obtain x d where x: "Execute db b (svc_database s) = (x, d)" by fastforce
  with step Executing have s': "s' = push_result x (s\<lparr>svc_database := d, svc_worker := Waiting\<rparr>)"
    by (simp add: worker_step_def Run_execute_def)
  from inv Executing i r obtain bs where bs: "subs = bs @ [b] @ svc_commands s"
    "batch_results db bs d1 = (rs, svc_database s)" "svc_runStarted s"
    by (auto simp: storage_inv_def executing_def)
  then have "batch_results db (bs @ [b]) d1 = (rs @ [x], d)" using x by (simp add: batch_results_snoc)
  with bs i r s' show ?thesis
    by (auto simp: storage_inv_def push_result_def executing_def intro!: exI [where x = "bs @ [b]"])
qed (use step in \<open>auto simp: worker_step_def\<close>)

lemma storage_inv_submit: "cs \<noteq> [] \<Longrightarrow> storage_inv db d0 subs rs s \<Longrightarrow> storage_inv db d0 (subs @ [cs]) rs (Submit cs s)"
  by (auto simp: storage_inv_def Submit_def executing_def split: worker_point.splits prod.splits sum.splits)

lemma storage_inv_run:
  assumes "storage_run db s evs t" and "storage_inv db d0 subs (ps @ svc_results s) s"
  shows "storage_inv db d0 (subs @ submitted evs) (ps @ polled evs @ svc_results t) t"
  using assms
proof (induction s evs t rule: storage_run.induct)
  case (Snoc s evs t ev u)
  then have inv: "storage_inv db d0 (subs @ submitted evs) (ps @ polled evs @ svc_results t) t" by simp
  from Snoc.hyps(2) show ?case
  proof cases
    case (Submit cs)
    show ?thesis
    proof (cases "cs = []")
      case True
      with inv Submit show ?thesis by (simp add: Submit_def)
    next
      case False
      with storage_inv_submit [OF False inv] Submit show ?thesis by (simp add: Submit_def)
    qed
  next
    case (Poll rs)
    with inv show ?thesis
      by (auto simp: PollResults_def storage_inv_def executing_def split: worker_point.splits prod.splits sum.splits)
  next
    case Stop
    with inv show ?thesis
      by (auto simp: RequestStop_def storage_inv_def executing_def split: worker_point.splits prod.splits sum.splits)
  next
    case Start
    with inv show ?thesis
      by (auto simp: Run_begin_def storage_inv_def split: worker_point.splits prod.splits sum.splits)
  next
    case Worker
    with storage_inv_worker [OF inv] show ?thesis by auto
  qed
qed simp

section \<open>Stopping\<close>

text \<open>
  \<^verbatim>\<open>join\<close> of the owned worker thread: the worker runs to its end. A step either takes a batch
  or executes one, so twice the queue plus two steps are enough (\<open>run_worker_drained\<close>).
\<close>

definition join_worker :: "'d IDatabase \<Rightarrow> 'd DeviceStorageService \<Rightarrow> 'd DeviceStorageService" where
  "join_worker db s =
     (if svc_executionMode s = OwnedThread
      then let s1 = (if svc_runStarted s then s else Run_begin s)
           in run_worker (2 * length (svc_commands s1) + 2) db s1
      else s)"

definition StopAndDrain :: "'d IDatabase \<Rightarrow> 'd DeviceStorageService \<Rightarrow> DeviceStorageResult list \<times> 'd DeviceStorageService" where
  "StopAndDrain db s = PollResults (join_worker db (RequestStop s))"

definition worker_work :: "'d DeviceStorageService \<Rightarrow> nat" where
  "worker_work s =
     (case svc_worker s of
        Waiting \<Rightarrow> 2 * length (svc_commands s) + 1
      | Initializing \<Rightarrow> 2 * length (svc_commands s) + 2
      | Executing b \<Rightarrow> 2 * length (svc_commands s) + 2
      | _ \<Rightarrow> 0)"

lemma worker_step_work: "worker_step db s = Some s' \<Longrightarrow> worker_work s' < worker_work s"
  by (auto simp: worker_step_def worker_work_def Run_take_def Run_execute_def Run_initialize_def push_result_def
    split: worker_point.splits list.splits if_splits prod.splits sum.splits)

lemma worker_step_stop:
  "worker_step db s = Some s' \<Longrightarrow>
     svc_stopRequested s' = svc_stopRequested s \<and> svc_runStarted s' = svc_runStarted s \<and>
     svc_executionMode s' = svc_executionMode s \<and> svc_worker s' \<noteq> NotRunning"
  by (auto simp: worker_step_def Run_take_def Run_execute_def Run_initialize_def push_result_def
    split: worker_point.splits list.splits if_splits prod.splits sum.splits)

lemma run_worker_run: "\<exists>n'. storage_run db s (replicate n' EvWorker) (run_worker n db s)"
proof -
  have "\<exists>n'. storage_run db r (replicate n' EvWorker) (run_worker n db s)"
    if "storage_run db r (replicate m EvWorker) s" for r m
    using that
  proof (induction n arbitrary: s m)
    case (Suc n)
    show ?case
    proof (cases "worker_step db s")
      case (Some s')
      with Suc.prems have "storage_run db r (replicate (Suc m) EvWorker) s'"
        by (metis replicate_Suc replicate_append_same storage_run.Snoc storage_step.Worker)
      with Suc.IH [of "Suc m" s'] Some show ?thesis by simp
    qed (use Suc in auto)
  qed auto
  from this [of s 0] show ?thesis by (auto intro: storage_run.Nil)
qed

lemma submitted_worker [simp]: "submitted (replicate n EvWorker) = []" "polled (replicate n EvWorker) = []"
  by (induction n) auto

lemma worker_blocked:
  "worker_step db s = None \<Longrightarrow> svc_stopRequested s \<Longrightarrow> svc_worker s \<noteq> NotRunning \<Longrightarrow> svc_worker s = Finished"
  by (auto simp: worker_step_def Run_take_def split: worker_point.splits list.splits if_splits)

lemma run_worker_ends:
  "worker_work s \<le> n \<Longrightarrow> svc_stopRequested s \<Longrightarrow> svc_worker s \<noteq> NotRunning \<Longrightarrow> svc_worker (run_worker n db s) = Finished"
proof (induction n arbitrary: s)
  case 0
  then show ?case by (auto simp: worker_work_def split: worker_point.splits)
next
  case (Suc n)
  show ?case
  proof (cases "worker_step db s")
    case None
    with Suc.prems show ?thesis by (simp add: worker_blocked)
  next
    case (Some t)
    with Suc.prems worker_step_work [OF Some] worker_step_stop [OF Some] Suc.IH [of t] show ?thesis by simp
  qed
qed

lemma run_worker_queue:
  "svc_worker s = Waiting \<or> (\<exists>b. svc_worker s = Executing b) \<Longrightarrow> svc_worker (run_worker n db s) = Finished \<Longrightarrow>
   svc_commands (run_worker n db s) = []"
proof (induction n arbitrary: s)
  case (Suc n)
  show ?case
  proof (cases "worker_step db s")
    case None
    with Suc.prems show ?thesis by auto
  next
    case (Some t)
    then have "svc_worker t = Waiting \<or> (\<exists>b. svc_worker t = Executing b) \<or> (svc_worker t = Finished \<and> svc_commands t = [])"
      using Suc.prems(1) by (auto simp: worker_step_def Run_take_def Run_execute_def push_result_def
        split: list.splits if_splits prod.splits)
    moreover have "svc_worker t = Finished \<Longrightarrow> run_worker n db t = t"
      by (cases n) (auto simp: worker_step_def)
    ultimately show ?thesis using Some Suc by auto
  qed
qed auto

lemma run_worker_drained:
  assumes inv: "storage_inv db d0 subs (ps @ svc_results s) s" and init: "idb_Initialize db d0 = (Inr u, d1)"
    and s: "svc_stopRequested s" "svc_worker s \<noteq> NotRunning" "svc_worker s = Finished \<Longrightarrow> svc_commands s = []"
    and n: "worker_work s \<le> n"
  shows "svc_worker (run_worker n db s) = Finished \<and>
    batch_results db subs d1 = (ps @ svc_results (run_worker n db s), svc_database (run_worker n db s))"
proof -
  let ?t = "run_worker n db s"
  have fin: "svc_worker ?t = Finished" using run_worker_ends [OF n s(1,2)] .
  have empty: "svc_commands ?t = []"
  proof (cases "svc_worker s")
    case Initializing
    then obtain m where m: "n = Suc m" using n by (cases n) (auto simp: worker_work_def)
    have "svc_worker (Run_initialize db s) = Waiting"
      using inv init Initializing by (auto simp: Run_initialize_def storage_inv_def)
    with run_worker_queue [of "Run_initialize db s" m db] fin m Initializing show ?thesis
      by (simp add: worker_step_def)
  next
    case Finished
    with s(3) show ?thesis by (cases n) (auto simp: worker_step_def)
  qed (use run_worker_queue fin s(2) in auto)
  obtain n' where "storage_run db s (replicate n' EvWorker) ?t" using run_worker_run by blast
  from storage_inv_run [OF this inv] have "storage_inv db d0 subs (ps @ svc_results ?t) ?t" by simp
  with fin empty init show ?thesis by (auto simp: storage_inv_def executing_def)
qed

section \<open>The effect of a batch\<close>

lemma ToViewModel_ToDatabaseItem [simp]: "ToViewModel (ToDatabaseItem d) = d"
  by (simp add: ToViewModel_def ToDatabaseItem_def)

lemma ToDatabaseItem_ToViewModel [simp]: "ToDatabaseItem (ToViewModel i) = i"
  by (simp add: ToViewModel_def ToDatabaseItem_def)

lemma id_conversions [simp]: "item_id (ToDatabaseItem d) = dv_id d" "dv_id (ToViewModel i) = item_id i"
  by (simp_all add: ToViewModel_def ToDatabaseItem_def)

text \<open>The stored devices as the GUI sees them.\<close>

abbreviation views :: "DatabaseItem list \<Rightarrow> DeviceViewModel list" where
  "views items \<equiv> map ToViewModel items"

lemma views_upsert: "views (upsert_item (ToDatabaseItem d) items) = upsert_device d (views items)"
  by (auto simp: upsert_item_def upsert_device_def ids_def image_image)

lemma views_remove: "views (remove_item i items) = filter (\<lambda>d. dv_id d \<noteq> i) (views items)"
  by (simp add: remove_item_def filter_map o_def)

lemma sort_views: "map ToViewModel (sort_key item_id items) = sort_key dv_id (views items)"
proof -
  have "map ToViewModel (insort_key item_id x xs) = insort_key dv_id (ToViewModel x) (map ToViewModel xs)" for x xs
    by (induction xs) auto
  then show ?thesis by (induction items) simp_all
qed

context idatabase
begin

lemma execute_command_outcome:
  assumes d: "devices s items"
  shows "outcome devices items (execute_command db c s) (\<lambda>_ items'. views items' = apply_command c (views items))"
proof (cases "cmd_kind c")
  case CommandRefresh
  with d show ?thesis by (auto simp: execute_command_def outcome_def cret_def apply_command_def)
next
  case CommandDelete
  from remove [OF d, of "cmd_targetId c"] CommandDelete show ?thesis
    by (auto simp: execute_command_def outcome_def cbind_def cret_def apply_command_def views_remove
      split: prod.splits sum.splits)
next
  case CommandAdd
  with d show ?thesis
    by (cases "cmd_device c") (auto simp: execute_command_def apply_command_def intro: outcome_mono [OF add [OF d]])
next
  case CommandEdit
  with d show ?thesis
    by (cases "cmd_device c")
      (auto simp: execute_command_def apply_command_def views_upsert intro: outcome_mono [OF upsert [OF d]])
next
  case CommandSetAlive
  with d show ?thesis
    by (cases "cmd_device c")
      (auto simp: execute_command_def apply_command_def views_upsert intro: outcome_mono [OF upsert [OF d]])
qed

lemma execute_commands:
  assumes "devices s items" and "cfor cs (execute_command db) s = (r, s')"
  shows "\<exists>k items'. k \<le> length cs \<and> devices s' items' \<and>
    views items' = fold apply_command (take k cs) (views items) \<and> (r = Inr () \<longrightarrow> k = length cs)"
  using assms
proof (induction cs arbitrary: s items)
  case Nil
  then show ?case by (auto simp: cret_def)
next
  case (Cons c cs)
  obtain x t where x: "execute_command db c s = (x, t)" by fastforce
  show ?case
  proof (cases x)
    case (Inl e)
    with execute_command_outcome [OF Cons.prems(1), of c] x have "devices t items" by (simp add: outcome_def)
    with Inl x Cons.prems(2) show ?thesis
      by (auto simp: cseq_def cbind_def intro!: exI [where x = 0])
  next
    case (Inr u)
    with execute_command_outcome [OF Cons.prems(1), of c] x obtain items1 where
      i1: "devices t items1" "views items1 = apply_command c (views items)" by (auto simp: outcome_def)
    have "cfor cs (execute_command db) t = (r, s')"
      using Cons.prems(2) x Inr by (simp add: cseq_def cbind_def)
    from Cons.IH [OF i1(1) this] i1(2) obtain k items' where "k \<le> length cs" "devices s' items'"
      "views items' = fold apply_command (take k cs) (apply_command c (views items))" "r = Inr () \<longrightarrow> k = length cs"
      by auto
    then show ?thesis by (intro exI [where x = "Suc k"] exI [where x = items']) simp
  qed
qed

lemma Execute_effect:
  assumes d: "devices s items" and e: "Execute db cs s = (r, s')"
  shows "\<exists>k items'. k \<le> length cs \<and> devices s' items' \<and>
    views items' = fold apply_command (take k cs) (views items) \<and>
    (res_success r \<longrightarrow> k = length cs \<and> res_devices r = sort_key dv_id (fold apply_command cs (views items)))"
proof -
  obtain x t where x: "cfor cs (execute_command db) s = (x, t)" by fastforce
  from execute_commands [OF d x] obtain k items1 where k: "k \<le> length cs" "devices t items1"
    "views items1 = fold apply_command (take k cs) (views items)" "x = Inr () \<longrightarrow> k = length cs" by auto
  show ?thesis
  proof (cases x)
    case (Inl e')
    with e x have "s' = t" "\<not> res_success r" by (auto simp: Execute_def cseq_def cbind_def failed_result_def)
    with k show ?thesis by blast
  next
    case (Inr u)
    obtain y t' where y: "idb_GetAllSortedById db t = (y, t')" by fastforce
    with get_sorted [OF k(2)] have o: "outcome devices items1 (y, t') (\<lambda>xs items'. items' = items1 \<and> xs = sort_key item_id items1)"
      by simp
    with e x y Inr have "devices s' items1 \<and> (res_success r \<longrightarrow> res_devices r = map ToViewModel (sort_key item_id items1))"
      by (cases y) (auto simp: Execute_def cseq_def cbind_def failed_result_def outcome_def)
    moreover have "k = length cs" using k(4) Inr by simp
    ultimately show ?thesis using k(2,3) by (intro exI [where x = k] exI [where x = items1]) (simp add: sort_views)
  qed
qed

end

section \<open>Properties\<close>

lemma construct_service_inv:
  assumes "construct_service (Some d0) mode = Inr s"
  shows "storage_inv db d0 [[refresh_command]] ([] @ svc_results s) s" "\<not> svc_stopRequested s" "svc_executionMode s = mode"
  using assms by (auto simp: construct_service_def Submit_def storage_inv_def)

lemma storage_run_mode: "storage_run db s evs t \<Longrightarrow> svc_executionMode t = svc_executionMode s"
  by (induction rule: storage_run.induct)
    (auto elim!: storage_stepE simp: Submit_def PollResults_def RequestStop_def Run_begin_def push_result_def
      dest: worker_step_stop split: if_splits)

lemma storage_run_not_stopped:
  "storage_run db s evs t \<Longrightarrow> EvStop \<notin> set evs \<Longrightarrow> \<not> svc_stopRequested s \<Longrightarrow> \<not> svc_stopRequested t"
  by (induction rule: storage_run.induct)
    (auto elim!: storage_stepE simp: Submit_def PollResults_def RequestStop_def Run_begin_def push_result_def
      dest: worker_step_stop split: if_splits)


text \<open>
  \<^verbatim>\<open>StopAndDrain\<close> loses nothing. Called on a service with its own thread that nobody has
  stopped before, in whatever state the worker is, it lets the worker finish, and then the results
  polled earlier followed by the ones it returns are those of all submitted batches, whose effects
  are all in the database.
\<close>

theorem StopAndDrain_completes:
  assumes c: "construct_service (Some d0) OwnedThread = Inr s" and run: "storage_run db s evs t"
    and stop: "EvStop \<notin> set evs" and init: "idb_Initialize db d0 = (Inr (), d1)"
  shows "case StopAndDrain db t of (rs, t') \<Rightarrow> svc_worker t' = Finished \<and>
    batch_results db ([refresh_command] # submitted evs) d1 = (polled evs @ rs, svc_database t')"
proof -
  let ?t = "RequestStop t"
  let ?u = "if svc_runStarted ?t then ?t else Run_begin ?t"
  let ?n = "2 * length (svc_commands ?u) + 2"
  have mode: "svc_executionMode t = OwnedThread" using storage_run_mode [OF run] construct_service_inv [OF c] by simp
  have ns: "\<not> svc_stopRequested t" by (rule storage_run_not_stopped [OF run stop construct_service_inv(2) [OF c]])
  have inv: "storage_inv db d0 ([[refresh_command]] @ submitted evs) ([] @ polled evs @ svc_results t) t"
    by (rule storage_inv_run [OF run construct_service_inv(1) [OF c]])
  have u: "storage_inv db d0 ([refresh_command] # submitted evs) (polled evs @ svc_results ?u) ?u"
    "svc_stopRequested ?u" "svc_worker ?u \<noteq> NotRunning" "svc_worker ?u = Finished \<Longrightarrow> svc_commands ?u = []" "worker_work ?u \<le> ?n"
    using inv init ns
    by (auto simp: storage_inv_def RequestStop_def Run_begin_def worker_work_def executing_def split: worker_point.splits)
  have "svc_executionMode ?t = OwnedThread" using mode by (simp add: RequestStop_def)
  then have "StopAndDrain db t = PollResults (run_worker ?n db ?u)" by (simp only: StopAndDrain_def join_worker_def Let_def if_True simp_thms)
  with run_worker_drained [OF u(1) init u(2-5)] show ?thesis by (simp add: PollResults_def del: run_worker.simps)
qed

end
