(* ===== verification/Gui_Runtime.thy ===== *)
theory Gui_Runtime
  imports Device_Storage
begin

text \<open>
  \<^verbatim>\<open>src/src/Gui/GuiRuntime.hpp\<close> and \<^verbatim>\<open>.cpp\<close> (window geometry, the latest platform
  error and the life cycle of the GUI) and the storage pump of \<^verbatim>\<open>src/src/Gui/Gui.cpp\<close>. The
  platform is a parameter: a record of the virtual functions of \<^verbatim>\<open>IGuiPlatform\<close>; the
  functions declared \<^verbatim>\<open>noexcept\<close> cannot throw. The frame loop carries fuel, because it
  runs until the window closes.
\<close>

section \<open>Geometry\<close>

record GuiConfiguration =
  cfg_width :: int
  cfg_height :: int
  cfg_openGlMajor :: int
  cfg_openGlMinor :: int
  cfg_hidden :: bool

definition default_configuration :: GuiConfiguration where
  "default_configuration =
     \<lparr>cfg_width = 1280, cfg_height = 720, cfg_openGlMajor = 3, cfg_openGlMinor = 3, cfg_hidden = False\<rparr>"

record MonitorWorkArea =
  area_x :: int
  area_y :: int
  area_width :: int
  area_height :: int

record WindowGeometry =
  geo_x :: int
  geo_y :: int
  geo_width :: int
  geo_height :: int

definition clamp :: "int \<Rightarrow> int \<Rightarrow> int \<Rightarrow> int" where
  "clamp v lo hi = (if v < lo then lo else if hi < v then hi else v)"

text \<open>The numerators of the halvings are not negative, so \<open>div\<close> is the division of the code.\<close>

definition CalculateWindowGeometry :: "GuiConfiguration \<Rightarrow> MonitorWorkArea \<Rightarrow> WindowGeometry" where
  "CalculateWindowGeometry configuration workArea =
     (let availableWidth = max (area_width workArea) 1;
          availableHeight = max (area_height workArea) 1;
          width = clamp (cfg_width configuration) 1 availableWidth;
          height = clamp (cfg_height configuration) 1 availableHeight
      in \<lparr>geo_x = area_x workArea + (availableWidth - width) div 2,
          geo_y = area_y workArea + (availableHeight - height) div 2,
          geo_width = width, geo_height = height\<rparr>)"

record PlatformErrorDetail =
  ped_code :: int
  ped_description :: string

definition PlatformErrorState_Record :: "int \<Rightarrow> string option \<Rightarrow> PlatformErrorDetail option \<Rightarrow> PlatformErrorDetail option" where
  "PlatformErrorState_Record code description latest =
     Some \<lparr>ped_code = code, ped_description = (case description of None \<Rightarrow> ''No description'' | Some d \<Rightarrow> d)\<rparr>"

lemma CalculateWindowGeometry_inside:
  assumes "1 \<le> area_width a" "1 \<le> area_height a"
    and "g = CalculateWindowGeometry c a"
  shows "1 \<le> geo_width g \<and> geo_width g \<le> area_width a \<and> 1 \<le> geo_height g \<and> geo_height g \<le> area_height a \<and>
    area_x a \<le> geo_x g \<and> geo_x g + geo_width g \<le> area_x a + area_width a \<and>
    area_y a \<le> geo_y g \<and> geo_y g + geo_height g \<le> area_y a + area_height a"
  using assms by (auto simp: CalculateWindowGeometry_def Let_def clamp_def)

section \<open>The life cycle\<close>

record GuiResult =
  gui_success :: bool
  gui_error :: string

record ('p, 'b) gui_state =
  gs_platform :: 'p
  gs_monitor :: DeviceMonitorState
  gs_background :: 'b

record 'p IGuiPlatform =
  gp_InitializeGlfw :: "('p, unit) comp"
  gp_TerminateGlfw :: "'p \<Rightarrow> 'p"
  gp_CreateWindow :: "('p, unit) comp"
  gp_DestroyWindow :: "'p \<Rightarrow> 'p"
  gp_InitializeOpenGl :: "('p, unit) comp"
  gp_CreateImGuiContext :: "('p, unit) comp"
  gp_DestroyImGuiContext :: "'p \<Rightarrow> 'p"
  gp_InitializeImGuiGlfwBackend :: "('p, unit) comp"
  gp_ShutdownImGuiGlfwBackend :: "'p \<Rightarrow> 'p"
  gp_InitializeImGuiOpenGlBackend :: "('p, unit) comp"
  gp_ShutdownImGuiOpenGlBackend :: "'p \<Rightarrow> 'p"
  gp_WindowShouldClose :: "('p, bool) comp"
  gp_RequestClose :: "('p, unit) comp"
  gp_BeginFrame :: "('p, unit) comp"
  gp_DrawFrame :: "('p \<times> DeviceMonitorState, unit) comp"
  gp_EndFrame :: "('p, unit) comp"

definition on_platform :: "('p, 'a) comp \<Rightarrow> (('p, 'b) gui_state, 'a) comp" where
  "on_platform m s = (case m (gs_platform s) of (r, p) \<Rightarrow> (r, s\<lparr>gs_platform := p\<rparr>))"

definition on_monitor :: "(DeviceMonitorState \<Rightarrow> DeviceMonitorState) \<Rightarrow> (('p, 'b) gui_state, unit) comp" where
  "on_monitor f s = (Inr (), s\<lparr>gs_monitor := f (gs_monitor s)\<rparr>)"

text \<open>A \<^verbatim>\<open>StageOwner\<close>: its destructor runs when the scope is left, normally or by an exception.\<close>

definition with_stage :: "('p \<Rightarrow> 'p) \<Rightarrow> (('p, 'b) gui_state, 'a) comp \<Rightarrow> (('p, 'b) gui_state, 'a) comp" where
  "with_stage teardown body s =
     (case body s of (r, s') \<Rightarrow> (r, s'\<lparr>gs_platform := teardown (gs_platform s')\<rparr>))"

type_synonym 'b background_pump = "'b \<times> DeviceMonitorState \<Rightarrow> string option \<times> ('b \<times> DeviceMonitorState)"

definition run_pump :: "'b background_pump option \<Rightarrow> (('p, 'b) gui_state, string option) comp" where
  "run_pump pump s =
     (case pump of
        None \<Rightarrow> (Inr None, s)
      | Some f \<Rightarrow>
          (case f (gs_background s, gs_monitor s) of
             (e, (b, m)) \<Rightarrow> (Inr e, s\<lparr>gs_background := b, gs_monitor := m\<rparr>)))"

definition draw_frame :: "'p IGuiPlatform \<Rightarrow> (('p, 'b) gui_state, unit) comp" where
  "draw_frame platform s =
     (case gp_DrawFrame platform (gs_platform s, gs_monitor s) of
        (r, (p, m)) \<Rightarrow> (r, s\<lparr>gs_platform := p, gs_monitor := m\<rparr>))"

definition close_if_exit :: "'p IGuiPlatform \<Rightarrow> (('p, 'b) gui_state, unit) comp" where
  "close_if_exit platform s =
     (if mon_exitRequested (gs_monitor s) then on_platform (gp_RequestClose platform) s else (Inr (), s))"

definition gui_frame :: "'p IGuiPlatform \<Rightarrow> 'b background_pump option \<Rightarrow> (('p, 'b) gui_state, string option) comp" where
  "gui_frame platform pump =
     cseq (on_platform (gp_BeginFrame platform)) (
     cbind (run_pump pump) (\<lambda>error.
     cseq (case error of
             None \<Rightarrow> cret ()
           | Some e \<Rightarrow>
               cseq (on_monitor (SetError e)) (
               cseq (on_monitor RequestExit) (
               on_platform (gp_RequestClose platform)))) (
     cseq (draw_frame platform) (
     cseq (close_if_exit platform) (
     cseq (on_platform (gp_EndFrame platform)) (
     cret error))))))"

text \<open>The \<^verbatim>\<open>while\<close> loop for at most \<open>n\<close> frames; \<open>None\<close>: still running.\<close>

fun gui_loop :: "nat \<Rightarrow> 'p IGuiPlatform \<Rightarrow> 'b background_pump option \<Rightarrow> (('p, 'b) gui_state, GuiResult option) comp" where
  "gui_loop 0 platform pump = cret None"
| "gui_loop (Suc n) platform pump =
     cbind (on_platform (gp_WindowShouldClose platform)) (\<lambda>close.
     if close then cret (Some \<lparr>gui_success = True, gui_error = []\<rparr>)
     else cbind (gui_frame platform pump) (\<lambda>error.
       case error of
         Some e \<Rightarrow> cret (Some \<lparr>gui_success = False, gui_error = e\<rparr>)
       | None \<Rightarrow> gui_loop n platform pump))"

definition gui_stages :: "nat \<Rightarrow> 'p IGuiPlatform \<Rightarrow> 'b background_pump option \<Rightarrow> (('p, 'b) gui_state, GuiResult option) comp" where
  "gui_stages n platform pump =
     cseq (on_platform (gp_InitializeGlfw platform)) (with_stage (gp_TerminateGlfw platform) (
     cseq (on_platform (gp_CreateWindow platform)) (with_stage (gp_DestroyWindow platform) (
     cseq (on_platform (gp_InitializeOpenGl platform)) (
     cseq (on_platform (gp_CreateImGuiContext platform)) (with_stage (gp_DestroyImGuiContext platform) (
     cseq (on_platform (gp_InitializeImGuiGlfwBackend platform)) (with_stage (gp_ShutdownImGuiGlfwBackend platform) (
     cseq (on_platform (gp_InitializeImGuiOpenGlBackend platform)) (with_stage (gp_ShutdownImGuiOpenGlBackend platform) (
     gui_loop n platform pump)))))))))))"

definition RunGuiLifecycle :: "nat \<Rightarrow> 'p IGuiPlatform \<Rightarrow> 'b background_pump option \<Rightarrow> ('p, 'b) gui_state \<Rightarrow>
    GuiResult option \<times> ('p, 'b) gui_state" where
  "RunGuiLifecycle n platform pump s =
     (case gui_stages n platform pump s of
        (Inr r, s') \<Rightarrow> (r, s')
      | (Inl e, s') \<Rightarrow>
          (Some \<lparr>gui_success = False,
             gui_error = (if is_std_exception e then what e else ''Unknown GUI runtime failure'')\<rparr>, s'))"

section \<open>The storage pump\<close>

fun pump_results :: "DeviceStorageResult list \<Rightarrow> 'd DeviceStorageService \<times> DeviceMonitorState \<Rightarrow>
    string option \<times> ('d DeviceStorageService \<times> DeviceMonitorState)" where
  "pump_results [] (storage, state) = (None, (storage, state))"
| "pump_results (result # results) (storage, state) =
     (if \<not> res_success result then (Some (res_error result), (RequestStop storage, state))
      else pump_results results (storage, ReplaceDevices (res_devices result) state))"

definition PumpStorage :: "'d DeviceStorageService \<times> DeviceMonitorState \<Rightarrow>
    string option \<times> ('d DeviceStorageService \<times> DeviceMonitorState)" where
  "PumpStorage = (\<lambda>(storage, state).
     (case ConsumeCommands state of
        (commands, state) \<Rightarrow>
          (let storage = (if commands = [] then storage else Submit commands storage) in
           case PollResults storage of (results, storage) \<Rightarrow> pump_results results (storage, state))))"

text \<open>The results that \<^verbatim>\<open>ImGuiStart\<close> drains after the life cycle.\<close>

fun drain_results :: "DeviceStorageResult list \<Rightarrow> GuiResult \<times> DeviceMonitorState \<Rightarrow> GuiResult \<times> DeviceMonitorState" where
  "drain_results [] (result, state) = (result, state)"
| "drain_results (r # rs) (result, state) =
     (if res_success r then drain_results rs (result, ReplaceDevices (res_devices r) state)
      else if gui_success result
      then drain_results rs (\<lparr>gui_success = False, gui_error = res_error r\<rparr>, state)
      else drain_results rs (result, state))"

definition ImGuiStart :: "nat \<Rightarrow> 'd IDatabase \<Rightarrow> 'p IGuiPlatform \<Rightarrow> ('p, 'd DeviceStorageService) gui_state \<Rightarrow>
    GuiResult option \<times> ('p, 'd DeviceStorageService) gui_state" where
  "ImGuiStart n db platform s =
     (case RunGuiLifecycle n platform (Some PumpStorage) s of
        (None, s') \<Rightarrow> (None, s')
      | (Some result, s') \<Rightarrow>
          (case StopAndDrain db (gs_background s') of
             (rs, storage) \<Rightarrow>
               (case drain_results rs (result, gs_monitor s') of
                  (result', state) \<Rightarrow>
                    (Some result', s'\<lparr>gs_background := storage, gs_monitor := state\<rparr>))))"

lemma pump_results_ok:
  assumes "list_all res_success rs"
  shows "pump_results rs (storage, state) =
    (None, (storage, if rs = [] then state else ReplaceDevices (res_devices (last rs)) state))"
  using assms
  by (induction rs arbitrary: state) (auto simp: ReplaceDevices_def)

lemma pump_results_fail:
  assumes "list_all res_success rs" "\<not> res_success r"
  shows "pump_results (rs @ r # rs') (storage, state) =
    (Some (res_error r), (RequestStop storage, if rs = [] then state else ReplaceDevices (res_devices (last rs)) state))"
  using assms
  by (induction rs arbitrary: state) (auto simp: ReplaceDevices_def)

section \<open>A platform that records its calls\<close>

datatype gui_call =
    CallInitializeGlfw | CallTerminateGlfw | CallCreateWindow | CallDestroyWindow | CallInitializeOpenGl
  | CallCreateContext | CallDestroyContext | CallInitGlfwBackend | CallShutdownGlfwBackend
  | CallInitOpenGlBackend | CallShutdownOpenGlBackend | CallShouldClose | CallRequestClose
  | CallBeginFrame | CallDrawFrame | CallEndFrame

type_synonym 'w traced = "gui_call list \<times> 'w"

text \<open>
  \<open>traced p\<close> is the platform \<open>p\<close> with a log of the calls that returned (a call that throws
  is not logged). Every behaviour of a platform is the behaviour of a traced one.
\<close>

definition log_call :: "gui_call \<Rightarrow> ('w, 'a) comp \<Rightarrow> ('w traced, 'a) comp" where
  "log_call c m = (\<lambda>(cs, w). case m w of (Inr x, w') \<Rightarrow> (Inr x, (cs @ [c], w')) | (Inl e, w') \<Rightarrow> (Inl e, (cs, w')))"

definition log_teardown :: "gui_call \<Rightarrow> ('w \<Rightarrow> 'w) \<Rightarrow> 'w traced \<Rightarrow> 'w traced" where
  "log_teardown c f = (\<lambda>(cs, w). (cs @ [c], f w))"

definition log_draw :: "('w \<times> DeviceMonitorState, unit) comp \<Rightarrow> ('w traced \<times> DeviceMonitorState, unit) comp" where
  "log_draw m = (\<lambda>((cs, w), mon).
     case m (w, mon) of
       (Inr x, (w', mon')) \<Rightarrow> (Inr x, ((cs @ [CallDrawFrame], w'), mon'))
     | (Inl e, (w', mon')) \<Rightarrow> (Inl e, ((cs, w'), mon')))"

definition traced_platform :: "'w IGuiPlatform \<Rightarrow> 'w traced IGuiPlatform" where
  "traced_platform p =
     \<lparr>gp_InitializeGlfw = log_call CallInitializeGlfw (gp_InitializeGlfw p),
      gp_TerminateGlfw = log_teardown CallTerminateGlfw (gp_TerminateGlfw p),
      gp_CreateWindow = log_call CallCreateWindow (gp_CreateWindow p),
      gp_DestroyWindow = log_teardown CallDestroyWindow (gp_DestroyWindow p),
      gp_InitializeOpenGl = log_call CallInitializeOpenGl (gp_InitializeOpenGl p),
      gp_CreateImGuiContext = log_call CallCreateContext (gp_CreateImGuiContext p),
      gp_DestroyImGuiContext = log_teardown CallDestroyContext (gp_DestroyImGuiContext p),
      gp_InitializeImGuiGlfwBackend = log_call CallInitGlfwBackend (gp_InitializeImGuiGlfwBackend p),
      gp_ShutdownImGuiGlfwBackend = log_teardown CallShutdownGlfwBackend (gp_ShutdownImGuiGlfwBackend p),
      gp_InitializeImGuiOpenGlBackend = log_call CallInitOpenGlBackend (gp_InitializeImGuiOpenGlBackend p),
      gp_ShutdownImGuiOpenGlBackend = log_teardown CallShutdownOpenGlBackend (gp_ShutdownImGuiOpenGlBackend p),
      gp_WindowShouldClose = log_call CallShouldClose (gp_WindowShouldClose p),
      gp_RequestClose = log_call CallRequestClose (gp_RequestClose p),
      gp_BeginFrame = log_call CallBeginFrame (gp_BeginFrame p),
      gp_DrawFrame = log_draw (gp_DrawFrame p),
      gp_EndFrame = log_call CallEndFrame (gp_EndFrame p)\<rparr>"

fun owned_stage :: "gui_call \<Rightarrow> gui_call option" where
  "owned_stage CallInitializeGlfw = Some CallTerminateGlfw"
| "owned_stage CallCreateWindow = Some CallDestroyWindow"
| "owned_stage CallCreateContext = Some CallDestroyContext"
| "owned_stage CallInitGlfwBackend = Some CallShutdownGlfwBackend"
| "owned_stage CallInitOpenGlBackend = Some CallShutdownOpenGlBackend"
| "owned_stage _ = None"

definition is_teardown :: "gui_call \<Rightarrow> bool" where
  "is_teardown c \<longleftrightarrow> c \<in> {CallTerminateGlfw, CallDestroyWindow, CallDestroyContext, CallShutdownGlfwBackend, CallShutdownOpenGlBackend}"

text \<open>The teardowns that a list of completed initialisations owes, last first.\<close>

definition owed :: "gui_call list \<Rightarrow> gui_call list" where
  "owed cs = rev (List.map_filter owned_stage cs)"

abbreviation calls :: "('w traced, 'b) gui_state \<Rightarrow> gui_call list" where
  "calls s \<equiv> fst (gs_platform s)"

text \<open>\<open>tidy m\<close>: a run of \<open>m\<close> appends calls \<open>cs\<close> and then exactly the teardowns \<open>cs\<close> owes.\<close>

definition tidy :: "(('w traced, 'b) gui_state, 'a) comp \<Rightarrow> bool" where
  "tidy m \<longleftrightarrow> (\<forall>s r s'. m s = (r, s') \<longrightarrow>
     (\<exists>cs. calls s' = calls s @ cs @ owed cs \<and> list_all (\<lambda>c. \<not> is_teardown c) cs))"

text \<open>\<open>frames m\<close>: a run of \<open>m\<close> appends only calls that neither initialise nor tear down a stage.\<close>

definition frames :: "(('w traced, 'b) gui_state, 'a) comp \<Rightarrow> bool" where
  "frames m \<longleftrightarrow> (\<forall>s r s'. m s = (r, s') \<longrightarrow>
     (\<exists>cs. calls s' = calls s @ cs \<and> list_all (\<lambda>c. owned_stage c = None \<and> \<not> is_teardown c) cs))"

lemma framesI:
  "(\<And>s r s'. m s = (r, s') \<Longrightarrow> \<exists>cs. calls s' = calls s @ cs \<and> list_all (\<lambda>c. owned_stage c = None \<and> \<not> is_teardown c) cs) \<Longrightarrow>
   frames m"
  by (auto simp: frames_def)

lemma framesD:
  "frames m \<Longrightarrow> m s = (r, s') \<Longrightarrow>
   \<exists>cs. calls s' = calls s @ cs \<and> list_all (\<lambda>c. owned_stage c = None \<and> \<not> is_teardown c) cs"
  unfolding frames_def by blast

lemma tidyD:
  "tidy m \<Longrightarrow> m s = (r, s') \<Longrightarrow> \<exists>cs. calls s' = calls s @ cs @ owed cs \<and> list_all (\<lambda>c. \<not> is_teardown c) cs"
  unfolding tidy_def by blast

lemma frames_ret [simp]: "frames (cret x)"
  by (auto simp: frames_def cret_def)

lemma frames_bind: "frames m \<Longrightarrow> (\<And>x. frames (f x)) \<Longrightarrow> frames (cbind m f)"
proof (rule framesI)
  fix s r s'
  assume m: "frames m" and f: "\<And>x. frames (f x)" and r: "cbind m f s = (r, s')"
  obtain x t where x: "m s = (x, t)" by fastforce
  then obtain cs where cs: "calls t = calls s @ cs" "list_all (\<lambda>c. owned_stage c = None \<and> \<not> is_teardown c) cs"
    using framesD [OF m] by blast
  show "\<exists>cs. calls s' = calls s @ cs \<and> list_all (\<lambda>c. owned_stage c = None \<and> \<not> is_teardown c) cs"
  proof (cases x)
    case (Inl e)
    with r x cs show ?thesis by (auto simp: cbind_def)
  next
    case (Inr y)
    with r x have "f y t = (r, s')" by (simp add: cbind_def)
    then obtain ds where "calls s' = calls t @ ds" "list_all (\<lambda>c. owned_stage c = None \<and> \<not> is_teardown c) ds"
      using framesD [OF f] by blast
    with cs show ?thesis by (intro exI [where x = "cs @ ds"]) simp
  qed
qed

lemma frames_seq: "frames m \<Longrightarrow> frames n \<Longrightarrow> frames (cseq m n)"
  unfolding cseq_def by (rule frames_bind)

lemma frames_platform:
  "owned_stage c = None \<Longrightarrow> \<not> is_teardown c \<Longrightarrow> frames (on_platform (log_call c m))"
  by (rule framesI) (auto simp: on_platform_def log_call_def split: prod.splits sum.splits)

lemma frames_monitor: "frames (on_monitor f)" "frames (run_pump pump)"
  by (auto simp: frames_def on_monitor_def run_pump_def split: option.splits prod.splits)

lemma frames_draw: "frames (draw_frame (traced_platform p))"
  by (rule framesI)
    (auto simp: draw_frame_def traced_platform_def log_draw_def is_teardown_def split: prod.splits sum.splits)

lemma traced_frame_calls:
  "frames (on_platform (gp_BeginFrame (traced_platform p)))" "frames (on_platform (gp_EndFrame (traced_platform p)))"
  "frames (on_platform (gp_RequestClose (traced_platform p)))" "frames (on_platform (gp_WindowShouldClose (traced_platform p)))"
  "frames (on_platform (gp_InitializeOpenGl (traced_platform p)))"
  by (simp_all add: traced_platform_def frames_platform is_teardown_def)

lemma frames_close: "frames (close_if_exit (traced_platform p))"
proof (rule framesI)
  fix s :: "('a traced, 'b) gui_state" and r s'
  assume "close_if_exit (traced_platform p) s = (r, s')"
  then show "\<exists>cs. calls s' = calls s @ cs \<and> list_all (\<lambda>c. owned_stage c = None \<and> \<not> is_teardown c) cs"
    by (cases "mon_exitRequested (gs_monitor s)")
      (auto simp: close_if_exit_def cret_def dest: framesD [OF traced_frame_calls(3)])
qed

lemma frames_frame: "frames (gui_frame (traced_platform p) pump)"
  unfolding gui_frame_def
  by (intro frames_seq frames_bind traced_frame_calls frames_monitor frames_draw frames_close frames_ret)
    (auto split: option.splits intro: frames_seq traced_frame_calls frames_monitor)

lemma frames_loop: "frames (gui_loop n (traced_platform p) pump)"
  by (induction n) (auto intro!: frames_bind traced_frame_calls frames_frame split: option.splits)

lemma owed_append: "owed (a @ b) = owed b @ owed a"
  by (simp add: owed_def map_filter_def)

lemma owed_none: "list_all (\<lambda>c. owned_stage c = None \<and> \<not> is_teardown c) cs \<Longrightarrow> owed cs = []"
  by (induction cs) (auto simp: owed_def List.map_filter_simps)

lemma tidy_frames: "frames m \<Longrightarrow> tidy m"
  unfolding frames_def tidy_def by (metis (no_types, lifting) append_Nil2 list_all_iff owed_none)

lemma tidy_seq_frames:
  assumes "frames m" "tidy n"
  shows "tidy (cseq m n)"
  unfolding tidy_def
proof (intro allI impI)
  fix s r s'
  assume r: "cseq m n s = (r, s')"
  obtain x t where x: "m s = (x, t)" by fastforce
  then obtain cs where cs: "calls t = calls s @ cs" "list_all (\<lambda>c. owned_stage c = None \<and> \<not> is_teardown c) cs"
    using framesD [OF assms(1)] by blast
  then have "owed cs = []" "list_all (\<lambda>c. \<not> is_teardown c) cs" by (auto simp: owed_none list_all_iff)
  moreover have "\<exists>ds. calls s' = calls t @ ds @ owed ds \<and> list_all (\<lambda>c. \<not> is_teardown c) ds" if "x = Inr u" for u
    using that r x by (intro tidyD [OF assms(2)]) (auto simp: cseq_def cbind_def)
  ultimately show "\<exists>cs. calls s' = calls s @ cs @ owed cs \<and> list_all (\<lambda>c. \<not> is_teardown c) cs"
  proof (cases x)
    case (Inl e)
    with r x cs \<open>owed cs = []\<close> \<open>list_all (\<lambda>c. \<not> is_teardown c) cs\<close> show ?thesis by (auto simp: cseq_def cbind_def)
  next
    case (Inr u)
    with \<open>\<And>u. x = Inr u \<Longrightarrow> _\<close> obtain ds where "calls s' = calls t @ ds @ owed ds" "list_all (\<lambda>c. \<not> is_teardown c) ds" by blast
    with cs \<open>owed cs = []\<close> \<open>list_all (\<lambda>c. \<not> is_teardown c) cs\<close> show ?thesis
      by (intro exI [where x = "cs @ ds"]) (simp add: owed_append)
  qed
qed

lemma tidy_stage:
  assumes "owned_stage c = Some t" "\<not> is_teardown c" "tidy body"
  shows "tidy (cseq (on_platform (log_call c m)) (with_stage (log_teardown t f) body))"
  unfolding tidy_def
proof (intro allI impI)
  fix s r s'
  assume r: "cseq (on_platform (log_call c m)) (with_stage (log_teardown t f) body) s = (r, s')"
  obtain x s1 where x: "on_platform (log_call c m) s = (x, s1)" by fastforce
  show "\<exists>cs. calls s' = calls s @ cs @ owed cs \<and> list_all (\<lambda>c. \<not> is_teardown c) cs"
  proof (cases x)
    case (Inl e)
    with r x show ?thesis
      by (auto simp: cseq_def cbind_def on_platform_def log_call_def owed_def map_filter_simps split: prod.splits sum.splits
        intro!: exI [where x = "[]"])
  next
    case (Inr u)
    have s1: "calls s1 = calls s @ [c]"
      using x Inr by (auto simp: on_platform_def log_call_def split: prod.splits sum.splits)
    obtain y s2 where y: "body s1 = (y, s2)" by fastforce
    then obtain cs where cs: "calls s2 = calls s1 @ cs @ owed cs" "list_all (\<lambda>c. \<not> is_teardown c) cs"
      using tidyD [OF assms(3)] by blast
    have "calls s' = calls s2 @ [t]"
      using r x Inr y by (auto simp: cseq_def cbind_def with_stage_def log_teardown_def split: prod.splits)
    moreover have "owed (c # cs) = owed cs @ [t]" using assms(1) by (simp add: owed_def map_filter_simps)
    ultimately show ?thesis using s1 cs assms(2) by (intro exI [where x = "c # cs"]) simp
  qed
qed

lemma gui_stages_tidy: "tidy (gui_stages n (traced_platform p) pump)"
proof -
  have loop: "tidy (gui_loop n (traced_platform p) pump)" by (rule tidy_frames [OF frames_loop])
  have 5: "tidy (cseq (on_platform (gp_InitializeImGuiOpenGlBackend (traced_platform p)))
      (with_stage (gp_ShutdownImGuiOpenGlBackend (traced_platform p)) (gui_loop n (traced_platform p) pump)))"
    using loop by (simp add: traced_platform_def tidy_stage is_teardown_def)
  have 4: "tidy (cseq (on_platform (gp_InitializeImGuiGlfwBackend (traced_platform p)))
      (with_stage (gp_ShutdownImGuiGlfwBackend (traced_platform p)) b))" if "tidy b" for b :: "(('a traced, 'b) gui_state, GuiResult option) comp"
    using that by (simp add: traced_platform_def tidy_stage is_teardown_def)
  have 3: "tidy (cseq (on_platform (gp_CreateImGuiContext (traced_platform p)))
      (with_stage (gp_DestroyImGuiContext (traced_platform p)) b))" if "tidy b" for b :: "(('a traced, 'b) gui_state, GuiResult option) comp"
    using that by (simp add: traced_platform_def tidy_stage is_teardown_def)
  have 2: "tidy (cseq (on_platform (gp_CreateWindow (traced_platform p)))
      (with_stage (gp_DestroyWindow (traced_platform p)) b))" if "tidy b" for b :: "(('a traced, 'b) gui_state, GuiResult option) comp"
    using that by (simp add: traced_platform_def tidy_stage is_teardown_def)
  have 1: "tidy (cseq (on_platform (gp_InitializeGlfw (traced_platform p)))
      (with_stage (gp_TerminateGlfw (traced_platform p)) b))" if "tidy b" for b :: "(('a traced, 'b) gui_state, GuiResult option) comp"
    using that by (simp add: traced_platform_def tidy_stage is_teardown_def)
  show ?thesis
    unfolding gui_stages_def
    by (intro 1 2 3 4 5 tidy_seq_frames traced_frame_calls)
qed

section \<open>Properties\<close>

text \<open>
  C32: the window always fits its monitor. For every configuration and every work area of positive
  size the computed window has positive size, lies inside the work area, keeps a configured size
  that fits, and is centred up to one pixel.
\<close>

theorem window_geometry_fits:
  assumes "0 < area_width a" "0 < area_height a"
  shows "let g = CalculateWindowGeometry c a in
    0 < geo_width g \<and> area_x a \<le> geo_x g \<and> geo_x g + geo_width g \<le> area_x a + area_width a \<and>
    0 < geo_height g \<and> area_y a \<le> geo_y g \<and> geo_y g + geo_height g \<le> area_y a + area_height a \<and>
    (0 < cfg_width c \<and> cfg_width c \<le> area_width a \<longrightarrow> geo_width g = cfg_width c) \<and>
    (0 < cfg_height c \<and> cfg_height c \<le> area_height a \<longrightarrow> geo_height g = cfg_height c) \<and>
    (area_x a + area_width a - (geo_x g + geo_width g)) - (geo_x g - area_x a) \<in> {0, 1} \<and>
    (area_y a + area_height a - (geo_y g + geo_height g)) - (geo_y g - area_y a) \<in> {0, 1}"
proof -
  have mid: "(w - v) div 2 \<ge> 0 \<and> (w - v) div 2 + v \<le> w \<and> (w - v) - 2 * ((w - v) div 2) \<in> {0, 1}" if "v \<le> w" for v w :: int
    using that by auto
  have cl: "1 \<le> clamp v 1 w \<and> clamp v 1 w \<le> w \<and> (0 < v \<and> v \<le> w \<longrightarrow> clamp v 1 w = v)" if "0 < w" for v w
    using that by (auto simp: clamp_def)
  have m: "max (area_width a) 1 = area_width a" "max (area_height a) 1 = area_height a" using assms by auto
  show ?thesis
    using cl [OF assms(1), of "cfg_width c"] cl [OF assms(2), of "cfg_height c"]
      mid [of "clamp (cfg_width c) 1 (area_width a)" "area_width a"]
      mid [of "clamp (cfg_height c) 1 (area_height a)" "area_height a"]
    unfolding CalculateWindowGeometry_def Let_def m by (auto simp: algebra_simps)
qed

theorem window_geometry_fits_witness:
  "let c = default_configuration; a = \<lparr>area_x = 10, area_y = 20, area_width = 1920, area_height = 1041\<rparr>;
       g = CalculateWindowGeometry c a in
    0 < geo_width g \<and> area_x a \<le> geo_x g \<and> geo_x g + geo_width g \<le> area_x a + area_width a \<and>
    0 < geo_height g \<and> area_y a \<le> geo_y g \<and> geo_y g + geo_height g \<le> area_y a + area_height a \<and>
    (0 < cfg_width c \<and> cfg_width c \<le> area_width a \<longrightarrow> geo_width g = cfg_width c) \<and>
    (0 < cfg_height c \<and> cfg_height c \<le> area_height a \<longrightarrow> geo_height g = cfg_height c) \<and>
    (area_x a + area_width a - (geo_x g + geo_width g)) - (geo_x g - area_x a) \<in> {0, 1} \<and>
    (area_y a + area_height a - (geo_y g + geo_height g)) - (geo_y g - area_y a) \<in> {0, 1}"
  using window_geometry_fits [of "\<lparr>area_x = 10, area_y = 20, area_width = 1920, area_height = 1041\<rparr>" default_configuration]
  by (simp only: Let_def) simp

text \<open>
  The GUI platform is torn down exactly. However the life cycle ends (normally, by an
  exception at any stage or in any frame, or by a failing background task), the calls made on the
  platform are those of the run followed by the tear-down of exactly the stages that were
  initialised, each once, the last one first.
\<close>

theorem lifecycle_teardown_exact:
  "\<exists>cs. calls (snd (RunGuiLifecycle n (traced_platform p) pump s)) = calls s @ cs @ owed cs \<and>
     list_all (\<lambda>c. \<not> is_teardown c) cs"
proof -
  obtain r s' where r: "gui_stages n (traced_platform p) pump s = (r, s')" by fastforce
  then have "calls (snd (RunGuiLifecycle n (traced_platform p) pump s)) = calls s'"
    by (simp add: RunGuiLifecycle_def split: sum.splits)
  with tidyD [OF gui_stages_tidy r] show ?thesis by simp
qed

end
