(* ===== verification/Glfw_Platform.thy ===== *)
theory Glfw_Platform
  imports Complex_Main Gui_Windows Gui_Runtime
begin

text \<open>
  The class \<^verbatim>\<open>GlfwPlatform\<close> of \<^verbatim>\<open>src/src/Gui/Gui.cpp\<close>, the implementation of
  \<^verbatim>\<open>IGuiPlatform\<close> that the program runs, with \<^verbatim>\<open>NormalizeContentScale\<close> and
  \<^verbatim>\<open>IsExpectedThread\<close> of \<^verbatim>\<open>GuiRuntime.cpp\<close>. GLFW, OpenGL and the ImGui back ends are
  not part of the repository: every call is recorded with its truth value, and what the libraries
  answer is a parameter \<open>glfw\<close> that may depend on all earlier calls. The lemmas show that over the
  whole life cycle each library call is made only while what it needs is initialised and that
  everything is released in the end, and that a requested exit ends the frame loop.
\<close>

section \<open>Scales\<close>

text \<open>A \<^verbatim>\<open>float\<close>: the code tests and compares scales but does not compute with them.\<close>

datatype cfloat = Finite rat | Infinite bool | NotANumber

fun isfinite :: "cfloat \<Rightarrow> bool" where
  "isfinite (Finite r) = True"
| "isfinite _ = False"

fun finite_value :: "cfloat \<Rightarrow> rat" where
  "finite_value (Finite r) = r"
| "finite_value _ = 0"

definition NormalizeContentScale :: "cfloat \<Rightarrow> cfloat \<Rightarrow> cfloat" where
  "NormalizeContentScale xScale yScale =
     (if \<not> isfinite xScale \<or> \<not> isfinite yScale \<or> finite_value xScale \<le> 0 \<or> finite_value yScale \<le> 0 then Finite 1
      else if finite_value xScale < finite_value yScale then yScale else xScale)"

section \<open>The libraries\<close>

datatype style_setting = StyleColor string nat nat nat | StyleRounding string

datatype (plugins only: code) glfw_call =
    GSetErrorCallback bool | GInit | GTerminate
  | GWindowHint string int | GGetPrimaryMonitor | GGetMonitorWorkarea
  | GCreateWindow int int string | GDestroyWindow
  | GSetWindowPos int int | GSetWindowUserPointer | GSetKeyCallback | GSetContentScaleCallback
  | GMakeContextCurrent | GLoadGL | GGetVersion | GSwapInterval | GGetWindowContentScale
  | GWindowShouldClose | GSetWindowShouldClose | GPollEvents
  | GGetFramebufferSize | GViewport | GClear | GGetCurrentContext | GSwapBuffers
  | ICreateContext | IDestroyContext | IConfigFlags | IStyle "style_setting list" | IApplyScale
  | IGlfwInit | IGlfwShutdown | IOpenGlInit string | IOpenGlShutdown
  | IOpenGlNewFrame | IGlfwNewFrame | INewFrame | IRender | IRenderDrawData
  | IViewportsEnabled | IUpdatePlatformWindows | IRenderPlatformWindows

type_synonym glfw_trace = "(glfw_call \<times> bool) list"

datatype window_event = KeyEvent int int | ScaleEvent cfloat cfloat

record glfw =
  gx_bool :: "glfw_trace \<Rightarrow> glfw_call \<Rightarrow> bool"
  gx_workarea :: "glfw_trace \<Rightarrow> MonitorWorkArea"
  gx_version :: "glfw_trace \<Rightarrow> int \<times> int"
  gx_scale :: "glfw_trace \<Rightarrow> cfloat \<times> cfloat"
  gx_errors :: "glfw_trace \<Rightarrow> glfw_call \<Rightarrow> (int \<times> string option) list"
  gx_events :: "glfw_trace \<Rightarrow> window_event list"

text \<open>What a run is given besides the platform object: the thread it runs on, the libraries, the
  clock, whether log records can be formatted, and the outbound handler.\<close>

record 'h gui_env =
  env_thread :: nat
  env_glfw :: glfw
  env_imgui :: imgui
  env_now :: string
  env_formats :: bool
  env_call :: "'h \<Rightarrow> string \<Rightarrow> cpp_exn + unit"

text \<open>
  The members of the object, the error state and the statics of the windows, and the calls so far.
  \<open>gp_window\<close> says whether \<^verbatim>\<open>window_\<close> is not null.
\<close>

record 'h GlfwPlatform =
  gp_configuration :: GuiConfiguration
  gp_guiThread :: nat
  gp_window :: bool
  gp_actualOpenGlMajor :: int
  gp_actualOpenGlMinor :: int
  gp_scale :: cfloat
  gp_errors :: "PlatformErrorDetail option"
  gp_errorCallback :: bool
  gp_trace :: glfw_trace
  gp_frame :: "ui_event list"
  gp_gui :: "'h gui_data"

type_synonym ('h, 'a) on_glfw = "('h GlfwPlatform, 'a) comp"

definition construct_platform :: "GuiConfiguration \<Rightarrow> nat \<Rightarrow> PlatformErrorDetail option \<Rightarrow> 'h gui_data \<Rightarrow> 'h GlfwPlatform" where
  "construct_platform configuration guiThread errors gui =
     \<lparr>gp_configuration = configuration, gp_guiThread = guiThread, gp_window = False,
      gp_actualOpenGlMajor = 0, gp_actualOpenGlMinor = 0, gp_scale = Finite 1, gp_errors = errors,
      gp_errorCallback = False, gp_trace = [], gp_frame = [], gp_gui = gui\<rparr>"

definition GlfwErrorCallback :: "int \<times> string option \<Rightarrow> PlatformErrorDetail option \<Rightarrow> PlatformErrorDetail option" where
  "GlfwErrorCallback = (\<lambda>(code, description). PlatformErrorState_Record code description)"

text \<open>A library call; the errors it reports reach the callback that is installed.\<close>

definition note_call :: "glfw \<Rightarrow> glfw_call \<Rightarrow> bool \<Rightarrow> 'h GlfwPlatform \<Rightarrow> 'h GlfwPlatform" where
  "note_call gx c b p = p\<lparr>gp_trace := gp_trace p @ [(c, b)],
     gp_errors := (if gp_errorCallback p then fold GlfwErrorCallback (gx_errors gx (gp_trace p) c) (gp_errors p) else gp_errors p)\<rparr>"

definition ask_glfw :: "'h gui_env \<Rightarrow> glfw_call \<Rightarrow> ('h, bool) on_glfw" where
  "ask_glfw env c p = (let b = gx_bool (env_glfw env) (gp_trace p) c in (Inr b, note_call (env_glfw env) c b p))"

definition do_glfw :: "'h gui_env \<Rightarrow> glfw_call \<Rightarrow> ('h, unit) on_glfw" where
  "do_glfw env c p = (Inr (), note_call (env_glfw env) c True p)"

definition do_teardown :: "'h gui_env \<Rightarrow> glfw_call \<Rightarrow> 'h GlfwPlatform \<Rightarrow> 'h GlfwPlatform" where
  "do_teardown env c = note_call (env_glfw env) c True"

definition get_glfw :: "('h GlfwPlatform \<Rightarrow> 'a) \<Rightarrow> ('h, 'a) on_glfw" where
  "get_glfw f p = (Inr (f p), p)"

text \<open>Assignments to members; none of them touches the trace or \<^verbatim>\<open>window_\<close>.\<close>

definition set_callback :: "bool \<Rightarrow> ('h, unit) on_glfw" where
  "set_callback b p = (Inr (), p\<lparr>gp_errorCallback := b\<rparr>)"

definition set_version :: "int \<times> int \<Rightarrow> ('h, unit) on_glfw" where
  "set_version v p = (Inr (), p\<lparr>gp_actualOpenGlMajor := fst v, gp_actualOpenGlMinor := snd v\<rparr>)"

definition set_scale :: "cfloat \<Rightarrow> ('h, unit) on_glfw" where
  "set_scale v p = (Inr (), p\<lparr>gp_scale := v\<rparr>)"

definition new_frame :: "('h, unit) on_glfw" where
  "new_frame p = (Inr (), p\<lparr>gp_frame := []\<rparr>)"

definition log_info :: "'h gui_env \<Rightarrow> string \<Rightarrow> ('h, unit) on_glfw" where
  "log_info env message p =
     (Inr (), p\<lparr>gp_gui := (gp_gui p)\<lparr>gd_logger :=
        Log (env_formats env) (env_now env) LogInfo message (''Gui.cpp'', 159) (gd_logger (gp_gui p))\<rparr>\<rparr>)"

section \<open>The operations\<close>

definition WithLatestGlfwError :: "PlatformErrorDetail option \<Rightarrow> string \<Rightarrow> string" where
  "WithLatestGlfwError latest message =
     (case latest of
        Some e \<Rightarrow> message @ '' (GLFW '' @ dec_of_int (ped_code e) @ '': '' @ ped_description e @ '')''
      | None \<Rightarrow> message)"

definition throw_latest :: "string \<Rightarrow> ('h, 'a) on_glfw" where
  "throw_latest message p = (Inl (RuntimeError (WithLatestGlfwError (gp_errors p) message)), p)"

definition IsExpectedThread :: "'h gui_env \<Rightarrow> nat \<Rightarrow> bool" where
  "IsExpectedThread env expected \<longleftrightarrow> env_thread env = expected"

text \<open>As compiled with \<^verbatim>\<open>NDEBUG\<close>: the assertions themselves are gone.\<close>

definition AssertGuiThread :: "'h gui_env \<Rightarrow> ('h, unit) on_glfw" where
  "AssertGuiThread env p =
     (if IsExpectedThread env (gp_guiThread p) then (Inr (), p)
      else (Inl (LogicError ''GLFW/ImGui operation called off the GUI owner thread''), p))"

definition SetBaseStyle :: "style_setting list" where
  "SetBaseStyle = [
     StyleColor ''WindowBg'' 37 37 38, StyleColor ''FrameBg'' 51 51 55, StyleColor ''Button'' 51 51 55,
     StyleColor ''ButtonHovered'' 29 151 236, StyleColor ''ButtonActive'' 0 119 200, StyleColor ''Header'' 51 51 55,
     StyleColor ''HeaderHovered'' 29 151 236, StyleColor ''HeaderActive'' 0 119 200,
     StyleRounding ''Window'', StyleRounding ''Child'', StyleRounding ''Frame'', StyleRounding ''Popup'',
     StyleRounding ''Scrollbar'', StyleRounding ''Tab'']"

definition InitializeGlfw :: "'h gui_env \<Rightarrow> ('h, unit) on_glfw" where
  "InitializeGlfw env = block [
     AssertGuiThread env,
     do_glfw env (GSetErrorCallback True),
     set_callback True,
     cbind (ask_glfw env GInit) (\<lambda>ok. if ok then cret () else throw_latest ''GLFW initialization failed'')]"

definition TerminateGlfw :: "'h gui_env \<Rightarrow> 'h GlfwPlatform \<Rightarrow> 'h GlfwPlatform" where
  "TerminateGlfw env p = (do_teardown env (GSetErrorCallback False) (do_teardown env GTerminate p))\<lparr>gp_errorCallback := False\<rparr>"

definition version_text :: "int \<Rightarrow> int \<Rightarrow> string" where
  "version_text major minor = dec_of_int major @ ''.'' @ dec_of_int minor"

definition WindowTitle :: string where
  "WindowTitle = ''Watchlist''"

definition create_window :: "'h gui_env \<Rightarrow> WindowGeometry \<Rightarrow> ('h, unit) on_glfw" where
  "create_window env geometry =
     cbind (get_glfw gp_configuration) (\<lambda>configuration.
     cbind (ask_glfw env (GCreateWindow
        (if cfg_hidden configuration then 1 else geo_width geometry)
        (if cfg_hidden configuration then 1 else geo_height geometry) WindowTitle)) (\<lambda>created.
     if created then (\<lambda>p. (Inr (), p\<lparr>gp_window := True\<rparr>))
     else throw_latest (''GLFW window creation failed for requested OpenGL '' @
       version_text (cfg_openGlMajor configuration) (cfg_openGlMinor configuration) @ '' core context'')))"

definition GlfwPlatform_CreateWindow :: "'h gui_env \<Rightarrow> ('h, unit) on_glfw" where
  "GlfwPlatform_CreateWindow env =
     cseq (AssertGuiThread env) (
     cbind (get_glfw gp_configuration) (\<lambda>configuration.
     cseq (do_glfw env (GWindowHint ''CONTEXT_VERSION_MAJOR'' (cfg_openGlMajor configuration))) (
     cseq (do_glfw env (GWindowHint ''CONTEXT_VERSION_MINOR'' (cfg_openGlMinor configuration))) (
     cseq (do_glfw env (GWindowHint ''OPENGL_PROFILE CORE'' 1)) (
     cseq (do_glfw env (GWindowHint ''VISIBLE'' (if cfg_hidden configuration then 0 else 1))) (
     cbind (ask_glfw env GGetPrimaryMonitor) (\<lambda>monitor.
     if \<not> monitor then throw_latest ''No primary monitor is available''
     else
       cbind (get_glfw (\<lambda>p. gx_workarea (env_glfw env) (gp_trace p))) (\<lambda>workArea.
       cseq (do_glfw env GGetMonitorWorkarea) (
       let geometry = CalculateWindowGeometry configuration workArea in
       cseq (create_window env geometry) (block [
         do_glfw env (GSetWindowPos (geo_x geometry) (geo_y geometry)),
         do_glfw env GSetWindowUserPointer,
         do_glfw env GSetKeyCallback]))))))))))"

definition DestroyWindow :: "'h gui_env \<Rightarrow> 'h GlfwPlatform \<Rightarrow> 'h GlfwPlatform" where
  "DestroyWindow env p = ((if gp_window p then do_teardown env GDestroyWindow p else p))\<lparr>gp_window := False\<rparr>"

definition version_too_old :: "GuiConfiguration \<Rightarrow> int \<times> int \<Rightarrow> bool" where
  "version_too_old configuration actual \<longleftrightarrow> fst actual < cfg_openGlMajor configuration \<or>
     fst actual = cfg_openGlMajor configuration \<and> snd actual < cfg_openGlMinor configuration"

definition InitializeOpenGl :: "'h gui_env \<Rightarrow> ('h, unit) on_glfw" where
  "InitializeOpenGl env =
     cseq (AssertGuiThread env) (
     cseq (do_glfw env GMakeContextCurrent) (
     cbind (get_glfw gp_configuration) (\<lambda>configuration.
     let requested = version_text (cfg_openGlMajor configuration) (cfg_openGlMinor configuration) in
     cbind (ask_glfw env GLoadGL) (\<lambda>loaded.
     if \<not> loaded then throw_latest (''GLAD failed to load requested OpenGL '' @ requested @ '' core context; actual version is unavailable'')
     else
       cbind (get_glfw (\<lambda>p. gx_version (env_glfw env) (gp_trace p))) (\<lambda>actual.
       cseq (do_glfw env GGetVersion) (
       cseq (set_version actual) (
       if version_too_old configuration actual
       then throw_latest (''Requested OpenGL '' @ requested @ '' core but created OpenGL '' @ version_text (fst actual) (snd actual))
       else block [
         log_info env (''Requested OpenGL '' @ requested @ '' core; created OpenGL '' @ version_text (fst actual) (snd actual)),
         do_glfw env GSwapInterval])))))))"

definition ApplyContentScale :: "'h gui_env \<Rightarrow> cfloat \<Rightarrow> ('h, unit) on_glfw" where
  "ApplyContentScale env scale = block [set_scale scale, do_glfw env IApplyScale]"

definition CreateImGuiContext :: "'h gui_env \<Rightarrow> ('h, unit) on_glfw" where
  "CreateImGuiContext env =
     cseq (AssertGuiThread env) (
     cseq (do_glfw env ICreateContext) (
     cseq (do_glfw env IConfigFlags) (
     cseq (do_glfw env (IStyle SetBaseStyle)) (
     cbind (get_glfw (\<lambda>p. gx_scale (env_glfw env) (gp_trace p))) (\<lambda>(xScale, yScale).
     cseq (do_glfw env GGetWindowContentScale) (
     ApplyContentScale env (NormalizeContentScale xScale yScale)))))))"

definition DestroyImGuiContext :: "'h gui_env \<Rightarrow> 'h GlfwPlatform \<Rightarrow> 'h GlfwPlatform" where
  "DestroyImGuiContext env = do_teardown env IDestroyContext"

definition InitializeImGuiGlfwBackend :: "'h gui_env \<Rightarrow> ('h, unit) on_glfw" where
  "InitializeImGuiGlfwBackend env = block [
     AssertGuiThread env,
     cbind (ask_glfw env IGlfwInit) (\<lambda>ok.
       if ok then do_glfw env GSetContentScaleCallback
       else throw_latest ''Failed to initialize the ImGui GLFW backend'')]"

definition ShutdownImGuiGlfwBackend :: "'h gui_env \<Rightarrow> 'h GlfwPlatform \<Rightarrow> 'h GlfwPlatform" where
  "ShutdownImGuiGlfwBackend env = do_teardown env IGlfwShutdown"

definition InitializeImGuiOpenGlBackend :: "'h gui_env \<Rightarrow> ('h, unit) on_glfw" where
  "InitializeImGuiOpenGlBackend env = block [
     AssertGuiThread env,
     cbind (ask_glfw env (IOpenGlInit ''#version 330 core'')) (\<lambda>ok.
       if ok then cret () else throw_latest ''Failed to initialize the ImGui OpenGL 3.3 backend'')]"

definition ShutdownImGuiOpenGlBackend :: "'h gui_env \<Rightarrow> 'h GlfwPlatform \<Rightarrow> 'h GlfwPlatform" where
  "ShutdownImGuiOpenGlBackend env = do_teardown env IOpenGlShutdown"

definition WindowShouldClose :: "'h gui_env \<Rightarrow> ('h, bool) on_glfw" where
  "WindowShouldClose env = cseq (AssertGuiThread env) (ask_glfw env GWindowShouldClose)"

definition RequestClose :: "'h gui_env \<Rightarrow> ('h, unit) on_glfw" where
  "RequestClose env = cseq (AssertGuiThread env) (do_glfw env GSetWindowShouldClose)"

text \<open>\<^verbatim>\<open>GLFW_KEY_ESCAPE\<close> is 256 and \<^verbatim>\<open>GLFW_PRESS\<close> is 1.\<close>

definition KeyCallback :: "'h gui_env \<Rightarrow> int \<Rightarrow> int \<Rightarrow> ('h, unit) on_glfw" where
  "KeyCallback env key action = cwhen (key = 256 \<and> action = 1) (do_glfw env GSetWindowShouldClose)"

definition ContentScaleCallback :: "'h gui_env \<Rightarrow> cfloat \<Rightarrow> cfloat \<Rightarrow> ('h, unit) on_glfw" where
  "ContentScaleCallback env xScale yScale = ApplyContentScale env (NormalizeContentScale xScale yScale)"

definition run_callback :: "'h gui_env \<Rightarrow> window_event \<Rightarrow> ('h, unit) on_glfw" where
  "run_callback env e =
     (case e of KeyEvent key action \<Rightarrow> KeyCallback env key action | ScaleEvent x y \<Rightarrow> ContentScaleCallback env x y)"

definition BeginFrame :: "'h gui_env \<Rightarrow> ('h, unit) on_glfw" where
  "BeginFrame env =
     cseq (AssertGuiThread env) (
     cbind (get_glfw (\<lambda>p. gx_events (env_glfw env) (gp_trace p))) (\<lambda>events.
     cseq (do_glfw env GPollEvents) (
     cseq (cfor events (run_callback env)) (block [
       do_glfw env IOpenGlNewFrame,
       do_glfw env IGlfwNewFrame,
       do_glfw env INewFrame,
       new_frame]))))"

definition draw_windows :: "'h gui_env \<Rightarrow> ('h gui_data, unit) window" where
  "draw_windows env =
     cseq (ShowWindow (env_imgui env) (env_call env) (env_now env))
      (cbind (ui_ask (env_imgui env) (UIsKeyPressed ''Escape'')) (\<lambda>pressed. cwhen pressed (update_monitor RequestExit)))"

definition DrawFrame :: "'h gui_env \<Rightarrow> ('h GlfwPlatform \<times> DeviceMonitorState, unit) comp" where
  "DrawFrame env = (\<lambda>(p, monitor).
     case AssertGuiThread env p of
       (Inl e, p) \<Rightarrow> (Inl e, (p, monitor))
     | (Inr _, p) \<Rightarrow>
         (case draw_windows env \<lparr>ui_events = gp_frame p, ui_data = (gp_gui p)\<lparr>ad_monitor := monitor\<rparr>\<rparr> of
            (r, u) \<Rightarrow> (r, (p\<lparr>gp_frame := ui_events u, gp_gui := ui_data u\<rparr>, ad_monitor (ui_data u)))))"

definition EndFrame :: "'h gui_env \<Rightarrow> ('h, unit) on_glfw" where
  "EndFrame env = block [
     AssertGuiThread env,
     do_glfw env IRender,
     do_glfw env GGetFramebufferSize,
     do_glfw env GViewport,
     do_glfw env GClear,
     do_glfw env IRenderDrawData,
     cbind (ask_glfw env IViewportsEnabled) (\<lambda>viewports. cwhen viewports (block [
       do_glfw env GGetCurrentContext,
       do_glfw env IUpdatePlatformWindows,
       do_glfw env IRenderPlatformWindows,
       do_glfw env GMakeContextCurrent])),
     do_glfw env GSwapBuffers]"

definition glfw_platform :: "'h gui_env \<Rightarrow> 'h GlfwPlatform IGuiPlatform" where
  "glfw_platform env =
     \<lparr>gp_InitializeGlfw = InitializeGlfw env, gp_TerminateGlfw = TerminateGlfw env,
      gp_CreateWindow = GlfwPlatform_CreateWindow env, gp_DestroyWindow = DestroyWindow env,
      gp_InitializeOpenGl = InitializeOpenGl env,
      gp_CreateImGuiContext = CreateImGuiContext env, gp_DestroyImGuiContext = DestroyImGuiContext env,
      gp_InitializeImGuiGlfwBackend = InitializeImGuiGlfwBackend env,
      gp_ShutdownImGuiGlfwBackend = ShutdownImGuiGlfwBackend env,
      gp_InitializeImGuiOpenGlBackend = InitializeImGuiOpenGlBackend env,
      gp_ShutdownImGuiOpenGlBackend = ShutdownImGuiOpenGlBackend env,
      gp_WindowShouldClose = WindowShouldClose env, gp_RequestClose = RequestClose env,
      gp_BeginFrame = BeginFrame env, gp_DrawFrame = DrawFrame env, gp_EndFrame = EndFrame env\<rparr>"

section \<open>The order of library calls\<close>

text \<open>
  How much is initialised: nothing (0), GLFW (1), a window (2), the ImGui context (3), the GLFW back
  end (4), the OpenGL back end (5). \<open>level_step\<close> gives the level after a call, and none for a call
  that is not allowed at that level.
\<close>

definition level_step :: "glfw_call \<times> bool \<Rightarrow> nat \<Rightarrow> nat option" where
  "level_step e k =
     (let need = (\<lambda>n. if n \<le> k then Some k else None);
          up = (\<lambda>n. if k \<noteq> n then None else if snd e then Some (Suc n) else Some n);
          down = (\<lambda>n. if k = Suc n then Some n else None)
      in case fst e of
        GSetErrorCallback _ \<Rightarrow> Some k
      | GInit \<Rightarrow> up 0 | GTerminate \<Rightarrow> down 0
      | GWindowHint _ _ \<Rightarrow> need 1 | GGetPrimaryMonitor \<Rightarrow> need 1 | GGetMonitorWorkarea \<Rightarrow> need 1
      | GPollEvents \<Rightarrow> need 1
      | GCreateWindow _ _ _ \<Rightarrow> up 1 | GDestroyWindow \<Rightarrow> down 1
      | ICreateContext \<Rightarrow> up 2 | IDestroyContext \<Rightarrow> down 2
      | IConfigFlags \<Rightarrow> need 3 | IStyle _ \<Rightarrow> need 3 | IApplyScale \<Rightarrow> need 3 | IViewportsEnabled \<Rightarrow> need 3
      | IGlfwInit \<Rightarrow> up 3 | IGlfwShutdown \<Rightarrow> down 3
      | IOpenGlInit _ \<Rightarrow> up 4 | IOpenGlShutdown \<Rightarrow> down 4
      | IOpenGlNewFrame \<Rightarrow> need 5 | IGlfwNewFrame \<Rightarrow> need 5 | INewFrame \<Rightarrow> need 5 | IRender \<Rightarrow> need 5
      | IRenderDrawData \<Rightarrow> need 5 | IUpdatePlatformWindows \<Rightarrow> need 5 | IRenderPlatformWindows \<Rightarrow> need 5
      | _ \<Rightarrow> need 2)"

fun levels_from :: "glfw_trace \<Rightarrow> nat \<Rightarrow> nat option" where
  "levels_from [] k = Some k"
| "levels_from (e # es) k = (case level_step e k of None \<Rightarrow> None | Some k' \<Rightarrow> levels_from es k')"

lemma levels_from_append:
  "levels_from (xs @ ys) k = (case levels_from xs k of None \<Rightarrow> None | Some k' \<Rightarrow> levels_from ys k')"
  by (induction xs arbitrary: k) (auto split: option.splits)

text \<open>The platform is at a level: its calls were allowed so far, and \<^verbatim>\<open>window_\<close> is set from level 2 on.\<close>

definition at_level :: "nat \<Rightarrow> 'h GlfwPlatform \<Rightarrow> bool" where
  "at_level k p \<longleftrightarrow> levels_from (gp_trace p) 0 = Some k \<and> (gp_window p \<longleftrightarrow> 2 \<le> k)"

text \<open>
  \<open>staged pl k m k' e\<close>: from level \<open>k\<close> the computation returns at level \<open>k'\<close> or throws at level
  \<open>e\<close>; \<open>pl\<close> finds the platform in the state.
\<close>

definition staged :: "('s \<Rightarrow> 'h GlfwPlatform) \<Rightarrow> nat \<Rightarrow> ('s, 'a) comp \<Rightarrow> nat \<Rightarrow> nat \<Rightarrow> bool" where
  "staged pl k m k' e \<longleftrightarrow>
     (\<forall>s. at_level k (pl s) \<longrightarrow> at_level (case fst (m s) of Inr _ \<Rightarrow> k' | Inl _ \<Rightarrow> e) (pl (snd (m s))))"

lemma stagedI:
  "(\<And>s. at_level k (pl s) \<Longrightarrow> at_level (case fst (m s) of Inr _ \<Rightarrow> k' | Inl _ \<Rightarrow> e) (pl (snd (m s)))) \<Longrightarrow> staged pl k m k' e"
  by (simp add: staged_def)

lemma staged_cbind:
  assumes "staged pl k m j e" "\<And>x. staged pl j (f x) k' e"
  shows "staged pl k (cbind m f) k' e"
proof (rule stagedI)
  fix s assume "at_level k (pl s)"
  with assms(1) have m: "at_level (case fst (m s) of Inr _ \<Rightarrow> j | Inl _ \<Rightarrow> e) (pl (snd (m s)))" by (simp add: staged_def)
  show "at_level (case fst (cbind m f s) of Inr _ \<Rightarrow> k' | Inl _ \<Rightarrow> e) (pl (snd (cbind m f s)))"
  proof (cases "m s")
    case (Pair r s')
    with m assms(2) show ?thesis by (cases r) (simp_all add: cbind_def staged_def)
  qed
qed

lemma staged_cseq: "staged pl k m j e \<Longrightarrow> staged pl j n k' e \<Longrightarrow> staged pl k (cseq m n) k' e"
  by (simp add: cseq_def staged_cbind)

lemma staged_block:
  "staged pl k (block []) k e"
  "staged pl k m j e \<Longrightarrow> staged pl j (block ms) k' e \<Longrightarrow> staged pl k (block (m # ms)) k' e"
  by (simp_all add: staged_def cret_def staged_cseq [unfolded staged_def])

lemma staged_cret: "staged pl k (cret x) k e"
  by (simp add: staged_def cret_def)

lemma staged_simple:
  "staged (\<lambda>p. p) k (get_glfw f) k e"
  "staged (\<lambda>p. p) k (set_callback b) k e" "staged (\<lambda>p. p) k (set_version v) k e" "staged (\<lambda>p. p) k (set_scale t) k e"
  "staged (\<lambda>p. p) k new_frame k e" "staged (\<lambda>p. p) k (log_info env msg) k e"
  "staged (\<lambda>p. p) k (throw_latest msg) k' k" "staged (\<lambda>p. p) k (AssertGuiThread env) k k"
  by (auto simp: staged_def cret_def get_glfw_def set_callback_def set_version_def set_scale_def new_frame_def log_info_def
      throw_latest_def AssertGuiThread_def at_level_def)

lemma staged_if: "(b \<Longrightarrow> staged pl k m k' e) \<Longrightarrow> (\<not> b \<Longrightarrow> staged pl k n k' e) \<Longrightarrow> staged pl k (if b then m else n) k' e"
  by simp

lemma staged_cwhen: "(b \<Longrightarrow> staged pl k m k e) \<Longrightarrow> staged pl k (cwhen b m) k e"
  by (simp add: cwhen_def staged_def cret_def)

lemma staged_prod: "(\<And>x y. staged pl k (f x y) k' e) \<Longrightarrow> staged pl k (case v of (x, y) \<Rightarrow> f x y) k' e"
  by (cases v) simp

lemma staged_cfor: "(\<And>x. staged pl k (f x) k e) \<Longrightarrow> staged pl k (cfor xs f) k e"
  by (induction xs) (auto intro: staged_cseq staged_cret)

lemma at_note:
  "at_level k p \<Longrightarrow> level_step (c, b) k = Some k' \<Longrightarrow> (2 \<le> k' \<longleftrightarrow> 2 \<le> k) \<Longrightarrow> at_level k' (note_call gx c b p)"
  by (simp add: at_level_def note_call_def levels_from_append)

lemma staged_do:
  "level_step (c, True) k = Some k' \<Longrightarrow> (2 \<le> k' \<longleftrightarrow> 2 \<le> k) \<Longrightarrow> staged (\<lambda>p. p) k (do_glfw env c) k' e"
  by (auto simp: staged_def do_glfw_def at_note)

lemma staged_keep: "level_step (c, True) k = Some k \<Longrightarrow> staged (\<lambda>p. p) k (do_glfw env c) k e"
  by (rule staged_do) simp_all

lemma staged_ask:
  "level_step (c, True) k = Some k \<Longrightarrow> level_step (c, False) k = Some k \<Longrightarrow> staged (\<lambda>p. p) k (ask_glfw env c) k e"
  by (auto simp: staged_def ask_glfw_def Let_def intro!: at_note) (metis (full_types))

lemma staged_enter:
  assumes "level_step (c, True) k = Some j" "level_step (c, False) k = Some k" "2 \<le> j \<longleftrightarrow> 2 \<le> k"
    "staged (\<lambda>p. p) j (f True) k' e" "staged (\<lambda>p. p) k (f False) k' e"
  shows "staged (\<lambda>p. p) k (cbind (ask_glfw env c) f) k' e"
proof (rule stagedI)
  fix p :: "'a GlfwPlatform" assume p: "at_level k p"
  let ?b = "gx_bool (env_glfw env) (gp_trace p) c"
  have "at_level (if ?b then j else k) (note_call (env_glfw env) c ?b p)"
    using at_note [OF p, of c ?b] assms(1-3) by simp
  then show "at_level (case fst (cbind (ask_glfw env c) f p) of Inr _ \<Rightarrow> k' | Inl _ \<Rightarrow> e) (snd (cbind (ask_glfw env c) f p))"
    using assms(4,5) by (cases ?b) (simp_all add: cbind_def ask_glfw_def Let_def staged_def)
qed

lemmas staged_rules = staged_cret staged_if staged_cwhen staged_prod staged_cfor staged_simple staged_block staged_cseq

lemmas level_eval = level_step_def Let_def

lemma staged_InitializeGlfw: "staged (\<lambda>p. p) 0 (InitializeGlfw env) 1 0"
  unfolding InitializeGlfw_def
  by (rule staged_rules staged_keep staged_enter [where j = 1] | simp add: level_eval)+

lemma staged_create:
  "staged (\<lambda>p. p) 1 (create_window env geometry) 2 1"
proof (rule stagedI)
  fix p :: "'a GlfwPlatform" assume p: "at_level 1 p"
  define c where "c = GCreateWindow (if cfg_hidden (gp_configuration p) then 1 else geo_width geometry)
      (if cfg_hidden (gp_configuration p) then 1 else geo_height geometry) WindowTitle"
  let ?b = "gx_bool (env_glfw env) (gp_trace p) c"
  have "levels_from (gp_trace (note_call (env_glfw env) c ?b p)) 0 = Some (if ?b then 2 else 1)"
    "gp_window (note_call (env_glfw env) c ?b p) = False"
    using p by (simp_all add: at_level_def note_call_def levels_from_append level_eval c_def)
  then show "at_level (case fst (create_window env geometry p) of Inr _ \<Rightarrow> 2 | Inl _ \<Rightarrow> 1) (snd (create_window env geometry p))"
    by (cases ?b) (simp_all add: create_window_def get_glfw_def cbind_def ask_glfw_def Let_def throw_latest_def at_level_def flip: c_def)
qed

lemma staged_CreateWindow: "staged (\<lambda>p. p) 1 (GlfwPlatform_CreateWindow env) 2 1"
  unfolding GlfwPlatform_CreateWindow_def Let_def
  by (rule staged_create staged_rules staged_keep staged_ask staged_cbind | simp add: level_eval)+

lemma staged_InitializeOpenGl: "staged (\<lambda>p. p) 2 (InitializeOpenGl env) 2 2"
  unfolding InitializeOpenGl_def Let_def
  by (rule staged_rules staged_keep staged_ask staged_cbind | simp add: level_eval)+

lemma staged_ApplyContentScale: "3 \<le> k \<Longrightarrow> staged (\<lambda>p. p) k (ApplyContentScale env scale) k e"
  unfolding ApplyContentScale_def by (rule staged_rules staged_keep | simp add: level_eval)+

lemma staged_CreateImGuiContext: "staged (\<lambda>p. p) 2 (CreateImGuiContext env) 3 2"
proof -
  have "staged (\<lambda>p. p) 2 (do_glfw env ICreateContext) 3 2" by (rule staged_do) (simp_all add: level_eval)
  then show ?thesis
    unfolding CreateImGuiContext_def
    by - (rule staged_ApplyContentScale staged_cseq [of _ 2 "do_glfw env ICreateContext" 3] staged_rules staged_keep staged_cbind
      | assumption | simp add: level_eval)+
qed

lemma staged_backends:
  "staged (\<lambda>p. p) 3 (InitializeImGuiGlfwBackend env) 4 3" "staged (\<lambda>p. p) 4 (InitializeImGuiOpenGlBackend env) 5 4"
  unfolding InitializeImGuiGlfwBackend_def InitializeImGuiOpenGlBackend_def
  by (rule staged_rules staged_keep staged_enter [where k = 3 and j = 4] staged_enter [where k = 4 and j = 5] | simp add: level_eval)+

lemma staged_frame_calls:
  "staged (\<lambda>p. p) 5 (WindowShouldClose env) 5 5" "staged (\<lambda>p. p) 5 (RequestClose env) 5 5"
  "staged (\<lambda>p. p) 5 (EndFrame env) 5 5"
  unfolding WindowShouldClose_def RequestClose_def EndFrame_def
  by (rule staged_rules staged_keep staged_ask staged_cbind | simp add: level_eval)+

lemma staged_callbacks: "staged (\<lambda>p. p) 5 (run_callback env e) 5 5"
  unfolding run_callback_def KeyCallback_def ContentScaleCallback_def
  by (cases e) (auto intro!: staged_cwhen staged_keep staged_ApplyContentScale simp: level_eval)

lemma staged_BeginFrame: "staged (\<lambda>p. p) 5 (BeginFrame env) 5 5"
  unfolding BeginFrame_def
  by (rule staged_callbacks staged_rules staged_keep staged_cbind | simp add: level_eval)+

lemma staged_DrawFrame: "staged fst 5 (DrawFrame env) 5 5"
  by (rule stagedI) (auto simp: DrawFrame_def AssertGuiThread_def at_level_def split: prod.splits sum.splits)

lemma teardown_levels:
  "at_level 1 p \<Longrightarrow> at_level 0 (TerminateGlfw env p)" "at_level 2 p \<Longrightarrow> at_level 1 (DestroyWindow env p)"
  "at_level 3 p \<Longrightarrow> at_level 2 (DestroyImGuiContext env p)" "at_level 4 p \<Longrightarrow> at_level 3 (ShutdownImGuiGlfwBackend env p)"
  "at_level 5 p \<Longrightarrow> at_level 4 (ShutdownImGuiOpenGlBackend env p)"
  by (simp_all add: at_level_def TerminateGlfw_def DestroyWindow_def DestroyImGuiContext_def ShutdownImGuiGlfwBackend_def
      ShutdownImGuiOpenGlBackend_def do_teardown_def note_call_def levels_from_append level_eval)

section \<open>The life cycle on this platform\<close>

lemma staged_on_platform: "staged (\<lambda>p. p) k m k' e \<Longrightarrow> staged gs_platform k (on_platform m) k' e"
  by (auto simp: staged_def on_platform_def case_prod_beta)

lemma staged_others:
  "staged gs_platform k (on_monitor f) k e" "staged gs_platform k (run_pump pump) k e"
  by (auto simp: staged_def on_monitor_def run_pump_def split: option.splits prod.splits)

lemma staged_draw: "staged gs_platform 5 (draw_frame (glfw_platform env)) 5 5"
  using staged_DrawFrame [of env]
  by (auto simp: staged_def draw_frame_def glfw_platform_def case_prod_beta)

lemma staged_with_stage:
  "staged gs_platform k body k k \<Longrightarrow> (\<And>p. at_level k p \<Longrightarrow> at_level j (teardown p)) \<Longrightarrow>
   staged gs_platform k (with_stage teardown body) j j"
  by (auto simp: staged_def with_stage_def split: prod.splits sum.splits)

lemmas staged_platform = staged_on_platform [OF staged_InitializeGlfw] staged_on_platform [OF staged_CreateWindow]
  staged_on_platform [OF staged_InitializeOpenGl] staged_on_platform [OF staged_CreateImGuiContext]
  staged_backends [THEN staged_on_platform] staged_frame_calls [THEN staged_on_platform]
  staged_on_platform [OF staged_BeginFrame]

lemma glfw_platform_simps [simp]:
  "gp_InitializeGlfw (glfw_platform env) = InitializeGlfw env" "gp_TerminateGlfw (glfw_platform env) = TerminateGlfw env"
  "gp_CreateWindow (glfw_platform env) = GlfwPlatform_CreateWindow env" "gp_DestroyWindow (glfw_platform env) = DestroyWindow env"
  "gp_InitializeOpenGl (glfw_platform env) = InitializeOpenGl env"
  "gp_CreateImGuiContext (glfw_platform env) = CreateImGuiContext env"
  "gp_DestroyImGuiContext (glfw_platform env) = DestroyImGuiContext env"
  "gp_InitializeImGuiGlfwBackend (glfw_platform env) = InitializeImGuiGlfwBackend env"
  "gp_ShutdownImGuiGlfwBackend (glfw_platform env) = ShutdownImGuiGlfwBackend env"
  "gp_InitializeImGuiOpenGlBackend (glfw_platform env) = InitializeImGuiOpenGlBackend env"
  "gp_ShutdownImGuiOpenGlBackend (glfw_platform env) = ShutdownImGuiOpenGlBackend env"
  "gp_WindowShouldClose (glfw_platform env) = WindowShouldClose env" "gp_RequestClose (glfw_platform env) = RequestClose env"
  "gp_BeginFrame (glfw_platform env) = BeginFrame env" "gp_DrawFrame (glfw_platform env) = DrawFrame env"
  "gp_EndFrame (glfw_platform env) = EndFrame env"
  by (simp_all add: glfw_platform_def)

lemma staged_close_if_exit:
  fixes env :: "'h gui_env"
  shows "staged gs_platform 5 (close_if_exit (glfw_platform env) :: (('h GlfwPlatform, 'b) gui_state, unit) comp) 5 5"
proof -
  have "staged gs_platform 5 (on_platform (RequestClose env) :: (('h GlfwPlatform, 'b) gui_state, unit) comp) 5 5"
    by (rule staged_platform)
  then show ?thesis by (simp add: staged_def close_if_exit_def)
qed

lemma staged_option:
  "staged pl k m k' e \<Longrightarrow> (\<And>x. staged pl k (f x) k' e) \<Longrightarrow> staged pl k (case v of None \<Rightarrow> m | Some x \<Rightarrow> f x) k' e"
  by (cases v) auto

lemma staged_gui_frame: "staged gs_platform 5 (gui_frame (glfw_platform env) pump) 5 5"
  unfolding gui_frame_def glfw_platform_simps
  by (rule staged_platform staged_others staged_draw staged_close_if_exit staged_option staged_cret staged_cseq staged_cbind)+

lemma staged_gui_loop: "staged gs_platform 5 (gui_loop n (glfw_platform env) pump) 5 5"
proof (induction n)
  case (Suc n)
  show ?case
    unfolding gui_loop.simps glfw_platform_simps
    by (rule Suc staged_platform staged_gui_frame staged_option staged_if staged_cret staged_cbind)+
qed (simp add: staged_cret)

lemma staged_gui_stages: "staged gs_platform 0 (gui_stages n (glfw_platform env) pump) 0 0"
  unfolding gui_stages_def glfw_platform_simps
  by (rule staged_platform staged_gui_loop staged_with_stage teardown_levels staged_cseq | assumption)+

section \<open>Leaving the frame loop\<close>

fun creates :: "glfw_call \<Rightarrow> bool" where
  "creates (GCreateWindow w h title) = True"
| "creates _ = False"

text \<open>The close flag of the current window has been set.\<close>

definition close_requested :: "glfw_trace \<Rightarrow> bool" where
  "close_requested tr \<longleftrightarrow> list_ex (\<lambda>e. fst e = GSetWindowShouldClose) (takeWhile (\<lambda>e. \<not> creates (fst e)) (rev tr))"

text \<open>What GLFW documents of the flag: once set, it stays set until the program clears it.\<close>

locale glfw_library =
  fixes gx :: glfw
  assumes close_flag: "close_requested tr \<Longrightarrow> gx_bool gx tr GWindowShouldClose"

lemma close_requested_snoc [simp]:
  "close_requested (tr @ [(c, b)]) \<longleftrightarrow> \<not> creates c \<and> (c = GSetWindowShouldClose \<or> close_requested tr)"
  by (auto simp: close_requested_def)

text \<open>
  \<open>steady env m\<close>: on the owner thread \<open>m\<close> returns, does not change the owner and does not undo a
  request to close.
\<close>

definition steady :: "'h gui_env \<Rightarrow> ('h, 'a) on_glfw \<Rightarrow> bool" where
  "steady env m \<longleftrightarrow>
     (\<forall>p. gp_guiThread p = env_thread env \<longrightarrow>
        (\<exists>x p'. m p = (Inr x, p') \<and> gp_guiThread p' = env_thread env \<and>
           (close_requested (gp_trace p) \<longrightarrow> close_requested (gp_trace p'))))"

lemma steady_cbind: "steady env m \<Longrightarrow> (\<And>x. steady env (f x)) \<Longrightarrow> steady env (cbind m f)"
  unfolding steady_def cbind_def by fastforce

lemma steady_cseq: "steady env m \<Longrightarrow> steady env n \<Longrightarrow> steady env (cseq m n)"
  by (simp add: cseq_def steady_cbind)

lemma steady_simple:
  "steady env (cret x)" "steady env (get_glfw f)" "steady env (set_scale t)" "steady env new_frame"
  "steady env (AssertGuiThread env)"
  by (simp_all add: steady_def cret_def get_glfw_def set_scale_def new_frame_def AssertGuiThread_def IsExpectedThread_def)

lemma steady_calls:
  assumes "\<not> creates c"
  shows "steady env (do_glfw env c)" "steady env (ask_glfw env c)"
  using assms by (simp_all add: steady_def do_glfw_def ask_glfw_def note_call_def Let_def)

lemma steady_block: "steady env (block [])" "steady env m \<Longrightarrow> steady env (block ms) \<Longrightarrow> steady env (block (m # ms))"
  by (simp_all add: steady_simple steady_cseq)

lemma steady_cwhen: "steady env m \<Longrightarrow> steady env (cwhen b m)"
  by (simp add: cwhen_def steady_simple)

lemma steady_cfor: "(\<And>x. steady env (f x)) \<Longrightarrow> steady env (cfor xs f)"
  by (induction xs) (simp_all add: steady_simple steady_cseq)

lemmas steady_rules = steady_simple steady_calls steady_block steady_cwhen steady_cfor steady_cseq steady_cbind

lemma steady_callback: "steady env (run_callback env e)"
  unfolding run_callback_def KeyCallback_def ContentScaleCallback_def ApplyContentScale_def
  by (cases e) (auto intro!: steady_rules)

lemma steady_frame_calls:
  "steady env (BeginFrame env)" "steady env (EndFrame env)" "steady env (RequestClose env)" "steady env (WindowShouldClose env)"
  unfolding BeginFrame_def EndFrame_def RequestClose_def WindowShouldClose_def
  by (rule steady_callback steady_rules | simp)+

text \<open>\<open>ends I m J\<close>: from a state with \<open>I\<close> the computation returns in one with \<open>J\<close>.\<close>

definition ends :: "('s \<Rightarrow> bool) \<Rightarrow> ('s, 'a) comp \<Rightarrow> ('a \<Rightarrow> 's \<Rightarrow> bool) \<Rightarrow> bool" where
  "ends I m J \<longleftrightarrow> (\<forall>s. I s \<longrightarrow> (\<exists>x s'. m s = (Inr x, s') \<and> J x s'))"

lemma ends_cbind: "ends I m J \<Longrightarrow> (\<And>x. ends (J x) (f x) K) \<Longrightarrow> ends I (cbind m f) K"
  unfolding ends_def cbind_def by fastforce

lemma ends_cseq: "ends I m J \<Longrightarrow> ends (J ()) n K \<Longrightarrow> ends I (cseq m n) K"
  by (simp add: cseq_def ends_cbind)

lemma ends_cret: "(\<And>s. I s \<Longrightarrow> J x s) \<Longrightarrow> ends I (cret x) J"
  by (simp add: ends_def cret_def)

text \<open>The owner thread runs and an exit has been requested; \<open>c\<close>: the window knows.\<close>

definition leaving :: "'h gui_env \<Rightarrow> bool \<Rightarrow> ('h GlfwPlatform, 'b) gui_state \<Rightarrow> bool" where
  "leaving env c s \<longleftrightarrow> gp_guiThread (gs_platform s) = env_thread env \<and> mon_exitRequested (gs_monitor s) \<and>
     (c \<longrightarrow> close_requested (gp_trace (gs_platform s)))"

lemma ends_platform:
  assumes "steady env m"
  shows "ends (leaving env c) (on_platform m) (\<lambda>_. leaving env c)"
  unfolding ends_def
proof (intro allI impI)
  fix s :: "('a GlfwPlatform, 'c) gui_state" assume "leaving env c s"
  with assms show "\<exists>x s'. on_platform m s = (Inr x, s') \<and> leaving env c s'"
    unfolding steady_def leaving_def on_platform_def by (elim allE [of _ "gs_platform s"]) auto
qed

lemma pump_keeps_exit: "mon_exitRequested (snd (snd (PumpStorage (storage, state)))) = mon_exitRequested state"
proof -
  have "mon_exitRequested (snd (snd (pump_results rs (sv, st)))) = mon_exitRequested st" for rs and sv :: "'a DeviceStorageService" and st
    by (induction rs arbitrary: st) (auto simp: ReplaceDevices_def)
  then show ?thesis by (auto simp: PumpStorage_def ConsumeCommands_def Let_def split: prod.splits)
qed

lemma ends_pump:
  fixes env :: "'h gui_env"
  shows "ends (leaving env c) (run_pump (Some PumpStorage) :: (('h GlfwPlatform, 'd DeviceStorageService) gui_state, string option) comp)
    (\<lambda>_. leaving env c)"
  unfolding ends_def
proof (intro allI impI)
  fix s :: "('h GlfwPlatform, 'd DeviceStorageService) gui_state" assume "leaving env c s"
  then show "\<exists>x s'. run_pump (Some PumpStorage) s = (Inr x, s') \<and> leaving env c s'"
    using pump_keeps_exit [of "gs_background s" "gs_monitor s"]
    by (auto simp: run_pump_def leaving_def split: prod.splits)
qed

lemma ends_monitor: "(\<And>m. mon_exitRequested m \<Longrightarrow> mon_exitRequested (f m)) \<Longrightarrow> ends (leaving env c) (on_monitor f) (\<lambda>_. leaving env c)"
  by (simp add: ends_def on_monitor_def leaving_def)

text \<open>Once an exit is requested, \<^verbatim>\<open>ShowWindow\<close> draws nothing.\<close>

lemma draw_leaving:
  assumes "mon_exitRequested (ad_monitor (ui_data u))"
  shows "\<exists>u'. draw_windows env u = (Inr (), u') \<and> mon_exitRequested (ad_monitor (ui_data u'))"
  using assms
  by (auto simp: draw_windows_def ShowWindow_def get_monitor_def cseq_def cbind_def ui_get_def cret_def ui_ask_def ui_note_def
      cwhen_def Let_def update_monitor_def ui_update_def RequestExit_def)

lemma ends_draw: "ends (leaving env c) (draw_frame (glfw_platform env)) (\<lambda>_. leaving env c)"
  unfolding ends_def
proof (intro allI impI)
  fix s :: "('a GlfwPlatform, 'b) gui_state" assume s: "leaving env c s"
  obtain u where "draw_windows env \<lparr>ui_events = gp_frame (gs_platform s), ui_data = (gp_gui (gs_platform s))\<lparr>ad_monitor := gs_monitor s\<rparr>\<rparr> = (Inr (), u)"
    "mon_exitRequested (ad_monitor (ui_data u))"
    using s draw_leaving [of "\<lparr>ui_events = gp_frame (gs_platform s), ui_data = (gp_gui (gs_platform s))\<lparr>ad_monitor := gs_monitor s\<rparr>\<rparr>" env]
    by (auto simp: leaving_def)
  with s show "\<exists>x s'. draw_frame (glfw_platform env) s = (Inr x, s') \<and> leaving env c s'"
    by (simp add: draw_frame_def DrawFrame_def AssertGuiThread_def IsExpectedThread_def leaving_def)
qed

lemma ends_close: "ends (leaving env c) (close_if_exit (glfw_platform env)) (\<lambda>_. leaving env True)"
  by (auto simp: ends_def close_if_exit_def leaving_def on_platform_def RequestClose_def cseq_def cbind_def AssertGuiThread_def
      IsExpectedThread_def do_glfw_def note_call_def)

lemma ends_frame:
  fixes env :: "'h gui_env"
  shows "ends (leaving env c)
    (gui_frame (glfw_platform env) (Some PumpStorage) :: (('h GlfwPlatform, 'd DeviceStorageService) gui_state, string option) comp)
    (\<lambda>_. leaving env True)"
proof -
  have error: "ends (leaving env c) (case error of None \<Rightarrow> cret () | Some e \<Rightarrow>
      cseq (on_monitor (SetError e)) (cseq (on_monitor Device_Monitor.RequestExit) (on_platform (RequestClose env))))
      (\<lambda>_. leaving env c)" for error
    by (cases error)
      (auto intro!: ends_cret ends_cseq [OF ends_monitor] ends_platform steady_frame_calls simp: SetError_def RequestExit_def)
  show ?thesis
    unfolding gui_frame_def glfw_platform_simps
    by (rule ends_cseq [OF ends_platform [OF steady_frame_calls(1)]] ends_cbind [OF ends_pump] ends_cseq [OF error]
      ends_cseq [OF ends_draw] ends_cseq [OF ends_close] ends_cseq [OF ends_platform [OF steady_frame_calls(2)]] ends_cret | assumption)+
qed

context glfw_library
begin

lemma close_returns:
  assumes "env_glfw env = gx" "leaving env True s"
  shows "\<exists>s'. gui_loop (Suc n) (glfw_platform env) pump s = (Inr (Some \<lparr>gui_success = True, gui_error = []\<rparr>), s')"
  using assms close_flag
  by (auto simp: leaving_def cbind_def on_platform_def WindowShouldClose_def cseq_def AssertGuiThread_def IsExpectedThread_def
      ask_glfw_def Let_def cret_def)

end

section \<open>Properties\<close>

text \<open>Libraries on which everything succeeds and the window closes when it is told to.\<close>

definition quiet_glfw :: glfw where
  "quiet_glfw =
     \<lparr>gx_bool = (\<lambda>tr c. case c of GWindowShouldClose \<Rightarrow> close_requested tr | _ \<Rightarrow> True),
      gx_workarea = (\<lambda>tr. \<lparr>area_x = 0, area_y = 0, area_width = 1920, area_height = 1080\<rparr>),
      gx_version = (\<lambda>tr. (4, 6)), gx_scale = (\<lambda>tr. (Finite 1, Finite 1)), gx_errors = (\<lambda>tr c. []), gx_events = (\<lambda>tr. [])\<rparr>"

interpretation quiet: glfw_library quiet_glfw
  by unfold_locales (simp add: quiet_glfw_def)

definition sample_env :: "unit gui_env" where
  "sample_env = \<lparr>env_thread = 1, env_glfw = quiet_glfw, env_imgui = pressing ''Exit'', env_now = ''now'', env_formats = True,
     env_call = (\<lambda>_ _. Inr ())\<rparr>"

definition sample_platform :: "unit GlfwPlatform" where
  "sample_platform = construct_platform default_configuration 1 None (initial_gui initial_monitor None initial_logger)"

text \<open>
  C11: the libraries are used in order and released completely. Whatever GLFW, OpenGL and ImGui answer,
  at every stage and in every frame, the life cycle on \<^verbatim>\<open>GlfwPlatform\<close> calls each library
  function only while what it needs is initialised, and in the end the back ends, the context, the
  window and GLFW have been released, in this order and exactly if they were initialised, and
  \<^verbatim>\<open>window_\<close> is null again.
\<close>

theorem library_calls_in_order:
  assumes "levels_from (gp_trace (gs_platform s)) 0 = Some 0" "\<not> gp_window (gs_platform s)"
  shows "let p = gs_platform (snd (RunGuiLifecycle n (glfw_platform env) pump s)) in
    levels_from (gp_trace p) 0 = Some 0 \<and> \<not> gp_window p"
proof -
  have "at_level 0 (gs_platform s)" using assms by (simp add: at_level_def)
  then have "at_level 0 (gs_platform (snd (gui_stages n (glfw_platform env) pump s)))"
    using staged_gui_stages [of n env pump] by (auto simp: staged_def split: sum.splits)
  moreover have "snd (RunGuiLifecycle n (glfw_platform env) pump s) = snd (gui_stages n (glfw_platform env) pump s)"
    by (simp add: RunGuiLifecycle_def split: prod.splits sum.splits)
  ultimately show ?thesis by (simp add: at_level_def Let_def)
qed

theorem library_calls_in_order_witness:
  "let s = \<lparr>gs_platform = sample_platform, gs_monitor = initial_monitor, gs_background = ()\<rparr>;
       p = gs_platform (snd (RunGuiLifecycle 7 (glfw_platform sample_env) None s)) in
    levels_from (gp_trace p) 0 = Some 0 \<and> \<not> gp_window p"
  using library_calls_in_order [of "\<lparr>gs_platform = sample_platform, gs_monitor = initial_monitor, gs_background = ()\<rparr>" 7 sample_env None]
  by (simp add: sample_platform_def construct_platform_def Let_def)

text \<open>
  C12: a requested exit ends the program. Once the Exit button, the Escape key or a storage failure has
  requested the exit, the frame loop on the owner thread returns at the latest before the second
  next frame, whatever the user, the storage worker and the libraries do, provided the close flag
  of a GLFW window stays set.
\<close>

theorem exit_request_ends_loop:
  assumes "glfw_library (env_glfw env)" "gp_guiThread (gs_platform s) = env_thread env" "mon_exitRequested (gs_monitor s)"
  shows "\<exists>result s'. gui_loop (Suc (Suc n)) (glfw_platform env) (Some PumpStorage) s = (Inr (Some result), s')"
proof -
  have "leaving env False s" using assms(2,3) by (simp add: leaving_def)
  with ends_platform [OF steady_frame_calls(4), of env False] obtain close s1 where
    1: "on_platform (WindowShouldClose env) s = (Inr close, s1)" "leaving env False s1" unfolding ends_def by blast
  show ?thesis
  proof (cases close)
    case True
    with 1 show ?thesis by (auto simp: cbind_def cret_def)
  next
    case False
    obtain error s2 where 2: "gui_frame (glfw_platform env) (Some PumpStorage) s1 = (Inr error, s2)" "leaving env True s2"
      using ends_frame [of env False] 1(2) unfolding ends_def by blast
    obtain s3 where "gui_loop (Suc n) (glfw_platform env) (Some PumpStorage) s2 = (Inr (Some \<lparr>gui_success = True, gui_error = []\<rparr>), s3)"
      using glfw_library.close_returns [OF assms(1) refl 2(2)] by blast
    with False 1(1) 2(1) show ?thesis
      unfolding gui_loop.simps(2) [of "Suc n"] glfw_platform_simps
      by (cases error) (simp_all add: cbind_def cret_def del: gui_loop.simps)
  qed
qed

theorem exit_request_ends_loop_witness:
  "\<exists>result s'. gui_loop (Suc (Suc 0)) (glfw_platform sample_env) (Some PumpStorage)
     \<lparr>gs_platform = sample_platform, gs_monitor = RequestExit initial_monitor, gs_background = projr (construct_service (Some ()) OwnedThread)\<rparr> = (Inr (Some result), s')"
  by (rule exit_request_ends_loop)
    (simp_all add: sample_env_def sample_platform_def construct_platform_def RequestExit_def quiet.glfw_library_axioms)

end
