(* ===== verification/Coroutine_Task.thy ===== *)
theory Coroutine_Task
  imports Prelude
begin

text \<open>
  \<^verbatim>\<open>src/src/Utils/Concurrency/CoroutineTask.hpp\<close>: the shared result of a coroutine and the
  handle its creator keeps. Each method is one section under the state's mutex; a method that
  blocks is undefined (\<open>None\<close>) on the states in which it waits. A \<open>CoroutineTask\<close> is read
  together with the state its pointer leads to, \<open>None\<close> for an empty task. The lemmas show
  that a task is settled once: the first result wins and every later one is ignored.
\<close>

datatype TaskStatus = task_pending | task_succeeded | task_cancelled | task_failed

definition TaskCancelled :: cpp_exn where
  "TaskCancelled = RuntimeError ''coroutine task was cancelled''"

record TaskState =
  ts_status :: TaskStatus
  ts_exception :: "cpp_exn option"

definition TaskState_init :: TaskState where
  "TaskState_init = \<lparr>ts_status = task_pending, ts_exception = None\<rparr>"

definition finish :: "TaskStatus \<Rightarrow> cpp_exn option \<Rightarrow> TaskState \<Rightarrow> TaskState" where
  "finish status ex s =
     (if ts_status s \<noteq> task_pending then s
      else s\<lparr>ts_status := status, ts_exception := ex\<rparr>)"

definition task_succeed :: "TaskState \<Rightarrow> TaskState" where
  "task_succeed s = finish task_succeeded None s"

definition task_fail :: "cpp_exn \<Rightarrow> TaskState \<Rightarrow> TaskState" where
  "task_fail e s = finish task_failed (Some e) s"

definition task_cancel :: "TaskState \<Rightarrow> TaskState" where
  "task_cancel s = finish task_cancelled None s"

definition TaskState_wait :: "TaskState \<Rightarrow> unit option" where
  "TaskState_wait s = (if ts_status s \<noteq> task_pending then Some () else None)"

text \<open>\<open>wait_for\<close> reads the state when it is woken with a result, or at the timeout.\<close>

definition TaskState_wait_for :: "TaskState \<Rightarrow> bool" where
  "TaskState_wait_for s \<longleftrightarrow> ts_status s \<noteq> task_pending"

definition TaskState_get :: "TaskState \<Rightarrow> (cpp_exn + unit) option" where
  "TaskState_get s =
     (case TaskState_wait s of
        None \<Rightarrow> None
      | Some _ \<Rightarrow> Some
          (if ts_status s = task_cancelled then Inl TaskCancelled
           else case ts_exception s of Some e \<Rightarrow> Inl e | None \<Rightarrow> Inr ()))"

section \<open>The handle\<close>

definition require_state :: "TaskState option \<Rightarrow> cpp_exn + TaskState" where
  "require_state t =
     (case t of None \<Rightarrow> Inl (LogicError ''operation on an empty coroutine task'') | Some s \<Rightarrow> Inr s)"

definition CoroutineTask_valid :: "TaskState option \<Rightarrow> bool" where
  "CoroutineTask_valid t \<longleftrightarrow> t \<noteq> None"

definition CoroutineTask_status :: "TaskState option \<Rightarrow> TaskStatus" where
  "CoroutineTask_status t = (case t of Some s \<Rightarrow> ts_status s | None \<Rightarrow> task_cancelled)"

definition CoroutineTask_done :: "TaskState option \<Rightarrow> bool" where
  "CoroutineTask_done t \<longleftrightarrow> CoroutineTask_status t \<noteq> task_pending"

definition CoroutineTask_cancelled :: "TaskState option \<Rightarrow> bool" where
  "CoroutineTask_cancelled t \<longleftrightarrow> CoroutineTask_status t = task_cancelled"

definition CoroutineTask_wait :: "TaskState option \<Rightarrow> (cpp_exn + unit) option" where
  "CoroutineTask_wait t =
     (case require_state t of Inl e \<Rightarrow> Some (Inl e) | Inr s \<Rightarrow> map_option Inr (TaskState_wait s))"

definition CoroutineTask_wait_for :: "TaskState option \<Rightarrow> cpp_exn + bool" where
  "CoroutineTask_wait_for t = ebind (require_state t) (\<lambda>s. Inr (TaskState_wait_for s))"

definition CoroutineTask_get :: "TaskState option \<Rightarrow> (cpp_exn + unit) option" where
  "CoroutineTask_get t =
     (case require_state t of Inl e \<Rightarrow> Some (Inl e) | Inr s \<Rightarrow> TaskState_get s)"

text \<open>
  A lazy coroutine that yields values (\<^verbatim>\<open>std::generator\<close> and \<^verbatim>\<open>AsyncEventLoop::Generator\<close>):
  it returns, throws, or yields a value and goes on. Generators need not end.
\<close>

codatatype 'e generator = GenEnd | GenThrow cpp_exn | GenYield 'e "'e generator"

section \<open>A task is settled once\<close>

text \<open>The three ways in which a coroutine or its loop settles a task.\<close>

datatype settlement = Succeed | Fail cpp_exn | Cancel

fun settle :: "settlement \<Rightarrow> TaskState \<Rightarrow> TaskState" where
  "settle Succeed s = task_succeed s"
| "settle (Fail e) s = task_fail e s"
| "settle Cancel s = task_cancel s"

lemmas task_ops = task_succeed_def task_fail_def task_cancel_def finish_def

lemma settle_settled: "ts_status s \<noteq> task_pending \<Longrightarrow> settle r s = s"
  by (cases r) (simp_all add: task_ops)

lemma settle_pending: "ts_status (settle r s) \<noteq> task_pending"
  by (cases r) (simp_all add: task_ops)

lemma task_ops_settled [simp]:
  "ts_status (task_succeed s) \<noteq> task_pending"
  "ts_status (task_fail e s) \<noteq> task_pending"
  "ts_status (task_cancel s) \<noteq> task_pending"
  by (simp_all add: task_ops)

lemma fold_settle_settled: "ts_status s \<noteq> task_pending \<Longrightarrow> fold settle rs s = s"
  by (induction rs) (simp_all add: settle_settled)

text \<open>
  Once a coroutine has been settled, \<^verbatim>\<open>get()\<close> returns what the first settlement
  says (nothing, its exception, or \<^verbatim>\<open>TaskCancelled\<close>) whatever else is reported later; before
  that it blocks, and on an empty task it throws.
\<close>

theorem first_settlement_wins:
  "CoroutineTask_get (Some (fold settle (r # rs) TaskState_init)) =
     Some (case r of Succeed \<Rightarrow> Inr () | Fail e \<Rightarrow> Inl e | Cancel \<Rightarrow> Inl TaskCancelled) \<and>
   CoroutineTask_get (Some TaskState_init) = None \<and>
   CoroutineTask_get None = Some (Inl (LogicError ''operation on an empty coroutine task''))"
proof -
  have "fold settle (r # rs) TaskState_init = settle r TaskState_init"
    by (simp add: fold_settle_settled settle_pending)
  then show ?thesis
    by (cases r) (simp_all add: CoroutineTask_get_def require_state_def TaskState_get_def
        TaskState_wait_def TaskState_init_def task_ops)
qed

end
