(* ===== verification/Event_Loop_Generator.thy ===== *)
theory Event_Loop_Generator
  imports Coroutine_Task
begin

text \<open>
  \<^verbatim>\<open>src/src/Utils/Concurrency/EventLoopGenerator.hpp\<close>: a loop with one queue worker and owned
  producer threads that feed it from generators. The promises behind the returned futures
  are cells of two tables, one for events and one for sequences; a future is the index of
  its cell. Each critical section, and each point at which a thread may block, is one step of
  the thread that runs it; a step is \<open>None\<close> where the thread is blocked or has returned. An
  action is a value of any type and \<open>call\<close> says what calling it ends with. Running out of
  memory (the only way in which queueing or reading a future can throw here) is left out.
\<close>

section \<open>Data\<close>

record 'a Event =
  ev_id :: "64 word"
  ev_name :: string
  ev_action :: 'a

datatype SubmissionStatus = Accepted | SubRejectedStopped | SubRejectedIdExhausted

datatype EventStatus = Executed | EventFailed | RejectedStopped | RejectedIdExhausted

record EventResult =
  er_id :: "64 word"
  er_status :: EventStatus
  er_exception :: "cpp_exn option"

record SubmissionResult =
  sub_id :: "64 word"
  sub_status :: SubmissionStatus
  sub_completion :: nat

definition accepted :: "SubmissionResult \<Rightarrow> bool" where
  "accepted r \<longleftrightarrow> sub_status r = Accepted"

datatype SequenceStatus = Completed | SeqCancelled | SeqFailed

record SequenceResult =
  sq_status :: SequenceStatus
  sq_events :: "EventResult list"
  sq_producer_exception :: "cpp_exn option"

record 'a QueuedEvent =
  q_event :: "'a Event"
  q_completion :: nat

text \<open>
  The worker is waiting for an event, executing one, or has returned. A producer runs the
  \<^verbatim>\<open>for\<close> loop of \<open>consume_sequence\<close> (the rest of the generator and the futures so far), then
  reads the futures one by one, then has set its promise.
\<close>

datatype 'a gen_worker = GenWaiting | GenExecuting "'a QueuedEvent" | GenExited

datatype 'a producer_phase =
    Generating "'a Event generator" "nat list"
  | Collecting "nat list" SequenceResult
  | ProducerDone

record 'a producer =
  pr_stop :: bool
  pr_completion :: nat
  pr_phase :: "'a producer_phase"

datatype shutdown_phase = NotShutDown | JoiningProducers | JoiningWorker | ShutdownComplete

record 'a EventLoopGenerator =
  eg_events :: "'a QueuedEvent list"
  eg_last_issued_event_id :: "64 word"
  eg_accepting :: bool
  eg_worker :: "'a gen_worker"
  eg_producers :: "'a producer list"
  eg_shutdown :: shutdown_phase
  eg_completions :: "EventResult option list"
  eg_sequences :: "SequenceResult option list"

definition construct_EventLoopGenerator :: "64 word \<Rightarrow> 'a EventLoopGenerator" where
  "construct_EventLoopGenerator last_issued_event_id =
     \<lparr>eg_events = [], eg_last_issued_event_id = last_issued_event_id, eg_accepting = True,
      eg_worker = GenWaiting, eg_producers = [], eg_shutdown = NotShutDown,
      eg_completions = [], eg_sequences = []\<rparr>"

section \<open>Submission\<close>

definition schedule_event ::
    "string \<Rightarrow> 'a \<Rightarrow> 'a EventLoopGenerator \<Rightarrow> SubmissionResult \<times> 'a EventLoopGenerator" where
  "schedule_event name action s =
     (let future = length (eg_completions s) in
      if \<not> eg_accepting s then
        (\<lparr>sub_id = 0, sub_status = SubRejectedStopped, sub_completion = future\<rparr>,
         s\<lparr>eg_completions := eg_completions s @
           [Some \<lparr>er_id = 0, er_status = RejectedStopped, er_exception = None\<rparr>]\<rparr>)
      else if eg_last_issued_event_id s = - 1 then
        (\<lparr>sub_id = 0, sub_status = SubRejectedIdExhausted, sub_completion = future\<rparr>,
         s\<lparr>eg_completions := eg_completions s @
           [Some \<lparr>er_id = 0, er_status = RejectedIdExhausted, er_exception = None\<rparr>]\<rparr>)
      else
        let event_id = eg_last_issued_event_id s + 1 in
        (\<lparr>sub_id = event_id, sub_status = Accepted, sub_completion = future\<rparr>,
         s\<lparr>eg_last_issued_event_id := event_id,
           eg_events := eg_events s @ [\<lparr>q_event = \<lparr>ev_id = event_id, ev_name = name, ev_action = action\<rparr>,
             q_completion = future\<rparr>],
           eg_completions := eg_completions s @ [None]\<rparr>))"

text \<open>
  \<open>event_generator\<close> from index \<open>i\<close> on: the remaining events are named and bound to their
  index. \<open>pattern_action i\<close> is the closure over \<open>i\<close>.
\<close>

fun event_generator_from :: "nat \<Rightarrow> nat \<Rightarrow> string \<Rightarrow> (nat \<Rightarrow> 'a) \<Rightarrow> 'a Event generator" where
  "event_generator_from 0 i pattern_name pattern_action = GenEnd"
| "event_generator_from (Suc n) i pattern_name pattern_action =
     GenYield \<lparr>ev_id = of_nat i, ev_name = pattern_name @ '' #'' @ dec_of_nat (i + 1), ev_action = pattern_action i\<rparr>
       (event_generator_from n (Suc i) pattern_name pattern_action)"

definition event_generator :: "int \<Rightarrow> string \<Rightarrow> (nat \<Rightarrow> 'a) \<Rightarrow> 'a Event generator" where
  "event_generator count pattern_name pattern_action =
     event_generator_from (nat count) 0 pattern_name pattern_action"

text \<open>
  \<open>spawn\<close> is the exception with which starting the producer thread fails, if it does. The
  call blocks while \<open>shutdown\<close> joins the producers, which it does under \<^verbatim>\<open>producers_mutex_\<close>.
\<close>

definition process_event_sequence ::
    "cpp_exn option \<Rightarrow> 'a Event generator \<Rightarrow> 'a EventLoopGenerator \<Rightarrow> (nat \<times> 'a EventLoopGenerator) option" where
  "process_event_sequence spawn generator s =
     (let future = length (eg_sequences s) in
      if eg_shutdown s = JoiningProducers then None
      else if \<not> eg_accepting s then
        Some (future, s\<lparr>eg_sequences := eg_sequences s @
          [Some \<lparr>sq_status = SeqCancelled, sq_events = [], sq_producer_exception = None\<rparr>]\<rparr>)
      else case spawn of
        Some e \<Rightarrow> Some (future, s\<lparr>eg_sequences := eg_sequences s @
          [Some \<lparr>sq_status = SeqFailed, sq_events = [], sq_producer_exception = Some e\<rparr>]\<rparr>)
      | None \<Rightarrow> Some (future, s\<lparr>eg_sequences := eg_sequences s @ [None],
          eg_producers := eg_producers s @
            [\<lparr>pr_stop = False, pr_completion = future, pr_phase = Generating generator []\<rparr>]\<rparr>))"

section \<open>Threads\<close>

text \<open>One event result is folded into the sequence result.\<close>

definition collect_event :: "EventResult \<Rightarrow> SequenceResult \<Rightarrow> SequenceResult" where
  "collect_event event_result result =
     result\<lparr>sq_status :=
         (if er_status event_result = EventFailed then SeqFailed
          else if er_status event_result \<noteq> Executed \<and> sq_status result \<noteq> SeqFailed then SeqCancelled
          else sq_status result),
       sq_events := sq_events result @ [event_result]\<rparr>"

definition set_phase :: "nat \<Rightarrow> 'a producer_phase \<Rightarrow> 'a EventLoopGenerator \<Rightarrow> 'a EventLoopGenerator" where
  "set_phase i ph s = s\<lparr>eg_producers := (eg_producers s)[i := (eg_producers s ! i)\<lparr>pr_phase := ph\<rparr>]\<rparr>"

abbreviation sequence_start :: "SequenceStatus \<Rightarrow> cpp_exn option \<Rightarrow> SequenceResult" where
  "sequence_start st e \<equiv> \<lparr>sq_status = st, sq_events = [], sq_producer_exception = e\<rparr>"

definition consume_sequence :: "nat \<Rightarrow> 'a EventLoopGenerator \<Rightarrow> 'a EventLoopGenerator option" where
  "consume_sequence i s =
     (if length (eg_producers s) \<le> i then None
      else let p = eg_producers s ! i in
      case pr_phase p of
        Generating GenEnd futures \<Rightarrow> Some (set_phase i (Collecting futures (sequence_start Completed None)) s)
      | Generating (GenThrow e) futures \<Rightarrow> Some (set_phase i (Collecting futures (sequence_start SeqFailed (Some e))) s)
      | Generating (GenYield event rest) futures \<Rightarrow>
          if pr_stop p then Some (set_phase i (Collecting futures (sequence_start SeqCancelled None)) s)
          else
            (let (submission, s') = schedule_event (ev_name event) (ev_action event) s;
                 futures' = futures @ [sub_completion submission] in
             Some (set_phase i
               (if accepted submission then Generating rest futures'
                else Collecting futures' (sequence_start SeqCancelled None)) s'))
      | Collecting (future # futures) result \<Rightarrow>
          (case eg_completions s ! future of
             None \<Rightarrow> None
           | Some event_result \<Rightarrow> Some (set_phase i (Collecting futures (collect_event event_result result)) s))
      | Collecting [] result \<Rightarrow>
          Some (set_phase i ProducerDone (s\<lparr>eg_sequences := (eg_sequences s)[pr_completion p := Some result]\<rparr>))
      | ProducerDone \<Rightarrow> None)"

definition run :: "('a \<Rightarrow> cpp_exn option) \<Rightarrow> 'a EventLoopGenerator \<Rightarrow> 'a EventLoopGenerator option" where
  "run call s =
     (case eg_worker s of
        GenWaiting \<Rightarrow>
          (case eg_events s of
             [] \<Rightarrow> if \<not> eg_accepting s then Some (s\<lparr>eg_worker := GenExited\<rparr>) else None
           | q # rest \<Rightarrow> Some (s\<lparr>eg_events := rest, eg_worker := GenExecuting q\<rparr>))
      | GenExecuting q \<Rightarrow>
          Some (s\<lparr>eg_worker := GenWaiting,
            eg_completions := (eg_completions s)[q_completion q := Some
              (case call (ev_action (q_event q)) of
                 None \<Rightarrow> \<lparr>er_id = ev_id (q_event q), er_status = Executed, er_exception = None\<rparr>
               | Some e \<Rightarrow> \<lparr>er_id = ev_id (q_event q), er_status = EventFailed, er_exception = Some e\<rparr>)]\<rparr>)
      | GenExited \<Rightarrow> None)"

text \<open>
  \<open>shutdown\<close> closes admission and asks every producer to stop, waits until the producers have
  returned, and waits until the worker has returned. A caller that finds another shutdown in
  progress waits for its end on \<^verbatim>\<open>shutdown_mutex_\<close>.
\<close>

definition shutdown :: "'a EventLoopGenerator \<Rightarrow> 'a EventLoopGenerator option" where
  "shutdown s =
     (case eg_shutdown s of
        NotShutDown \<Rightarrow> Some (s\<lparr>eg_accepting := False, eg_shutdown := JoiningProducers,
          eg_producers := map (\<lambda>p. p\<lparr>pr_stop := True\<rparr>) (eg_producers s)\<rparr>)
      | JoiningProducers \<Rightarrow>
          if list_all (\<lambda>p. pr_phase p = ProducerDone) (eg_producers s)
          then Some (s\<lparr>eg_producers := [], eg_shutdown := JoiningWorker\<rparr>) else None
      | JoiningWorker \<Rightarrow>
          if eg_worker s = GenExited then Some (s\<lparr>eg_shutdown := ShutdownComplete\<rparr>) else None
      | ShutdownComplete \<Rightarrow> None)"

section \<open>Reachable loops\<close>

text \<open>
  The loops that any interleaving of callers, producers and the worker reaches from a new
  loop, with the events accepted and the events settled so far, in order.
\<close>

abbreviation newly_queued :: "'a EventLoopGenerator \<Rightarrow> 'a EventLoopGenerator \<Rightarrow> 'a QueuedEvent list" where
  "newly_queued s s' \<equiv> drop (length (eg_events s)) (eg_events s')"

definition executing :: "'a EventLoopGenerator \<Rightarrow> 'a QueuedEvent list" where
  "executing s = (case eg_worker s of GenExecuting q \<Rightarrow> [q] | _ \<Rightarrow> [])"

inductive gen_reachable ::
    "('a \<Rightarrow> cpp_exn option) \<Rightarrow> 64 word \<Rightarrow> 'a EventLoopGenerator \<Rightarrow> 'a QueuedEvent list \<Rightarrow> 'a QueuedEvent list \<Rightarrow> bool"
  for call :: "'a \<Rightarrow> cpp_exn option" and first :: "64 word" where
  Construct: "gen_reachable call first (construct_EventLoopGenerator first) [] []"
| Schedule: "gen_reachable call first s acc stl \<Longrightarrow> schedule_event name action s = (r, s') \<Longrightarrow>
    gen_reachable call first s' (acc @ newly_queued s s') stl"
| Process: "gen_reachable call first s acc stl \<Longrightarrow> process_event_sequence spawn generator s = Some (k, s') \<Longrightarrow>
    gen_reachable call first s' acc stl"
| Produce: "gen_reachable call first s acc stl \<Longrightarrow> consume_sequence i s = Some s' \<Longrightarrow>
    gen_reachable call first s' (acc @ newly_queued s s') stl"
| Work: "gen_reachable call first s acc stl \<Longrightarrow> run call s = Some s' \<Longrightarrow>
    gen_reachable call first s' acc (stl @ executing s)"
| Shutdown: "gen_reachable call first s acc stl \<Longrightarrow> shutdown s = Some s' \<Longrightarrow>
    gen_reachable call first s' acc stl"

section \<open>Events\<close>

text \<open>The result the worker stores for an event.\<close>

definition event_result :: "('a \<Rightarrow> cpp_exn option) \<Rightarrow> 'a QueuedEvent \<Rightarrow> EventResult" where
  "event_result call q =
     \<lparr>er_id = ev_id (q_event q),
      er_status = (if call (ev_action (q_event q)) = None then Executed else EventFailed),
      er_exception = call (ev_action (q_event q))\<rparr>"

definition waiting_events :: "'a EventLoopGenerator \<Rightarrow> 'a QueuedEvent list" where
  "waiting_events s = executing s @ eg_events s"

definition ids_after :: "nat \<Rightarrow> 'a QueuedEvent list \<Rightarrow> bool" where
  "ids_after n acc \<longleftrightarrow> map (\<lambda>q. unat (ev_id (q_event q))) acc = [n + 1..<n + 1 + length acc]"

lemma ids_after_Nil [simp]: "ids_after n []"
  by (simp add: ids_after_def)

lemma ids_after_snoc: "ids_after n acc \<Longrightarrow> unat (ev_id (q_event q)) = n + 1 + length acc \<Longrightarrow> ids_after n (acc @ [q])"
  by (simp add: ids_after_def)

text \<open>The cells of a loop: exactly those of waiting events are unset.\<close>

definition cells_inv ::
    "('a \<Rightarrow> cpp_exn option) \<Rightarrow> EventResult option list \<Rightarrow> 'a QueuedEvent list \<Rightarrow> 'a QueuedEvent list \<Rightarrow> bool" where
  "cells_inv call cells stl waiting \<longleftrightarrow>
     distinct (map q_completion (stl @ waiting)) \<and>
     (\<forall>q \<in> set (stl @ waiting). q_completion q < length cells) \<and>
     (\<forall>j < length cells. cells ! j = None \<longleftrightarrow> j \<in> q_completion ` set waiting) \<and>
     (\<forall>q \<in> set stl. cells ! q_completion q = Some (event_result call q))"

lemma cells_inv_set:
  assumes "cells_inv call cells stl waiting"
  shows "cells_inv call (cells @ [Some x]) stl waiting"
proof -
  have "length cells \<notin> q_completion ` set waiting" using assms by (force simp: cells_inv_def)
  with assms show ?thesis by (auto simp: cells_inv_def nth_append less_Suc_eq)
qed

lemma cells_inv_unset:
  assumes "cells_inv call cells stl waiting" "q_completion q = length cells"
  shows "cells_inv call (cells @ [None]) stl (waiting @ [q])"
proof -
  have "length cells \<notin> q_completion ` set waiting" "length cells \<notin> q_completion ` set stl"
    using assms by (force simp: cells_inv_def)+
  with assms show ?thesis by (auto simp: cells_inv_def nth_append less_Suc_eq)
qed

lemma cells_inv_settle:
  assumes "cells_inv call cells stl (q # waiting)"
  shows "cells_inv call (cells[q_completion q := Some (event_result call q)]) (stl @ [q]) waiting"
proof -
  have "q_completion q \<notin> q_completion ` set waiting" "q_completion q \<notin> q_completion ` set stl"
    using assms by (auto simp: cells_inv_def)
  with assms show ?thesis by (auto simp: cells_inv_def nth_list_update image_iff)
qed

definition queue_inv ::
    "('a \<Rightarrow> cpp_exn option) \<Rightarrow> 64 word \<Rightarrow> 'a QueuedEvent list \<Rightarrow> 'a QueuedEvent list \<Rightarrow> 'a EventLoopGenerator \<Rightarrow> bool" where
  "queue_inv call first acc stl s \<longleftrightarrow>
     acc = stl @ waiting_events s \<and>
     ids_after (unat first) acc \<and>
     unat (eg_last_issued_event_id s) = unat first + length acc \<and>
     cells_inv call (eg_completions s) stl (waiting_events s) \<and>
     (eg_worker s = GenExited \<longrightarrow> \<not> eg_accepting s \<and> eg_events s = [])"

lemma queue_inv_cong:
  assumes "eg_events s' = eg_events s" "eg_last_issued_event_id s' = eg_last_issued_event_id s"
    "eg_accepting s' = eg_accepting s" "eg_worker s' = eg_worker s" "eg_completions s' = eg_completions s"
  shows "queue_inv call first acc stl s' \<longleftrightarrow> queue_inv call first acc stl s"
  using assms by (simp add: queue_inv_def waiting_events_def executing_def)

lemma unat_Suc_id: "w \<noteq> - 1 \<Longrightarrow> unat (w + 1) = Suc (unat (w :: 64 word))"
  by (metis add.commute add.inverse_inverse eq_neg_iff_add_eq_0 unatSuc)

lemma queue_inv_schedule:
  assumes inv: "queue_inv call first acc stl s" and step: "schedule_event name action s = (r, s')"
  shows "queue_inv call first (acc @ newly_queued s s') stl s'"
proof (cases "eg_accepting s \<and> eg_last_issued_event_id s \<noteq> - 1")
  case False
  with step have s': "eg_events s' = eg_events s" "eg_last_issued_event_id s' = eg_last_issued_event_id s"
    "eg_accepting s' = eg_accepting s" "eg_worker s' = eg_worker s"
    "\<exists>x. eg_completions s' = eg_completions s @ [Some x]"
    by (auto simp: schedule_event_def Let_def split: if_splits)
  have "waiting_events s' = waiting_events s" using s' by (simp add: waiting_events_def executing_def)
  then show ?thesis
    using inv s' by (auto simp: queue_inv_def intro: cells_inv_set)
next
  case True
  define q where "q = \<lparr>q_event = \<lparr>ev_id = eg_last_issued_event_id s + 1, ev_name = name, ev_action = action\<rparr>,
    q_completion = length (eg_completions s)\<rparr>"
  have s': "eg_events s' = eg_events s @ [q]" "eg_last_issued_event_id s' = eg_last_issued_event_id s + 1"
    "eg_accepting s' = eg_accepting s" "eg_worker s' = eg_worker s" "eg_completions s' = eg_completions s @ [None]"
    using step True by (auto simp: schedule_event_def Let_def q_def)
  have w: "waiting_events s' = waiting_events s @ [q]" using s' by (simp add: waiting_events_def executing_def)
  have q: "q_completion q = length (eg_completions s)"
    "unat (ev_id (q_event q)) = Suc (unat (eg_last_issued_event_id s))"
    using True by (simp_all add: q_def unat_Suc_id)
  have "eg_worker s \<noteq> GenExited" "ids_after (unat first) (acc @ [q])"
    using inv q True ids_after_snoc [of "unat first" acc q] by (auto simp: queue_inv_def)
  with inv s' w q True show ?thesis
    unfolding queue_inv_def by (auto simp: cells_inv_unset unat_Suc_id)
qed

text \<open>A step of a producer submits at most one event and does not touch the queue otherwise.\<close>

lemma consume_sequence_queue:
  assumes "consume_sequence i s = Some s'"
  obtains name action r s1 where "schedule_event name action s = (r, s1)"
      "eg_events s' = eg_events s1" "eg_last_issued_event_id s' = eg_last_issued_event_id s1"
      "eg_accepting s' = eg_accepting s1" "eg_worker s' = eg_worker s1" "eg_completions s' = eg_completions s1"
  | "eg_events s' = eg_events s" "eg_last_issued_event_id s' = eg_last_issued_event_id s"
      "eg_accepting s' = eg_accepting s" "eg_worker s' = eg_worker s" "eg_completions s' = eg_completions s"
  using assms
  by (auto simp: consume_sequence_def set_phase_def Let_def
      split: if_splits producer_phase.splits generator.splits list.splits option.splits prod.splits)

lemma queue_inv_consume:
  assumes inv: "queue_inv call first acc stl s" and step: "consume_sequence i s = Some s'"
  shows "queue_inv call first (acc @ newly_queued s s') stl s'"
  using step
proof (cases rule: consume_sequence_queue)
  case (1 name action r s1)
  from queue_inv_schedule [OF inv 1(1)] 1(2) queue_inv_cong [OF 1(2-6)] show ?thesis by simp
next
  case 2
  with inv queue_inv_cong [OF 2] show ?thesis by simp
qed

lemma queue_inv_run:
  assumes inv: "queue_inv call first acc stl s" and step: "run call s = Some s'"
  shows "queue_inv call first acc (stl @ executing s) s'"
proof (cases "eg_worker s")
  case GenWaiting
  with step inv show ?thesis
    by (auto simp: run_def queue_inv_def waiting_events_def executing_def split: list.splits if_splits)
next
  case (GenExecuting q)
  with step have s': "s' = s\<lparr>eg_worker := GenWaiting,
      eg_completions := (eg_completions s)[q_completion q := Some (event_result call q)]\<rparr>"
    by (auto simp: run_def event_result_def split: option.splits)
  from inv GenExecuting show ?thesis
    by (auto simp: s' queue_inv_def waiting_events_def executing_def cells_inv_settle)
next
  case GenExited
  with step show ?thesis by (simp add: run_def)
qed

lemma queue_inv_reachable: "gen_reachable call first s acc stl \<Longrightarrow> queue_inv call first acc stl s"
proof (induction rule: gen_reachable.induct)
  case Construct
  show ?case by (simp add: queue_inv_def construct_EventLoopGenerator_def waiting_events_def executing_def cells_inv_def)
next
  case (Schedule s acc stl name action r s')
  then show ?case by (blast intro: queue_inv_schedule)
next
  case (Process s acc stl spawn generator k s')
  then show ?case
    by (subst queue_inv_cong [of _ s]) (auto simp: process_event_sequence_def Let_def split: if_splits option.splits)
next
  case (Produce s acc stl i s')
  then show ?case by (blast intro: queue_inv_consume)
next
  case (Work s acc stl s')
  then show ?case by (blast intro: queue_inv_run)
next
  case (Shutdown s acc stl s')
  then show ?case
    by (auto simp: shutdown_def queue_inv_def waiting_events_def executing_def
        split: shutdown_phase.splits if_splits gen_worker.splits)
qed

section \<open>Producers and shutdown\<close>

definition sequence_ok :: "SequenceResult \<Rightarrow> bool" where
  "sequence_ok r \<longleftrightarrow>
     (sq_status r = SeqFailed \<longleftrightarrow>
        sq_producer_exception r \<noteq> None \<or> (\<exists>e \<in> set (sq_events r). er_status e = EventFailed)) \<and>
     (sq_status r = Completed \<longrightarrow> (\<forall>e \<in> set (sq_events r). er_status e = Executed))"

lemma sequence_ok_start [simp]:
  "sequence_ok (sequence_start Completed None)"
  "sequence_ok (sequence_start SeqCancelled None)"
  "sequence_ok (sequence_start SeqFailed (Some e))"
  by (simp_all add: sequence_ok_def)

lemma sequence_ok_collect: "sequence_ok r \<Longrightarrow> sequence_ok (collect_event e r)"
  by (auto simp: sequence_ok_def collect_event_def)

fun phase_ok :: "EventResult option list \<Rightarrow> 'a producer_phase \<Rightarrow> bool" where
  "phase_ok cells (Generating g futures) \<longleftrightarrow> (\<forall>f \<in> set futures. f < length cells)"
| "phase_ok cells (Collecting futures r) \<longleftrightarrow> (\<forall>f \<in> set futures. f < length cells) \<and> sequence_ok r"
| "phase_ok cells ProducerDone \<longleftrightarrow> True"

definition unfinished :: "'a producer list \<Rightarrow> nat set" where
  "unfinished ps = pr_completion ` set (filter (\<lambda>p. pr_phase p \<noteq> ProducerDone) ps)"

definition producer_inv :: "'a EventLoopGenerator \<Rightarrow> bool" where
  "producer_inv s \<longleftrightarrow>
     distinct (map pr_completion (eg_producers s)) \<and>
     (\<forall>p \<in> set (eg_producers s). pr_completion p < length (eg_sequences s) \<and> phase_ok (eg_completions s) (pr_phase p)) \<and>
     (\<forall>j < length (eg_sequences s). eg_sequences s ! j = None \<longleftrightarrow> j \<in> unfinished (eg_producers s)) \<and>
     (\<forall>r. Some r \<in> set (eg_sequences s) \<longrightarrow> sequence_ok r)"

definition shutdown_inv :: "'a EventLoopGenerator \<Rightarrow> bool" where
  "shutdown_inv s \<longleftrightarrow>
     (eg_accepting s \<longleftrightarrow> eg_shutdown s = NotShutDown) \<and>
     (eg_shutdown s = JoiningProducers \<longrightarrow> (\<forall>p \<in> set (eg_producers s). pr_stop p)) \<and>
     (eg_shutdown s \<in> {JoiningWorker, ShutdownComplete} \<longrightarrow> eg_producers s = []) \<and>
     (eg_shutdown s = ShutdownComplete \<longrightarrow> eg_worker s = GenExited)"

lemma phase_ok_mono: "phase_ok cells ph \<Longrightarrow> length cells \<le> length cells' \<Longrightarrow> phase_ok cells' ph"
  by (cases ph) auto

lemma unfinished_append [simp]: "unfinished (ps @ qs) = unfinished ps \<union> unfinished qs"
  by (auto simp: unfinished_def)

lemma unfinished_stop [simp]: "unfinished (map (\<lambda>p. p\<lparr>pr_stop := True\<rparr>) ps) = unfinished ps"
  by (induction ps) (auto simp: unfinished_def)

lemma unfinished_done: "list_all (\<lambda>p. pr_phase p = ProducerDone) ps \<Longrightarrow> unfinished ps = {}"
  by (auto simp: unfinished_def list_all_iff)

lemma unfinished_Nil [simp]: "unfinished [] = {}"
  by (simp add: unfinished_def)

lemma schedule_event_cells:
  "schedule_event name action s = (r, s') \<Longrightarrow>
     length (eg_completions s') = Suc (length (eg_completions s)) \<and> sub_completion r = length (eg_completions s) \<and>
     eg_producers s' = eg_producers s \<and> eg_sequences s' = eg_sequences s \<and> eg_shutdown s' = eg_shutdown s \<and>
     eg_accepting s' = eg_accepting s \<and> eg_worker s' = eg_worker s"
  by (auto simp: schedule_event_def Let_def split: if_splits)

lemma producer_inv_cells:
  assumes "producer_inv s" "eg_producers s' = eg_producers s" "eg_sequences s' = eg_sequences s"
    "length (eg_completions s) \<le> length (eg_completions s')"
  shows "producer_inv s'"
  using assms phase_ok_mono unfolding producer_inv_def by fastforce

lemma unfinished_update:
  assumes "i < length ps" "distinct (map pr_completion ps)"
  shows "unfinished (ps[i := (ps ! i)\<lparr>pr_phase := ph\<rparr>]) =
    (if ph = ProducerDone then unfinished ps - {pr_completion (ps ! i)}
     else insert (pr_completion (ps ! i)) (unfinished ps))"
proof -
  obtain a x b where "ps = a @ x # b" "i = length a" using assms(1) by (metis id_take_nth_drop length_take min.absorb4)
  with assms(2) show ?thesis by (auto simp: unfinished_def image_iff)
qed

lemma producer_inv_phase:
  assumes inv: "producer_inv s" and i: "i < length (eg_producers s)"
    and "ph \<noteq> ProducerDone" "pr_phase (eg_producers s ! i) \<noteq> ProducerDone" "phase_ok (eg_completions s) ph"
  shows "producer_inv (set_phase i ph s)"
proof -
  define ps where "ps = eg_producers s"
  have "map pr_completion (ps[i := (ps ! i)\<lparr>pr_phase := ph\<rparr>]) = map pr_completion ps"
    by (simp add: map_update list_update_same_conv i ps_def)
  moreover have "pr_completion (ps ! i) \<in> unfinished ps"
    using i assms(4) by (auto simp: unfinished_def ps_def)
  ultimately show ?thesis
    using inv i assms(3,5) unfinished_update [of i ps ph] set_update_subset_insert [of ps i "(ps ! i)\<lparr>pr_phase := ph\<rparr>"]
    by (auto simp: producer_inv_def set_phase_def insert_absorb ps_def [symmetric])
qed

lemma producer_inv_done:
  assumes inv: "producer_inv s" and i: "i < length (eg_producers s)"
    and "pr_phase (eg_producers s ! i) = Collecting [] r"
  shows "producer_inv (set_phase i ProducerDone (s\<lparr>eg_sequences := (eg_sequences s)[pr_completion (eg_producers s ! i) := Some r]\<rparr>))"
proof -
  define ps where "ps = eg_producers s"
  have "map pr_completion (ps[i := (ps ! i)\<lparr>pr_phase := ProducerDone\<rparr>]) = map pr_completion ps"
    by (simp add: map_update list_update_same_conv i ps_def)
  moreover have "sequence_ok r" "ps ! i \<in> set ps"
    using inv i assms(3) by (force simp: producer_inv_def ps_def intro: nth_mem)+
  ultimately show ?thesis
    using inv i unfinished_update [of i ps ProducerDone] set_update_subset_insert [of ps i "(ps ! i)\<lparr>pr_phase := ProducerDone\<rparr>"]
      set_update_subset_insert [of "eg_sequences s" "pr_completion (ps ! i)" "Some r"]
    by (auto simp: producer_inv_def set_phase_def nth_list_update ps_def [symmetric])
qed

lemma producer_phase_ok:
  "producer_inv s \<Longrightarrow> i < length (eg_producers s) \<Longrightarrow> phase_ok (eg_completions s) (pr_phase (eg_producers s ! i))"
  by (auto simp: producer_inv_def)

lemma producer_inv_submit:
  assumes inv: "producer_inv s" and i: "i < length (eg_producers s)"
    and ph: "pr_phase (eg_producers s ! i) = Generating g futures" and step: "schedule_event name action s = (r, s1)"
    and ph': "ph' = Generating g' (futures @ [sub_completion r]) \<or>
      ph' = Collecting (futures @ [sub_completion r]) (sequence_start SeqCancelled None)"
  shows "producer_inv (set_phase i ph' s1)"
proof -
  note c = schedule_event_cells [OF step]
  have "producer_inv s1" by (rule producer_inv_cells [OF inv]) (use c in auto)
  moreover have "phase_ok (eg_completions s1) ph'"
    using ph' c producer_phase_ok [OF inv i] ph by (auto simp: less_Suc_eq)
  ultimately show ?thesis
    using c i ph ph' by (auto intro!: producer_inv_phase)
qed

lemma producer_inv_consume:
  assumes inv: "producer_inv s" and step: "consume_sequence i s = Some s'"
  shows "producer_inv s'"
proof -
  have i: "i < length (eg_producers s)" using step by (simp add: consume_sequence_def split: if_splits)
  note ok = producer_phase_ok [OF inv i]
  show ?thesis
  proof (cases "pr_phase (eg_producers s ! i)")
    case (Generating g futures)
    with ok have f: "\<forall>f \<in> set futures. f < length (eg_completions s)" by simp
    show ?thesis
    proof (cases g)
      case (GenYield event rest)
      obtain r s1 where sub: "schedule_event (ev_name event) (ev_action event) s = (r, s1)" by fastforce
      show ?thesis
        using step Generating GenYield i sub f producer_inv_submit [OF inv i Generating sub]
        by (auto simp: consume_sequence_def Let_def intro!: producer_inv_phase [OF inv i] split: if_splits)
    qed (use step Generating i f in \<open>auto simp: consume_sequence_def intro!: producer_inv_phase [OF inv i]\<close>)
  next
    case (Collecting futures r)
    with step i ok show ?thesis
      by (auto simp: consume_sequence_def intro!: producer_inv_phase [OF inv i] producer_inv_done [OF inv i]
          sequence_ok_collect split: list.splits option.splits)
  next
    case ProducerDone
    with step show ?thesis by (simp add: consume_sequence_def split: if_splits)
  qed
qed

lemma producer_inv_process:
  assumes inv: "producer_inv s" and step: "process_event_sequence spawn generator s = Some (k, s')"
  shows "producer_inv s'"
proof -
  have len: "length (eg_sequences s) \<notin> pr_completion ` set (eg_producers s)"
    "length (eg_sequences s) \<notin> unfinished (eg_producers s)"
    using inv by (force simp: producer_inv_def unfinished_def)+
  have new: "unfinished [\<lparr>pr_stop = b, pr_completion = n, pr_phase = Generating g fs\<rparr>] = {n}" for b n g fs
    by (simp add: unfinished_def)
  show ?thesis
    using step inv len
    by (auto simp: process_event_sequence_def Let_def producer_inv_def nth_append less_Suc_eq new sequence_ok_def
        split: if_splits option.splits)
qed

lemma loop_invs_reachable: "gen_reachable call first s acc stl \<Longrightarrow> producer_inv s \<and> shutdown_inv s"
proof (induction rule: gen_reachable.induct)
  case Construct
  show ?case by (simp add: producer_inv_def shutdown_inv_def construct_EventLoopGenerator_def)
next
  case (Schedule s acc stl name action r s')
  then show ?case
    using schedule_event_cells [OF Schedule.hyps(2)] producer_inv_cells [of s s'] by (simp add: shutdown_inv_def)
next
  case (Process s acc stl spawn generator k s')
  then have "shutdown_inv s'"
    by (auto simp: process_event_sequence_def Let_def shutdown_inv_def split: if_splits option.splits)
  with Process show ?case by (blast intro: producer_inv_process)
next
  case (Produce s acc stl i s')
  from Produce.hyps(2) have same: "eg_shutdown s' = eg_shutdown s" "eg_accepting s' = eg_accepting s" "eg_worker s' = eg_worker s"
    "map pr_stop (eg_producers s') = map pr_stop (eg_producers s)"
    by (auto simp: consume_sequence_def set_phase_def Let_def map_update list_update_same_conv dest!: schedule_event_cells
        split: if_splits producer_phase.splits generator.splits list.splits option.splits prod.splits)
  have "(\<forall>p \<in> set (eg_producers s'). pr_stop p) \<longleftrightarrow> (\<forall>p \<in> set (eg_producers s). pr_stop p)"
    using arg_cong [OF same(4), of "\<lambda>bs. False \<in> set bs"] by (auto simp: image_iff)
  moreover have "eg_producers s' = [] \<longleftrightarrow> eg_producers s = []" using map_eq_imp_length_eq [OF same(4)] by auto
  ultimately have "shutdown_inv s'" using Produce.IH same by (simp add: shutdown_inv_def)
  with Produce show ?case by (blast intro: producer_inv_consume)
next
  case (Work s acc stl s')
  then have "eg_producers s' = eg_producers s" "eg_sequences s' = eg_sequences s"
    "length (eg_completions s') = length (eg_completions s)" "eg_shutdown s' = eg_shutdown s"
    "eg_accepting s' = eg_accepting s" "eg_worker s \<noteq> GenExited"
    by (auto simp: run_def split: gen_worker.splits list.splits if_splits)
  with Work.IH producer_inv_cells [of s s'] show ?case by (auto simp: shutdown_inv_def)
next
  case (Shutdown s acc stl s')
  then show ?case
    by (auto simp: shutdown_def producer_inv_def shutdown_inv_def unfinished_done comp_def
        split: shutdown_phase.splits if_splits)
qed

section \<open>Shutdown ends\<close>

text \<open>The steps that the threads of the loop take by themselves once it shuts down.\<close>

inductive loop_step :: "('a \<Rightarrow> cpp_exn option) \<Rightarrow> 'a EventLoopGenerator \<Rightarrow> 'a EventLoopGenerator \<Rightarrow> bool"
  for call :: "'a \<Rightarrow> cpp_exn option" where
  step_worker: "run call s = Some s' \<Longrightarrow> loop_step call s s'"
| step_producer: "consume_sequence i s = Some s' \<Longrightarrow> loop_step call s s'"
| step_shutdown: "shutdown s = Some s' \<Longrightarrow> loop_step call s s'"

fun phase_weight :: "'a producer_phase \<Rightarrow> nat" where
  "phase_weight (Generating g futures) = length futures + 2"
| "phase_weight (Collecting futures r) = length futures + 1"
| "phase_weight ProducerDone = 0"

fun gen_worker_weight :: "'a gen_worker \<Rightarrow> nat" where
  "gen_worker_weight GenWaiting = 1"
| "gen_worker_weight (GenExecuting q) = 2"
| "gen_worker_weight GenExited = 0"

fun shutdown_rank :: "shutdown_phase \<Rightarrow> nat" where
  "shutdown_rank NotShutDown = 3"
| "shutdown_rank JoiningProducers = 2"
| "shutdown_rank JoiningWorker = 1"
| "shutdown_rank ShutdownComplete = 0"

definition shutdown_weight :: "'a EventLoopGenerator \<Rightarrow> nat" where
  "shutdown_weight s = 2 * length (eg_events s) + gen_worker_weight (eg_worker s) +
     sum_list (map (\<lambda>p. phase_weight (pr_phase p)) (eg_producers s)) + shutdown_rank (eg_shutdown s)"

lemma phase_weight_update:
  assumes "i < length ps"
  shows "sum_list (map (\<lambda>p. phase_weight (pr_phase p)) (ps[i := (ps ! i)\<lparr>pr_phase := ph\<rparr>])) + phase_weight (pr_phase (ps ! i)) =
    sum_list (map (\<lambda>p. phase_weight (pr_phase p)) ps) + phase_weight ph"
proof -
  obtain a x b where "ps = a @ x # b" "i = length a" using assms by (metis id_take_nth_drop length_take min.absorb4)
  then show ?thesis by simp
qed

lemma run_weight: "run call s = Some s' \<Longrightarrow> shutdown_weight s' < shutdown_weight s \<and> eg_shutdown s' = eg_shutdown s"
  by (auto simp: run_def shutdown_weight_def split: gen_worker.splits list.splits if_splits)

text \<open>A producer that has been asked to stop only moves on towards its end.\<close>

lemma consume_stopped:
  assumes "consume_sequence i s = Some s'" "\<forall>p \<in> set (eg_producers s). pr_stop p"
  shows "shutdown_weight s' < shutdown_weight s \<and> eg_shutdown s' = eg_shutdown s \<and> eg_events s' = eg_events s"
proof -
  have i: "i < length (eg_producers s)" using assms by (simp add: consume_sequence_def split: if_splits)
  then have stop: "pr_stop (eg_producers s ! i)" using assms by simp
  obtain ph f where s': "s' = set_phase i ph (s\<lparr>eg_sequences := f\<rparr>)"
    and ph: "phase_weight ph < phase_weight (pr_phase (eg_producers s ! i))"
  proof (cases "pr_phase (eg_producers s ! i)")
    case (Generating g futures)
    show thesis
    proof (rule that [of _ "eg_sequences s"])
      show "s' = set_phase i (pr_phase (eg_producers s' ! i)) (s\<lparr>eg_sequences := eg_sequences s\<rparr>)"
        using assms(1) i stop Generating by (auto simp: consume_sequence_def set_phase_def split: generator.splits)
      show "phase_weight (pr_phase (eg_producers s' ! i)) < phase_weight (pr_phase (eg_producers s ! i))"
        using assms(1) i stop Generating by (auto simp: consume_sequence_def set_phase_def split: generator.splits)
    qed
  next
    case (Collecting futures r)
    show thesis
    proof (rule that [of _ "eg_sequences s'"])
      show "s' = set_phase i (pr_phase (eg_producers s' ! i)) (s\<lparr>eg_sequences := eg_sequences s'\<rparr>)"
        using assms(1) i Collecting by (auto simp: consume_sequence_def set_phase_def split: list.splits option.splits)
      show "phase_weight (pr_phase (eg_producers s' ! i)) < phase_weight (pr_phase (eg_producers s ! i))"
        using assms(1) i Collecting by (auto simp: consume_sequence_def set_phase_def split: list.splits option.splits)
    qed
  qed (use assms(1) i in \<open>simp add: consume_sequence_def\<close>)
  from phase_weight_update [OF i, of ph] ph show ?thesis
    by (simp add: s' set_phase_def shutdown_weight_def)
qed

lemma shutdown_step_weight:
  "shutdown s = Some s' \<Longrightarrow> eg_shutdown s \<noteq> NotShutDown \<Longrightarrow>
     shutdown_weight s' < shutdown_weight s \<and> eg_shutdown s' \<noteq> NotShutDown"
  by (auto simp: shutdown_def shutdown_weight_def split: shutdown_phase.splits if_splits)

lemma stopping_producers: "shutdown_inv s \<Longrightarrow> eg_shutdown s \<noteq> NotShutDown \<Longrightarrow> \<forall>p \<in> set (eg_producers s). pr_stop p"
  by (cases "eg_shutdown s") (auto simp: shutdown_inv_def)

lemma loop_step_shutdown:
  assumes "loop_step call s t" "gen_reachable call first s acc stl" "eg_shutdown s \<noteq> NotShutDown"
  shows "shutdown_weight t < shutdown_weight s \<and> eg_shutdown t \<noteq> NotShutDown \<and> (\<exists>stl'. gen_reachable call first t acc stl')"
  using assms(1)
proof cases
  case step_worker
  with assms(2,3) run_weight show ?thesis by (metis gen_reachable.Work)
next
  case (step_producer i)
  from consume_stopped [OF step_producer stopping_producers] loop_invs_reachable [OF assms(2)] assms(3)
    gen_reachable.Produce [OF assms(2) step_producer]
  show ?thesis by auto
next
  case step_shutdown
  with assms(2,3) shutdown_step_weight show ?thesis by (metis gen_reachable.Shutdown)
qed

lemma loop_steps_shutdown:
  assumes "(loop_step call ^^ n) s t" "gen_reachable call first s acc stl" "eg_shutdown s \<noteq> NotShutDown"
  shows "n + shutdown_weight t \<le> shutdown_weight s \<and> eg_shutdown t \<noteq> NotShutDown \<and> (\<exists>stl'. gen_reachable call first t acc stl')"
  using assms(1)
proof (induction n arbitrary: t)
  case 0
  with assms show ?case by auto
next
  case (Suc n)
  then obtain u where u: "(loop_step call ^^ n) s u" "loop_step call u t" by auto
  from Suc.IH [OF u(1)] loop_step_shutdown [OF u(2)] show ?case by force
qed

lemma shutdown_progress:
  assumes r: "gen_reachable call first s acc stl" and "eg_shutdown s \<noteq> NotShutDown" "\<nexists>t. loop_step call s t"
  shows "eg_shutdown s = ShutdownComplete \<and> waiting_events s = [] \<and> eg_producers s = []"
proof -
  have inv: "producer_inv s" "shutdown_inv s" "queue_inv call first acc stl s"
    using r loop_invs_reachable queue_inv_reachable by blast+
  have stuck: "run call s = None" "consume_sequence i s = None" "shutdown s = None" for i
    using assms(3) by (meson loop_step.intros not_None_eq)+
  have w: "eg_worker s = GenExited" "eg_events s = []"
    using stuck(1) inv(2,3) assms(2)
    by (auto simp: run_def shutdown_inv_def queue_inv_def split: gen_worker.splits list.splits if_splits)
  have cells: "\<forall>j < length (eg_completions s). eg_completions s ! j \<noteq> None"
    using inv(3) w by (simp add: queue_inv_def cells_inv_def waiting_events_def executing_def)
  have "pr_phase (eg_producers s ! i) = ProducerDone" if i: "i < length (eg_producers s)" for i
  proof (cases "pr_phase (eg_producers s ! i)")
    case (Generating g futures)
    with stuck(2) [of i] i show ?thesis
      by (auto simp: consume_sequence_def Let_def split: generator.splits if_splits prod.splits)
  next
    case (Collecting futures r)
    with stuck(2) [of i] i producer_phase_ok [OF inv(1) i] cells show ?thesis
      by (auto simp: consume_sequence_def split: list.splits option.splits)
  qed
  then have "list_all (\<lambda>p. pr_phase p = ProducerDone) (eg_producers s)" by (simp add: list_all_length)
  with stuck(3) w inv(2) assms(2) show ?thesis
    by (auto simp: shutdown_def shutdown_inv_def waiting_events_def executing_def split: shutdown_phase.splits if_splits)
qed

section \<open>The loop as its callers see it\<close>

definition sample_call :: "bool \<Rightarrow> cpp_exn option" where
  "sample_call ok = (if ok then None else Some (RuntimeError ''boom''))"

definition sample_sequence :: "bool EventLoopGenerator" where
  "sample_sequence = snd (the (process_event_sequence None (event_generator 2 ''tick'' (\<lambda>i. i = 0))
     (construct_EventLoopGenerator 41)))"

definition sample_loop :: "bool EventLoopGenerator" where
  "sample_loop = the (run sample_call (the (consume_sequence 0 sample_sequence)))"

definition sample_stopping :: "bool EventLoopGenerator" where
  "sample_stopping = the (shutdown sample_loop)"

lemma sample_generator:
  "event_generator 2 ''tick'' (\<lambda>i. i = 0) =
     GenYield \<lparr>ev_id = 0, ev_name = ''tick #'' @ dec_of_nat 1, ev_action = True\<rparr>
       (GenYield \<lparr>ev_id = 1, ev_name = ''tick #'' @ dec_of_nat 2, ev_action = False\<rparr> GenEnd)"
  by (simp add: event_generator_def nat_numeral numeral_2_eq_2)

abbreviation sample_event :: "bool QueuedEvent" where
  "sample_event \<equiv> \<lparr>q_event = \<lparr>ev_id = 42, ev_name = ''tick #'' @ dec_of_nat 1, ev_action = True\<rparr>, q_completion = 0\<rparr>"

lemma sample_sequence_eval:
  "process_event_sequence None (event_generator 2 ''tick'' (\<lambda>i. i = 0)) (construct_EventLoopGenerator 41) = Some (0, sample_sequence)"
  "consume_sequence 0 sample_sequence = Some
     (sample_sequence\<lparr>eg_last_issued_event_id := 42, eg_events := [sample_event], eg_completions := [None],
       eg_producers := [\<lparr>pr_stop = False, pr_completion = 0, pr_phase =
         Generating (GenYield \<lparr>ev_id = 1, ev_name = ''tick #'' @ dec_of_nat 2, ev_action = False\<rparr> GenEnd) [0]\<rparr>]\<rparr>)"
  "eg_events sample_sequence = []" "eg_worker sample_sequence = GenWaiting"
  "eg_shutdown sample_sequence = NotShutDown"
  by (simp_all add: sample_sequence_def sample_generator process_event_sequence_def construct_EventLoopGenerator_def
      consume_sequence_def schedule_event_def set_phase_def accepted_def Let_def)

lemma sample_loop_eval:
  "run sample_call (the (consume_sequence 0 sample_sequence)) = Some sample_loop"
  "executing sample_loop = [sample_event]" "eg_events sample_loop = []" "eg_worker sample_loop = GenExecuting sample_event"
  "eg_shutdown sample_loop = NotShutDown"
  "eg_producers sample_loop = [\<lparr>pr_stop = False, pr_completion = 0, pr_phase =
     Generating (GenYield \<lparr>ev_id = 1, ev_name = ''tick #'' @ dec_of_nat 2, ev_action = False\<rparr> GenEnd) [0]\<rparr>]"
  by (simp_all add: sample_loop_def sample_sequence_eval run_def executing_def)

lemma sample_reachable: "gen_reachable sample_call 41 sample_loop [sample_event] []"
proof -
  have "gen_reachable sample_call 41 sample_sequence [] []"
    by (rule gen_reachable.Process [OF gen_reachable.Construct sample_sequence_eval(1)])
  from gen_reachable.Produce [OF this sample_sequence_eval(2)]
  have "gen_reachable sample_call 41 (the (consume_sequence 0 sample_sequence)) [sample_event] []"
    by (simp add: sample_sequence_eval)
  from gen_reachable.Work [OF this sample_loop_eval(1)] show ?thesis
    by (simp add: sample_sequence_eval executing_def)
qed

lemma sample_stopping_eval: "shutdown sample_loop = Some sample_stopping" "eg_shutdown sample_stopping = JoiningProducers"
  "shutdown_weight sample_stopping = 7"
  by (simp_all add: sample_stopping_def shutdown_def sample_loop_eval shutdown_weight_def)

text \<open>
  C36: Whatever threads call \<^verbatim>\<open>schedule_event\<close>, \<^verbatim>\<open>process_event_sequence\<close> and
  \<^verbatim>\<open>shutdown\<close> and however they interleave with the loop's own threads: accepted events
  carry consecutive identifiers without wrap-around, are taken in the order of acceptance, and
  the future of an event is set exactly when the event has been executed, to the outcome of
  its own action.
\<close>

theorem generator_events_in_order:
  assumes "gen_reachable call first s acc stl"
  shows "map (\<lambda>q. unat (ev_id (q_event q))) acc = [unat first + 1..<unat first + 1 + length acc] \<and>
    acc = stl @ executing s @ eg_events s \<and> distinct (map q_completion acc) \<and>
    (\<forall>q \<in> set stl. eg_completions s ! q_completion q = Some (event_result call q)) \<and>
    (\<forall>q \<in> set (executing s @ eg_events s). eg_completions s ! q_completion q = None)"
  using queue_inv_reachable [OF assms]
  by (auto simp: queue_inv_def cells_inv_def ids_after_def waiting_events_def)

theorem generator_events_in_order_witness:
  "map (\<lambda>q. unat (ev_id (q_event q))) (executing sample_loop) = [42] \<and> eg_completions sample_loop ! 0 = None"
  using generator_events_in_order [OF sample_reachable] by (simp add: sample_loop_eval)



text \<open>
  The result of a sequence tells the truth: it is failed exactly when the producer
  stopped with an exception or some event of the sequence failed, and it is completed only
  when all its events were executed.
\<close>

theorem sequence_results_truthful:
  assumes "gen_reachable call first s acc stl" "Some r \<in> set (eg_sequences s)"
  shows "(sq_status r = SeqFailed \<longleftrightarrow>
      sq_producer_exception r \<noteq> None \<or> (\<exists>e \<in> set (sq_events r). er_status e = EventFailed)) \<and>
    (sq_status r = Completed \<longrightarrow> (\<forall>e \<in> set (sq_events r). er_status e = Executed))"
  using loop_invs_reachable [OF assms(1)] assms(2) by (simp add: producer_inv_def sequence_ok_def)

text \<open>A sequence whose producer thread cannot be started.\<close>

definition sample_refused :: "bool EventLoopGenerator" where
  "sample_refused = snd (the (process_event_sequence (Some (RuntimeError ''no thread'')) GenEnd (construct_EventLoopGenerator 0)))"

theorem sequence_results_truthful_witness:
  "eg_sequences sample_refused = [Some (sequence_start SeqFailed (Some (RuntimeError ''no thread'')))] \<and>
   (sq_status (the (hd (eg_sequences sample_refused))) = SeqFailed \<longleftrightarrow> True)"
proof -
  have eval: "process_event_sequence (Some (RuntimeError ''no thread'')) GenEnd (construct_EventLoopGenerator 0) =
      Some (0, sample_refused)"
    "eg_sequences sample_refused = [Some (sequence_start SeqFailed (Some (RuntimeError ''no thread'')))]"
    by (simp_all add: sample_refused_def process_event_sequence_def construct_EventLoopGenerator_def)
  from sequence_results_truthful [OF gen_reachable.Process [OF gen_reachable.Construct [of sample_call] eval(1)],
      of "sequence_start SeqFailed (Some (RuntimeError ''no thread''))"] eval(2)
  show ?thesis by simp
qed

end
