(* ===== verification/Async_Event_Loop.thy ===== *)
theory Async_Event_Loop
  imports Coroutine_Task "HOL-Library.Multiset"
begin

text \<open>
  \<^verbatim>\<open>src/src/Utils/Concurrency/AsyncEventLoop.hpp\<close>: a single-worker scheduler of coroutines.
  Coroutine frames live in a table and are named by their index, as the code names them by
  shared pointer; a frame holds its task state, the point at which it is suspended and the
  event slot its awaiter points at. Each critical section is one step; \<open>now\<close> is what the
  steady clock reads there. The awaiters are private to the class, so the four coroutines
  of the class are the only ones that it ever resumes. A callback is a value of any type and
  \<open>call\<close> says what calling it ends with; what else a callback does to the loop is a step of
  its own that falls while the worker is resuming. Memory exhaustion and the overflow of
  clock arithmetic are left out.
\<close>

section \<open>Data\<close>

datatype LoopExecutionMode = LoopOwnedThread | LoopCallingThread

text \<open>A \<^verbatim>\<open>double\<close> is represented by its 64 bits.\<close>

datatype event_data = IntData int | DoubleData "64 word" | StringData string

record LoopEvent =
  le_name :: string
  le_data :: event_data

datatype 'c resume_point =
    InScheduleAfter 'c
  | InSchedule 'c
  | InWaitForEvent string
  | InProcessEvents "LoopEvent generator"

record 'c CoroutineFrame =
  fr_state :: TaskState
  fr_point :: "'c resume_point"
  fr_event :: LoopEvent

record DelayedTask =
  dt_time :: int
  dt_sequence :: "64 word"
  dt_frame :: nat

text \<open>
  \<open>Later\<close> orders the priority queue, which is kept as the list in the order of popping: the
  first element is \<^verbatim>\<open>top()\<close>.
\<close>

definition Later :: "DelayedTask \<Rightarrow> DelayedTask \<Rightarrow> bool" where
  "Later lhs rhs \<longleftrightarrow>
     (if dt_time lhs \<noteq> dt_time rhs then dt_time lhs > dt_time rhs else dt_sequence lhs > dt_sequence rhs)"

fun push_delayed :: "DelayedTask \<Rightarrow> DelayedTask list \<Rightarrow> DelayedTask list" where
  "push_delayed t [] = [t]"
| "push_delayed t (u # us) = (if Later u t then t # u # us else u # push_delayed t us)"

text \<open>The map of waiters, in the order of its keys.\<close>

fun push_waiter :: "string \<Rightarrow> nat \<Rightarrow> (string \<times> nat list) list \<Rightarrow> (string \<times> nat list) list" where
  "push_waiter name f [] = [(name, [f])]"
| "push_waiter name f ((n, fs) # rest) =
     (if n = name then (n, fs @ [f]) # rest
      else if name < n then (name, [f]) # (n, fs) # rest
      else (n, fs) # push_waiter name f rest)"

fun erase_waiters :: "string \<Rightarrow> (string \<times> nat list) list \<Rightarrow> (string \<times> nat list) list" where
  "erase_waiters name [] = []"
| "erase_waiters name ((n, fs) # rest) = (if n = name then rest else (n, fs) # erase_waiters name rest)"

text \<open>
  The thread that executes \<open>run\<close>: not there yet, waiting for work, holding a frame it has
  taken, inside \<^verbatim>\<open>resume()\<close>, or returned.
\<close>

datatype loop_worker = LoopIdle | LoopWaiting | LoopHolding nat | LoopResuming nat | LoopExited

record 'c AsyncEventLoop =
  al_delayed_tasks :: "DelayedTask list"
  al_ready_tasks :: "nat list"
  al_event_waiters :: "(string \<times> nat list) list"
  al_next_sequence :: "64 word"
  al_accepting :: bool
  al_stopping :: bool
  al_run_started :: bool
  al_execution_mode :: LoopExecutionMode
  al_worker :: loop_worker
  al_frames :: "'c CoroutineFrame list"

definition construct_AsyncEventLoop :: "LoopExecutionMode \<Rightarrow> 'c AsyncEventLoop" where
  "construct_AsyncEventLoop mode =
     \<lparr>al_delayed_tasks = [], al_ready_tasks = [], al_event_waiters = [], al_next_sequence = 0,
      al_accepting = True, al_stopping = False, al_run_started = False, al_execution_mode = mode,
      al_worker = LoopIdle, al_frames = []\<rparr>"

section \<open>Frames\<close>

definition settle_frame :: "settlement \<Rightarrow> nat \<Rightarrow> 'c CoroutineFrame list \<Rightarrow> 'c CoroutineFrame list" where
  "settle_frame r f frames = frames[f := (frames ! f)\<lparr>fr_state := settle r (fr_state (frames ! f))\<rparr>]"

definition frame_settle :: "settlement \<Rightarrow> nat \<Rightarrow> 'c AsyncEventLoop \<Rightarrow> 'c AsyncEventLoop" where
  "frame_settle r f s = s\<lparr>al_frames := settle_frame r f (al_frames s)\<rparr>"

definition new_frame :: "'c resume_point \<Rightarrow> 'c AsyncEventLoop \<Rightarrow> 'c AsyncEventLoop" where
  "new_frame pt s = s\<lparr>al_frames := al_frames s @
     [\<lparr>fr_state = TaskState_init, fr_point = pt, fr_event = \<lparr>le_name = [], le_data = IntData 0\<rparr>\<rparr>]\<rparr>"

section \<open>Queues\<close>

definition enqueue_after :: "int \<Rightarrow> int \<Rightarrow> nat \<Rightarrow> 'c AsyncEventLoop \<Rightarrow> bool \<times> 'c AsyncEventLoop" where
  "enqueue_after now delay f s =
     (if \<not> al_accepting s then (False, s)
      else let deadline = now + (if delay < 0 then 0 else delay) in
        (True, s\<lparr>al_delayed_tasks := push_delayed
            \<lparr>dt_time = deadline, dt_sequence = al_next_sequence s, dt_frame = f\<rparr> (al_delayed_tasks s),
          al_next_sequence := al_next_sequence s + 1\<rparr>))"

definition enqueue_ready :: "nat \<Rightarrow> 'c AsyncEventLoop \<Rightarrow> bool \<times> 'c AsyncEventLoop" where
  "enqueue_ready f s =
     (if \<not> al_accepting s then (False, s)
      else (True, s\<lparr>al_ready_tasks := al_ready_tasks s @ [f]\<rparr>))"

definition enqueue_event_wait :: "string \<Rightarrow> nat \<Rightarrow> 'c AsyncEventLoop \<Rightarrow> bool \<times> 'c AsyncEventLoop" where
  "enqueue_event_wait name f s =
     (if \<not> al_accepting s then (False, s)
      else (True, s\<lparr>al_event_waiters := push_waiter name f (al_event_waiters s)\<rparr>))"

text \<open>
  \<^verbatim>\<open>await_suspend\<close> of the three awaiters. The frame pointer is never null there: the
  scheduler or the coroutine's creator holds the frame while it runs.
\<close>

definition Delay_await_suspend :: "int \<Rightarrow> int \<Rightarrow> nat \<Rightarrow> 'c AsyncEventLoop \<Rightarrow> 'c AsyncEventLoop" where
  "Delay_await_suspend now duration f s =
     (case enqueue_after now duration f s of (ok, s') \<Rightarrow> if ok then s' else frame_settle Cancel f s')"

definition ReadyAwaiter_await_suspend :: "nat \<Rightarrow> 'c AsyncEventLoop \<Rightarrow> 'c AsyncEventLoop" where
  "ReadyAwaiter_await_suspend f s =
     (case enqueue_ready f s of (ok, s') \<Rightarrow> if ok then s' else frame_settle Cancel f s')"

definition EventAwaiter_await_suspend :: "string \<Rightarrow> nat \<Rightarrow> 'c AsyncEventLoop \<Rightarrow> 'c AsyncEventLoop" where
  "EventAwaiter_await_suspend event_name f s =
     (case enqueue_event_wait event_name f s of (ok, s') \<Rightarrow> if ok then s' else frame_settle Cancel f s')"

section \<open>Events\<close>

definition deliver :: "LoopEvent \<Rightarrow> nat \<Rightarrow> 'c AsyncEventLoop \<Rightarrow> 'c AsyncEventLoop" where
  "deliver event f s =
     s\<lparr>al_frames := (al_frames s)[f := (al_frames s ! f)\<lparr>fr_event := event\<rparr>],
       al_ready_tasks := al_ready_tasks s @ [f]\<rparr>"

definition emit_event :: "LoopEvent \<Rightarrow> 'c AsyncEventLoop \<Rightarrow> bool \<times> 'c AsyncEventLoop" where
  "emit_event event s =
     (if \<not> al_accepting s then (False, s)
      else case map_of (al_event_waiters s) (le_name event) of
        None \<Rightarrow> (True, s)
      | Some resumed \<Rightarrow>
          (True, fold (deliver event) resumed
             (s\<lparr>al_event_waiters := erase_waiters (le_name event) (al_event_waiters s)\<rparr>)))"

fun event_stream_from :: "nat \<Rightarrow> nat \<Rightarrow> string \<Rightarrow> LoopEvent generator" where
  "event_stream_from 0 i pattern = GenEnd"
| "event_stream_from (Suc n) i pattern =
     GenYield \<lparr>le_name = pattern @ ''_'' @ dec_of_nat i, le_data = IntData (int i)\<rparr>
       (event_stream_from n (Suc i) pattern)"

definition create_event_stream :: "string \<Rightarrow> int \<Rightarrow> LoopEvent generator" where
  "create_event_stream pattern n = event_stream_from (nat n) 0 pattern"

text \<open>
  \<^verbatim>\<open>Generator::next\<close>: the value yielded (\<open>value()\<close>) with the generator moved on, no value once
  it has returned, or its exception; a generator that has thrown is done afterwards.
\<close>

definition Generator_next :: "'e generator \<Rightarrow> (cpp_exn + 'e option) \<times> 'e generator" where
  "Generator_next g =
     (case g of GenEnd \<Rightarrow> (Inr None, GenEnd)
      | GenThrow e \<Rightarrow> (Inl e, GenEnd)
      | GenYield v rest \<Rightarrow> (Inr (Some v), rest))"

section \<open>Coroutines\<close>

definition schedule_after :: "int \<Rightarrow> int \<Rightarrow> 'c \<Rightarrow> 'c AsyncEventLoop \<Rightarrow> nat \<times> 'c AsyncEventLoop" where
  "schedule_after now delay callback s =
     (let f = length (al_frames s) in
      (f, Delay_await_suspend now delay f (new_frame (InScheduleAfter callback) s)))"

definition schedule :: "'c \<Rightarrow> 'c AsyncEventLoop \<Rightarrow> nat \<times> 'c AsyncEventLoop" where
  "schedule callback s =
     (let f = length (al_frames s) in
      (f, ReadyAwaiter_await_suspend f (new_frame (InSchedule callback) s)))"

definition wait_for_event :: "string \<Rightarrow> 'c AsyncEventLoop \<Rightarrow> nat \<times> 'c AsyncEventLoop" where
  "wait_for_event event_name s =
     (let f = length (al_frames s) in
      (f, EventAwaiter_await_suspend event_name f (new_frame (InWaitForEvent event_name) s)))"

text \<open>
  \<open>process_events\<close> from the test of its loop to its next suspension or its end. Emitting and
  suspending are two critical sections, but only calls that neither see nor change
  the generator can fall between them.
\<close>

definition process_events_loop :: "int \<Rightarrow> nat \<Rightarrow> LoopEvent generator \<Rightarrow> 'c AsyncEventLoop \<Rightarrow> 'c AsyncEventLoop" where
  "process_events_loop now f g s =
     (case Generator_next g of
        (Inl e, _) \<Rightarrow> frame_settle (Fail e) f s
      | (Inr None, _) \<Rightarrow> frame_settle Succeed f s
      | (Inr (Some event), rest) \<Rightarrow>
          (let s' = snd (emit_event event s) in
           Delay_await_suspend now 200 f
             (s'\<lparr>al_frames := (al_frames s')[f := (al_frames s' ! f)\<lparr>fr_point := InProcessEvents rest\<rparr>]\<rparr>)))"

definition process_events :: "int \<Rightarrow> LoopEvent generator \<Rightarrow> 'c AsyncEventLoop \<Rightarrow> nat \<times> 'c AsyncEventLoop" where
  "process_events now g s =
     (let f = length (al_frames s) in
      (f, process_events_loop now f g (new_frame (InProcessEvents g) s)))"

section \<open>Stopping and running\<close>

definition waiting_frames :: "(string \<times> nat list) list \<Rightarrow> nat list" where
  "waiting_frames ws = concat (map snd ws)"

definition stop :: "'c AsyncEventLoop \<Rightarrow> 'c AsyncEventLoop" where
  "stop s =
     (if \<not> al_accepting s then s
      else
        let cancelled = map dt_frame (al_delayed_tasks s) @ al_ready_tasks s @ waiting_frames (al_event_waiters s) in
        s\<lparr>al_accepting := False, al_stopping := True, al_delayed_tasks := [], al_ready_tasks := [],
          al_event_waiters := [], al_frames := fold (settle_frame Cancel) cancelled (al_frames s)\<rparr>)"

definition accepting :: "'c AsyncEventLoop \<Rightarrow> bool" where
  "accepting s = al_accepting s"

definition run_begin :: "'c AsyncEventLoop \<Rightarrow> bool \<times> 'c AsyncEventLoop" where
  "run_begin s =
     (if al_run_started s then (False, s)
      else (True, s\<lparr>al_run_started := True, al_worker := LoopWaiting\<rparr>))"

definition run_on_calling_thread :: "'c AsyncEventLoop \<Rightarrow> bool \<times> 'c AsyncEventLoop" where
  "run_on_calling_thread s =
     (if al_execution_mode s \<noteq> LoopCallingThread then (False, s) else run_begin s)"

text \<open>
  The waiting section of \<open>run\<close>: it leaves the loop, takes the newest ready frame, or takes the
  top of the delayed frames once it is due; otherwise it waits.
\<close>

definition run_take :: "int \<Rightarrow> 'c AsyncEventLoop \<Rightarrow> 'c AsyncEventLoop option" where
  "run_take now s =
     (if al_stopping s then Some (s\<lparr>al_worker := LoopExited\<rparr>)
      else if al_ready_tasks s \<noteq> [] then
        Some (s\<lparr>al_ready_tasks := butlast (al_ready_tasks s), al_worker := LoopHolding (last (al_ready_tasks s))\<rparr>)
      else case al_delayed_tasks s of
        [] \<Rightarrow> None
      | t # rest \<Rightarrow>
          if dt_time t \<le> now then Some (s\<lparr>al_delayed_tasks := rest, al_worker := LoopHolding (dt_frame t)\<rparr>)
          else None)"

definition run_resume :: "nat \<Rightarrow> 'c AsyncEventLoop \<Rightarrow> 'c AsyncEventLoop" where
  "run_resume ready s =
     (if al_stopping s then frame_settle Cancel ready (s\<lparr>al_worker := LoopWaiting\<rparr>)
      else if ts_status (fr_state (al_frames s ! ready)) = task_pending then s\<lparr>al_worker := LoopResuming ready\<rparr>
      else s\<lparr>al_worker := LoopWaiting\<rparr>)"

text \<open>The resumed coroutine runs on to its end or its next suspension.\<close>

definition resume_coroutine :: "('c \<Rightarrow> cpp_exn option) \<Rightarrow> int \<Rightarrow> nat \<Rightarrow> 'c AsyncEventLoop \<Rightarrow> 'c AsyncEventLoop" where
  "resume_coroutine call now f s =
     (case fr_point (al_frames s ! f) of
        InScheduleAfter callback \<Rightarrow>
          (case call callback of None \<Rightarrow> frame_settle Succeed f s | Some e \<Rightarrow> frame_settle (Fail e) f s)
      | InSchedule callback \<Rightarrow>
          (case call callback of None \<Rightarrow> frame_settle Succeed f s | Some e \<Rightarrow> frame_settle (Fail e) f s)
      | InWaitForEvent event_name \<Rightarrow> frame_settle Succeed f s
      | InProcessEvents g \<Rightarrow> process_events_loop now f g s)"

text \<open>One step of the thread that executes \<open>run\<close>; in owned-thread mode that thread starts itself.\<close>

definition loop_run_step :: "('c \<Rightarrow> cpp_exn option) \<Rightarrow> int \<Rightarrow> 'c AsyncEventLoop \<Rightarrow> 'c AsyncEventLoop option" where
  "loop_run_step call now s =
     (case al_worker s of
        LoopIdle \<Rightarrow> if al_execution_mode s = LoopOwnedThread then Some (snd (run_begin s)) else None
      | LoopWaiting \<Rightarrow> run_take now s
      | LoopHolding f \<Rightarrow> Some (run_resume f s)
      | LoopResuming f \<Rightarrow> Some (resume_coroutine call now f (s\<lparr>al_worker := LoopWaiting\<rparr>))
      | LoopExited \<Rightarrow> None)"

text \<open>
  The destructor: stop, and join the owned thread, for which two more steps are enough
  (\<open>fuel\<close> bounds them; \<open>join_loop_ends\<close> below).
\<close>

fun join_loop :: "nat \<Rightarrow> ('c \<Rightarrow> cpp_exn option) \<Rightarrow> int \<Rightarrow> 'c AsyncEventLoop \<Rightarrow> 'c AsyncEventLoop" where
  "join_loop 0 call now s = s"
| "join_loop (Suc fuel) call now s =
     (case loop_run_step call now s of None \<Rightarrow> s | Some s' \<Rightarrow> join_loop fuel call now s')"

definition destroy_AsyncEventLoop :: "('c \<Rightarrow> cpp_exn option) \<Rightarrow> int \<Rightarrow> 'c AsyncEventLoop \<Rightarrow> 'c AsyncEventLoop" where
  "destroy_AsyncEventLoop call now s =
     (if al_execution_mode s = LoopOwnedThread then join_loop 2 call now (stop s) else stop s)"

section \<open>Every pending task is in one place\<close>

definition task_is_pending :: "'c CoroutineFrame \<Rightarrow> bool" where
  "task_is_pending fr \<longleftrightarrow> ts_status (fr_state fr) = task_pending"

definition pending_frames :: "'c CoroutineFrame list \<Rightarrow> nat list" where
  "pending_frames frames = filter (\<lambda>f. task_is_pending (frames ! f)) [0..<length frames]"

definition held :: "'c AsyncEventLoop \<Rightarrow> nat list" where
  "held s = (case al_worker s of LoopHolding f \<Rightarrow> [f] | LoopResuming f \<Rightarrow> [f] | _ \<Rightarrow> [])"

definition queued :: "'c AsyncEventLoop \<Rightarrow> nat list" where
  "queued s = map dt_frame (al_delayed_tasks s) @ al_ready_tasks s @ waiting_frames (al_event_waiters s)"

text \<open>
  \<open>accounted running s\<close>: the pending frames are those in a queue, the one held by the worker
  and those that a caller is currently running, each once.
\<close>

definition accounted :: "nat list \<Rightarrow> 'c AsyncEventLoop \<Rightarrow> bool" where
  "accounted running s \<longleftrightarrow> mset (running @ held s @ queued s) = mset (pending_frames (al_frames s))"

lemma distinct_pending_frames [simp]: "distinct (pending_frames frames)"
  by (simp add: pending_frames_def)

lemma set_pending_frames: "f \<in> set (pending_frames frames) \<longleftrightarrow> f < length frames \<and> task_is_pending (frames ! f)"
  by (auto simp: pending_frames_def)

lemma accounted_member:
  "accounted running s \<Longrightarrow> f \<in> set (running @ held s @ queued s) \<longleftrightarrow> f \<in> set (pending_frames (al_frames s))"
  unfolding accounted_def by (metis mset_eq_setD)

lemma accounted_distinct: "accounted running s \<Longrightarrow> distinct (running @ held s @ queued s)"
  unfolding accounted_def by (metis distinct_pending_frames mset_eq_imp_distinct_iff)

lemma pending_frames_snoc:
  "pending_frames (frames @ [fr]) = pending_frames frames @ (if task_is_pending fr then [length frames] else [])"
  by (auto simp: pending_frames_def nth_append intro!: filter_cong)

lemma pending_frames_cong:
  "length frames' = length frames \<Longrightarrow> (\<And>f. f < length frames \<Longrightarrow> task_is_pending (frames' ! f) = task_is_pending (frames ! f)) \<Longrightarrow>
     pending_frames frames' = pending_frames frames"
  by (auto simp: pending_frames_def intro!: filter_cong)

lemma nth_update_at: "j < length xs \<Longrightarrow> xs[i := x] ! j = (if i = j then x else xs ! j)"
  by (cases "i = j") auto

lemma settle_frame_nth:
  "f < length frames \<Longrightarrow> settle_frame r g frames ! f =
     (if f = g then (frames ! f)\<lparr>fr_state := settle r (fr_state (frames ! f))\<rparr> else frames ! f)"
  by (simp add: settle_frame_def nth_update_at)

lemma length_settle_frame [simp]: "length (settle_frame r f frames) = length frames"
  by (simp add: settle_frame_def)

lemma pending_settle_frame:
  "f < length frames \<Longrightarrow> task_is_pending (settle_frame r g frames ! f) \<longleftrightarrow> f \<noteq> g \<and> task_is_pending (frames ! f)"
  by (simp add: settle_frame_nth task_is_pending_def settle_pending)

lemma pending_frames_settle: "pending_frames (settle_frame r g frames) = remove1 g (pending_frames frames)"
  unfolding distinct_remove1_removeAll [OF distinct_pending_frames]
  by (auto simp: pending_frames_def pending_settle_frame filter_filter removeAll_filter_not_eq intro!: filter_cong)

lemma fold_settle_frame:
  "length (fold (settle_frame r) fs frames) = length frames \<and>
   pending_frames (fold (settle_frame r) fs frames) = filter (\<lambda>f. f \<notin> set fs) (pending_frames frames)"
proof (induction fs arbitrary: frames)
  case (Cons g fs)
  have "remove1 g (pending_frames frames) = filter (\<lambda>f. f \<noteq> g) (pending_frames frames)"
    by (simp add: distinct_remove1_removeAll removeAll_filter_not_eq) (metis (mono_tags))
  with Cons.IH [of "settle_frame r g frames"] show ?case
    by (simp add: pending_frames_settle filter_filter conj_commute)
qed simp

lemma mset_push_delayed: "mset (push_delayed t ts) = add_mset t (mset ts)"
  by (induction ts) auto

lemma mset_push_waiter: "mset (waiting_frames (push_waiter name f ws)) = add_mset f (mset (waiting_frames ws))"
  by (induction ws) (auto simp: waiting_frames_def)

lemma mset_erase_waiters:
  "map_of ws name = Some fs \<Longrightarrow> mset (waiting_frames ws) = mset fs + mset (waiting_frames (erase_waiters name ws))"
  by (induction ws) (auto simp: waiting_frames_def split: if_splits)

lemma accounted_new_frame: "accounted running s \<Longrightarrow> accounted (length (al_frames s) # running) (new_frame pt s)"
  by (simp add: accounted_def new_frame_def held_def queued_def pending_frames_snoc task_is_pending_def TaskState_init_def)

lemma accounted_settle:
  assumes "accounted (f # running) s"
  shows "accounted running (frame_settle r f s)"
proof -
  have "held (frame_settle r f s) = held s" "queued (frame_settle r f s) = queued s"
    "al_frames (frame_settle r f s) = settle_frame r f (al_frames s)"
    by (simp_all add: frame_settle_def held_def queued_def)
  moreover have "mset (running @ held s @ queued s) = mset (pending_frames (al_frames s)) - {#f#}"
    using assms unfolding accounted_def by (metis add_mset_remove_trivial append_Cons mset.simps(2))
  ultimately show ?thesis by (simp add: accounted_def pending_frames_settle)
qed

lemma accounted_enqueue:
  assumes "accounted (f # running) s"
  shows "accounted running (Delay_await_suspend now d f s)"
    and "accounted running (ReadyAwaiter_await_suspend f s)"
    and "accounted running (EventAwaiter_await_suspend name f s)"
  using assms accounted_settle [OF assms]
  by (simp_all add: Delay_await_suspend_def enqueue_after_def ReadyAwaiter_await_suspend_def enqueue_ready_def
      EventAwaiter_await_suspend_def enqueue_event_wait_def Let_def accounted_def held_def queued_def
      mset_push_waiter image_mset_add_mset mset_push_delayed)

lemma fold_deliver:
  "al_ready_tasks (fold (deliver ev) fs s) = al_ready_tasks s @ fs \<and>
   length (al_frames (fold (deliver ev) fs s)) = length (al_frames s) \<and>
   (\<forall>f < length (al_frames s). al_frames (fold (deliver ev) fs s) ! f =
      (if f \<in> set fs then (al_frames s ! f)\<lparr>fr_event := ev\<rparr> else al_frames s ! f)) \<and>
   al_delayed_tasks (fold (deliver ev) fs s) = al_delayed_tasks s \<and>
   al_event_waiters (fold (deliver ev) fs s) = al_event_waiters s \<and>
   al_next_sequence (fold (deliver ev) fs s) = al_next_sequence s \<and>
   al_accepting (fold (deliver ev) fs s) = al_accepting s \<and>
   al_stopping (fold (deliver ev) fs s) = al_stopping s \<and>
   al_run_started (fold (deliver ev) fs s) = al_run_started s \<and>
   al_execution_mode (fold (deliver ev) fs s) = al_execution_mode s \<and>
   al_worker (fold (deliver ev) fs s) = al_worker s"
  by (induction fs arbitrary: s) (auto simp: deliver_def nth_update_at)

lemma accounted_emit:
  assumes "accounted running s"
  shows "accounted running (snd (emit_event ev s))"
proof (cases "al_accepting s \<and> map_of (al_event_waiters s) (le_name ev) \<noteq> None")
  case True
  then obtain fs where fs: "map_of (al_event_waiters s) (le_name ev) = Some fs" by auto
  define s1 where "s1 = s\<lparr>al_event_waiters := erase_waiters (le_name ev) (al_event_waiters s)\<rparr>"
  have "snd (emit_event ev s) = fold (deliver ev) fs s1" using True fs by (simp add: emit_event_def s1_def)
  moreover have "pending_frames (al_frames (fold (deliver ev) fs s1)) = pending_frames (al_frames s)"
    using fold_deliver [of ev fs s1] by (intro pending_frames_cong) (auto simp: s1_def task_is_pending_def)
  ultimately show ?thesis
    using assms mset_erase_waiters [OF fs] fold_deliver [of ev fs s1]
    by (simp add: accounted_def held_def queued_def s1_def)
qed (use assms in \<open>auto simp: emit_event_def\<close>)

lemma accounted_process_loop:
  assumes "accounted (f # running) s"
  shows "accounted running (process_events_loop now f g s)"
proof (cases "Generator_next g")
  case (Pair r rest)
  show ?thesis
  proof (cases "\<exists>ev. r = Inr (Some ev)")
    case True
    then obtain ev where ev: "r = Inr (Some ev)" by auto
    define s1 where "s1 = snd (emit_event ev s)"
    define s2 where "s2 = s1\<lparr>al_frames := (al_frames s1)[f := (al_frames s1 ! f)\<lparr>fr_point := InProcessEvents rest\<rparr>]\<rparr>"
    have "pending_frames (al_frames s2) = pending_frames (al_frames s1)"
      by (intro pending_frames_cong) (auto simp: s2_def nth_update_at task_is_pending_def)
    with accounted_emit [OF assms, of ev] have "accounted (f # running) s2"
      by (simp add: accounted_def s1_def [symmetric]) (simp add: s2_def held_def queued_def)
    from accounted_enqueue(1) [OF this] ev Pair show ?thesis
      by (simp add: process_events_loop_def s1_def s2_def Let_def)
  qed (use Pair accounted_settle [OF assms] in \<open>auto simp: process_events_loop_def split: sum.splits option.splits\<close>)
qed

section \<open>Order, control state and outcomes\<close>

lemma sorted_push_delayed:
  "sorted_wrt (\<lambda>a b. \<not> Later a b) ts \<Longrightarrow> sorted_wrt (\<lambda>a b. \<not> Later a b) (push_delayed t ts)"
proof (induction ts)
  case (Cons u us)
  have "set (push_delayed t us) = insert t (set us)"
    using arg_cong [OF mset_push_delayed, of set_mset t us] by simp
  moreover have "\<not> Later t v" if "Later u t" "\<not> Later u v" for v
    using that by (auto simp: Later_def split: if_splits)
  moreover have "\<not> Later t u" if "Later u t" using that by (auto simp: Later_def split: if_splits)
  ultimately show ?case using Cons by auto
qed simp

definition control_inv :: "'c AsyncEventLoop \<Rightarrow> bool" where
  "control_inv s \<longleftrightarrow>
     sorted_wrt (\<lambda>a b. \<not> Later a b) (al_delayed_tasks s) \<and>
     (al_accepting s \<longleftrightarrow> \<not> al_stopping s) \<and>
     (al_stopping s \<longrightarrow> al_delayed_tasks s = [] \<and> al_ready_tasks s = [] \<and> al_event_waiters s = []) \<and>
     (al_worker s = LoopIdle \<longleftrightarrow> \<not> al_run_started s) \<and>
     (al_worker s = LoopExited \<longrightarrow> al_stopping s)"

lemma control_frames [simp]:
  "control_inv (frame_settle r f s) = control_inv s"
  "control_inv (new_frame pt s) = control_inv s"
  "control_inv (s\<lparr>al_frames := fs\<rparr>) = control_inv s"
  by (simp_all add: control_inv_def frame_settle_def new_frame_def)

lemma control_await:
  assumes "control_inv s"
  shows "control_inv (Delay_await_suspend now d f s)"
    and "control_inv (ReadyAwaiter_await_suspend f s)"
    and "control_inv (EventAwaiter_await_suspend name f s)"
  using assms
  by (auto simp: Delay_await_suspend_def enqueue_after_def ReadyAwaiter_await_suspend_def enqueue_ready_def
      EventAwaiter_await_suspend_def enqueue_event_wait_def Let_def)
    (auto simp: control_inv_def sorted_push_delayed)

lemma control_emit:
  assumes "control_inv s"
  shows "control_inv (snd (emit_event ev s))"
  using assms by (auto simp: emit_event_def control_inv_def fold_deliver split: option.splits)

lemma control_process_loop: "control_inv s \<Longrightarrow> control_inv (process_events_loop now f g s)"
  by (auto simp: process_events_loop_def Let_def intro!: control_await control_emit split: prod.splits sum.splits option.splits)

text \<open>What a settled frame says is true of its coroutine.\<close>

fun frame_truth :: "('c \<Rightarrow> cpp_exn option) \<Rightarrow> TaskState \<Rightarrow> LoopEvent \<Rightarrow> 'c resume_point \<Rightarrow> bool" where
  "frame_truth call st ev (InScheduleAfter cb) \<longleftrightarrow>
     (ts_status st = task_succeeded \<longrightarrow> call cb = None) \<and> (ts_status st = task_failed \<longrightarrow> call cb = ts_exception st \<and> ts_exception st \<noteq> None)"
| "frame_truth call st ev (InSchedule cb) \<longleftrightarrow>
     (ts_status st = task_succeeded \<longrightarrow> call cb = None) \<and> (ts_status st = task_failed \<longrightarrow> call cb = ts_exception st \<and> ts_exception st \<noteq> None)"
| "frame_truth call st ev (InWaitForEvent name) \<longleftrightarrow>
     (ts_status st = task_succeeded \<longrightarrow> le_name ev = name) \<and> ts_status st \<noteq> task_failed"
| "frame_truth call st ev (InProcessEvents g) \<longleftrightarrow> (ts_status st = task_failed \<longrightarrow> ts_exception st \<noteq> None)"

abbreviation truthful :: "('c \<Rightarrow> cpp_exn option) \<Rightarrow> 'c CoroutineFrame \<Rightarrow> bool" where
  "truthful call fr \<equiv> frame_truth call (fr_state fr) (fr_event fr) (fr_point fr)"

text \<open>A frame that is woken from an event wait holds an event of the awaited name.\<close>

definition woken :: "'c CoroutineFrame \<Rightarrow> bool" where
  "woken fr \<longleftrightarrow> (\<forall>name. fr_point fr = InWaitForEvent name \<longrightarrow> le_name (fr_event fr) = name)"

definition outcome_inv :: "('c \<Rightarrow> cpp_exn option) \<Rightarrow> 'c AsyncEventLoop \<Rightarrow> bool" where
  "outcome_inv call s \<longleftrightarrow>
     (\<forall>f < length (al_frames s). truthful call (al_frames s ! f)) \<and>
     (\<forall>f \<in> set (held s @ map dt_frame (al_delayed_tasks s) @ al_ready_tasks s). woken (al_frames s ! f)) \<and>
     (\<forall>name fs f. (name, fs) \<in> set (al_event_waiters s) \<longrightarrow> f \<in> set fs \<longrightarrow> fr_point (al_frames s ! f) = InWaitForEvent name)"

lemma waiter_queued: "(name, fs) \<in> set (al_event_waiters s) \<Longrightarrow> f \<in> set fs \<Longrightarrow> f \<in> set (queued s)"
  by (force simp: queued_def waiting_frames_def)

lemma truth_settled:
  assumes "task_is_pending fr"
  shows "truthful call (fr\<lparr>fr_state := settle Cancel (fr_state fr)\<rparr>)"
    and "woken fr \<Longrightarrow> (\<forall>cb. fr_point fr = InSchedule cb \<or> fr_point fr = InScheduleAfter cb \<longrightarrow> call cb = None) \<Longrightarrow>
      truthful call (fr\<lparr>fr_state := settle Succeed (fr_state fr)\<rparr>)"
    and "(\<forall>name. fr_point fr \<noteq> InWaitForEvent name) \<Longrightarrow>
      (\<forall>cb. fr_point fr = InSchedule cb \<or> fr_point fr = InScheduleAfter cb \<longrightarrow> call cb = Some e) \<Longrightarrow>
      truthful call (fr\<lparr>fr_state := settle (Fail e) (fr_state fr)\<rparr>)"
  using assms by (cases "fr_point fr"; auto simp: task_is_pending_def task_ops woken_def)+

lemma outcome_settle:
  assumes inv: "outcome_inv call s" and f: "f < length (al_frames s)"
    and "truthful call ((al_frames s ! f)\<lparr>fr_state := settle r (fr_state (al_frames s ! f))\<rparr>)"
  shows "outcome_inv call (frame_settle r f s)"
proof -
  have same: "fr_point (settle_frame r f (al_frames s) ! g) = fr_point (al_frames s ! g)"
    "fr_event (settle_frame r f (al_frames s) ! g) = fr_event (al_frames s ! g)" for g
    using f by (auto simp: settle_frame_def nth_list_update)
  have "truthful call (settle_frame r f (al_frames s) ! g)" if "g < length (al_frames s)" for g
    using inv that assms(3) by (auto simp: settle_frame_nth outcome_inv_def)
  then show ?thesis
    using inv by (auto simp: outcome_inv_def frame_settle_def held_def woken_def same split: loop_worker.splits)
qed

lemma set_push_delayed [simp]: "set (push_delayed t ts) = insert t (set ts)"
  using arg_cong [OF mset_push_delayed, of set_mset t ts] by simp

lemma push_waiter_member:
  "(n, fs) \<in> set (push_waiter name f ws) \<Longrightarrow>
     (n, fs) \<in> set ws \<or> n = name \<and> (\<exists>fs'. fs = fs' @ [f] \<and> (fs' = [] \<or> (n, fs') \<in> set ws))"
  by (induction ws) (auto split: if_splits)

lemma erase_waiters_subset: "set (erase_waiters name ws) \<subseteq> set ws"
  by (induction ws) (auto split: if_splits)

lemma frame_truth_pending: "ts_status st = task_pending \<Longrightarrow> frame_truth call st ev pt"
  by (cases pt) simp_all

lemma outcome_waiter:
  assumes inv: "outcome_inv call s" and pt: "fr_point (al_frames s ! f) = InWaitForEvent name"
  shows "outcome_inv call (s\<lparr>al_event_waiters := push_waiter name f (al_event_waiters s)\<rparr>)"
proof -
  have "fr_point (al_frames s ! g) = InWaitForEvent n"
    if "(n, fs) \<in> set (push_waiter name f (al_event_waiters s))" "g \<in> set fs" for n fs g
    using push_waiter_member [OF that(1)] that(2) inv pt unfolding outcome_inv_def by auto
  with inv show ?thesis by (auto simp: outcome_inv_def held_def)
qed

lemma outcome_await:
  assumes "outcome_inv call s" "f < length (al_frames s)" "task_is_pending (al_frames s ! f)"
  shows "woken (al_frames s ! f) \<Longrightarrow> outcome_inv call (Delay_await_suspend now d f s)"
    and "woken (al_frames s ! f) \<Longrightarrow> outcome_inv call (ReadyAwaiter_await_suspend f s)"
    and "fr_point (al_frames s ! f) = InWaitForEvent name \<Longrightarrow> outcome_inv call (EventAwaiter_await_suspend name f s)"
proof -
  note cancel = outcome_settle [OF assms(1,2) truth_settled(1) [OF assms(3)]]
  show "outcome_inv call (Delay_await_suspend now d f s)" if "woken (al_frames s ! f)"
    using that cancel assms(1) by (auto simp: Delay_await_suspend_def enqueue_after_def Let_def outcome_inv_def held_def)
  show "outcome_inv call (ReadyAwaiter_await_suspend f s)" if "woken (al_frames s ! f)"
    using that cancel assms(1) by (auto simp: ReadyAwaiter_await_suspend_def enqueue_ready_def outcome_inv_def held_def)
  show "outcome_inv call (EventAwaiter_await_suspend name f s)" if "fr_point (al_frames s ! f) = InWaitForEvent name"
    using cancel outcome_waiter [OF assms(1) that] by (simp add: EventAwaiter_await_suspend_def enqueue_event_wait_def)
qed

text \<open>Two loops whose queued frames agree in point and event have the same outcomes to keep.\<close>

lemma outcome_frames:
  assumes inv: "outcome_inv call s" and acc: "accounted running s"
    and truth: "\<And>f. f < length frames \<Longrightarrow> truthful call (frames ! f)"
    and same: "\<And>f. f \<in> set (held s @ queued s) \<Longrightarrow>
      fr_point (frames ! f) = fr_point (al_frames s ! f) \<and> fr_event (frames ! f) = fr_event (al_frames s ! f)"
  shows "outcome_inv call (s\<lparr>al_frames := frames\<rparr>)"
proof -
  have "fr_point (frames ! f) = InWaitForEvent n" if "(n, fs) \<in> set (al_event_waiters s)" "f \<in> set fs" for n fs f
    using that inv same [of f] waiter_queued [OF that] by (auto simp: outcome_inv_def)
  with inv truth same show ?thesis
    by (auto simp: outcome_inv_def held_def [of "al_frames_update _ s"] held_def [symmetric] woken_def queued_def)
qed

lemma accounted_pending:
  "accounted running s \<Longrightarrow> f \<in> set (running @ held s @ queued s) \<Longrightarrow> f < length (al_frames s) \<and> task_is_pending (al_frames s ! f)"
  using accounted_member set_pending_frames by blast

lemma outcome_new_frame:
  assumes inv: "outcome_inv call s" and acc: "accounted running s"
  shows "outcome_inv call (new_frame pt s)"
  unfolding new_frame_def
proof (rule outcome_frames [OF assms])
  fix f assume "f < length (al_frames s @ [\<lparr>fr_state = TaskState_init, fr_point = pt, fr_event = \<lparr>le_name = [], le_data = IntData 0\<rparr>\<rparr>])"
  with inv show "truthful call ((al_frames s @ [\<lparr>fr_state = TaskState_init, fr_point = pt, fr_event = \<lparr>le_name = [], le_data = IntData 0\<rparr>\<rparr>]) ! f)"
    by (auto simp: nth_append outcome_inv_def frame_truth_pending TaskState_init_def)
qed (use accounted_pending [OF acc] in \<open>auto simp: nth_append\<close>)

lemma outcome_emit:
  assumes inv: "outcome_inv call s" and acc: "accounted running s"
  shows "outcome_inv call (snd (emit_event ev s))"
proof (cases "al_accepting s \<and> map_of (al_event_waiters s) (le_name ev) \<noteq> None")
  case True
  then obtain fs where fs: "map_of (al_event_waiters s) (le_name ev) = Some fs" by auto
  define s1 where "s1 = s\<lparr>al_event_waiters := erase_waiters (le_name ev) (al_event_waiters s)\<rparr>"
  define t where "t = fold (deliver ev) fs s1"
  have t: "snd (emit_event ev s) = t" using True fs by (simp add: emit_event_def s1_def t_def)
  note mem = map_of_SomeD [OF fs]
  have pend: "f < length (al_frames s) \<and> task_is_pending (al_frames s ! f)" if "f \<in> set (held s @ queued s)" for f
    using accounted_member [OF acc, of f] that by (auto simp: set_pending_frames)
  have fs_q: "set fs \<subseteq> set (queued s)" using mem by (auto simp: queued_def waiting_frames_def)
  have fr: "al_frames t ! f = (if f \<in> set fs then (al_frames s ! f)\<lparr>fr_event := ev\<rparr> else al_frames s ! f)"
    if "f < length (al_frames s)" for f
    using that fold_deliver [of ev fs s1] by (simp add: s1_def t_def)
  have st: "al_ready_tasks t = al_ready_tasks s @ fs" "al_delayed_tasks t = al_delayed_tasks s" "held t = held s"
    "al_event_waiters t = erase_waiters (le_name ev) (al_event_waiters s)" "length (al_frames t) = length (al_frames s)"
    by (simp_all add: fold_deliver s1_def t_def held_def)
  have "\<forall>f < length (al_frames t). truthful call (al_frames t ! f)"
    using inv pend fs_q by (auto simp: st fr outcome_inv_def subset_iff task_is_pending_def intro!: frame_truth_pending)
  moreover have "woken (al_frames t ! f)" if f: "f \<in> set (held s @ map dt_frame (al_delayed_tasks s) @ al_ready_tasks s @ fs)" for f
  proof (cases "f \<in> set fs")
    case True
    with inv mem have "fr_point (al_frames s ! f) = InWaitForEvent (le_name ev)" by (auto simp: outcome_inv_def)
    with True pend [of f] fs_q fr [of f] show ?thesis by (auto simp: woken_def)
  next
    case False
    with f inv pend [of f] fr [of f] show ?thesis by (auto simp: outcome_inv_def queued_def)
  qed
  moreover have "fr_point (al_frames t ! f) = InWaitForEvent n"
    if "(n, gs) \<in> set (erase_waiters (le_name ev) (al_event_waiters s))" "f \<in> set gs" for n gs f
  proof -
    have "(n, gs) \<in> set (al_event_waiters s)" using that erase_waiters_subset by blast
    moreover from this have "f \<in> set (queued s)" using that(2) by (rule waiter_queued)
    ultimately show ?thesis using inv that(2) pend [of f] by (auto simp: outcome_inv_def fr)
  qed
  ultimately show ?thesis by (auto simp: t outcome_inv_def st)
qed (use assms in \<open>auto simp: emit_event_def\<close>)

lemma outcome_process_loop:
  assumes inv: "outcome_inv call s" and acc: "accounted (f # running) s"
    and pt: "fr_point (al_frames s ! f) = InProcessEvents g0"
  shows "outcome_inv call (process_events_loop now f g s)"
proof (cases "Generator_next g")
  case (Pair r rest)
  note f = accounted_pending [OF acc, of f, simplified]
  have w: "woken (al_frames s ! f)" using pt by (simp add: woken_def)
  show ?thesis
  proof (cases "\<exists>ev. r = Inr (Some ev)")
    case True
    then obtain ev where ev: "r = Inr (Some ev)" by auto
    define s1 where "s1 = snd (emit_event ev s)"
    define s2 where "s2 = s1\<lparr>al_frames := (al_frames s1)[f := (al_frames s1 ! f)\<lparr>fr_point := InProcessEvents rest\<rparr>]\<rparr>"
    have acc1: "accounted (f # running) s1" and inv1: "outcome_inv call s1"
      using accounted_emit [OF acc] outcome_emit [OF inv acc] by (simp_all add: s1_def)
    note f1 = accounted_pending [OF acc1, of f, simplified]
    have out: "f \<notin> set (held s1 @ queued s1)" using accounted_distinct [OF acc1] by simp
    have "outcome_inv call s2" unfolding s2_def
    proof (rule outcome_frames [OF inv1 acc1])
      show "truthful call ((al_frames s1)[f := (al_frames s1 ! f)\<lparr>fr_point := InProcessEvents rest\<rparr>] ! g)"
        if "g < length ((al_frames s1)[f := (al_frames s1 ! f)\<lparr>fr_point := InProcessEvents rest\<rparr>])" for g
        using that inv1 f1 by (auto simp: nth_update_at outcome_inv_def task_is_pending_def intro: frame_truth_pending)
    qed (use out f1 in \<open>auto simp: nth_list_update\<close>)
    from outcome_await(1) [OF this] f1 have "outcome_inv call (Delay_await_suspend now 200 f s2)"
      by (simp add: s2_def woken_def task_is_pending_def)
    with ev Pair show ?thesis by (simp add: process_events_loop_def s1_def s2_def Let_def)
  qed (use Pair f pt w in \<open>auto simp: process_events_loop_def split: sum.splits option.splits
        intro!: outcome_settle [OF inv] truth_settled\<close>)
qed

lemma fold_settle_nth:
  "f < length frames \<Longrightarrow> fr_point (fold (settle_frame r) fs frames ! f) = fr_point (frames ! f) \<and>
     fr_event (fold (settle_frame r) fs frames ! f) = fr_event (frames ! f) \<and>
     (f \<notin> set fs \<longrightarrow> fold (settle_frame r) fs frames ! f = frames ! f) \<and>
     (f \<in> set fs \<longrightarrow> fr_state (fold (settle_frame r) fs frames ! f) = settle r (fr_state (frames ! f)))"
proof (induction fs arbitrary: frames)
  case (Cons g fs)
  from Cons.IH [of "settle_frame r g frames"] Cons.prems show ?case
    by (cases "f \<in> set fs") (auto simp: settle_frame_nth settle_settled settle_pending)
qed simp

lemma outcome_stop:
  assumes inv: "outcome_inv call s" and acc: "accounted running s"
  shows "outcome_inv call (stop s)"
proof (cases "al_accepting s")
  case True
  let ?frames = "fold (settle_frame Cancel) (queued s) (al_frames s)"
  have "truthful call (?frames ! f)" if "f < length (al_frames s)" for f
  proof (cases "f \<in> set (queued s)")
    case q: True
    with truth_settled(1) [of "al_frames s ! f" call] accounted_pending [OF acc, of f] fold_settle_nth [OF that, of Cancel "queued s"]
    show ?thesis by simp
  next
    case False
    with inv that fold_settle_nth [OF that, of Cancel "queued s"] show ?thesis by (simp add: outcome_inv_def)
  qed
  then have "outcome_inv call (s\<lparr>al_frames := ?frames\<rparr>)"
    by (intro outcome_frames [OF inv acc]) (use accounted_pending [OF acc] in \<open>auto simp: fold_settle_nth fold_settle_frame\<close>)
  then show ?thesis
    using True by (auto simp: stop_def queued_def Let_def outcome_inv_def held_def)
qed (use inv in \<open>simp add: stop_def\<close>)

lemma accounted_stop:
  assumes acc: "accounted running s"
  shows "accounted running (stop s)"
proof (cases "al_accepting s")
  case True
  have d: "distinct (running @ held s @ queued s)" by (rule accounted_distinct [OF acc])
  have "mset (pending_frames (al_frames (stop s))) = filter_mset (\<lambda>f. f \<notin> set (queued s)) (mset (pending_frames (al_frames s)))"
    using True fold_settle_frame [of Cancel "queued s" "al_frames s"] by (simp add: stop_def queued_def Let_def)
  also have "\<dots> = mset (filter (\<lambda>f. f \<notin> set (queued s)) (running @ held s @ queued s))"
    using acc unfolding accounted_def by (metis mset_filter)
  also have "filter (\<lambda>f. f \<notin> set (queued s)) (running @ held s @ queued s) = running @ held s"
    using d by (auto simp: filter_empty_conv intro!: arg_cong2 [where f = "(@)"] filter_True)
  finally show ?thesis
    using True by (simp add: accounted_def stop_def queued_def held_def Let_def waiting_frames_def)
qed (use acc in \<open>simp add: stop_def\<close>)

lemma control_stop: "control_inv s \<Longrightarrow> control_inv (stop s)"
  by (simp add: control_inv_def stop_def Let_def)

section \<open>Reachable loops\<close>

text \<open>One step of any thread: a call of a public operation at any time, or a step of \<open>run\<close>.\<close>

inductive async_step :: "('c \<Rightarrow> cpp_exn option) \<Rightarrow> 'c AsyncEventLoop \<Rightarrow> 'c AsyncEventLoop \<Rightarrow> bool"
  for call :: "'c \<Rightarrow> cpp_exn option" where
  step_schedule_after: "async_step call s (snd (schedule_after now delay callback s))"
| step_schedule: "async_step call s (snd (schedule callback s))"
| step_wait: "async_step call s (snd (wait_for_event name s))"
| step_process: "async_step call s (snd (process_events now g s))"
| step_emit: "async_step call s (snd (emit_event event s))"
| step_stop: "async_step call s (stop s)"
| step_run_caller: "async_step call s (snd (run_on_calling_thread s))"
| step_run: "loop_run_step call now s = Some s' \<Longrightarrow> async_step call s s'"

definition async_reachable :: "('c \<Rightarrow> cpp_exn option) \<Rightarrow> 'c AsyncEventLoop \<Rightarrow> bool" where
  "async_reachable call s \<longleftrightarrow> (\<exists>mode. (async_step call)\<^sup>*\<^sup>* (construct_AsyncEventLoop mode) s)"

lemma async_reachable_init: "async_reachable call (construct_AsyncEventLoop mode)"
  by (auto simp: async_reachable_def)

lemma async_reachable_step: "async_reachable call s \<Longrightarrow> async_step call s t \<Longrightarrow> async_reachable call t"
  unfolding async_reachable_def by (blast intro: rtranclp.rtrancl_into_rtrancl)

definition async_inv :: "('c \<Rightarrow> cpp_exn option) \<Rightarrow> 'c AsyncEventLoop \<Rightarrow> bool" where
  "async_inv call s \<longleftrightarrow> accounted [] s \<and> control_inv s \<and> outcome_inv call s"

lemma new_frame_last [simp]:
  "al_frames (new_frame pt s) ! length (al_frames s) =
     \<lparr>fr_state = TaskState_init, fr_point = pt, fr_event = \<lparr>le_name = [], le_data = IntData 0\<rparr>\<rparr>"
  "length (al_frames (new_frame pt s)) = Suc (length (al_frames s))"
  by (simp_all add: new_frame_def)

lemma async_inv_start:
  assumes "async_inv call s"
  shows "async_inv call (snd (schedule_after now delay cb s))" "async_inv call (snd (schedule cb s))"
    "async_inv call (snd (wait_for_event name s))" "async_inv call (snd (process_events now g s))"
proof -
  have inv: "accounted [] s" "control_inv s" "outcome_inv call s" using assms by (simp_all add: async_inv_def)
  note acc = accounted_new_frame [OF inv(1)] and out = outcome_new_frame [OF inv(3,1)]
  have pend: "task_is_pending (al_frames (new_frame pt s) ! length (al_frames s))" for pt
    by (simp add: task_is_pending_def TaskState_init_def)
  have woken: "woken (al_frames (new_frame pt s) ! length (al_frames s))" if "\<forall>n. pt \<noteq> InWaitForEvent n" for pt
    using that by (simp add: woken_def)
  show "async_inv call (snd (schedule_after now delay cb s))"
    using accounted_enqueue(1) [OF acc] outcome_await(1) [OF out _ pend woken] inv(2)
    by (simp add: async_inv_def schedule_after_def Let_def control_await)
  show "async_inv call (snd (schedule cb s))"
    using accounted_enqueue(2) [OF acc] outcome_await(2) [OF out _ pend woken] inv(2)
    by (simp add: async_inv_def schedule_def Let_def control_await)
  show "async_inv call (snd (wait_for_event name s))"
    using accounted_enqueue(3) [OF acc] outcome_await(3) [OF out _ pend] inv(2)
    by (simp add: async_inv_def wait_for_event_def Let_def control_await)
  show "async_inv call (snd (process_events now g s))"
    using accounted_process_loop [OF acc] outcome_process_loop [OF out acc] inv(2)
    by (simp add: async_inv_def process_events_def Let_def control_process_loop)
qed

lemma outcome_worker: "outcome_inv call s \<Longrightarrow> set (held t) \<subseteq> set (held s) \<Longrightarrow> t = s\<lparr>al_worker := w\<rparr> \<Longrightarrow> outcome_inv call t"
  by (auto simp: outcome_inv_def)

lemma async_inv_take:
  assumes inv: "async_inv call s" and w: "al_worker s = LoopWaiting" and step: "run_take now s = Some s'"
  shows "async_inv call s'"
proof -
  have ready: "mset (al_ready_tasks s) = add_mset (last (al_ready_tasks s)) (mset (butlast (al_ready_tasks s)))"
    "last (al_ready_tasks s) \<in> set (al_ready_tasks s)" if "al_ready_tasks s \<noteq> []"
    using that mset_append [of "butlast (al_ready_tasks s)" "[last (al_ready_tasks s)]"] by simp_all
  have "accounted [] s'"
    using inv w step ready
    by (auto simp: async_inv_def run_take_def accounted_def held_def queued_def split: if_splits list.splits)
  moreover have "control_inv s'"
    using inv w step by (auto simp: async_inv_def run_take_def control_inv_def split: if_splits list.splits)
  moreover have "outcome_inv call s'"
    using inv w step ready(2) in_set_butlastD [of _ "al_ready_tasks s"]
    by (auto simp: async_inv_def run_take_def outcome_inv_def held_def ball_Un split: if_splits list.splits)
  ultimately show ?thesis by (simp add: async_inv_def)
qed

lemma async_inv_resume:
  assumes inv: "async_inv call s" and w: "al_worker s = LoopHolding f"
  shows "async_inv call (run_resume f s)"
proof -
  let ?s = "s\<lparr>al_worker := LoopWaiting\<rparr>"
  have acc: "accounted [f] ?s" and con: "control_inv ?s" and out: "outcome_inv call ?s"
    using inv w by (auto simp: async_inv_def accounted_def held_def queued_def control_inv_def outcome_inv_def)
  note f = accounted_pending [OF acc, of f, simplified]
  have "outcome_inv call (s\<lparr>al_worker := LoopResuming f\<rparr>)"
    by (rule outcome_worker [of call s _ "LoopResuming f"]) (use inv w in \<open>simp_all add: held_def async_inv_def\<close>)
  moreover have "async_inv call (frame_settle Cancel f ?s)"
    using accounted_settle [OF acc] con outcome_settle [OF out, of f Cancel] truth_settled(1) [of "al_frames s ! f"] f
    by (simp add: async_inv_def)
  moreover have "accounted [] (s\<lparr>al_worker := LoopResuming f\<rparr>)" "control_inv (s\<lparr>al_worker := LoopResuming f\<rparr>)"
    using inv w by (simp_all add: async_inv_def accounted_def held_def queued_def control_inv_def)
  ultimately show ?thesis using f by (simp add: run_resume_def async_inv_def task_is_pending_def)
qed

lemma async_inv_complete:
  assumes inv: "async_inv call s" and w: "al_worker s = LoopResuming f"
  shows "async_inv call (resume_coroutine call now f (s\<lparr>al_worker := LoopWaiting\<rparr>))"
proof -
  let ?s = "s\<lparr>al_worker := LoopWaiting\<rparr>"
  have acc: "accounted [f] ?s" and con: "control_inv ?s" and out: "outcome_inv call ?s"
    and wk: "woken (al_frames s ! f)"
    using inv w by (auto simp: async_inv_def accounted_def held_def queued_def control_inv_def outcome_inv_def)
  note f = accounted_pending [OF acc, of f, simplified]
  have ends: "async_inv call (frame_settle r f ?s)"
    if "truthful call ((al_frames s ! f)\<lparr>fr_state := settle r (fr_state (al_frames s ! f))\<rparr>)" for r
    using accounted_settle [OF acc] con outcome_settle [OF out] f that by (simp add: async_inv_def)
  show ?thesis
  proof (cases "fr_point (al_frames s ! f)")
    case (InProcessEvents g)
    then show ?thesis
      using accounted_process_loop [OF acc] outcome_process_loop [OF out acc] con
      by (simp add: resume_coroutine_def async_inv_def control_process_loop)
  qed (use f wk in \<open>auto simp: resume_coroutine_def split: option.splits intro!: ends truth_settled\<close>)
qed

lemma async_inv_step: "async_step call s t \<Longrightarrow> async_inv call s \<Longrightarrow> async_inv call t"
proof (induction rule: async_step.induct)
  case (step_emit s event)
  then show ?case by (auto simp: async_inv_def intro: accounted_emit control_emit outcome_emit)
next
  case (step_stop s)
  then show ?case by (auto simp: async_inv_def intro: accounted_stop control_stop outcome_stop)
next
  case (step_run_caller s)
  then show ?case
    by (auto simp: async_inv_def run_on_calling_thread_def run_begin_def accounted_def held_def queued_def
        control_inv_def outcome_inv_def)
next
  case (step_run now s s')
  show ?case
  proof (cases "al_worker s")
    case LoopIdle
    with step_run show ?thesis
      by (auto simp: loop_run_step_def run_begin_def async_inv_def accounted_def held_def queued_def control_inv_def
          outcome_inv_def split: if_splits)
  qed (use step_run async_inv_take async_inv_resume async_inv_complete in \<open>auto simp: loop_run_step_def\<close>)
qed (simp_all add: async_inv_start)

lemma async_inv_steps: "(async_step call)\<^sup>*\<^sup>* s t \<Longrightarrow> async_inv call s \<Longrightarrow> async_inv call t"
  by (induction rule: rtranclp_induct) (auto intro: async_inv_step)

lemma async_inv_reachable: "async_reachable call s \<Longrightarrow> async_inv call s"
proof -
  have "async_inv call (construct_AsyncEventLoop mode)" for mode
    by (simp add: async_inv_def construct_AsyncEventLoop_def accounted_def held_def queued_def waiting_frames_def
        pending_frames_def control_inv_def outcome_inv_def)
  then show "async_reachable call s \<Longrightarrow> async_inv call s"
    by (auto simp: async_reachable_def intro: async_inv_steps)
qed

section \<open>The loop as its callers see it\<close>

text \<open>
  In every interleaving, a task is pending exactly while its frame is in one queue of
  the loop or held by the worker, and it is in one of these places only; so no task is
  lost or resumed twice. What a settled task reports is true: a callback task that
  succeeded has run its callback without an exception, one that failed carries the
  exception of its callback, and a wait that succeeded holds an event of the awaited name.
\<close>

theorem async_tasks_accounted:
  assumes "async_reachable call s"
  shows "distinct (held s @ queued s) \<and>
    (\<forall>f. f \<in> set (held s @ queued s) \<longleftrightarrow> f < length (al_frames s) \<and> ts_status (fr_state (al_frames s ! f)) = task_pending) \<and>
    (\<forall>f < length (al_frames s). truthful call (al_frames s ! f))"
proof -
  have inv: "accounted [] s" "outcome_inv call s" using async_inv_reachable [OF assms] by (simp_all add: async_inv_def)
  show ?thesis
    using accounted_distinct [OF inv(1)] accounted_member [OF inv(1)] inv(2)
    by (simp add: set_pending_frames outcome_inv_def task_is_pending_def)
qed

lemma async_tasks_bound: "async_reachable call s \<Longrightarrow> f \<in> set (held s) \<Longrightarrow> f < length (al_frames s)"
  using async_inv_reachable accounted_pending [of "[]" s f] by (auto simp: async_inv_def)

text \<open>
  The worker takes the newest ready frame; only when none is ready it takes a delayed
  one, never before its deadline, and then the one with the earliest deadline and, among
  equal deadlines, the lowest sequence number. After a stop it takes nothing and leaves.
\<close>

theorem async_take_order:
  assumes "async_reachable call s" "run_take now s = Some s'"
  shows "(al_stopping s \<longrightarrow> al_worker s' = LoopExited) \<and>
    (\<not> al_stopping s \<longrightarrow>
      (al_ready_tasks s \<noteq> [] \<and> al_worker s' = LoopHolding (last (al_ready_tasks s)) \<and> al_delayed_tasks s' = al_delayed_tasks s) \<or>
      (al_ready_tasks s = [] \<and> (\<exists>t. al_delayed_tasks s = t # al_delayed_tasks s' \<and> al_worker s' = LoopHolding (dt_frame t) \<and>
         dt_time t \<le> now \<and>
         (\<forall>u \<in> set (al_delayed_tasks s'). dt_time t < dt_time u \<or> dt_time t = dt_time u \<and> dt_sequence t \<le> dt_sequence u))))"
proof -
  have "sorted_wrt (\<lambda>a b. \<not> Later a b) (al_delayed_tasks s)"
    using async_inv_reachable [OF assms(1)] by (simp add: async_inv_def control_inv_def)
  with assms(2) show ?thesis
    by (auto simp: run_take_def Later_def not_less split: if_splits list.splits)
qed

text \<open>
  Once the loop is stopped it stays stopped and starts no callback: the worker is inside
  \<^verbatim>\<open>resume()\<close> later only if it was when the loop was stopped.
\<close>

definition winding_down :: "nat option \<Rightarrow> 'c AsyncEventLoop \<Rightarrow> bool" where
  "winding_down r s \<longleftrightarrow> al_stopping s \<and> \<not> al_accepting s \<and>
     (\<forall>f. al_worker s = LoopResuming f \<longrightarrow> r = Some f)"

lemma winding_simps [simp]:
  "winding_down r (frame_settle q f s) = winding_down r s"
  "winding_down r (new_frame pt s) = winding_down r s"
  "winding_down r (s\<lparr>al_frames := fs\<rparr>) = winding_down r s"
  by (simp_all add: winding_down_def frame_settle_def new_frame_def)

lemma winding_await:
  assumes "winding_down r s"
  shows "winding_down r (Delay_await_suspend now d f s)"
    and "winding_down r (ReadyAwaiter_await_suspend f s)"
    and "winding_down r (EventAwaiter_await_suspend name f s)"
    and "snd (emit_event ev s) = s"
    and "stop s = s"
proof -
  have "\<not> al_accepting s" using assms by (simp add: winding_down_def)
  with assms show "winding_down r (Delay_await_suspend now d f s)" "winding_down r (ReadyAwaiter_await_suspend f s)"
    "winding_down r (EventAwaiter_await_suspend name f s)" "snd (emit_event ev s) = s" "stop s = s"
    by (simp_all add: Delay_await_suspend_def enqueue_after_def ReadyAwaiter_await_suspend_def enqueue_ready_def
        EventAwaiter_await_suspend_def enqueue_event_wait_def emit_event_def stop_def)
qed

lemma winding_process: "winding_down r s \<Longrightarrow> winding_down r (process_events_loop now f g s)"
  by (auto simp: process_events_loop_def Let_def winding_await split: prod.splits sum.splits option.splits intro!: winding_await(1))

lemma winding_step: "async_step call s t \<Longrightarrow> winding_down r s \<Longrightarrow> winding_down r t"
proof (induction rule: async_step.induct)
  case (step_run_caller s)
  then show ?case by (auto simp: run_on_calling_thread_def run_begin_def winding_down_def)
next
  case (step_run now s s')
  have wait: "winding_down r (s\<lparr>al_worker := LoopWaiting\<rparr>)" using step_run by (simp add: winding_down_def)
  show ?case
  proof (cases "al_worker s")
    case (LoopResuming f)
    with step_run wait show ?thesis
      by (auto simp: loop_run_step_def resume_coroutine_def winding_process split: resume_point.splits option.splits)
  qed (use step_run wait in \<open>auto simp: loop_run_step_def run_begin_def run_take_def run_resume_def winding_down_def frame_settle_def split: if_splits\<close>)
qed (auto simp: schedule_after_def schedule_def wait_for_event_def process_events_def Let_def winding_await winding_process)

lemma winding_steps: "(async_step call)\<^sup>*\<^sup>* s t \<Longrightarrow> winding_down r s \<Longrightarrow> winding_down r t"
  by (induction rule: rtranclp_induct) (auto intro: winding_step)

lemma queued_stopped: "async_inv call s \<Longrightarrow> al_stopping s \<Longrightarrow> queued s = []"
  by (simp add: async_inv_def control_inv_def queued_def waiting_frames_def)

text \<open>
  C38: \<^verbatim>\<open>stop()\<close> cancels every task that waits in a queue, and whatever any thread does
  afterwards, nothing is queued again and no callback starts: at most the coroutine that
  was being resumed when the loop was stopped still runs.
\<close>

theorem async_stop_cancels:
  assumes "async_reachable call s" "al_accepting s"
  shows "(\<forall>f \<in> set (queued s). ts_status (fr_state (al_frames (stop s) ! f)) = task_cancelled) \<and>
    (\<forall>t. (async_step call)\<^sup>*\<^sup>* (stop s) t \<longrightarrow> al_stopping t \<and> queued t = [] \<and>
       (\<forall>f. al_worker t = LoopResuming f \<longrightarrow> al_worker s = LoopResuming f))"
proof (intro conjI ballI allI impI)
  fix f assume f: "f \<in> set (queued s)"
  have inv: "async_inv call s" by (rule async_inv_reachable [OF assms(1)])
  then have "accounted [] s" by (simp add: async_inv_def)
  from accounted_pending [OF this, of f] f have p: "f < length (al_frames s)" "task_is_pending (al_frames s ! f)" by auto
  have "al_frames (stop s) = fold (settle_frame Cancel) (queued s) (al_frames s)"
    using assms(2) by (simp add: stop_def queued_def Let_def)
  with fold_settle_nth [OF p(1), of Cancel "queued s"] f p(2)
  show "ts_status (fr_state (al_frames (stop s) ! f)) = task_cancelled"
    by (simp add: task_ops task_is_pending_def)
next
  fix t assume t: "(async_step call)\<^sup>*\<^sup>* (stop s) t"
  define r where "r = (case al_worker s of LoopResuming f \<Rightarrow> Some f | _ \<Rightarrow> None)"
  have "winding_down r (stop s)"
    using assms(2) by (auto simp: winding_down_def stop_def r_def Let_def)
  from winding_steps [OF t this] have w: "winding_down r t" .
  show "al_stopping t" using w by (simp add: winding_down_def)
  have "async_inv call (stop s)" by (rule async_inv_step [OF step_stop async_inv_reachable [OF assms(1)]])
  then show "queued t = []" using async_inv_steps [OF t] queued_stopped \<open>al_stopping t\<close> by blast
  show "al_worker s = LoopResuming f" if "al_worker t = LoopResuming f" for f
    using w that by (auto simp: winding_down_def r_def split: loop_worker.splits)
qed

text \<open>A coroutine that is resumed while the loop is stopped only changes frames.\<close>

lemma resume_stopped:
  assumes "\<not> al_accepting s"
  shows "\<exists>fs. resume_coroutine call now f s = s\<lparr>al_frames := fs\<rparr>"
proof -
  have settle: "\<exists>fs. frame_settle r g u = s\<lparr>al_frames := fs\<rparr>" if "\<exists>fs. u = s\<lparr>al_frames := fs\<rparr>" for r g u
    using that by (auto simp: frame_settle_def)
  have self: "\<exists>fs. s = s\<lparr>al_frames := fs\<rparr>" by (rule exI [of _ "al_frames s"]) simp
  have "\<exists>fs. process_events_loop now f g s = s\<lparr>al_frames := fs\<rparr>" for g
    using assms settle [OF self]
    by (auto simp: process_events_loop_def emit_event_def Delay_await_suspend_def enqueue_after_def Let_def frame_settle_def
        split: prod.splits sum.splits option.splits)
  then show ?thesis
    using settle [OF self] by (auto simp: resume_coroutine_def split: resume_point.splits option.splits)
qed

fun worker_rank :: "loop_worker \<Rightarrow> nat" where
  "worker_rank LoopWaiting = 1"
| "worker_rank LoopExited = 0"
| "worker_rank _ = 2"

lemma worker_rank_le: "worker_rank w \<le> 2"
  by (cases w) auto

lemma join_step:
  assumes "async_inv call s" "al_stopping s" "al_execution_mode s = LoopOwnedThread" "al_worker s \<noteq> LoopExited"
  shows "\<exists>s'. loop_run_step call now s = Some s' \<and> worker_rank (al_worker s') < worker_rank (al_worker s) \<and>
    async_inv call s' \<and> al_stopping s' \<and> al_execution_mode s' = LoopOwnedThread"
proof -
  have control: "\<not> al_accepting s" "al_worker s = LoopIdle \<longleftrightarrow> \<not> al_run_started s"
    using assms(1,2) by (auto simp: async_inv_def control_inv_def)
  have "\<exists>s'. loop_run_step call now s = Some s' \<and> worker_rank (al_worker s') < worker_rank (al_worker s) \<and>
    al_stopping s' \<and> al_execution_mode s' = LoopOwnedThread"
  proof (cases "al_worker s")
    case (LoopResuming f)
    with resume_stopped [of "s\<lparr>al_worker := LoopWaiting\<rparr>" call now f] control assms(2,3) show ?thesis
      by (auto simp: loop_run_step_def)
  qed (use assms control in \<open>auto simp: loop_run_step_def run_begin_def run_take_def run_resume_def frame_settle_def\<close>)
  then show ?thesis using async_inv_step [OF step_run] assms(1) by blast
qed

lemma join_loop_ends:
  "async_inv call s \<Longrightarrow> al_stopping s \<Longrightarrow> al_execution_mode s = LoopOwnedThread \<Longrightarrow> worker_rank (al_worker s) \<le> fuel \<Longrightarrow>
     al_worker (join_loop fuel call now s) = LoopExited \<and> async_inv call (join_loop fuel call now s) \<and>
     al_stopping (join_loop fuel call now s)"
proof (induction fuel arbitrary: s)
  case 0
  then show ?case by (cases "al_worker s") auto
next
  case (Suc fuel)
  show ?case
  proof (cases "al_worker s = LoopExited")
    case True
    with Suc.prems show ?thesis by (simp add: loop_run_step_def)
  next
    case False
    from join_step [OF Suc.prems(1-3) False, of now] Suc.prems(4) Suc.IH show ?thesis by fastforce
  qed
qed

text \<open>
  C39: Destroying a loop that owns its thread ends with the thread joined and with every
  task that was ever started settled: none is left pending.
\<close>

theorem async_destructor_settles:
  assumes "async_reachable call s" "al_execution_mode s = LoopOwnedThread"
  shows "al_worker (destroy_AsyncEventLoop call now s) = LoopExited \<and>
    (\<forall>f < length (al_frames (destroy_AsyncEventLoop call now s)).
       ts_status (fr_state (al_frames (destroy_AsyncEventLoop call now s) ! f)) \<noteq> task_pending)"
proof -
  have inv: "async_inv call (stop s)" by (rule async_inv_step [OF step_stop async_inv_reachable [OF assms(1)]])
  have st: "al_stopping (stop s)" "al_execution_mode (stop s) = LoopOwnedThread" "worker_rank (al_worker (stop s)) \<le> 2"
    using async_inv_reachable [OF assms(1)] assms(2)
    by (simp_all add: async_inv_def control_inv_def stop_def Let_def worker_rank_le)
  define t where "t = join_loop 2 call now (stop s)"
  have t: "al_worker t = LoopExited" "async_inv call t" "al_stopping t"
    using join_loop_ends [OF inv st] by (simp_all add: t_def)
  then have "pending_frames (al_frames t) = []"
    using queued_stopped [OF t(2,3)] by (simp add: async_inv_def accounted_def held_def)
  then show ?thesis
    using t(1) assms(2) set_pending_frames [of _ "al_frames t"] by (auto simp: destroy_AsyncEventLoop_def t_def [symmetric] task_is_pending_def)
qed

text \<open>A loop with two delayed callbacks, a ready one and a wait for an event.\<close>

definition sample_async :: "bool AsyncEventLoop" where
  "sample_async = snd (wait_for_event ''go'' (snd (schedule False (snd (schedule_after 0 5 True
     (snd (schedule_after 0 7 False (snd (run_begin (construct_AsyncEventLoop LoopOwnedThread))))))))))"

definition sample_async_call :: "bool \<Rightarrow> cpp_exn option" where
  "sample_async_call ok = (if ok then None else Some (RuntimeError ''boom''))"

lemma sample_async_reachable: "async_reachable sample_async_call sample_async"
proof -
  have "loop_run_step sample_async_call 0 (construct_AsyncEventLoop LoopOwnedThread) =
      Some (snd (run_begin (construct_AsyncEventLoop LoopOwnedThread)))"
    by (simp add: loop_run_step_def construct_AsyncEventLoop_def)
  then have "async_reachable sample_async_call (snd (run_begin (construct_AsyncEventLoop LoopOwnedThread)))"
    by (rule async_reachable_step [OF async_reachable_init step_run])
  then show ?thesis
    unfolding sample_async_def by (intro async_reachable_step [OF _ step_wait] async_reachable_step [OF _ step_schedule]
        async_reachable_step [OF _ step_schedule_after])
qed

lemma sample_async_eval:
  "queued sample_async = [1, 0, 2, 3]" "al_ready_tasks sample_async = [2]"
  "al_worker sample_async = LoopWaiting" "al_accepting sample_async" "\<not> al_stopping sample_async"
  "al_execution_mode sample_async = LoopOwnedThread" "length (al_frames sample_async) = 4"
  by (simp_all add: sample_async_def construct_AsyncEventLoop_def run_begin_def schedule_after_def schedule_def
      wait_for_event_def new_frame_def Delay_await_suspend_def enqueue_after_def ReadyAwaiter_await_suspend_def
      enqueue_ready_def EventAwaiter_await_suspend_def enqueue_event_wait_def Later_def queued_def waiting_frames_def)

theorem async_tasks_accounted_witness: "ts_status (fr_state (al_frames sample_async ! 3)) = task_pending"
  using async_tasks_accounted [OF sample_async_reachable, THEN conjunct2, THEN conjunct1, THEN spec, of 3]
  by (simp add: sample_async_eval held_def)

theorem async_take_order_witness: "al_worker (the (run_take 9 sample_async)) = LoopHolding 2"
  using async_take_order [OF sample_async_reachable, of 9 "the (run_take 9 sample_async)"]
  by (simp add: sample_async_eval run_take_def)

theorem async_stop_cancels_witness: "ts_status (fr_state (al_frames (stop sample_async) ! 3)) = task_cancelled"
  using async_stop_cancels [OF sample_async_reachable] by (simp add: sample_async_eval)

theorem async_destructor_settles_witness:
  "al_worker (destroy_AsyncEventLoop sample_async_call 9 sample_async) = LoopExited"
  using async_destructor_settles [OF sample_async_reachable, of 9] by (simp add: sample_async_eval)

end
