(* ===== verification/Event_Loop_Coroutine.thy ===== *)
theory Event_Loop_Coroutine
  imports Async_Event_Loop
begin

text \<open>
  \<^verbatim>\<open>src/src/Utils/Concurrency/EventLoopCoroutine.hpp\<close>: the scheduler that has delays only. Its
  frames and delayed tasks are those of \<open>Async_Event_Loop\<close>. The theorem shows that, call by
  call and step by step, it behaves as an \<open>AsyncEventLoop\<close> on its own thread
  of which only \<open>schedule_after\<close> is used, so the results on that loop carry over.
\<close>

record 'c EventLoopCoroutine =
  ec_delayed_tasks :: "DelayedTask list"
  ec_next_sequence :: "64 word"
  ec_accepting :: bool
  ec_stopping :: bool
  ec_worker :: loop_worker
  ec_frames :: "'c CoroutineFrame list"

definition construct_EventLoopCoroutine :: "'c EventLoopCoroutine" where
  "construct_EventLoopCoroutine =
     \<lparr>ec_delayed_tasks = [], ec_next_sequence = 0, ec_accepting = True, ec_stopping = False,
      ec_worker = LoopIdle, ec_frames = []\<rparr>"

definition ec_enqueue_after :: "int \<Rightarrow> int \<Rightarrow> nat \<Rightarrow> 'c EventLoopCoroutine \<Rightarrow> bool \<times> 'c EventLoopCoroutine" where
  "ec_enqueue_after now delay f s =
     (if \<not> ec_accepting s then (False, s)
      else let deadline = now + (if delay < 0 then 0 else delay) in
        (True, s\<lparr>ec_delayed_tasks := push_delayed
            \<lparr>dt_time = deadline, dt_sequence = ec_next_sequence s, dt_frame = f\<rparr> (ec_delayed_tasks s),
          ec_next_sequence := ec_next_sequence s + 1\<rparr>))"

definition ec_frame_settle :: "settlement \<Rightarrow> nat \<Rightarrow> 'c EventLoopCoroutine \<Rightarrow> 'c EventLoopCoroutine" where
  "ec_frame_settle r f s = s\<lparr>ec_frames := settle_frame r f (ec_frames s)\<rparr>"

definition ec_Delay_await_suspend :: "int \<Rightarrow> int \<Rightarrow> nat \<Rightarrow> 'c EventLoopCoroutine \<Rightarrow> 'c EventLoopCoroutine" where
  "ec_Delay_await_suspend now duration f s =
     (case ec_enqueue_after now duration f s of (ok, s') \<Rightarrow> if ok then s' else ec_frame_settle Cancel f s')"

definition ec_schedule_after :: "int \<Rightarrow> int \<Rightarrow> 'c \<Rightarrow> 'c EventLoopCoroutine \<Rightarrow> nat \<times> 'c EventLoopCoroutine" where
  "ec_schedule_after now delay callback s =
     (let f = length (ec_frames s) in
      (f, ec_Delay_await_suspend now delay f (s\<lparr>ec_frames := ec_frames s @
         [\<lparr>fr_state = TaskState_init, fr_point = InScheduleAfter callback,
           fr_event = \<lparr>le_name = [], le_data = IntData 0\<rparr>\<rparr>]\<rparr>)))"

definition ec_stop :: "'c EventLoopCoroutine \<Rightarrow> 'c EventLoopCoroutine" where
  "ec_stop s =
     (if \<not> ec_accepting s then s
      else let cancelled = map dt_frame (ec_delayed_tasks s) in
        s\<lparr>ec_accepting := False, ec_stopping := True, ec_delayed_tasks := [],
          ec_frames := fold (settle_frame Cancel) cancelled (ec_frames s)\<rparr>)"

definition ec_is_accepting :: "'c EventLoopCoroutine \<Rightarrow> bool" where
  "ec_is_accepting s = ec_accepting s"

definition ec_run_take :: "int \<Rightarrow> 'c EventLoopCoroutine \<Rightarrow> 'c EventLoopCoroutine option" where
  "ec_run_take now s =
     (if ec_stopping s then Some (s\<lparr>ec_worker := LoopExited\<rparr>)
      else case ec_delayed_tasks s of
        [] \<Rightarrow> None
      | t # rest \<Rightarrow>
          if dt_time t \<le> now then Some (s\<lparr>ec_delayed_tasks := rest, ec_worker := LoopHolding (dt_frame t)\<rparr>)
          else None)"

definition ec_run_resume :: "nat \<Rightarrow> 'c EventLoopCoroutine \<Rightarrow> 'c EventLoopCoroutine" where
  "ec_run_resume ready s =
     (if ec_stopping s then ec_frame_settle Cancel ready (s\<lparr>ec_worker := LoopWaiting\<rparr>)
      else if ts_status (fr_state (ec_frames s ! ready)) = task_pending then s\<lparr>ec_worker := LoopResuming ready\<rparr>
      else s\<lparr>ec_worker := LoopWaiting\<rparr>)"

text \<open>
  One step of the worker. Only \<open>schedule_after\<close> creates frames here; a frame suspended
  elsewhere does not occur.
\<close>

definition ec_run :: "('c \<Rightarrow> cpp_exn option) \<Rightarrow> int \<Rightarrow> 'c EventLoopCoroutine \<Rightarrow> 'c EventLoopCoroutine option" where
  "ec_run call now s =
     (case ec_worker s of
        LoopIdle \<Rightarrow> Some (s\<lparr>ec_worker := LoopWaiting\<rparr>)
      | LoopWaiting \<Rightarrow> ec_run_take now s
      | LoopHolding f \<Rightarrow> Some (ec_run_resume f s)
      | LoopResuming f \<Rightarrow>
          (case fr_point (ec_frames s ! f) of
             InScheduleAfter callback \<Rightarrow>
               Some (ec_frame_settle (case call callback of None \<Rightarrow> Succeed | Some e \<Rightarrow> Fail e) f (s\<lparr>ec_worker := LoopWaiting\<rparr>))
           | _ \<Rightarrow> None)
      | LoopExited \<Rightarrow> None)"

text \<open>The destructor, with the bound of \<open>join_loop\<close>.\<close>

fun ec_join :: "nat \<Rightarrow> ('c \<Rightarrow> cpp_exn option) \<Rightarrow> int \<Rightarrow> 'c EventLoopCoroutine \<Rightarrow> 'c EventLoopCoroutine" where
  "ec_join 0 call now s = s"
| "ec_join (Suc fuel) call now s =
     (case ec_run call now s of None \<Rightarrow> s | Some s' \<Rightarrow> ec_join fuel call now s')"

definition destroy_EventLoopCoroutine :: "('c \<Rightarrow> cpp_exn option) \<Rightarrow> int \<Rightarrow> 'c EventLoopCoroutine \<Rightarrow> 'c EventLoopCoroutine" where
  "destroy_EventLoopCoroutine call now s = ec_join 2 call now (ec_stop s)"

section \<open>Simulation by the asynchronous loop\<close>

text \<open>The asynchronous loop a coroutine loop corresponds to.\<close>

definition as_async :: "'c EventLoopCoroutine \<Rightarrow> 'c AsyncEventLoop" where
  "as_async s =
     \<lparr>al_delayed_tasks = ec_delayed_tasks s, al_ready_tasks = [], al_event_waiters = [],
      al_next_sequence = ec_next_sequence s, al_accepting = ec_accepting s, al_stopping = ec_stopping s,
      al_run_started = (ec_worker s \<noteq> LoopIdle), al_execution_mode = LoopOwnedThread,
      al_worker = ec_worker s, al_frames = ec_frames s\<rparr>"

inductive ec_reachable :: "('c \<Rightarrow> cpp_exn option) \<Rightarrow> 'c EventLoopCoroutine \<Rightarrow> bool"
  for call :: "'c \<Rightarrow> cpp_exn option" where
  Construct: "ec_reachable call construct_EventLoopCoroutine"
| Schedule: "ec_reachable call s \<Longrightarrow> ec_reachable call (snd (ec_schedule_after now delay callback s))"
| Stop: "ec_reachable call s \<Longrightarrow> ec_reachable call (ec_stop s)"
| Run: "ec_reachable call s \<Longrightarrow> ec_run call now s = Some s' \<Longrightarrow> ec_reachable call s'"

lemma as_async_settle [simp]: "as_async (ec_frame_settle r f s) = frame_settle r f (as_async s)"
  by (simp add: as_async_def ec_frame_settle_def frame_settle_def)

lemma as_async_schedule:
  "as_async (snd (ec_schedule_after now delay cb s)) = snd (schedule_after now delay cb (as_async s))"
  "fst (ec_schedule_after now delay cb s) = fst (schedule_after now delay cb (as_async s))"
  by (simp_all add: ec_schedule_after_def schedule_after_def Let_def ec_Delay_await_suspend_def Delay_await_suspend_def
      ec_enqueue_after_def enqueue_after_def new_frame_def as_async_def ec_frame_settle_def frame_settle_def)

lemma as_async_stop: "as_async (ec_stop s) = stop (as_async s)"
  by (simp add: ec_stop_def stop_def as_async_def Let_def waiting_frames_def)

definition only_delays :: "'c EventLoopCoroutine \<Rightarrow> bool" where
  "only_delays s \<longleftrightarrow> (\<forall>fr \<in> set (ec_frames s). \<exists>cb. fr_point fr = InScheduleAfter cb)"

lemma as_async_run:
  assumes "\<And>f. ec_worker s = LoopResuming f \<Longrightarrow> \<exists>cb. fr_point (ec_frames s ! f) = InScheduleAfter cb"
  shows "map_option as_async (ec_run call now s) = loop_run_step call now (as_async s)"
proof (cases "ec_worker s")
  case (LoopResuming f)
  with assms obtain cb where "fr_point (ec_frames s ! f) = InScheduleAfter cb" by blast
  with LoopResuming show ?thesis
    by (auto simp: ec_run_def loop_run_step_def resume_coroutine_def ec_frame_settle_def frame_settle_def as_async_def
        split: option.splits)
qed (auto simp: ec_run_def loop_run_step_def run_begin_def ec_run_take_def run_take_def ec_run_resume_def run_resume_def
    ec_frame_settle_def frame_settle_def as_async_def split: list.splits)

lemma as_async_construct:
  "as_async construct_EventLoopCoroutine = construct_AsyncEventLoop LoopOwnedThread" "only_delays construct_EventLoopCoroutine"
  by (simp_all add: as_async_def construct_EventLoopCoroutine_def construct_AsyncEventLoop_def only_delays_def)

lemma only_delays_nth: "only_delays s \<longleftrightarrow> (\<forall>f < length (ec_frames s). \<exists>cb. fr_point (ec_frames s ! f) = InScheduleAfter cb)"
  by (metis in_set_conv_nth only_delays_def)

lemma only_delays_settle:
  "only_delays s \<Longrightarrow> ec_frames t = fold (settle_frame r) fs (ec_frames s) \<Longrightarrow> only_delays t"
  by (simp add: only_delays_nth fold_settle_nth fold_settle_frame)

lemma only_delays_settle1:
  "only_delays s \<Longrightarrow> ec_frames t = settle_frame r f (ec_frames s) \<Longrightarrow> only_delays t"
  using only_delays_settle [of s t r "[f]"] by simp

lemma only_delays_run: "only_delays s \<Longrightarrow> ec_run call now s = Some s' \<Longrightarrow> only_delays s'"
  using only_delays_settle1 [of s s']
  by (cases "ec_worker s")
    (auto simp: ec_run_def ec_run_take_def ec_run_resume_def ec_frame_settle_def only_delays_def
      split: list.splits if_splits resume_point.splits)

lemma only_delays_start: "only_delays s \<Longrightarrow> only_delays (snd (ec_schedule_after now delay cb s))"
  by (auto simp: ec_schedule_after_def Let_def ec_Delay_await_suspend_def ec_enqueue_after_def ec_frame_settle_def
      only_delays_nth settle_frame_nth nth_append)

lemma only_delays_reachable: "ec_reachable call s \<Longrightarrow> only_delays s \<and> async_reachable call (as_async s)"
proof (induction rule: ec_reachable.induct)
  case Construct
  show ?case by (simp add: as_async_construct async_reachable_init)
next
  case (Schedule s now delay callback)
  have "async_step call (as_async s) (as_async (snd (ec_schedule_after now delay callback s)))"
    by (simp add: as_async_schedule step_schedule_after)
  with Schedule.IH show ?case
    by (blast intro: only_delays_start async_reachable_step)
next
  case (Stop s)
  have "async_step call (as_async s) (as_async (ec_stop s))" by (simp add: as_async_stop step_stop)
  moreover have "only_delays (ec_stop s)"
    using Stop.IH only_delays_settle [of s "ec_stop s" Cancel] by (cases "ec_accepting s") (auto simp: ec_stop_def Let_def)
  ultimately show ?case
    using Stop.IH by (blast intro: async_reachable_step)
next
  case (Run s now s')
  have "held (as_async s) = [f] \<Longrightarrow> f < length (ec_frames s)" for f
    using Run.IH async_tasks_bound [of call "as_async s" f] by (simp add: as_async_def)
  then have "loop_run_step call now (as_async s) = Some (as_async s')"
    using as_async_run [of s call now] Run.IH Run.hyps(2) by (auto simp: only_delays_nth as_async_def held_def)
  then have "async_step call (as_async s) (as_async s')" by (rule step_run)
  with Run.IH only_delays_run [OF _ Run.hyps(2)] show ?case
    by (blast intro: async_reachable_step)
qed

lemma as_async_run_reachable:
  assumes "ec_reachable call s"
  shows "loop_run_step call now (as_async s) = map_option as_async (ec_run call now s)"
proof -
  note r = only_delays_reachable [OF assms]
  have "\<exists>cb. fr_point (ec_frames s ! f) = InScheduleAfter cb" if "ec_worker s = LoopResuming f" for f
    using r async_tasks_bound [of call "as_async s" f] that by (auto simp: only_delays_nth as_async_def held_def)
  then show ?thesis by (simp add: as_async_run)
qed

lemma as_async_join: "ec_reachable call s \<Longrightarrow> as_async (ec_join fuel call now s) = join_loop fuel call now (as_async s)"
  by (induction fuel arbitrary: s) (auto simp: as_async_run_reachable split: option.splits intro: ec_reachable.Run)

lemma as_async_destroy:
  "ec_reachable call s \<Longrightarrow> as_async (destroy_EventLoopCoroutine call now s) = destroy_AsyncEventLoop call now (as_async s)"
  using as_async_join [OF ec_reachable.Stop, of call s 2 now]
  by (simp add: destroy_EventLoopCoroutine_def destroy_AsyncEventLoop_def as_async_stop) (simp add: as_async_def)


definition sample_coroutine :: "unit EventLoopCoroutine" where
  "sample_coroutine = the (ec_run (\<lambda>_. None) 0 (snd (ec_schedule_after 0 5 () construct_EventLoopCoroutine)))"


end
