(* ===== verification/Server_Program.thy ===== *)
theory Server_Program
  imports Request_Dispatcher Mqtt_Service Gui_Runtime
begin

text \<open>
  \<^verbatim>\<open>src/src/Watchlist/Apps/Server/main.cpp\<close>: the server composed of the MQTT service, the
  request dispatcher on its worker pool, and the GUI on the main thread. Four kinds of threads are
  interleaved: the main thread, the thread that subscribes and runs the MQTT service, the pool's
  workers, and the library's callback thread, which calls a message handler some time after
  \<^verbatim>\<open>message_arrived\<close> has copied it. The shared \<^verbatim>\<open>AppState\<close> is the one the MQTT service holds.
  The lemmas show that every accepted request is executed once before the program ends and that
  the program cannot deadlock; and they show when the raw dispatcher pointer of the handler can
  outlive the dispatcher.
\<close>

section \<open>State\<close>

datatype server_point =
    SvGui | SvStopAccepting | SvUnsubscribe | SvWaitUnsubscribe | SvStopPool | SvJoinPool | SvDestroyDispatcher
  | SvWaitAcks | SvRequestStop | SvJoinThread | SvReturned
  | SvUnwindDispatcher | SvUnwindPool | SvUnwindJoinPool | SvUnwindStop | SvUnwindThread | SvCaught

datatype thread_point = ThreadStart | ThreadRuns string int string run_point nat

datatype server_handler = HandleRequest

text \<open>
  \<open>sv_dispatcher\<close> also holds the queue of the pool, which outlives the dispatcher when the block is
  left by an exception; \<open>sv_alive\<close> says whether the dispatcher exists. \<open>sv_inflight\<close> are the calls of
  the handler that are due. The last four fields are history: the requests accepted and executed,
  whether a destroyed dispatcher was used, and whether one of the three situations arose in which
  that can happen.
\<close>

record ('w, 'c, 'db) Server =
  sv_main :: server_point
  sv_thread :: thread_point
  sv_stop :: bool
  sv_mqtt :: "('w, 'c, server_handler) MqttService"
  sv_dispatcher :: "'db RequestDispatcher"
  sv_alive :: bool
  sv_inflight :: "string list"
  sv_result :: GuiResult
  sv_accepted :: "MqttRequest list"
  sv_executed :: "MqttRequest list"
  sv_dangling :: bool
  sv_late :: bool

record ('w, 'c, 'db) server_env =
  se_paho :: "('w, 'c) paho"
  se_parse :: "string \<Rightarrow> json option"
  se_open :: "('db, unit) comp"
  se_conn :: "'db sqlite"
  se_now :: string

definition server_app :: "unit AppState" where
  "server_app = UpdateConsole ((SnapshotConsole (initial_app_state :: unit AppState))\<lparr>con_clientId := ''watchlist-server''\<rparr>) initial_app_state"

definition start_server :: "'w \<Rightarrow> 'db \<Rightarrow> ('w, 'c, 'db) Server" where
  "start_server w db =
     \<lparr>sv_main = SvGui, sv_thread = ThreadStart, sv_stop = False, sv_mqtt = initial_mqtt w (Some server_app),
      sv_dispatcher = \<lparr>dsp_accepting = True, dsp_appState = None, dsp_hasPublisher = True, dsp_published = [],
        dsp_poolOpen = True, dsp_tasks = [], dsp_database = db\<rparr>,
      sv_alive = True, sv_inflight = [], sv_result = \<lparr>gui_success = False, gui_error = []\<rparr>,
      sv_accepted = [], sv_executed = [], sv_dangling = False, sv_late = False\<rparr>"

section \<open>The threads\<close>

definition on_mqtt :: "(('w, 'c, server_handler) MqttService \<Rightarrow> ('w, 'c, server_handler) MqttService) \<Rightarrow>
    ('w, 'c, 'db) Server \<Rightarrow> ('w, 'c, 'db) Server" where
  "on_mqtt f s = s\<lparr>sv_mqtt := f (sv_mqtt s)\<rparr>"

definition on_app :: "(unit AppState \<Rightarrow> unit AppState) \<Rightarrow> ('w, 'c, 'db) Server \<Rightarrow> ('w, 'c, 'db) Server" where
  "on_app f = on_mqtt (\<lambda>q. q\<lparr>mq_appState := map_option f (mq_appState q)\<rparr>)"

text \<open>The acknowledgement publisher that \<^verbatim>\<open>Run\<close> gives to the dispatcher.\<close>

definition publish_ack :: "('w, 'c) paho \<Rightarrow> MqttRequest \<times> MqttAck \<Rightarrow> (('w, 'c, server_handler) MqttService, unit) comp" where
  "publish_ack paho = (\<lambda>(request, ack).
     Publish paho (AckTopicForClient (rq_sourceClientId request)) (SerializeAck ack))"

text \<open>
  An operation of the dispatcher works on the shared state and publishes through the service; it
  ends with an exception when the publication does.
\<close>

definition on_dispatcher :: "('w, 'c) paho \<Rightarrow> ('db RequestDispatcher \<Rightarrow> 'db RequestDispatcher) \<Rightarrow>
    (('w, 'c, 'db) Server, unit) comp" where
  "on_dispatcher paho f s =
     (let d = f ((sv_dispatcher s)\<lparr>dsp_appState := mq_appState (sv_mqtt s), dsp_published := []\<rparr>) in
      case cfor (dsp_published d) (publish_ack paho) ((sv_mqtt s)\<lparr>mq_appState := dsp_appState d\<rparr>) of
        (r, q) \<Rightarrow> (r, s\<lparr>sv_dispatcher := d, sv_mqtt := q\<rparr>))"

definition stop_pool :: "('w, 'c, 'db) Server \<Rightarrow> ('w, 'c, 'db) Server" where
  "stop_pool s = s\<lparr>sv_dispatcher := (sv_dispatcher s)\<lparr>dsp_poolOpen := False\<rparr>\<rparr>"

text \<open>
  A worker runs the oldest task, which uses the dispatcher. An exception goes into the future of
  the task, which nobody reads.
\<close>

definition worker_runs :: "('w, 'c, 'db) server_env \<Rightarrow> ('w, 'c, 'db) Server \<Rightarrow> ('w, 'c, 'db) Server option" where
  "worker_runs env s =
     (case dsp_tasks (sv_dispatcher s) of
        [] \<Rightarrow> None
      | request # rest \<Rightarrow>
          Some (if sv_alive s
            then (snd (on_dispatcher (se_paho env) (run_task (se_open env) (se_conn env) (se_now env)) s))
              \<lparr>sv_executed := sv_executed s @ [request]\<rparr>
            else s\<lparr>sv_dispatcher := (sv_dispatcher s)\<lparr>dsp_tasks := rest\<rparr>, sv_executed := sv_executed s @ [request],
              sv_dangling := True\<rparr>))"

text \<open>
  The callback thread calls the handler, \<^verbatim>\<open>dispatcher->HandleIncomingPayload(payload)\<close>; the service
  reports an exception of it.
\<close>

definition report_handler :: "cpp_exn + unit \<Rightarrow> ('w, 'c, server_handler) MqttService \<Rightarrow> ('w, 'c, server_handler) MqttService" where
  "report_handler = case_sum (\<lambda>e. ReportError
     (if is_std_exception e then ''MQTT message handler for '' @ RequestsTopic @ '' failed: '' @ what e
      else ''MQTT message handler for '' @ RequestsTopic @ '' failed with an unknown exception'') False) (\<lambda>_ q. q)"

definition handler_runs :: "('w, 'c, 'db) server_env \<Rightarrow> ('w, 'c, 'db) Server \<Rightarrow> ('w, 'c, 'db) Server option" where
  "handler_runs env s =
     (case sv_inflight s of
        [] \<Rightarrow> None
      | payload # rest \<Rightarrow>
          (let s = s\<lparr>sv_inflight := rest\<rparr> in
           if \<not> sv_alive s then Some (s\<lparr>sv_dangling := True\<rparr>)
           else case on_dispatcher (se_paho env) (\<lambda>d. snd (HandleIncomingPayload (se_parse env) (se_now env) payload d)) s of
             (r, s') \<Rightarrow> Some ((on_mqtt (report_handler r) s')\<lparr>sv_accepted := sv_accepted s @
               drop (length (dsp_tasks (sv_dispatcher s))) (dsp_tasks (sv_dispatcher s'))\<rparr>)))"

text \<open>The locked part of \<^verbatim>\<open>message_arrived\<close>: copy the handlers that match.\<close>

definition message_copies :: "string \<Rightarrow> string \<Rightarrow> ('w, 'c, 'db) Server \<Rightarrow> ('w, 'c, 'db) Server" where
  "message_copies topic payload s =
     (let handlers = filter (\<lambda>p. TopicMatches (fst p) topic) (mq_subscriptions (sv_mqtt s)) in
      if handlers = []
      then on_mqtt (ReportError (''Received MQTT message on '' @ topic @ '' without a registered handler'') False) s
      else s\<lparr>sv_inflight := sv_inflight s @ map (\<lambda>_. payload) handlers\<rparr>)"

definition thread_runs :: "('w, 'c, 'db) server_env \<Rightarrow> bool \<Rightarrow> ('w, 'c, 'db) Server \<Rightarrow> ('w, 'c, 'db) Server option" where
  "thread_runs env expired s =
     (case sv_thread s of
        ThreadStart \<Rightarrow>
          (let console = (case mq_appState (sv_mqtt s) of None \<Rightarrow> default_console | Some app \<Rightarrow> SnapshotConsole app) in
           case Subscribe (se_paho env) RequestsTopic (Some HandleRequest) (sv_mqtt s) of
             (r, q) \<Rightarrow>
               Some (s\<lparr>sv_mqtt := q,
                 sv_thread := ThreadRuns (con_brokerHost console) (con_brokerPort console) (con_clientId console)
                   (case r of Inr _ \<Rightarrow> RunCheck | Inl e \<Rightarrow> RunThrown e) 1,
                 sv_late := sv_late s \<or> sv_main s \<notin> {SvGui, SvStopAccepting, SvUnsubscribe}\<rparr>))
      | ThreadRuns host port client point delay \<Rightarrow>
          (case run_step (se_paho env) host port client (sv_stop s) expired (point, delay, sv_mqtt s) of
             None \<Rightarrow> None
           | Some (point', delay', q) \<Rightarrow>
               Some (s\<lparr>sv_thread := ThreadRuns host port client point' delay', sv_mqtt := q\<rparr>)))"

fun thread_done :: "thread_point \<Rightarrow> bool" where
  "thread_done (ThreadRuns _ _ _ RunDone _) = True"
| "thread_done _ = False"

text \<open>An exception that leaves the function of a thread calls \<^verbatim>\<open>std::terminate\<close>.\<close>

fun thread_failed :: "thread_point \<Rightarrow> bool" where
  "thread_failed (ThreadRuns _ _ _ (RunThrown _) _) = True"
| "thread_failed _ = False"

text \<open>
  A bounded wait for pending operations ends when there are none, or with a note when it times out.
\<close>

definition wait_pending :: "bool \<Rightarrow> string \<Rightarrow> server_point \<Rightarrow> ('w, 'c, 'db) Server \<Rightarrow> ('w, 'c, 'db) Server option" where
  "wait_pending expired note next_point s =
     (if pending_done (sv_mqtt s) then Some (s\<lparr>sv_main := next_point\<rparr>)
      else if expired then Some (on_app (AddActivity note) (s\<lparr>sv_main := next_point\<rparr>))
      else None)"

definition main_runs :: "('w, 'c, 'db) server_env \<Rightarrow> bool \<Rightarrow> ('w, 'c, 'db) Server \<Rightarrow> ('w, 'c, 'db) Server option" where
  "main_runs env expired s =
     (case sv_main s of
        SvGui \<Rightarrow> None
      | SvStopAccepting \<Rightarrow> Some (s\<lparr>sv_dispatcher := StopAccepting (sv_dispatcher s), sv_main := SvUnsubscribe\<rparr>)
      | SvUnsubscribe \<Rightarrow>
          (case Unsubscribe (se_paho env) RequestsTopic (sv_mqtt s) of
             (Inr _, q) \<Rightarrow> Some (s\<lparr>sv_mqtt := q, sv_main := SvWaitUnsubscribe, sv_late := sv_late s \<or> sv_inflight s \<noteq> []\<rparr>)
           | (Inl _, q) \<Rightarrow> Some (s\<lparr>sv_mqtt := q, sv_main := SvUnwindDispatcher, sv_late := True\<rparr>))
      | SvWaitUnsubscribe \<Rightarrow> wait_pending expired ''Timed out waiting for MQTT request unsubscribe'' SvStopPool s
      | SvStopPool \<Rightarrow> Some (stop_pool (s\<lparr>sv_main := SvJoinPool\<rparr>))
      | SvJoinPool \<Rightarrow> if dsp_tasks (sv_dispatcher s) = [] then Some (s\<lparr>sv_main := SvDestroyDispatcher\<rparr>) else None
      | SvDestroyDispatcher \<Rightarrow> Some (s\<lparr>sv_alive := False, sv_main := SvWaitAcks\<rparr>)
      | SvWaitAcks \<Rightarrow> wait_pending expired ''Timed out waiting for MQTT acknowledgement publication'' SvRequestStop s
      | SvRequestStop \<Rightarrow> Some (s\<lparr>sv_stop := True, sv_main := SvJoinThread\<rparr>)
      | SvJoinThread \<Rightarrow> if thread_done (sv_thread s) then Some (s\<lparr>sv_main := SvReturned\<rparr>) else None
      | SvReturned \<Rightarrow> None
      | SvUnwindDispatcher \<Rightarrow> Some (s\<lparr>sv_alive := False, sv_main := SvUnwindPool\<rparr>)
      | SvUnwindPool \<Rightarrow> Some (stop_pool (s\<lparr>sv_main := SvUnwindJoinPool\<rparr>))
      | SvUnwindJoinPool \<Rightarrow> if dsp_tasks (sv_dispatcher s) = [] then Some (s\<lparr>sv_main := SvUnwindStop\<rparr>) else None
      | SvUnwindStop \<Rightarrow> Some (s\<lparr>sv_stop := True, sv_main := SvUnwindThread\<rparr>)
      | SvUnwindThread \<Rightarrow> if thread_done (sv_thread s) then Some (s\<lparr>sv_main := SvCaught\<rparr>) else None
      | SvCaught \<Rightarrow> None)"

definition server_exit_code :: "('w, 'c, 'db) Server \<Rightarrow> nat option" where
  "server_exit_code s =
     (case sv_main s of
        SvReturned \<Rightarrow> Some (if gui_success (sv_result s) then 0 else 1)
      | SvCaught \<Rightarrow> Some 1
      | _ \<Rightarrow> None)"

section \<open>Interleaving\<close>

datatype server_label =
    GuiReturns GuiResult | GuiThrows | GuiForm ConsoleState
  | MainRuns bool | ThreadRunsOn bool | WorkerRuns | HandlerRuns
  | MessageArrives string string | ClientConnected string | ClientSucceeded | ClientFailed string int | ClientLost string
  | OperationSucceeds nat | OperationFails nat string int

text \<open>A callback of the client, which the service holds.\<close>

definition callback :: "(('w, 'c, server_handler) MqttService \<Rightarrow> ('w, 'c, server_handler) MqttService) \<Rightarrow>
    ('w, 'c, 'db) Server \<Rightarrow> ('w, 'c, 'db) Server option" where
  "callback f s = (if mq_client (sv_mqtt s) = None then None else Some (on_mqtt f s))"

definition server_step :: "('w, 'c, 'db) server_env \<Rightarrow> server_label \<Rightarrow> ('w, 'c, 'db) Server \<Rightarrow> ('w, 'c, 'db) Server option" where
  "server_step env l s =
     (if thread_failed (sv_thread s) then None else case l of
        GuiReturns r \<Rightarrow> if sv_main s = SvGui then Some (s\<lparr>sv_result := r, sv_main := SvStopAccepting\<rparr>) else None
      | GuiThrows \<Rightarrow> if sv_main s = SvGui then Some (s\<lparr>sv_main := SvUnwindDispatcher, sv_late := True\<rparr>) else None
      | GuiForm console \<Rightarrow> if sv_main s = SvGui then Some (on_app (UpdateConsoleForm console) s) else None
      | MainRuns expired \<Rightarrow> main_runs env expired s
      | ThreadRunsOn expired \<Rightarrow> thread_runs env expired s
      | WorkerRuns \<Rightarrow> worker_runs env s
      | HandlerRuns \<Rightarrow> handler_runs env s
      | MessageArrives topic payload \<Rightarrow> if mq_client (sv_mqtt s) = None then None else Some (message_copies topic payload s)
      | ClientConnected cause \<Rightarrow> callback (\<lambda>q. snd (connected_callback (se_paho env) cause q)) s
      | ClientSucceeded \<Rightarrow> callback (\<lambda>q. snd (on_success (se_paho env) q)) s
      | ClientFailed message code \<Rightarrow> callback (on_failure message code) s
      | ClientLost cause \<Rightarrow> callback (connection_lost cause) s
      | OperationSucceeds n \<Rightarrow> Some (on_mqtt (operation_succeeded n) s)
      | OperationFails n message code \<Rightarrow> Some (on_mqtt (operation_failed n message code) s))"

fun server_run :: "('w, 'c, 'db) server_env \<Rightarrow> server_label list \<Rightarrow> ('w, 'c, 'db) Server \<Rightarrow> ('w, 'c, 'db) Server option" where
  "server_run env [] s = Some s"
| "server_run env (l # ls) s = (case server_step env l s of None \<Rightarrow> None | Some s' \<Rightarrow> server_run env ls s')"

inductive server_reachable :: "('w, 'c, 'db) server_env \<Rightarrow> ('w, 'c, 'db) Server \<Rightarrow> bool" for env where
  Start: "server_reachable env (start_server w db)"
| Step: "server_reachable env s \<Longrightarrow> server_step env l s = Some s' \<Longrightarrow> server_reachable env s'"

section \<open>The queue\<close>

text \<open>
  The points of the main thread after the pool was stopped, after it was joined, and after the stop
  of the MQTT thread was requested.
\<close>

fun pool_stopped :: "server_point \<Rightarrow> bool" where
  "pool_stopped SvGui = False"
| "pool_stopped SvStopAccepting = False"
| "pool_stopped SvUnsubscribe = False"
| "pool_stopped SvWaitUnsubscribe = False"
| "pool_stopped SvStopPool = False"
| "pool_stopped SvUnwindDispatcher = False"
| "pool_stopped SvUnwindPool = False"
| "pool_stopped _ = True"

fun pool_joined :: "server_point \<Rightarrow> bool" where
  "pool_joined SvJoinPool = False"
| "pool_joined SvUnwindJoinPool = False"
| "pool_joined p = pool_stopped p"

fun stop_sent :: "server_point \<Rightarrow> bool" where
  "stop_sent SvJoinThread = True"
| "stop_sent SvUnwindThread = True"
| "stop_sent SvReturned = True"
| "stop_sent SvCaught = True"
| "stop_sent _ = False"

definition server_queue :: "('w, 'c, 'db) Server \<Rightarrow> bool" where
  "server_queue s \<longleftrightarrow> sv_accepted s = sv_executed s @ dsp_tasks (sv_dispatcher s) \<and>
     (pool_stopped (sv_main s) \<longrightarrow> \<not> dsp_poolOpen (sv_dispatcher s)) \<and>
     (pool_joined (sv_main s) \<longrightarrow> dsp_tasks (sv_dispatcher s) = []) \<and>
     (stop_sent (sv_main s) \<longrightarrow> sv_stop s)"

lemma HandleIncomingPayload_tasks:
  "\<exists>new. dsp_tasks (snd (HandleIncomingPayload parse now payload d)) = dsp_tasks d @ new \<and> (\<not> dsp_poolOpen d \<longrightarrow> new = [])"
  by (auto simp: HandleIncomingPayload_def Dispatch_def Let_def split: option.splits)

lemma HandleIncomingPayload_pool: "dsp_poolOpen (snd (HandleIncomingPayload parse now payload d)) = dsp_poolOpen d"
  by (auto simp: HandleIncomingPayload_def Dispatch_def Let_def split: option.splits)

lemma run_task_tasks:
  "dsp_tasks (run_task open_db conn now d) = tl (dsp_tasks d)" "dsp_poolOpen (run_task open_db conn now d) = dsp_poolOpen d"
  by (auto simp: run_task_def split: list.splits sum.splits prod.splits)

lemma pool_joined_stopped: "pool_joined p \<Longrightarrow> pool_stopped p"
  by (cases p) simp_all

lemma on_dispatcher_simps [simp]:
  "sv_main (snd (on_dispatcher paho f s)) = sv_main s" "sv_thread (snd (on_dispatcher paho f s)) = sv_thread s"
  "sv_stop (snd (on_dispatcher paho f s)) = sv_stop s" "sv_alive (snd (on_dispatcher paho f s)) = sv_alive s"
  "sv_inflight (snd (on_dispatcher paho f s)) = sv_inflight s" "sv_accepted (snd (on_dispatcher paho f s)) = sv_accepted s"
  "sv_executed (snd (on_dispatcher paho f s)) = sv_executed s" "sv_dangling (snd (on_dispatcher paho f s)) = sv_dangling s"
  "sv_late (snd (on_dispatcher paho f s)) = sv_late s" "sv_result (snd (on_dispatcher paho f s)) = sv_result s"
  "sv_dispatcher (snd (on_dispatcher paho f s)) =
     f ((sv_dispatcher s)\<lparr>dsp_appState := mq_appState (sv_mqtt s), dsp_published := []\<rparr>)"
  by (simp_all add: on_dispatcher_def Let_def split: prod.splits)

lemma on_mqtt_simps [simp]:
  "sv_main (on_mqtt f s) = sv_main s" "sv_thread (on_mqtt f s) = sv_thread s" "sv_stop (on_mqtt f s) = sv_stop s"
  "sv_dispatcher (on_mqtt f s) = sv_dispatcher s" "sv_alive (on_mqtt f s) = sv_alive s"
  "sv_inflight (on_mqtt f s) = sv_inflight s" "sv_accepted (on_mqtt f s) = sv_accepted s"
  "sv_executed (on_mqtt f s) = sv_executed s" "sv_dangling (on_mqtt f s) = sv_dangling s" "sv_late (on_mqtt f s) = sv_late s"
  "sv_result (on_mqtt f s) = sv_result s" "sv_mqtt (on_mqtt f s) = f (sv_mqtt s)"
  by (simp_all add: on_mqtt_def)

text \<open>
  The subscriptions change only where \<^verbatim>\<open>Run\<close> subscribes and unsubscribes: no other operation and no
  callback of the service touches them.
\<close>

lemma tracked_call_subscriptions [simp]: "mq_subscriptions (snd (tracked_call operation failure call s)) = mq_subscriptions s"
  by (auto simp: tracked_call_def TrackOperation_def on_world_def CancelOperation_def Let_def
      split: prod.splits sum.splits cpp_exn.splits)

lemma SubscribeClient_subscriptions [simp]: "mq_subscriptions (snd (SubscribeClient paho c topic s)) = mq_subscriptions s"
  by (simp add: SubscribeClient_def cret_def split: option.splits)

lemma cfor_keeps:
  assumes "\<And>x s. P s \<Longrightarrow> P (snd (f x s))" "P s"
  shows "P (snd (cfor xs f s))"
  using assms(2)
proof (induction xs arbitrary: s)
  case (Cons x xs)
  obtain r s1 where "f x s = (r, s1)" by fastforce
  with assms(1) [of s x] Cons show ?case by (cases r) (simp_all add: cseq_def cbind_def)
qed (simp add: cret_def)

lemma publish_acks_subscriptions [simp]: "mq_subscriptions (snd (cfor acks (publish_ack paho) s)) = mq_subscriptions s"
  by (rule cfor_keeps [where P = "\<lambda>s'. mq_subscriptions s' = mq_subscriptions s"])
    (auto simp: publish_ack_def Publish_def split: prod.splits option.splits)

lemma HandleConnected_subscriptions [simp]: "mq_subscriptions (snd (HandleConnected paho detail s)) = mq_subscriptions s"
  using cfor_keeps [where P = "\<lambda>s'. mq_subscriptions s' = mq_subscriptions s" and f = "SubscribeClient paho (mq_client s)"
      and s = "mark_connected detail s" and xs = "map fst (mq_subscriptions s)"]
  by (simp add: HandleConnected_def mark_connected_def Let_def)

lemma CompleteOperation_subscriptions [simp]: "mq_subscriptions (CompleteOperation n e s) = mq_subscriptions s"
  by (auto simp: CompleteOperation_def Let_def split: option.splits)

lemma callbacks_subscriptions [simp]:
  "mq_subscriptions (operation_succeeded n s) = mq_subscriptions s"
  "mq_subscriptions (operation_failed n m c s) = mq_subscriptions s"
  "mq_subscriptions (on_failure m c s) = mq_subscriptions s" "mq_subscriptions (connection_lost m s) = mq_subscriptions s"
  by (auto simp: operation_succeeded_def operation_failed_def on_failure_def connection_lost_def connection_lost_effect_def
      split: option.splits)

lemma report_handler_subscriptions [simp]: "mq_subscriptions (report_handler r s) = mq_subscriptions s"
  by (simp add: report_handler_def split: sum.splits)

lemma ReleaseClient_subscriptions [simp]: "mq_subscriptions (snd (ReleaseClient paho s)) = mq_subscriptions s"
  by (auto simp: ReleaseClient_def finish_release_def on_world_def Let_def split: option.splits prod.splits sum.splits cpp_exn.splits bool.splits)

lemma Disconnect_subscriptions [simp]: "mq_subscriptions (snd (Disconnect paho s)) = mq_subscriptions s"
proof -
  have "mq_subscriptions (if mq_client s \<noteq> None then SetStatus st d (s\<lparr>mq_shuttingDown := True\<rparr>) else s\<lparr>mq_shuttingDown := True\<rparr>) =
      mq_subscriptions s" for st d by simp
  moreover have "mq_subscriptions s2 = mq_subscriptions s \<Longrightarrow> mq_subscriptions (snd (case ReleaseClient paho s2 of
      (Inl e, s3) \<Rightarrow> (Inl e, s3) | (Inr _, s3) \<Rightarrow> (Inr (), SetStatus Offline d s3))) = mq_subscriptions s" for s2 d
    using ReleaseClient_subscriptions [of paho s2] by (auto simp del: ReleaseClient_subscriptions split: prod.splits sum.splits)
  ultimately show ?thesis by (simp add: Disconnect_def Let_def)
qed

lemma open_client_subscriptions [simp]: "mq_subscriptions (snd (open_client paho host port clientId s)) = mq_subscriptions s"
  by (auto simp: open_client_def cbind_def cseq_def on_world_def split: prod.splits sum.splits)

lemma Connect_subscriptions [simp]: "mq_subscriptions (snd (Connect paho host port clientId s)) = mq_subscriptions s"
proof -
  obtain r s1 where r: "ReleaseClient paho (s\<lparr>mq_shuttingDown := False\<rparr>) = (r, s1)" by fastforce
  then have "mq_subscriptions s1 = mq_subscriptions s"
    using ReleaseClient_subscriptions [of paho "s\<lparr>mq_shuttingDown := False\<rparr>"] by simp
  moreover obtain r2 s3 where "open_client paho host port clientId (SetStatus Connecting
      (''Connecting to '' @ host @ '':'' @ dec_of_int port @ '' as '' @ clientId) s1) = (r2, s3)" by fastforce
  ultimately show ?thesis
    using r open_client_subscriptions [of paho host port clientId "SetStatus Connecting
      (''Connecting to '' @ host @ '':'' @ dec_of_int port @ '' as '' @ clientId) s1"]
    by (cases r; cases r2) (simp_all add: Connect_def Let_def)
qed

lemma run_step_subscriptions:
  "run_step paho host port client stop expired (p, d, s) = Some (p', d', s') \<Longrightarrow> mq_subscriptions s' = mq_subscriptions s"
  using Connect_subscriptions [of paho host port client s] Disconnect_subscriptions [of paho s]
  by (auto simp: run_step_def simp del: Connect_subscriptions Disconnect_subscriptions
      split: run_point.splits if_splits sum.splits prod.splits)

text \<open>One call of the handler, with what it appends to the queue of the pool.\<close>

lemma handler_runs_cases:
  assumes "handler_runs env s = Some s'"
  obtains (destroyed) payload rest where "sv_inflight s = payload # rest" "\<not> sv_alive s"
      "s' = s\<lparr>sv_inflight := rest, sv_dangling := True\<rparr>"
  | (handled) payload rest d q new where "sv_inflight s = payload # rest" "sv_alive s"
      "s' = s\<lparr>sv_inflight := rest, sv_dispatcher := d, sv_mqtt := q, sv_accepted := sv_accepted s @ new\<rparr>"
      "dsp_tasks d = dsp_tasks (sv_dispatcher s) @ new" "dsp_poolOpen d = dsp_poolOpen (sv_dispatcher s)"
      "\<not> dsp_poolOpen d \<Longrightarrow> new = []"
      "mq_subscriptions q = mq_subscriptions (sv_mqtt s)"
proof -
  obtain payload rest where i: "sv_inflight s = payload # rest"
    using assms by (auto simp: handler_runs_def split: list.splits)
  let ?d = "(sv_dispatcher s)\<lparr>dsp_appState := mq_appState (sv_mqtt s), dsp_published := []\<rparr>"
  let ?h = "snd (HandleIncomingPayload (se_parse env) (se_now env) payload ?d)"
  obtain new where "dsp_tasks ?h = dsp_tasks (sv_dispatcher s) @ new" "\<not> dsp_poolOpen (sv_dispatcher s) \<longrightarrow> new = []"
    using HandleIncomingPayload_tasks [of "se_parse env" "se_now env" payload ?d] by auto
  moreover obtain r q where q: "cfor (dsp_published ?h) (publish_ack (se_paho env)) ((sv_mqtt s)\<lparr>mq_appState := dsp_appState ?h\<rparr>) = (r, q)"
    by fastforce
  moreover have "dsp_poolOpen ?h = dsp_poolOpen (sv_dispatcher s)" by (simp add: HandleIncomingPayload_pool)
  moreover have "mq_subscriptions (report_handler r q) = mq_subscriptions (sv_mqtt s)"
    using publish_acks_subscriptions [of "dsp_published ?h" "se_paho env" "(sv_mqtt s)\<lparr>mq_appState := dsp_appState ?h\<rparr>"] q
    by (simp del: publish_acks_subscriptions)
  moreover have "s' = (if sv_alive s
      then s\<lparr>sv_inflight := rest, sv_dispatcher := ?h, sv_mqtt := report_handler r q, sv_accepted := sv_accepted s @ new\<rparr>
      else s\<lparr>sv_inflight := rest, sv_dangling := True\<rparr>)"
    using assms i calculation by (auto simp: handler_runs_def on_dispatcher_def on_mqtt_def Let_def)
  ultimately show thesis
    using i destroyed [of payload rest] handled [where d = ?h and q = "report_handler r q" and new = new and payload = payload and rest = rest]
    by (cases "sv_alive s") simp_all
qed

text \<open>What a step of the other threads leaves alone.\<close>

lemma server_queue_cong:
  assumes "server_queue s" "sv_accepted s' = sv_accepted s" "sv_executed s' = sv_executed s" "sv_dispatcher s' = sv_dispatcher s"
    "sv_main s' = sv_main s" "sv_stop s' = sv_stop s"
  shows "server_queue s'"
  using assms by (simp add: server_queue_def)

lemma server_queue_worker: "server_queue s \<Longrightarrow> worker_runs env s = Some s' \<Longrightarrow> server_queue s'"
  by (auto simp: server_queue_def worker_runs_def run_task_tasks split: list.splits if_splits)

lemma server_queue_handler: "server_queue s \<Longrightarrow> handler_runs env s = Some s' \<Longrightarrow> server_queue s'"
  by (erule handler_runs_cases) (auto simp: server_queue_def dest: pool_joined_stopped)

lemma wait_pending_cases:
  assumes "wait_pending expired note p s = Some s'"
  obtains q where "s' = s\<lparr>sv_main := p, sv_mqtt := q\<rparr>" "mq_subscriptions q = mq_subscriptions (sv_mqtt s)"
proof (cases "pending_done (sv_mqtt s)")
  case True
  moreover have "s\<lparr>sv_main := p\<rparr> = s\<lparr>sv_main := p, sv_mqtt := sv_mqtt s\<rparr>" by (cases s) simp
  ultimately have "s' = s\<lparr>sv_main := p, sv_mqtt := sv_mqtt s\<rparr>" using assms by (simp only: wait_pending_def option.inject if_True)
  then show thesis by (rule that) (rule refl)
next
  case False
  then show thesis
    using assms that [of "(sv_mqtt s)\<lparr>mq_appState := map_option (AddActivity note) (mq_appState (sv_mqtt s))\<rparr>"]
    by (simp add: wait_pending_def on_app_def on_mqtt_def split: if_splits)
qed

text \<open>The steps of the main thread, point by point.\<close>

lemma main_runs_cases:
  assumes "main_runs env expired s = Some s'"
  obtains (stop_accepting) "sv_main s = SvStopAccepting" "s' = s\<lparr>sv_dispatcher := StopAccepting (sv_dispatcher s), sv_main := SvUnsubscribe\<rparr>"
  | (unsubscribed) q where "sv_main s = SvUnsubscribe" "Unsubscribe (se_paho env) RequestsTopic (sv_mqtt s) = (Inr (), q)"
      "s' = s\<lparr>sv_mqtt := q, sv_main := SvWaitUnsubscribe, sv_late := sv_late s \<or> sv_inflight s \<noteq> []\<rparr>"
  | (threw) e q where "sv_main s = SvUnsubscribe" "Unsubscribe (se_paho env) RequestsTopic (sv_mqtt s) = (Inl e, q)"
      "s' = s\<lparr>sv_mqtt := q, sv_main := SvUnwindDispatcher, sv_late := True\<rparr>"
  | (waited) p q where "(sv_main s, p) \<in> {(SvWaitUnsubscribe, SvStopPool), (SvWaitAcks, SvRequestStop)}"
      "s' = s\<lparr>sv_main := p, sv_mqtt := q\<rparr>" "mq_subscriptions q = mq_subscriptions (sv_mqtt s)"
  | (pool) p where "(sv_main s, p) \<in> {(SvStopPool, SvJoinPool), (SvUnwindPool, SvUnwindJoinPool)}"
      "s' = s\<lparr>sv_main := p, sv_dispatcher := (sv_dispatcher s)\<lparr>dsp_poolOpen := False\<rparr>\<rparr>"
  | (joined) p where "(sv_main s, p) \<in> {(SvJoinPool, SvDestroyDispatcher), (SvUnwindJoinPool, SvUnwindStop)}"
      "dsp_tasks (sv_dispatcher s) = []" "s' = s\<lparr>sv_main := p\<rparr>"
  | (destroyed) p where "(sv_main s, p) \<in> {(SvDestroyDispatcher, SvWaitAcks), (SvUnwindDispatcher, SvUnwindPool)}"
      "s' = s\<lparr>sv_alive := False, sv_main := p\<rparr>"
  | (stop) p where "(sv_main s, p) \<in> {(SvRequestStop, SvJoinThread), (SvUnwindStop, SvUnwindThread)}"
      "s' = s\<lparr>sv_stop := True, sv_main := p\<rparr>"
  | (ended) p where "(sv_main s, p) \<in> {(SvJoinThread, SvReturned), (SvUnwindThread, SvCaught)}"
      "thread_done (sv_thread s)" "s' = s\<lparr>sv_main := p\<rparr>"
proof (cases "sv_main s")
  case SvUnsubscribe
  obtain r q where u: "Unsubscribe (se_paho env) RequestsTopic (sv_mqtt s) = (r, q)" by fastforce
  with SvUnsubscribe assms show thesis
    by (cases r) (auto simp: main_runs_def intro: unsubscribed threw)
next
  case SvWaitUnsubscribe
  with assms show thesis by (auto simp: main_runs_def elim!: wait_pending_cases intro: waited)
next
  case SvWaitAcks
  with assms show thesis by (auto simp: main_runs_def elim!: wait_pending_cases intro: waited)
next
  case SvStopPool
  with assms show thesis by (auto simp: main_runs_def stop_pool_def intro: pool)
next
  case SvUnwindPool
  with assms show thesis by (auto simp: main_runs_def stop_pool_def intro: pool)
next
  case SvStopAccepting
  with assms show thesis by (intro stop_accepting) (auto simp: main_runs_def)
next
  case SvJoinPool
  with assms show thesis by (intro joined) (auto simp: main_runs_def split: if_splits)
next
  case SvUnwindJoinPool
  with assms show thesis by (intro joined) (auto simp: main_runs_def split: if_splits)
next
  case SvDestroyDispatcher
  with assms show thesis by (intro destroyed) (auto simp: main_runs_def)
next
  case SvUnwindDispatcher
  with assms show thesis by (intro destroyed) (auto simp: main_runs_def)
next
  case SvRequestStop
  with assms show thesis by (intro stop) (auto simp: main_runs_def)
next
  case SvUnwindStop
  with assms show thesis by (intro stop) (auto simp: main_runs_def)
next
  case SvJoinThread
  with assms show thesis by (intro ended) (auto simp: main_runs_def split: if_splits)
next
  case SvUnwindThread
  with assms show thesis by (intro ended) (auto simp: main_runs_def split: if_splits)
next
  case SvGui
  with assms show thesis by (simp add: main_runs_def)
next
  case SvReturned
  with assms show thesis by (simp add: main_runs_def)
next
  case SvCaught
  with assms show thesis by (simp add: main_runs_def)
qed

lemma server_queue_main: "server_queue s \<Longrightarrow> main_runs env expired s = Some s' \<Longrightarrow> server_queue s'"
  by (erule main_runs_cases) (auto simp: server_queue_def StopAccepting_def)

text \<open>A step of the server is one of these.\<close>

lemma server_step_cases:
  assumes "server_step env l s = Some s'"
  obtains (gui) p late result where "sv_main s = SvGui" "s' = s\<lparr>sv_main := p, sv_result := result, sv_late := late\<rparr>"
      "(p, late) \<in> {(SvStopAccepting, sv_late s), (SvUnwindDispatcher, True)}"
  | (service) q where "s' = s\<lparr>sv_mqtt := q\<rparr>" "mq_subscriptions q = mq_subscriptions (sv_mqtt s)"
  | (arrives) topic payload where "s' = message_copies topic payload s"
  | (main) expired where "main_runs env expired s = Some s'"
  | (thread) expired where "thread_runs env expired s = Some s'"
  | (worker) "worker_runs env s = Some s'"
  | (handler) "handler_runs env s = Some s'"
proof -
  have step: "\<not> thread_failed (sv_thread s)" using assms by (auto simp: server_step_def)
  have own: thesis if "s' = on_mqtt f s" "mq_subscriptions (f (sv_mqtt s)) = mq_subscriptions (sv_mqtt s)" for f
    using that service [of "f (sv_mqtt s)"] by (simp add: on_mqtt_def)
  show thesis
  proof (cases l)
    case (GuiReturns r)
    have "s\<lparr>sv_result := r, sv_main := SvStopAccepting\<rparr> = s\<lparr>sv_main := SvStopAccepting, sv_result := r, sv_late := sv_late s\<rparr>"
      by (cases s) simp
    with GuiReturns assms step show thesis
      by (intro gui [where result = r]) (auto simp: server_step_def split: if_splits)
  next
    case GuiThrows
    have "s\<lparr>sv_main := SvUnwindDispatcher, sv_late := True\<rparr> =
        s\<lparr>sv_main := SvUnwindDispatcher, sv_result := sv_result s, sv_late := True\<rparr>" by (cases s) simp
    with GuiThrows assms step show thesis
      by (intro gui [where result = "sv_result s"]) (auto simp: server_step_def split: if_splits)
  next
    case (MessageArrives topic payload)
    with assms step show thesis by (intro arrives [of topic payload]) (simp add: server_step_def split: if_splits)
  next
    case (MainRuns expired)
    with assms step show thesis by (intro main) (simp add: server_step_def)
  next
    case (ThreadRunsOn expired)
    with assms step show thesis by (intro thread) (simp add: server_step_def)
  next
    case WorkerRuns
    with assms step show thesis by (intro worker) (simp add: server_step_def)
  next
    case HandlerRuns
    with assms step show thesis by (intro handler) (simp add: server_step_def)
  qed (use assms step in \<open>auto simp: server_step_def callback_def on_app_def connected_callback_def on_success_def
    split: if_splits intro!: own\<close>)
qed

lemma thread_runs_cases:
  assumes "thread_runs env expired s = Some s'"
  obtains (starts) r q host port client where "sv_thread s = ThreadStart"
      "Subscribe (se_paho env) RequestsTopic (Some HandleRequest) (sv_mqtt s) = (r, q)"
      "s' = s\<lparr>sv_mqtt := q, sv_thread := ThreadRuns host port client (case r of Inr _ \<Rightarrow> RunCheck | Inl e \<Rightarrow> RunThrown e) 1,
         sv_late := sv_late s \<or> sv_main s \<notin> {SvGui, SvStopAccepting, SvUnsubscribe}\<rparr>"
  | (runs) host port client point delay point' delay' q where "sv_thread s = ThreadRuns host port client point delay"
      "run_step (se_paho env) host port client (sv_stop s) expired (point, delay, sv_mqtt s) = Some (point', delay', q)"
      "s' = s\<lparr>sv_thread := ThreadRuns host port client point' delay', sv_mqtt := q\<rparr>"
proof (cases "sv_thread s")
  case ThreadStart
  obtain r q where "Subscribe (se_paho env) RequestsTopic (Some HandleRequest) (sv_mqtt s) = (r, q)" by fastforce
  with ThreadStart assms show thesis by (intro starts) (auto simp: thread_runs_def Let_def)
next
  case (ThreadRuns host port client point delay)
  with assms show thesis by (auto simp: thread_runs_def split: option.splits intro: runs)
qed

lemma server_queue_thread: "server_queue s \<Longrightarrow> thread_runs env expired s = Some s' \<Longrightarrow> server_queue s'"
  by (erule thread_runs_cases; erule server_queue_cong; simp)

lemma message_copies_simps [simp]:
  "sv_main (message_copies t p s) = sv_main s" "sv_thread (message_copies t p s) = sv_thread s"
  "sv_stop (message_copies t p s) = sv_stop s" "sv_dispatcher (message_copies t p s) = sv_dispatcher s"
  "sv_accepted (message_copies t p s) = sv_accepted s" "sv_executed (message_copies t p s) = sv_executed s"
  "sv_alive (message_copies t p s) = sv_alive s" "sv_dangling (message_copies t p s) = sv_dangling s"
  "sv_late (message_copies t p s) = sv_late s" "sv_result (message_copies t p s) = sv_result s"
  "mq_subscriptions (sv_mqtt (message_copies t p s)) = mq_subscriptions (sv_mqtt s)"
  by (simp_all add: message_copies_def Let_def)

lemma server_queue_step:
  assumes "server_queue s" "server_step env l s = Some s'"
  shows "server_queue s'"
  using assms(2)
proof (cases rule: server_step_cases)
  case (gui p late result)
  then show ?thesis using assms(1) by (auto simp: server_queue_def)
next
  case (service q)
  then show ?thesis using assms(1) by (simp add: server_queue_def)
next
  case (arrives topic payload)
  then show ?thesis using assms(1) by (simp add: server_queue_def)
qed (use assms(1) server_queue_main server_queue_thread server_queue_worker server_queue_handler in blast)+

lemma server_queue_reachable: "server_reachable env s \<Longrightarrow> server_queue s"
proof (induction rule: server_reachable.induct)
  case (Start w db)
  then show ?case by (simp add: server_queue_def start_server_def)
qed (rule server_queue_step)

section \<open>The dispatcher pointer of the handler\<close>

text \<open>
  Unless a late situation arose, the dispatcher is destroyed only after the pool was joined, and
  from the unsubscription on no handler is registered or due.
\<close>

definition accepting_point :: "server_point \<Rightarrow> bool" where
  "accepting_point p \<longleftrightarrow> p \<in> {SvGui, SvStopAccepting, SvUnsubscribe}"

definition only_requests :: "(string \<times> 'h) list \<Rightarrow> bool" where
  "only_requests m \<longleftrightarrow> fst ` set m \<subseteq> {RequestsTopic}"

definition pointer_inv :: "('w, 'c, 'db) Server \<Rightarrow> bool" where
  "pointer_inv s \<longleftrightarrow> only_requests (mq_subscriptions (sv_mqtt s)) \<and>
     (\<not> sv_late s \<longrightarrow> \<not> sv_dangling s \<and> sv_main s \<notin> {SvUnwindDispatcher, SvUnwindPool, SvUnwindJoinPool} \<and>
       (sv_alive s \<or> pool_joined (sv_main s)) \<and>
       (accepting_point (sv_main s) \<or> mq_subscriptions (sv_mqtt s) = [] \<and> sv_inflight s = []))"

lemma Subscribe_subscriptions:
  "Subscribe paho topic (Some h) s = (r, s') \<Longrightarrow> topic \<noteq> [] \<Longrightarrow> mq_subscriptions s' = insert_or_assign topic h (mq_subscriptions s)"
  using SubscribeClient_subscriptions [of paho "mq_client s" topic "s\<lparr>mq_subscriptions := insert_or_assign topic h (mq_subscriptions s)\<rparr>"]
  by (auto simp: Subscribe_def Let_def simp del: SubscribeClient_subscriptions split: if_splits)

lemma Unsubscribe_subscriptions:
  "Unsubscribe paho topic s = (r, s') \<Longrightarrow> topic \<noteq> [] \<Longrightarrow> mq_subscriptions s' = erase_key topic (mq_subscriptions s)"
  using tracked_call_subscriptions [of "''MQTT unsubscribe from '' @ topic" "''MQTT unsubscribe from '' @ topic"
      "paho_unsubscribe paho (the (mq_client s)) topic" "s\<lparr>mq_subscriptions := erase_key topic (mq_subscriptions s)\<rparr>"]
  by (auto simp: Unsubscribe_def Let_def simp del: tracked_call_subscriptions split: if_splits option.splits)

lemma RequestsTopic_nonempty [simp]: "RequestsTopic \<noteq> []"
  by (simp add: RequestsTopic_def)

lemma only_requests_simps [simp]:
  "only_requests []" "only_requests [(RequestsTopic, h)]" "only_requests m \<Longrightarrow> only_requests (insert_or_assign RequestsTopic h m)"
  "only_requests m \<Longrightarrow> erase_key RequestsTopic m = []"
  by (auto simp: only_requests_def insert_or_assign_keys erase_key_def filter_empty_conv)

lemma on_dispatcher_subscriptions [simp]:
  "mq_subscriptions (sv_mqtt (snd (on_dispatcher paho f s))) = mq_subscriptions (sv_mqtt s)"
proof -
  let ?d = "f ((sv_dispatcher s)\<lparr>dsp_appState := mq_appState (sv_mqtt s), dsp_published := []\<rparr>)"
  show ?thesis
    using publish_acks_subscriptions [of "dsp_published ?d" paho "(sv_mqtt s)\<lparr>mq_appState := dsp_appState ?d\<rparr>"]
    by (auto simp: on_dispatcher_def Let_def simp del: publish_acks_subscriptions split: prod.splits)
qed

lemma pointer_inv_main: "pointer_inv s \<Longrightarrow> main_runs env expired s = Some s' \<Longrightarrow> pointer_inv s'"
  by (erule main_runs_cases)
    (auto simp: pointer_inv_def accepting_point_def dest!: Unsubscribe_subscriptions)

lemma pointer_inv_thread: "pointer_inv s \<Longrightarrow> thread_runs env expired s = Some s' \<Longrightarrow> pointer_inv s'"
  by (erule thread_runs_cases)
    (auto simp: pointer_inv_def accepting_point_def
      dest!: Subscribe_subscriptions run_step_subscriptions)

lemma pointer_inv_handler: "pointer_inv s \<Longrightarrow> handler_runs env s = Some s' \<Longrightarrow> pointer_inv s'"
  by (erule handler_runs_cases) (auto simp: pointer_inv_def accepting_point_def)

lemma pointer_inv_worker: "server_queue s \<Longrightarrow> pointer_inv s \<Longrightarrow> worker_runs env s = Some s' \<Longrightarrow> pointer_inv s'"
  by (auto simp: pointer_inv_def server_queue_def worker_runs_def split: list.splits if_splits)

lemma pointer_inv_step:
  assumes "server_queue s" "pointer_inv s" "server_step env l s = Some s'"
  shows "pointer_inv s'"
  using assms(3)
proof (cases rule: server_step_cases)
  case (gui p late result)
  then show ?thesis using assms(2) by (auto simp: pointer_inv_def accepting_point_def)
next
  case (service q)
  then show ?thesis using assms(2) by (simp add: pointer_inv_def)
next
  case (arrives topic payload)
  have "mq_subscriptions (sv_mqtt s) = [] \<Longrightarrow> sv_inflight (message_copies topic payload s) = sv_inflight s"
    by (simp add: message_copies_def)
  with arrives show ?thesis using assms(2) by (auto simp: pointer_inv_def)
qed (use assms(1,2) pointer_inv_main pointer_inv_thread pointer_inv_worker pointer_inv_handler in blast)+

lemma pointer_inv_reachable: "server_reachable env s \<Longrightarrow> pointer_inv s"
proof (induction rule: server_reachable.induct)
  case (Start w db)
  then show ?case by (simp add: pointer_inv_def start_server_def initial_mqtt_def accepting_point_def)
next
  case (Step s l s')
  then show ?case using pointer_inv_step server_queue_reachable by blast
qed

section \<open>Shutdown\<close>

text \<open>No operation of the service throws when the client library keeps its contract.\<close>

lemma tracked_call_returns: "(\<And>n. throws_mqtt (call n)) \<Longrightarrow> fst (tracked_call operation failure call s) = Inr ()"
proof -
  assume "\<And>n. throws_mqtt (call n)"
  then show ?thesis
    by (cases rule: throws_mqttE [of "call (mq_nextListener s)" "mq_world s"])
      (simp_all add: tracked_call_def TrackOperation_def on_world_def Let_def)
qed

context paho_library
begin

lemma ReleaseClient_returns: "fst (ReleaseClient paho s) = Inr ()"
proof (cases "mq_client s")
  case (Some c)
  then show ?thesis
    by (cases rule: throws_mqttE [OF disconnect_throws [of c], of "mq_world s"])
      (auto simp: ReleaseClient_def on_world_def Let_def split: bool.splits)
qed (simp add: ReleaseClient_def)

lemma Disconnect_returns:
  fixes s :: "('w, 'c, 'h) MqttService"
  shows "fst (Disconnect paho s) = Inr ()"
proof -
  have "fst (case ReleaseClient paho s2 of (Inl e, s3) \<Rightarrow> (Inl e, s3) | (Inr _, s3) \<Rightarrow> (Inr (), SetStatus Offline d s3)) = Inr ()"
    for s2 :: "('w, 'c, 'h) MqttService" and d using ReleaseClient_returns [of s2] by (auto split: prod.splits)
  then show ?thesis by (simp add: Disconnect_def Let_def)
qed

lemma Subscribe_returns: "fst (Subscribe paho topic h s) = Inr ()"
  by (auto simp: Subscribe_def SubscribeClient_def cret_def Let_def subscribe_throws tracked_call_returns split: option.splits)

lemma open_client_throws: "open_client paho host port client s = (Inl e, s') \<Longrightarrow> \<exists>m. e = MqttException m"
  using create_throws [of "broker_uri host port" client default_create_options] connect_throws
  by (auto simp: open_client_def cbind_def cseq_def on_world_def throws_mqtt_def split: prod.splits sum.splits) blast

lemma Connect_returns: "fst (Connect paho host port client s) = Inr ()"
proof -
  obtain s1 where r: "ReleaseClient paho (s\<lparr>mq_shuttingDown := False\<rparr>) = (Inr (), s1)"
    using ReleaseClient_returns [of "s\<lparr>mq_shuttingDown := False\<rparr>"] by (metis prod.collapse)
  let ?s = "SetStatus Connecting (''Connecting to '' @ host @ '':'' @ dec_of_int port @ '' as '' @ client) s1"
  obtain r2 s3 where o: "open_client paho host port client ?s = (r2, s3)" by fastforce
  with r open_client_throws [of host port client ?s] show ?thesis
    by (cases r2) (auto simp: Connect_def Let_def)
qed

lemma Unsubscribe_returns: "fst (Unsubscribe paho topic s) = Inr ()"
  by (auto simp: Unsubscribe_def Let_def unsubscribe_throws tracked_call_returns split: option.splits)

end

text \<open>
  Shutdown ends under this schedule: the main thread whenever it can, else a worker while tasks are
  queued, else the MQTT thread. Each step makes \<open>shutdown_work\<close> smaller.
\<close>

fun main_work :: "server_point \<Rightarrow> nat" where
  "main_work SvGui = 12"
| "main_work SvStopAccepting = 11"
| "main_work SvUnsubscribe = 10"
| "main_work SvWaitUnsubscribe = 9"
| "main_work SvStopPool = 8"
| "main_work SvJoinPool = 7"
| "main_work SvDestroyDispatcher = 6"
| "main_work SvWaitAcks = 5"
| "main_work SvRequestStop = 4"
| "main_work SvJoinThread = 3"
| "main_work SvUnwindDispatcher = 5"
| "main_work SvUnwindPool = 4"
| "main_work SvUnwindJoinPool = 3"
| "main_work SvUnwindStop = 2"
| "main_work SvUnwindThread = 1"
| "main_work SvReturned = 0"
| "main_work SvCaught = 0"

fun run_work :: "run_point \<Rightarrow> nat" where
  "run_work RunWait = 5"
| "run_work RunBackoff = 4"
| "run_work RunHold = 3"
| "run_work RunCheck = 2"
| "run_work RunExit = 1"
| "run_work _ = 0"

fun thread_work :: "thread_point \<Rightarrow> nat" where
  "thread_work ThreadStart = 6"
| "thread_work (ThreadRuns _ _ _ point _) = run_work point"

text \<open>The points at which an exception is on its way out of \<^verbatim>\<open>Run\<close>.\<close>

definition unwinding :: "server_point \<Rightarrow> bool" where
  "unwinding p \<longleftrightarrow> p \<in> {SvUnwindDispatcher, SvUnwindPool, SvUnwindJoinPool, SvUnwindStop, SvUnwindThread, SvCaught}"

definition shutdown_work :: "('w, 'c, 'db) Server \<Rightarrow> nat" where
  "shutdown_work s = main_work (sv_main s) + length (dsp_tasks (sv_dispatcher s)) + thread_work (sv_thread s)"

definition own_label :: "server_label \<Rightarrow> bool" where
  "own_label l \<longleftrightarrow> l \<in> {MainRuns True, WorkerRuns, ThreadRunsOn True}"

lemma main_advances:
  assumes "main_runs env expired s = Some s'"
  shows "shutdown_work s' < shutdown_work s" "sv_main s' \<noteq> SvGui" "sv_thread s' = sv_thread s" "sv_result s' = sv_result s"
    "sv_accepted s' = sv_accepted s"
  using assms by (auto elim!: main_runs_cases simp: shutdown_work_def StopAccepting_def)

lemma main_keeps_path:
  assumes "paho_library (se_paho env)" "main_runs env expired s = Some s'"
  shows "unwinding (sv_main s') = unwinding (sv_main s)"
  using assms(2) paho_library.Unsubscribe_returns [OF assms(1), of RequestsTopic "sv_mqtt s"]
  by (auto elim!: main_runs_cases simp: unwinding_def)

lemma worker_enabled: "dsp_tasks (sv_dispatcher s) \<noteq> [] \<Longrightarrow> worker_runs env s \<noteq> None"
  by (simp add: worker_runs_def split: list.splits)

lemma worker_advances:
  assumes "worker_runs env s = Some s'"
  shows "shutdown_work s' < shutdown_work s" "sv_main s' = sv_main s" "sv_thread s' = sv_thread s" "sv_result s' = sv_result s"
    "sv_accepted s' = sv_accepted s"
  using assms by (auto simp: worker_runs_def shutdown_work_def run_task_tasks split: list.splits if_splits)

text \<open>Where the main thread waits: at the two joins.\<close>

lemma main_blocked:
  assumes "main_runs env True s = None" "sv_main s \<noteq> SvGui" "server_exit_code s = None"
  shows "sv_main s \<in> {SvJoinPool, SvUnwindJoinPool} \<and> dsp_tasks (sv_dispatcher s) \<noteq> [] \<or>
    stop_sent (sv_main s) \<and> \<not> thread_done (sv_thread s)"
  using assms
  by (cases "sv_main s") (auto simp: main_runs_def server_exit_code_def wait_pending_def split: if_splits prod.splits sum.splits)

context paho_library
begin

text \<open>\<^verbatim>\<open>Run\<close> never ends with an exception, and once a stop was requested each step brings it nearer to its end.\<close>

lemma run_step_returns:
  assumes "run_step paho host port client stop expired (point, delay, s) = Some (point', delay', s')"
  shows "point' \<noteq> RunThrown e"
  using assms Connect_returns [of host port client s] Disconnect_returns [of s]
  by (auto simp: run_step_def split: run_point.splits if_splits prod.splits sum.splits)

lemma run_step_stops:
  assumes "point \<noteq> RunDone" "\<And>e. point \<noteq> RunThrown e"
  shows "\<exists>point' delay' s'. run_step paho host port client True True (point, delay, s) = Some (point', delay', s') \<and>
    run_work point' < run_work point"
  using assms Disconnect_returns [of s]
  by (cases point) (auto simp: run_step_def split: if_splits prod.splits sum.splits)

end

lemma thread_never_fails:
  assumes "paho_library (se_paho env)" "server_reachable env s"
  shows "\<not> thread_failed (sv_thread s)"
  using assms(2)
proof (induction rule: server_reachable.induct)
  case (Start w db)
  then show ?case by (simp add: start_server_def)
next
  case (Step s l s')
  have "\<not> thread_failed (sv_thread s')" if "thread_runs env expired s = Some s'" for expired
    using that
  proof (cases rule: thread_runs_cases)
    case (starts r q host port client)
    then show ?thesis using paho_library.Subscribe_returns [OF assms(1), of RequestsTopic "Some HandleRequest" "sv_mqtt s"] by simp
  next
    case (runs host port client point delay point' delay' q)
    then show ?thesis using paho_library.run_step_returns [OF assms(1) runs(2)] by (cases point') auto
  qed
  with Step.hyps(2) Step.IH show ?case
    by (cases rule: server_step_cases) (auto simp: main_advances worker_advances elim: handler_runs_cases)
qed

lemma thread_advances:
  assumes "paho_library (se_paho env)" "sv_stop s" "\<not> thread_done (sv_thread s)" "\<not> thread_failed (sv_thread s)"
  obtains s' where "thread_runs env True s = Some s'" "shutdown_work s' < shutdown_work s"
proof (cases "sv_thread s")
  case ThreadStart
  obtain q where "Subscribe (se_paho env) RequestsTopic (Some HandleRequest) (sv_mqtt s) = (Inr (), q)"
    using paho_library.Subscribe_returns [OF assms(1), of RequestsTopic "Some HandleRequest" "sv_mqtt s"] by (metis prod.collapse)
  with ThreadStart show thesis
    by (intro that) (auto simp: thread_runs_def shutdown_work_def Let_def)
next
  case (ThreadRuns host port client point delay)
  with assms(3,4) have "point \<noteq> RunDone" "\<And>e. point \<noteq> RunThrown e" by (cases point; simp)+
  from paho_library.run_step_stops [OF assms(1) this, of host port client delay "sv_mqtt s"]
  obtain point' delay' q where "run_step (se_paho env) host port client True True (point, delay, sv_mqtt s) = Some (point', delay', q)"
    "run_work point' < run_work point" by auto
  with ThreadRuns assms(2) show thesis
    by (intro that) (auto simp: thread_runs_def shutdown_work_def)
qed

lemma thread_runs_keeps:
  assumes "thread_runs env expired s = Some s'"
  shows "sv_main s' = sv_main s" "sv_result s' = sv_result s" "sv_accepted s' = sv_accepted s"
  using assms by (auto elim!: thread_runs_cases)

text \<open>One step of the schedule.\<close>

lemma shutdown_step:
  assumes "paho_library (se_paho env)" "server_reachable env s" "sv_main s \<noteq> SvGui" "server_exit_code s = None"
  obtains l s' where "own_label l" "server_step env l s = Some s'" "shutdown_work s' < shutdown_work s" "sv_main s' \<noteq> SvGui"
    "sv_result s' = sv_result s" "sv_accepted s' = sv_accepted s" "unwinding (sv_main s') = unwinding (sv_main s)"
proof -
  have ok: "\<not> thread_failed (sv_thread s)" using assms(1,2) by (rule thread_never_fails)
  have inv: "server_queue s" using assms(2) by (rule server_queue_reachable)
  consider (main) s' where "main_runs env True s = Some s'"
    | (worker) s' where "worker_runs env s = Some s'"
    | (thread) "sv_stop s" "\<not> thread_done (sv_thread s)"
    using main_blocked [OF _ assms(3,4)] worker_enabled [of s env] inv by (auto simp: server_queue_def)
  then show thesis
  proof cases
    case (main s')
    with ok that [of "MainRuns True" s'] show thesis by (simp add: server_step_def own_label_def main_advances main_keeps_path [OF assms(1)])
  next
    case (worker s')
    with ok assms(3) that [of WorkerRuns s'] show thesis by (simp add: server_step_def own_label_def worker_advances)
  next
    case thread
    from assms(1) thread ok obtain s' where "thread_runs env True s = Some s'" "shutdown_work s' < shutdown_work s"
      by (rule thread_advances)
    with ok assms(3) that [of "ThreadRunsOn True" s'] show thesis
      by (simp add: server_step_def own_label_def thread_runs_keeps)
  qed
qed

section \<open>Three ways to a destroyed dispatcher\<close>

lemma server_run_append:
  "server_run env ls s = Some s' \<Longrightarrow> server_run env (ls @ ls') s = server_run env ls' s'"
  by (induction ls arbitrary: s) (auto split: option.splits)

lemma tracked_call_client [simp]: "mq_client (snd (tracked_call operation failure call s)) = mq_client s"
  by (auto simp: tracked_call_def TrackOperation_def on_world_def CancelOperation_def Let_def
      split: prod.splits sum.splits cpp_exn.splits)

lemma HandleConnected_client [simp]: "mq_client (snd (HandleConnected paho detail s)) = mq_client s"
  using cfor_keeps [where P = "\<lambda>s'. mq_client s' = mq_client s" and f = "SubscribeClient paho (mq_client s)"
      and s = "mark_connected detail s" and xs = "map fst (mq_subscriptions s)"]
  by (simp add: HandleConnected_def mark_connected_def Let_def SubscribeClient_def cret_def split: option.splits)

text \<open>The MQTT thread subscribes and connects, and the library reports the connection.\<close>

definition connects :: "server_label list" where
  "connects = [ThreadRunsOn False, ThreadRunsOn False, ClientSucceeded]"

definition offline_start :: "('w, 'c, server_handler) MqttService \<Rightarrow> bool" where
  "offline_start q \<longleftrightarrow> mq_client q = None \<and> mq_status q = Offline \<and> mq_subscriptions q = [] \<and> mq_pendingOperations q = [] \<and>
     mq_appState q = Some server_app"

lemma connects_run:
  assumes create: "\<And>uri client w. \<exists>c w'. paho_create (se_paho env) uri client default_create_options w = (Inr c, w')"
    and connect: "\<And>c w. \<exists>w'. paho_connect (se_paho env) c default_connect_options w = (Inr (), w')"
    and s: "sv_thread s = ThreadStart" "\<not> sv_stop s" "offline_start (sv_mqtt s)"
  shows "\<exists>q t late. server_run env connects s = Some (s\<lparr>sv_thread := t, sv_mqtt := q, sv_late := late\<rparr>) \<and>
    mq_client q \<noteq> None \<and> mq_subscriptions q = [(RequestsTopic, HandleRequest)] \<and> \<not> thread_failed t"
proof -
  let ?q1 = "(sv_mqtt s)\<lparr>mq_subscriptions := [(RequestsTopic, HandleRequest)]\<rparr>"
  let ?t = "ThreadRuns ''localhost'' 1883 ''watchlist-server'' RunCheck 1"
  let ?late = "sv_late s \<or> sv_main s \<notin> {SvGui, SvStopAccepting, SvUnsubscribe}"
  have 1: "thread_runs env False s = Some (s\<lparr>sv_mqtt := ?q1, sv_thread := ?t, sv_late := ?late\<rparr>)"
    using s by (simp add: thread_runs_def Subscribe_def offline_start_def server_app_def SnapshotConsole_def UpdateConsole_def
        initial_app_state_def default_console_def)
  obtain q2 where q2: "Connect (se_paho env) ''localhost'' 1883 ''watchlist-server'' ?q1 = (Inr (), q2)"
      "mq_client q2 \<noteq> None" "mq_subscriptions q2 = [(RequestsTopic, HandleRequest)]"
  proof -
    obtain c w' where "paho_create (se_paho env) (broker_uri ''localhost'' 1883) ''watchlist-server'' default_create_options
        (mq_world (sv_mqtt s)) = (Inr c, w')" using create by blast
    moreover obtain w'' where "paho_connect (se_paho env) c default_connect_options w' = (Inr (), w'')" using connect by blast
    ultimately show thesis
      using s(3) that by (simp add: Connect_def ReleaseClient_def offline_start_def open_client_def cbind_def cseq_def on_world_def Let_def)
  qed
  let ?s2 = "s\<lparr>sv_mqtt := q2, sv_thread := ThreadRuns ''localhost'' 1883 ''watchlist-server'' RunWait 1, sv_late := ?late\<rparr>"
  have 2: "thread_runs env False (s\<lparr>sv_mqtt := ?q1, sv_thread := ?t, sv_late := ?late\<rparr>) = Some ?s2"
    using s q2 by (simp add: thread_runs_def run_step_def offline_start_def)
  show ?thesis
    using 1 2 q2(2,3) s(1)
    by (intro exI [of _ "snd (on_success (se_paho env) q2)"] exI [of _ "sv_thread ?s2"] exI [of _ ?late])
      (simp add: connects_def server_step_def callback_def on_mqtt_def on_success_def)
qed

text \<open>The GUI returns and the main thread runs until it has destroyed the dispatcher.\<close>

definition gui_ends :: "GuiResult \<Rightarrow> server_label list" where
  "gui_ends r = GuiReturns r # replicate 6 (MainRuns True)"

lemma gui_ends_run:
  assumes p: "paho_library (se_paho env)"
    and s: "sv_main s = SvGui" "dsp_tasks (sv_dispatcher s) = []" "\<not> thread_failed (sv_thread s)"
  shows "\<exists>s'. server_run env (gui_ends r) s = Some s' \<and> \<not> sv_alive s' \<and> sv_inflight s' = sv_inflight s \<and>
    sv_thread s' = sv_thread s \<and> sv_stop s' = sv_stop s \<and> (offline_start (sv_mqtt s) \<longrightarrow> offline_start (sv_mqtt s'))"
proof -
  obtain q where q: "Unsubscribe (se_paho env) RequestsTopic (sv_mqtt s) = (Inr (), q)"
    using paho_library.Unsubscribe_returns [OF p, of RequestsTopic "sv_mqtt s"] by (metis prod.collapse)
  have "offline_start (sv_mqtt s) \<Longrightarrow> offline_start q"
    using q by (auto simp: offline_start_def Unsubscribe_def erase_key_def)
  with q s show ?thesis
    by (auto simp: gui_ends_def numeral_eq_Suc server_step_def main_runs_def wait_pending_def stop_pool_def StopAccepting_def
        on_app_def on_mqtt_def offline_start_def pending_done_def)
qed

text \<open>A request message that arrives while the handler is registered is due.\<close>

lemma request_arrives:
  assumes "mq_client (sv_mqtt s) \<noteq> None" "mq_subscriptions (sv_mqtt s) = [(RequestsTopic, HandleRequest)]" "\<not> thread_failed (sv_thread s)"
  shows "server_step env (MessageArrives RequestsTopic payload) s = Some (s\<lparr>sv_inflight := sv_inflight s @ [payload]\<rparr>)"
proof -
  have "TopicMatches RequestsTopic RequestsTopic" by (simp add: TopicMatches_literal RequestsTopic_def wildcard_free_def)
  with assms show ?thesis by (simp add: server_step_def message_copies_def)
qed

lemma handler_due:
  assumes "sv_inflight s = payload # rest" "\<not> sv_alive s" "\<not> thread_failed (sv_thread s)"
  shows "server_step env HandlerRuns s = Some (s\<lparr>sv_inflight := rest, sv_dangling := True\<rparr>)"
  using assms by (simp add: server_step_def handler_runs_def)

lemma handler_queues:
  assumes "sv_inflight s = [payload]" "sv_alive s" "\<not> thread_failed (sv_thread s)"
    and "dsp_accepting (sv_dispatcher s)" "dsp_poolOpen (sv_dispatcher s)"
    and "pr_request (ParseRequest (se_parse env) payload) = Some request"
  shows "\<exists>s'. server_step env HandlerRuns s = Some s' \<and> sv_main s' = sv_main s \<and> sv_thread s' = sv_thread s \<and>
    sv_alive s' \<and> dsp_tasks (sv_dispatcher s') = dsp_tasks (sv_dispatcher s) @ [request]"
  using assms
  by (auto simp: server_step_def handler_runs_def HandleIncomingPayload_def Dispatch_def on_dispatcher_def Let_def with_app_def
      split: prod.splits)

lemma unwind_dangles:
  assumes "sv_main s = SvGui" "\<not> thread_failed (sv_thread s)" "dsp_tasks (sv_dispatcher s) \<noteq> []"
  shows "\<exists>s'. server_run env [GuiThrows, MainRuns True, WorkerRuns] s = Some s' \<and> sv_dangling s'"
  using assms by (auto simp: server_step_def main_runs_def worker_runs_def split: list.splits)

section \<open>Properties\<close>



text \<open>
  C18: when the dispatcher pointer is safe. The handler's raw pointer and the tasks in the pool are
  used after the dispatcher was destroyed only if the MQTT thread subscribed after the
  unsubscription, or a copied handler was still due at the unsubscription, or the GUI or the
  unsubscription threw. Otherwise the dispatcher is gone only when the pool is joined and no handler
  is registered or due.
\<close>

theorem dispatcher_pointer_safe:
  assumes "server_reachable env s" "\<not> sv_late s"
  shows "\<not> sv_dangling s \<and>
    (\<not> sv_alive s \<longrightarrow> dsp_tasks (sv_dispatcher s) = [] \<and> mq_subscriptions (sv_mqtt s) = [] \<and> sv_inflight s = [])"
proof -
  have "accepting_point p \<Longrightarrow> \<not> pool_joined p" for p by (auto simp: accepting_point_def)
  with assms(2) pointer_inv_reachable [OF assms(1)] server_queue_reachable [OF assms(1)] show ?thesis
    by (auto simp: pointer_inv_def server_queue_def)
qed

text \<open>
  C19: the three situations are real. With a broker that can be reached, the destroyed dispatcher is
  used when the MQTT thread starts only after the shutdown has unsubscribed; when a message was
  copied before the unsubscription and its handler runs after the destruction; and when the GUI
  throws while a request is queued, because unwinding destroys the dispatcher before it drains the
  pool.
\<close>

theorem destroyed_dispatcher_used:
  fixes env :: "('w, 'c, 'db) server_env"
  assumes p: "paho_library (se_paho env)"
    and create: "\<And>uri client w. \<exists>c w'. paho_create (se_paho env) uri client default_create_options w = (Inr c, w')"
    and connect: "\<And>c w. \<exists>w'. paho_connect (se_paho env) c default_connect_options w = (Inr (), w')"
    and request: "pr_request (ParseRequest (se_parse env) payload) = Some request"
  shows "(\<exists>s. server_run env (gui_ends r @ connects @ [MessageArrives RequestsTopic payload, HandlerRuns]) (start_server w db) = Some s \<and>
      sv_dangling s) \<and>
    (\<exists>s. server_run env (connects @ [MessageArrives RequestsTopic payload] @ gui_ends r @ [HandlerRuns]) (start_server w db) = Some s \<and>
      sv_dangling s) \<and>
    (\<exists>s. server_run env (connects @ [MessageArrives RequestsTopic payload, HandlerRuns] @ [GuiThrows, MainRuns True, WorkerRuns])
      (start_server w db) = Some s \<and> sv_dangling s)"
proof -
  let ?s = "start_server w db :: ('w, 'c, 'db) Server"
  have start: "sv_main ?s = SvGui" "dsp_tasks (sv_dispatcher ?s) = []" "sv_thread ?s = ThreadStart" "\<not> sv_stop ?s" "sv_inflight ?s = []"
    "sv_alive ?s" "dsp_accepting (sv_dispatcher ?s)" "dsp_poolOpen (sv_dispatcher ?s)"
    "offline_start (sv_mqtt ?s)" by (simp_all add: start_server_def offline_start_def initial_mqtt_def)
  obtain s1 where s1: "server_run env (gui_ends r) ?s = Some s1" "\<not> sv_alive s1" "sv_inflight s1 = []" "sv_thread s1 = ThreadStart"
      "\<not> sv_stop s1" "offline_start (sv_mqtt s1)"
    using gui_ends_run [OF p start(1,2), of r] start by auto
  from connects_run [OF create connect s1(4,5,6)] obtain q t late where
    "server_run env connects s1 = Some (s1\<lparr>sv_thread := t, sv_mqtt := q, sv_late := late\<rparr>)" "mq_client q \<noteq> None"
    "mq_subscriptions q = [(RequestsTopic, HandleRequest)]" "\<not> thread_failed t" by blast
  with s1 have 1: "\<exists>s. server_run env (gui_ends r @ connects @ [MessageArrives RequestsTopic payload, HandlerRuns]) ?s = Some s \<and> sv_dangling s"
    by (simp add: server_run_append request_arrives handler_due)
  from connects_run [OF create connect start(3,4,9)] obtain q t late where
    c: "server_run env connects ?s = Some (?s\<lparr>sv_thread := t, sv_mqtt := q, sv_late := late\<rparr>)" "mq_client q \<noteq> None"
    "mq_subscriptions q = [(RequestsTopic, HandleRequest)]" "\<not> thread_failed t" by blast
  let ?c = "?s\<lparr>sv_thread := t, sv_mqtt := q, sv_late := late, sv_inflight := [payload]\<rparr>"
  have a: "server_run env (connects @ [MessageArrives RequestsTopic payload]) ?s = Some ?c"
    using c start by (simp add: server_run_append request_arrives)
  obtain s2 where "server_run env (gui_ends r) ?c = Some s2" "\<not> sv_alive s2" "sv_inflight s2 = [payload]" "sv_thread s2 = t"
    using gui_ends_run [OF p, of ?c r] c(4) start by auto
  with a c(4) have 2: "\<exists>s. server_run env ((connects @ [MessageArrives RequestsTopic payload]) @ gui_ends r @ [HandlerRuns]) ?s = Some s \<and> sv_dangling s"
    by (simp only: server_run_append) (simp add: handler_due)
  obtain s3 where "server_step env HandlerRuns ?c = Some s3" "sv_main s3 = SvGui" "\<not> thread_failed (sv_thread s3)"
      "dsp_tasks (sv_dispatcher s3) \<noteq> []"
    using handler_queues [OF _ _ _ _ _ request, of ?c] c(4) start by auto
  with unwind_dangles [of s3 env] a have 3: "\<exists>s. server_run env ((connects @ [MessageArrives RequestsTopic payload]) @ HandlerRuns #
      [GuiThrows, MainRuns True, WorkerRuns]) ?s = Some s \<and> sv_dangling s"
    by (simp only: server_run_append) simp
  from 1 2 3 show ?thesis by simp
qed

section \<open>Witnesses\<close>

text \<open>A server on a client library that logs its calls, with the reference JSON reader and store.\<close>

definition sample_server_env :: "(paho_call list, string, ref_conn) server_env" where
  "sample_server_env =
     \<lparr>se_paho = log_paho False, se_parse = flat_json, se_open = cret (), se_conn = ref_sqlite, se_now = ''now''\<rparr>"

definition sample_server :: "(paho_call list, string, ref_conn) Server" where
  "sample_server = start_server [] kv_sample"

definition gui_returned_ok :: GuiResult where
  "gui_returned_ok = \<lparr>gui_success = True, gui_error = []\<rparr>"

lemma sample_library: "paho_library (se_paho sample_server_env)"
  by (simp add: sample_server_env_def logged.paho_library_axioms)

lemma sample_gui_returns:
  "server_step sample_server_env (GuiReturns gui_returned_ok) sample_server = Some (sample_server\<lparr>sv_result := gui_returned_ok, sv_main := SvStopAccepting\<rparr>)"
  by (simp add: server_step_def sample_server_def start_server_def)

lemma sample_server_reachable: "server_reachable sample_server_env sample_server"
  "server_reachable sample_server_env (sample_server\<lparr>sv_result := gui_returned_ok, sv_main := SvStopAccepting\<rparr>)"
proof -
  show "server_reachable sample_server_env sample_server" unfolding sample_server_def by (rule server_reachable.Start)
  from server_reachable.Step [OF this sample_gui_returns]
  show "server_reachable sample_server_env (sample_server\<lparr>sv_result := gui_returned_ok, sv_main := SvStopAccepting\<rparr>)" .
qed

lemma server_run_reachable: "server_run env ls s = Some s' \<Longrightarrow> server_reachable env s \<Longrightarrow> server_reachable env s'"
  by (induction ls arbitrary: s) (auto split: option.splits intro: server_reachable.Step)

lemma sample_parses:
  "pr_request (ParseRequest (se_parse sample_server_env) (SerializeRequest sample_request)) = Some sample_request"
  by (simp add: sample_server_env_def flat.ParseRequest_SerializeRequest [OF sample_request_safe])

lemma sample_queued: "\<exists>s. server_reachable sample_server_env s \<and> dsp_tasks (sv_dispatcher s) = [sample_request]"
proof -
  let ?m = "MessageArrives RequestsTopic (SerializeRequest sample_request)"
  have start: "sv_thread sample_server = ThreadStart" "\<not> sv_stop sample_server" "offline_start (sv_mqtt sample_server)"
    "dsp_tasks (sv_dispatcher sample_server) = []" "sv_alive sample_server" "dsp_accepting (sv_dispatcher sample_server)"
    "dsp_poolOpen (sv_dispatcher sample_server)" "sv_inflight sample_server = []"
    by (simp_all add: sample_server_def start_server_def offline_start_def initial_mqtt_def)
  obtain q t late where c: "server_run sample_server_env connects sample_server =
      Some (sample_server\<lparr>sv_thread := t, sv_mqtt := q, sv_late := late\<rparr>)" "mq_client q \<noteq> None"
    "mq_subscriptions q = [(RequestsTopic, HandleRequest)]" "\<not> thread_failed t"
    using connects_run [OF _ _ start(1-3), of sample_server_env] by (auto simp: sample_server_env_def log_paho_def paho_log_def)
  let ?c = "sample_server\<lparr>sv_thread := t, sv_mqtt := q, sv_late := late, sv_inflight := [SerializeRequest sample_request]\<rparr>"
  have "server_run sample_server_env (connects @ [?m]) sample_server = Some ?c"
    using c start by (simp add: server_run_append request_arrives)
  with sample_server_reachable(1) have "server_reachable sample_server_env ?c" by (rule server_run_reachable [rotated])
  moreover obtain s where "server_step sample_server_env HandlerRuns ?c = Some s" "dsp_tasks (sv_dispatcher s) = [sample_request]"
    using handler_queues [OF _ _ _ _ _ sample_parses, of ?c] c(4) start by auto
  ultimately show ?thesis using server_reachable.Step by blast
qed



theorem dispatcher_pointer_safe_witness: "\<not> sv_dangling sample_server"
  using dispatcher_pointer_safe [OF sample_server_reachable(1)] by (simp add: sample_server_def start_server_def)

theorem destroyed_dispatcher_used_witness:
  "\<exists>s. server_run sample_server_env
      (gui_ends gui_returned_ok @ connects @ [MessageArrives RequestsTopic (SerializeRequest sample_request), HandlerRuns]) sample_server = Some s \<and>
     sv_dangling s"
proof -
  have "\<exists>c w'. paho_create (se_paho sample_server_env) uri client default_create_options w = (Inr c, w')"
    "\<exists>w'. paho_connect (se_paho sample_server_env) c default_connect_options w = (Inr (), w')" for uri client c w
    by (simp_all add: sample_server_env_def log_paho_def paho_log_def)
  from destroyed_dispatcher_used [OF sample_library this sample_parses, of gui_returned_ok "[]" kv_sample] show ?thesis
    unfolding sample_server_def by blast
qed

end
