(* ===== verification/Client_Program.thy ===== *)
theory Client_Program
  imports Server_Program Watchlist_App
begin

text \<open>
  \<^verbatim>\<open>src/src/Watchlist/Apps/Client/main.cpp\<close>: the client composed of the MQTT service, the
  application state and the GUI on the main thread. The main thread, the MQTT thread and the
  library's callbacks are interleaved; what the GUI does is what its MQTT console does: it takes
  over the edited form and sends requests. The lemmas show which acknowledgement topic the client
  listens to for its whole life, and follow a request through the server and back.
\<close>

section \<open>State\<close>

datatype client_point = ClGui | ClRequestStop | ClJoin | ClClearHandler | ClReturned | ClUnwindStop | ClUnwindJoin | ClCaught

datatype client_handler = HandleAck

text \<open>\<open>cl_subscribed\<close> is history: the client id whose acknowledgement topic was subscribed to.\<close>

record ('w, 'c) Client =
  cl_main :: client_point
  cl_thread :: thread_point
  cl_stop :: bool
  cl_mqtt :: "('w, 'c, client_handler) MqttService"
  cl_counter :: "64 word"
  cl_result :: GuiResult
  cl_subscribed :: "string option"

definition client_app :: "unit AppState" where
  "client_app = SetOutboundCommandHandler (Some ())
     (UpdateConsole ((SnapshotConsole (initial_app_state :: unit AppState))\<lparr>con_clientId := ''watchlist-client''\<rparr>) initial_app_state)"

definition start_client :: "'w \<Rightarrow> ('w, 'c) Client" where
  "start_client w =
     \<lparr>cl_main = ClGui, cl_thread = ThreadStart, cl_stop = False, cl_mqtt = initial_mqtt w (Some client_app), cl_counter = 0,
      cl_result = \<lparr>gui_success = False, gui_error = []\<rparr>, cl_subscribed = None\<rparr>"

section \<open>The threads\<close>

definition update_app :: "(unit AppState \<Rightarrow> unit AppState) \<Rightarrow> ('w, 'c, 'h) MqttService \<Rightarrow> ('w, 'c, 'h) MqttService" where
  "update_app f q = q\<lparr>mq_appState := map_option f (mq_appState q)\<rparr>"

text \<open>The outbound handler publishes; the application state records what came of it.\<close>

definition client_sends :: "('w, 'c) paho \<Rightarrow> string \<Rightarrow> ('w, 'c, 'h) MqttService \<Rightarrow> ('w, 'c, 'h) MqttService" where
  "client_sends paho payload q =
     (if map_option app_handler (mq_appState q) = Some (Some ())
      then case Publish paho RequestsTopic payload q of
        (r, q') \<Rightarrow> update_app (\<lambda>app. snd (DispatchOutbound (\<lambda>_ _. r) payload app)) q'
      else update_app (\<lambda>app. snd (DispatchOutbound (\<lambda>_ _. Inr ()) payload app)) q)"

text \<open>A frame of the console in which the button to send is pressed.\<close>

definition console_sends :: "('w, 'c) paho \<Rightarrow> string \<Rightarrow> ConsoleState \<Rightarrow> ('w, 'c) Client \<Rightarrow> ('w, 'c) Client" where
  "console_sends paho now console s =
     s\<lparr>cl_counter := cl_counter s + 1,
       cl_mqtt := client_sends paho (SerializeRequest (console_request now (cl_counter s + 1) console))
         (update_app (UpdateConsoleForm console) (cl_mqtt s))\<rparr>"

text \<open>The message handler adds the acknowledgement to the application state.\<close>

definition client_receives :: "string \<Rightarrow> string \<Rightarrow> ('w, 'c, 'h) MqttService \<Rightarrow> ('w, 'c, 'h) MqttService" where
  "client_receives topic payload q =
     fold (\<lambda>_. update_app (AddAck payload)) (filter (\<lambda>p. TopicMatches (fst p) topic) (mq_subscriptions q))
       (message_arrived (\<lambda>_ _ _. Inr ()) topic payload q)"

definition client_thread_runs :: "('w, 'c) paho \<Rightarrow> bool \<Rightarrow> ('w, 'c) Client \<Rightarrow> ('w, 'c) Client option" where
  "client_thread_runs paho expired s =
     (case cl_thread s of
        ThreadStart \<Rightarrow>
          (let console = (case mq_appState (cl_mqtt s) of None \<Rightarrow> default_console | Some app \<Rightarrow> SnapshotConsole app) in
           case Subscribe paho (AckTopicForClient (con_clientId console)) (Some HandleAck) (cl_mqtt s) of
             (r, q) \<Rightarrow>
               Some (s\<lparr>cl_mqtt := q, cl_subscribed := Some (con_clientId console),
                 cl_thread := ThreadRuns (con_brokerHost console) (con_brokerPort console) (con_clientId console)
                   (case r of Inr _ \<Rightarrow> RunCheck | Inl e \<Rightarrow> RunThrown e) 1\<rparr>))
      | ThreadRuns host port client point delay \<Rightarrow>
          (case run_step paho host port client (cl_stop s) expired (point, delay, cl_mqtt s) of
             None \<Rightarrow> None
           | Some (point', delay', q) \<Rightarrow> Some (s\<lparr>cl_thread := ThreadRuns host port client point' delay', cl_mqtt := q\<rparr>)))"

definition client_main_runs :: "('w, 'c) Client \<Rightarrow> ('w, 'c) Client option" where
  "client_main_runs s =
     (case cl_main s of
        ClGui \<Rightarrow> None
      | ClRequestStop \<Rightarrow> Some (s\<lparr>cl_stop := True, cl_main := ClJoin\<rparr>)
      | ClJoin \<Rightarrow> if thread_done (cl_thread s) then Some (s\<lparr>cl_main := ClClearHandler\<rparr>) else None
      | ClClearHandler \<Rightarrow> Some (s\<lparr>cl_mqtt := update_app (SetOutboundCommandHandler None) (cl_mqtt s), cl_main := ClReturned\<rparr>)
      | ClReturned \<Rightarrow> None
      | ClUnwindStop \<Rightarrow> Some (s\<lparr>cl_stop := True, cl_main := ClUnwindJoin\<rparr>)
      | ClUnwindJoin \<Rightarrow> if thread_done (cl_thread s) then Some (s\<lparr>cl_main := ClCaught\<rparr>) else None
      | ClCaught \<Rightarrow> None)"

definition client_exit_code :: "('w, 'c) Client \<Rightarrow> nat option" where
  "client_exit_code s =
     (case cl_main s of
        ClReturned \<Rightarrow> Some (if gui_success (cl_result s) then 0 else 1)
      | ClCaught \<Rightarrow> Some 1
      | _ \<Rightarrow> None)"

datatype client_label =
    ClGuiReturns GuiResult | ClGuiThrows | ClGuiForm ConsoleState | ClGuiSend string ConsoleState
  | ClMainRuns | ClThreadRuns bool
  | ClMessage string string | ClConnected string | ClSucceeded | ClFailed string int | ClLost string
  | ClOperationSucceeds nat | ClOperationFails nat string int

definition client_callback :: "(('w, 'c, client_handler) MqttService \<Rightarrow> ('w, 'c, client_handler) MqttService) \<Rightarrow>
    ('w, 'c) Client \<Rightarrow> ('w, 'c) Client option" where
  "client_callback f s = (if mq_client (cl_mqtt s) = None then None else Some (s\<lparr>cl_mqtt := f (cl_mqtt s)\<rparr>))"

definition client_step :: "('w, 'c) paho \<Rightarrow> client_label \<Rightarrow> ('w, 'c) Client \<Rightarrow> ('w, 'c) Client option" where
  "client_step paho l s =
     (if thread_failed (cl_thread s) then None else case l of
        ClGuiReturns r \<Rightarrow> if cl_main s = ClGui then Some (s\<lparr>cl_result := r, cl_main := ClRequestStop\<rparr>) else None
      | ClGuiThrows \<Rightarrow> if cl_main s = ClGui then Some (s\<lparr>cl_main := ClUnwindStop\<rparr>) else None
      | ClGuiForm console \<Rightarrow>
          if cl_main s = ClGui then Some (s\<lparr>cl_mqtt := update_app (UpdateConsoleForm console) (cl_mqtt s)\<rparr>) else None
      | ClGuiSend now console \<Rightarrow> if cl_main s = ClGui then Some (console_sends paho now console s) else None
      | ClMainRuns \<Rightarrow> client_main_runs s
      | ClThreadRuns expired \<Rightarrow> client_thread_runs paho expired s
      | ClMessage topic payload \<Rightarrow> client_callback (client_receives topic payload) s
      | ClConnected cause \<Rightarrow> client_callback (\<lambda>q. snd (connected_callback paho cause q)) s
      | ClSucceeded \<Rightarrow> client_callback (\<lambda>q. snd (on_success paho q)) s
      | ClFailed message code \<Rightarrow> client_callback (on_failure message code) s
      | ClLost cause \<Rightarrow> client_callback (connection_lost cause) s
      | ClOperationSucceeds n \<Rightarrow> Some (s\<lparr>cl_mqtt := operation_succeeded n (cl_mqtt s)\<rparr>)
      | ClOperationFails n message code \<Rightarrow> Some (s\<lparr>cl_mqtt := operation_failed n message code (cl_mqtt s)\<rparr>))"

inductive client_reachable :: "('w, 'c) paho \<Rightarrow> ('w, 'c) Client \<Rightarrow> bool" for paho where
  Start: "client_reachable paho (start_client w)"
| Step: "client_reachable paho s \<Longrightarrow> client_step paho l s = Some s' \<Longrightarrow> client_reachable paho s'"

section \<open>The subscription of the client\<close>

lemma update_app_simps [simp]:
  "mq_subscriptions (update_app f q) = mq_subscriptions q" "mq_appState (update_app f q) = map_option f (mq_appState q)"
  by (simp_all add: update_app_def)

lemma Publish_subscriptions [simp]: "mq_subscriptions (snd (Publish paho topic payload q)) = mq_subscriptions q"
  by (simp add: Publish_def split: option.splits)

lemma client_sends_subscriptions [simp]: "mq_subscriptions (client_sends paho payload q) = mq_subscriptions q"
  using Publish_subscriptions [of paho RequestsTopic payload q]
  by (auto simp: client_sends_def simp del: Publish_subscriptions split: prod.splits)

lemma call_handlers_keep:
  "mq_subscriptions (fold (call_handler (\<lambda>_ _ _. Inr ()) topic payload) hs q) = mq_subscriptions q"
  "mq_appState (fold (call_handler (\<lambda>_ _ _. Inr ()) topic payload) hs q) = mq_appState q"
  by (induction hs arbitrary: q) (simp_all add: call_handler_def Let_def)

lemma message_arrived_subscriptions [simp]:
  "mq_subscriptions (message_arrived (\<lambda>_ _ _. Inr ()) topic payload q) = mq_subscriptions q"
  by (simp add: message_arrived_def Let_def call_handlers_keep)

lemma add_acks_subscriptions: "mq_subscriptions (fold (\<lambda>_. update_app f) hs q) = mq_subscriptions q"
  by (induction hs arbitrary: q) simp_all

lemma client_receives_subscriptions [simp]: "mq_subscriptions (client_receives topic payload q) = mq_subscriptions q"
  by (simp add: client_receives_def add_acks_subscriptions)

definition subscription_inv :: "('w, 'c) Client \<Rightarrow> bool" where
  "subscription_inv s \<longleftrightarrow>
     (case cl_subscribed s of
        None \<Rightarrow> cl_thread s = ThreadStart \<and> mq_subscriptions (cl_mqtt s) = []
      | Some i \<Rightarrow> cl_thread s \<noteq> ThreadStart \<and> mq_subscriptions (cl_mqtt s) = [(AckTopicForClient i, HandleAck)])"

lemma subscription_inv_cong:
  assumes "subscription_inv s" "cl_subscribed s' = cl_subscribed s" "cl_thread s' = cl_thread s"
    "mq_subscriptions (cl_mqtt s') = mq_subscriptions (cl_mqtt s)"
  shows "subscription_inv s'"
  using assms by (simp add: subscription_inv_def cong: option.case_cong)

lemma AckTopicForClient_nonempty [simp]: "AckTopicForClient c \<noteq> []"
  by (simp add: AckTopicForClient_def)

lemma subscription_inv_thread:
  assumes inv: "subscription_inv s" and step: "client_thread_runs paho expired s = Some s'"
  shows "subscription_inv s'"
proof (cases "cl_thread s")
  case ThreadStart
  let ?console = "case mq_appState (cl_mqtt s) of None \<Rightarrow> default_console | Some app \<Rightarrow> SnapshotConsole app"
  obtain r q where q: "Subscribe paho (AckTopicForClient (con_clientId ?console)) (Some HandleAck) (cl_mqtt s) = (r, q)" by fastforce
  have "mq_subscriptions (cl_mqtt s) = []" using inv ThreadStart by (auto simp: subscription_inv_def split: option.splits)
  with Subscribe_subscriptions [OF q] q ThreadStart step show ?thesis
    by (auto simp: client_thread_runs_def Let_def subscription_inv_def)
next
  case (ThreadRuns host port client point delay)
  with step obtain point' delay' q where
    "run_step paho host port client (cl_stop s) expired (point, delay, cl_mqtt s) = Some (point', delay', q)"
    "s' = s\<lparr>cl_thread := ThreadRuns host port client point' delay', cl_mqtt := q\<rparr>"
    by (auto simp: client_thread_runs_def split: option.splits)
  with run_step_subscriptions ThreadRuns inv show ?thesis
    by (fastforce simp: subscription_inv_def split: option.splits)
qed

lemma subscription_inv_main: "subscription_inv s \<Longrightarrow> client_main_runs s = Some s' \<Longrightarrow> subscription_inv s'"
  by (cases "cl_main s") (auto simp: client_main_runs_def split: if_splits intro: subscription_inv_cong [of s])

lemma subscription_inv_step: "subscription_inv s \<Longrightarrow> client_step paho l s = Some s' \<Longrightarrow> subscription_inv s'"
proof (cases l)
  case ClMainRuns
  then show "subscription_inv s \<Longrightarrow> client_step paho l s = Some s' \<Longrightarrow> ?thesis"
    by (auto simp: client_step_def subscription_inv_main split: if_splits)
next
  case (ClThreadRuns expired)
  then show "subscription_inv s \<Longrightarrow> client_step paho l s = Some s' \<Longrightarrow> ?thesis"
    by (auto simp: client_step_def subscription_inv_thread split: if_splits)
qed (auto simp: client_step_def client_callback_def console_sends_def connected_callback_def on_success_def
    split: if_splits intro: subscription_inv_cong [of s])

lemma subscription_inv_reachable: "client_reachable paho s \<Longrightarrow> subscription_inv s"
proof (induction rule: client_reachable.induct)
  case (Start w)
  then show ?case by (simp add: subscription_inv_def start_client_def initial_mqtt_def)
qed (rule subscription_inv_step)

text \<open>An acknowledgement is shown exactly when it is addressed to the id that was subscribed.\<close>

lemma client_receives_acks:
  assumes "client_reachable paho s" "cl_subscribed s = Some i" "IsValidClientId i"
  shows "map_option app_acks (mq_appState (client_receives (AckTopicForClient j) payload (cl_mqtt s))) =
    map_option (\<lambda>app. if j = i then AddBounded (app_acks app) payload else app_acks app) (mq_appState (cl_mqtt s))"
proof -
  have "mq_subscriptions (cl_mqtt s) = [(AckTopicForClient i, HandleAck)]"
    using subscription_inv_reachable [OF assms(1)] assms(2) by (simp add: subscription_inv_def)
  moreover have "TopicMatches (AckTopicForClient i) (AckTopicForClient j) \<longleftrightarrow> j = i"
    using TopicMatches_literal [OF ack_topic_wildcard_free [OF assms(3)]] ack_topic_inj by auto
  ultimately show ?thesis
    by (cases "mq_appState (cl_mqtt s)")
      (auto simp: client_receives_def message_arrived_def call_handler_def AddAck_def mqtt_defs)
qed

section \<open>Shutdown\<close>

text \<open>As in the server: the main thread whenever it can, else the MQTT thread.\<close>

fun client_main_work :: "client_point \<Rightarrow> nat" where
  "client_main_work ClGui = 4"
| "client_main_work ClRequestStop = 3"
| "client_main_work ClJoin = 2"
| "client_main_work ClClearHandler = 1"
| "client_main_work ClUnwindStop = 2"
| "client_main_work ClUnwindJoin = 1"
| "client_main_work ClReturned = 0"
| "client_main_work ClCaught = 0"

definition client_work :: "('w, 'c) Client \<Rightarrow> nat" where
  "client_work s = client_main_work (cl_main s) + thread_work (cl_thread s)"

definition client_run_inv :: "('w, 'c) Client \<Rightarrow> bool" where
  "client_run_inv s \<longleftrightarrow> cl_main s \<noteq> ClGui \<and> \<not> thread_failed (cl_thread s) \<and> (cl_main s \<in> {ClJoin, ClUnwindJoin} \<longrightarrow> cl_stop s)"

definition client_success :: "('w, 'c) Client \<Rightarrow> bool" where
  "client_success s \<longleftrightarrow> cl_main s \<notin> {ClUnwindStop, ClUnwindJoin, ClCaught} \<and> gui_success (cl_result s)"

fun client_run :: "('w, 'c) paho \<Rightarrow> client_label list \<Rightarrow> ('w, 'c) Client \<Rightarrow> ('w, 'c) Client option" where
  "client_run paho [] s = Some s"
| "client_run paho (l # ls) s = (case client_step paho l s of None \<Rightarrow> None | Some s' \<Rightarrow> client_run paho ls s')"

context paho_library
begin

lemma client_thread_advances:
  assumes "cl_stop s" "\<not> thread_done (cl_thread s)" "\<not> thread_failed (cl_thread s)"
  obtains t q i where "client_thread_runs paho True s = Some (s\<lparr>cl_thread := t, cl_mqtt := q, cl_subscribed := i\<rparr>)"
    "thread_work t < thread_work (cl_thread s)" "\<not> thread_failed t"
proof (cases "cl_thread s")
  case ThreadStart
  let ?console = "case mq_appState (cl_mqtt s) of None \<Rightarrow> default_console | Some app \<Rightarrow> SnapshotConsole app"
  obtain q where "Subscribe paho (AckTopicForClient (con_clientId ?console)) (Some HandleAck) (cl_mqtt s) = (Inr (), q)"
    using Subscribe_returns [of "AckTopicForClient (con_clientId ?console)" "Some HandleAck" "cl_mqtt s"] by (metis prod.collapse)
  with ThreadStart that [where q = q and i = "Some (con_clientId ?console)" and
    t = "ThreadRuns (con_brokerHost ?console) (con_brokerPort ?console) (con_clientId ?console) RunCheck 1"]
  show thesis by (simp add: client_thread_runs_def Let_def)
next
  case (ThreadRuns host port client point delay)
  with assms(2,3) have "point \<noteq> RunDone" "\<And>e. point \<noteq> RunThrown e" by (cases point; simp)+
  from run_step_stops [OF this, of host port client delay "cl_mqtt s"] obtain point' delay' q where
    r: "run_step paho host port client True True (point, delay, cl_mqtt s) = Some (point', delay', q)" "run_work point' < run_work point"
    by auto
  have "\<not> thread_failed (ThreadRuns host port client point' delay')" using run_step_returns [OF r(1)] by (cases point') auto
  moreover have "s\<lparr>cl_thread := t, cl_mqtt := q\<rparr> = s\<lparr>cl_thread := t, cl_mqtt := q, cl_subscribed := cl_subscribed s\<rparr>" for t
    by (cases s) simp
  ultimately show thesis using ThreadRuns assms(1) r
    by (intro that [where q = q and i = "cl_subscribed s" and t = "ThreadRuns host port client point' delay'"])
      (simp_all add: client_thread_runs_def)
qed

lemma client_shutdown_step:
  assumes inv: "client_run_inv s" and more: "client_exit_code s = None"
  obtains l s' where "l \<in> {ClMainRuns, ClThreadRuns True}" "client_step paho l s = Some s'" "client_work s' < client_work s"
    "client_run_inv s'" "client_success s' = client_success s"
proof (cases "client_main_runs s")
  case (Some s')
  with inv have "client_step paho ClMainRuns s = Some s'" "client_work s' < client_work s" "client_run_inv s'"
    "client_success s' = client_success s"
    by (cases "cl_main s"; auto simp: client_step_def client_main_runs_def client_work_def client_run_inv_def client_success_def
        split: if_splits)+
  then show thesis by (intro that [of ClMainRuns s']) simp_all
next
  case None
  with inv more have w: "cl_stop s" "\<not> thread_done (cl_thread s)" "\<not> thread_failed (cl_thread s)"
    by (cases "cl_main s"; auto simp: client_main_runs_def client_run_inv_def client_exit_code_def split: if_splits)+
  then obtain t q i where "client_thread_runs paho True s = Some (s\<lparr>cl_thread := t, cl_mqtt := q, cl_subscribed := i\<rparr>)"
    "thread_work t < thread_work (cl_thread s)" "\<not> thread_failed t" by (rule client_thread_advances)
  with w(3) inv show thesis
    by (intro that [of "ClThreadRuns True" "s\<lparr>cl_thread := t, cl_mqtt := q, cl_subscribed := i\<rparr>"])
      (simp_all add: client_step_def client_work_def client_run_inv_def client_success_def)
qed

text \<open>
  Once the GUI has ended, the client's own threads bring it to its end, and the exit code says
  whether the GUI succeeded.
\<close>

lemma client_shutdown:
  assumes "client_run_inv s"
  shows "\<exists>ls s'. set ls \<subseteq> {ClMainRuns, ClThreadRuns True} \<and> length ls \<le> client_work s \<and> client_run paho ls s = Some s' \<and>
    client_exit_code s' = Some (if client_success s then 0 else 1)"
  using assms
proof (induction "client_work s" arbitrary: s rule: less_induct)
  case less
  show ?case
  proof (cases "client_exit_code s")
    case None
    with less.prems obtain l s' where l: "l \<in> {ClMainRuns, ClThreadRuns True}" "client_step paho l s = Some s'"
      "client_work s' < client_work s" "client_run_inv s'" "client_success s' = client_success s" by (rule client_shutdown_step)
    from less.hyps [OF l(3,4)] obtain ls s'' where "set ls \<subseteq> {ClMainRuns, ClThreadRuns True}" "length ls \<le> client_work s'"
      "client_run paho ls s' = Some s''" "client_exit_code s'' = Some (if client_success s then 0 else 1)" using l(5) by auto
    with l show ?thesis by (intro exI [of _ "l # ls"] exI [of _ s'']) auto
  next
    case (Some code)
    then have "client_exit_code s = Some (if client_success s then 0 else 1)"
      by (auto simp: client_exit_code_def client_success_def split: client_point.splits)
    then show ?thesis by (intro exI [of _ "[]"] exI [of _ s]) simp
  qed
qed

end

section \<open>A request and its acknowledgement\<close>

text \<open>The server is connected, accepts requests and has one message to handle.\<close>

definition server_handles :: "string \<Rightarrow> 'c \<Rightarrow> ('w, 'c, 'db) Server \<Rightarrow> bool" where
  "server_handles payload client sv \<longleftrightarrow> sv_inflight sv = [payload] \<and> sv_alive sv \<and> \<not> thread_failed (sv_thread sv) \<and>
     mq_client (sv_mqtt sv) = Some client \<and> dsp_tasks (sv_dispatcher sv) = [] \<and> dsp_accepting (sv_dispatcher sv) \<and>
     dsp_poolOpen (sv_dispatcher sv) \<and> dsp_hasPublisher (sv_dispatcher sv)"

lemma handler_accepts:
  assumes "server_handles payload client sv" "pr_request (ParseRequest (se_parse env) payload) = Some request"
  obtains d q where "handler_runs env sv = Some (sv\<lparr>sv_inflight := [], sv_dispatcher := d, sv_mqtt := q,
      sv_accepted := sv_accepted sv @ [request]\<rparr>)" "dsp_tasks d = [request]" "dsp_database d = dsp_database (sv_dispatcher sv)"
    "dsp_hasPublisher d" "mq_client q = Some client" "mq_world q = mq_world (sv_mqtt sv)"
    "mq_nextListener q = mq_nextListener (sv_mqtt sv)"
  using assms that
  by (auto simp: server_handles_def handler_runs_def HandleIncomingPayload_def Dispatch_def on_dispatcher_def on_mqtt_def
      report_handler_def cret_def Let_def with_app_def)

lemma worker_acknowledges:
  assumes "dsp_tasks (sv_dispatcher sv) = [request]" "sv_alive sv" "dsp_hasPublisher (sv_dispatcher sv)"
    "mq_client (sv_mqtt sv) = Some client" "IsValidClientId (rq_sourceClientId request)"
    "ExecuteWorkerRequest (se_open env) (se_conn env) (se_now env) request (dsp_database (sv_dispatcher sv)) = (Inr ack, db)"
  shows "\<exists>sv'. worker_runs env sv = Some sv' \<and>
    mq_world (sv_mqtt sv') = snd (paho_publish (se_paho env) client (AckTopicForClient (rq_sourceClientId request)) (SerializeAck ack)
      DeliveryQos RetainMessages (mq_nextListener (sv_mqtt sv)) (mq_world (sv_mqtt sv)))"
  using assms
  by (auto simp: worker_runs_def on_dispatcher_def run_task_def RecordAndPublishAck_def with_app_def publish_ack_def Publish_def
      tracked_call_def TrackOperation_def on_world_def CancelOperation_def cret_def cseq_def cbind_def Let_def
      split: prod.splits sum.splits cpp_exn.splits)

section \<open>Properties\<close>

text \<open>
  C17: a request and its acknowledgement. The request that the console makes of its form is accepted
  by the server and, when its handler returns, acknowledged: the acknowledgement carries the id of
  the request and is published to the topic of the client id in the form. A client shows it exactly
  when that id is the one it had subscribed for when its MQTT thread started: after the user has
  edited the client id, no acknowledgement reaches the screen.
\<close>

theorem acknowledgement_reaches_its_client:
  assumes client: "client_reachable paho s" "cl_subscribed s = Some i" "IsValidClientId i"
    and request: "json_reader (se_parse env)" "IsValidClientId (con_clientId c)" "now \<noteq> []" "request_safe (console_request now n c)"
    and server: "server_handles (SerializeRequest (console_request now n c)) k sv"
      "ExecuteWorkerRequest (se_open env) (se_conn env) (se_now env) (console_request now n c) (dsp_database (sv_dispatcher sv)) =
        (Inr ack, db)"
  shows "\<exists>sv'. server_run env [HandlerRuns, WorkerRuns] sv = Some sv' \<and>
    ack_requestId ack = rq_id (console_request now n c) \<and>
    mq_world (sv_mqtt sv') = snd (paho_publish (se_paho env) k (AckTopicForClient (con_clientId c)) (SerializeAck ack)
      DeliveryQos RetainMessages (mq_nextListener (sv_mqtt sv)) (mq_world (sv_mqtt sv))) \<and>
    map_option app_acks (mq_appState (client_receives (AckTopicForClient (con_clientId c)) (SerializeAck ack) (cl_mqtt s))) =
      map_option (\<lambda>app. if con_clientId c = i then AddBounded (app_acks app) (SerializeAck ack) else app_acks app)
        (mq_appState (cl_mqtt s))"
proof -
  let ?r = "console_request now n c"
  have parsed: "pr_request (ParseRequest (se_parse env) (SerializeRequest ?r)) = Some ?r"
    using json_reader.ParseRequest_SerializeRequest [OF request(1,4) console_request_complete [OF request(2,3)]] by simp
  obtain d q where h: "handler_runs env sv = Some (sv\<lparr>sv_inflight := [], sv_dispatcher := d, sv_mqtt := q,
      sv_accepted := sv_accepted sv @ [?r]\<rparr>)" "dsp_tasks d = [?r]" "dsp_database d = dsp_database (sv_dispatcher sv)"
    "dsp_hasPublisher d" "mq_client q = Some k" "mq_world q = mq_world (sv_mqtt sv)" "mq_nextListener q = mq_nextListener (sv_mqtt sv)"
    using server(1) parsed by (rule handler_accepts)
  have "IsValidClientId (rq_sourceClientId ?r)" using request(2) by (simp add: console_request_def)
  with h server worker_acknowledges [of "sv\<lparr>sv_inflight := [], sv_dispatcher := d, sv_mqtt := q,
      sv_accepted := sv_accepted sv @ [?r]\<rparr>" ?r k env ack db]
  obtain sv' where "server_run env [HandlerRuns, WorkerRuns] sv = Some sv'"
    "mq_world (sv_mqtt sv') = snd (paho_publish (se_paho env) k (AckTopicForClient (con_clientId c)) (SerializeAck ack)
      DeliveryQos RetainMessages (mq_nextListener (sv_mqtt sv)) (mq_world (sv_mqtt sv)))"
    by (auto simp: server_step_def server_handles_def console_request_def)
  moreover have "ack_requestId ack = rq_id ?r" using ExecuteWorkerRequest_id server(2) by fastforce
  ultimately show ?thesis using client_receives_acks [OF client, of "con_clientId c" "SerializeAck ack"] by blast
qed

definition sample_client :: "(paho_call list, string) Client" where
  "sample_client = the (client_thread_runs (log_paho False) False (start_client []))"

lemma sample_client_started:
  "client_reachable (log_paho False) sample_client" "cl_subscribed sample_client = Some ''watchlist-client''"
  "mq_appState (cl_mqtt sample_client) = Some client_app"
proof -
  have step: "client_step (log_paho False) (ClThreadRuns False) (start_client []) = Some sample_client"
    by (simp add: client_step_def sample_client_def client_thread_runs_def start_client_def Let_def split: prod.splits)
  with client_reachable.Start show "client_reachable (log_paho False) sample_client" by (rule client_reachable.Step)
  show "cl_subscribed sample_client = Some ''watchlist-client''" "mq_appState (cl_mqtt sample_client) = Some client_app"
    by (simp_all add: sample_client_def client_thread_runs_def start_client_def initial_mqtt_def client_app_def Subscribe_def
        SetOutboundCommandHandler_def UpdateConsole_def SnapshotConsole_def Let_def)
qed

definition sample_ack :: MqttAck where
  "sample_ack = handle_ExecuteScript ''now'' (console_request ''now'' 7 default_console)"

definition sample_handling :: "(paho_call list, string, ref_conn) Server" where
  "sample_handling = sample_server\<lparr>sv_inflight := [SerializeRequest (console_request ''now'' 7 default_console)],
     sv_mqtt := (sv_mqtt sample_server)\<lparr>mq_client := Some ''tcp''\<rparr>\<rparr>"

lemma sample_handling_ready:
  "server_handles (SerializeRequest (console_request ''now'' 7 default_console)) ''tcp'' sample_handling"
  "ExecuteWorkerRequest (se_open sample_server_env) (se_conn sample_server_env) (se_now sample_server_env)
     (console_request ''now'' 7 default_console) (dsp_database (sv_dispatcher sample_handling)) =
   (Inr sample_ack, dsp_database (sv_dispatcher sample_handling))"
  by (simp_all add: server_handles_def sample_handling_def sample_server_def start_server_def sample_server_env_def
      ExecuteWorkerRequest_def console_request_def message_type_of_def default_console_def sample_ack_def cret_def)

theorem acknowledgement_reaches_its_client_witness:
  "\<exists>sv'. server_run sample_server_env [HandlerRuns, WorkerRuns] sample_handling = Some sv' \<and>
    ack_requestId sample_ack = rq_id (console_request ''now'' 7 default_console) \<and>
    map_option app_acks (mq_appState (client_receives (AckTopicForClient ''watchlist-client'') (SerializeAck sample_ack)
      (cl_mqtt sample_client))) = Some [SerializeAck sample_ack]"
proof -
  have seven: "dec_of_nat 7 = ''7''" by code_simp
  have 1: "json_reader (se_parse sample_server_env)" by (simp add: sample_server_env_def flat.json_reader_axioms)
  have 2: "IsValidClientId ''watchlist-client''" "IsValidClientId (con_clientId default_console)"
    by (simp_all add: default_console_def request_eval)
  have 3: "request_safe (console_request ''now'' 7 default_console)"
    using seven by (simp add: request_safe_def console_request_def default_console_def request_eval message_type_of_def)
  from acknowledgement_reaches_its_client [OF sample_client_started(1,2) 2(1) 1 2(2) _ 3 sample_handling_ready] show ?thesis
    by (auto simp: sample_client_started(3) default_console_def client_app_def AddBounded_def maxLines_def initial_app_state_def
        SetOutboundCommandHandler_def UpdateConsole_def SnapshotConsole_def)
qed

end
