(* ===== verification/Application_Start.thy ===== *)
theory Application_Start
  imports Prelude
begin

text \<open>
  \<^verbatim>\<open>src/src/Watchlist/ApplicationPaths.cpp\<close> and \<^verbatim>\<open>Application.cpp\<close>: where the database file is,
  and the composition root with its injected dependencies. Of \<^verbatim>\<open>std::filesystem::path\<close>
  the POSIX behaviour of the members that the sources use is modelled on strings; the
  file system itself (current directory, creation and test of directories) is a parameter, and
  so are the injected functions.
\<close>

section \<open>Paths\<close>

definition is_absolute :: "string \<Rightarrow> bool" where
  "is_absolute p \<longleftrightarrow> p \<noteq> [] \<and> hd p = CHR ''/''"

definition ends_in_separator :: "string \<Rightarrow> bool" where
  "ends_in_separator p \<longleftrightarrow> p \<noteq> [] \<and> last p = CHR ''/''"

text \<open>\<^verbatim>\<open>operator/\<close>.\<close>

definition path_append :: "string \<Rightarrow> string \<Rightarrow> string" where
  "path_append p q =
     (if is_absolute q then q
      else if p = [] \<or> ends_in_separator p then p @ q
      else p @ ''/'' @ q)"

text \<open>\<^verbatim>\<open>filename()\<close> is what follows the last separator.\<close>

definition path_filename :: "string \<Rightarrow> string" where
  "path_filename p = last (split_sep (CHR ''/'') p)"

text \<open>
  \<^verbatim>\<open>lexically_normal()\<close> of an absolute path: the components are walked with a stack; a
  final empty, dot or dot-dot component leaves a trailing separator.
\<close>

fun normal_walk :: "string list \<Rightarrow> string list \<Rightarrow> string list \<times> bool" where
  "normal_walk stack [] = (stack, False)"
| "normal_walk stack [c] =
     (if c = [] \<or> c = ''.'' then (stack, True)
      else if c = ''..'' then (butlast stack, True)
      else (stack @ [c], False))"
| "normal_walk stack (c # d # cs) =
     (if c = [] \<or> c = ''.'' then normal_walk stack (d # cs)
      else if c = ''..'' then normal_walk (butlast stack) (d # cs)
      else normal_walk (stack @ [c]) (d # cs))"

definition lexically_normal :: "string \<Rightarrow> string" where
  "lexically_normal p =
     (case normal_walk [] (split_sep (CHR ''/'') (tl p)) of
        (stack, slash) \<Rightarrow> CHR ''/'' # join_sep (CHR ''/'') stack @ (if slash \<and> stack \<noteq> [] then ''/'' else []))"

text \<open>\<^verbatim>\<open>parent_path()\<close> of a normal absolute path.\<close>

definition parent_path :: "string \<Rightarrow> string" where
  "parent_path p =
     (let parent = join_sep (CHR ''/'') (butlast (split_sep (CHR ''/'') p)) in
      if parent = [] then ''/'' else parent)"

record file_system =
  fs_current_path :: "string + string"
  fs_create_directories :: "string \<Rightarrow> string option"
  fs_is_directory :: "string \<Rightarrow> bool"

definition absolute :: "file_system \<Rightarrow> string \<Rightarrow> string + string" where
  "absolute fs p =
     (if is_absolute p then Inr p
      else case fs_current_path fs of Inl message \<Rightarrow> Inl message | Inr cwd \<Rightarrow> Inr (path_append cwd p))"

section \<open>The database path\<close>

datatype HostPlatform = Windows | Linux | MacOS

record PathEnvironment =
  localAppData :: "string option"
  xdgDataHome :: "string option"
  home :: "string option"

text \<open>An environment variable that is unset or empty is no path.\<close>

definition EnvironmentPath :: "(string \<Rightarrow> string option) \<Rightarrow> string \<Rightarrow> string option" where
  "EnvironmentPath getenv name =
     (case getenv name of None \<Rightarrow> None | Some value \<Rightarrow> if value = [] then None else Some value)"

definition PreparePath :: "file_system \<Rightarrow> string \<Rightarrow> cpp_exn + string" where
  "PreparePath fs path =
     (if path = [] \<or> path_filename path = [] then Inl (InvalidArgument ''database path must name a file'')
      else case absolute fs path of
        Inl message \<Rightarrow> Inl (RuntimeError (''could not normalize database path: '' @ message))
      | Inr full \<Rightarrow>
          (let path' = lexically_normal full; parent = parent_path path' in
           case fs_create_directories fs parent of
             Some message \<Rightarrow> Inl (RuntimeError (''could not create database directory '' @ parent @ '': '' @ message))
           | None \<Rightarrow>
               if \<not> fs_is_directory fs parent
               then Inl (RuntimeError (''database parent is not a usable directory: '' @ parent))
               else Inr path'))"

definition starts_with :: "string \<Rightarrow> string \<Rightarrow> bool" where
  "starts_with prefix s \<longleftrightarrow> take (length prefix) s = prefix"

fun find_override :: "string list \<Rightarrow> string option \<Rightarrow> cpp_exn + string option" where
  "find_override [] overridePath = Inr overridePath"
| "find_override (argument # rest) overridePath =
     (if argument \<noteq> ''--database-path'' then find_override rest overridePath
      else if overridePath \<noteq> None then Inl (InvalidArgument ''--database-path may be specified only once'')
      else case rest of
        [] \<Rightarrow> Inl (InvalidArgument ''--database-path requires a non-empty file path'')
      | value # rest' \<Rightarrow>
          if value = [] \<or> starts_with ''--'' value
          then Inl (InvalidArgument ''--database-path requires a non-empty file path'')
          else find_override rest' (Some value))"

definition default_path :: "HostPlatform \<Rightarrow> PathEnvironment \<Rightarrow> cpp_exn + string" where
  "default_path platform environment =
     (case platform of
        Windows \<Rightarrow>
          (case localAppData environment of
             None \<Rightarrow> Inl (RuntimeError ''LOCALAPPDATA is required to resolve the Watchlist database'')
           | Some d \<Rightarrow> Inr (path_append (path_append d ''Watchlist'') ''watchlist.sqlite''))
      | Linux \<Rightarrow>
          (case xdgDataHome environment of
             Some d \<Rightarrow> Inr (path_append (path_append d ''watchlist'') ''watchlist.sqlite'')
           | None \<Rightarrow>
               (case home environment of
                  Some d \<Rightarrow> Inr (path_append (path_append (path_append (path_append d ''.local'') ''share'') ''watchlist'') ''watchlist.sqlite'')
                | None \<Rightarrow> Inl (RuntimeError ''XDG_DATA_HOME or HOME is required to resolve the Watchlist database'')))
      | MacOS \<Rightarrow>
          (case home environment of
             None \<Rightarrow> Inl (RuntimeError ''HOME is required to resolve the Watchlist database'')
           | Some d \<Rightarrow> Inr (path_append (path_append (path_append (path_append d ''Library'') ''Application Support'') ''Watchlist'') ''watchlist.sqlite'')))"

definition ResolveDatabasePath ::
    "file_system \<Rightarrow> string list \<Rightarrow> HostPlatform \<Rightarrow> PathEnvironment \<Rightarrow> cpp_exn + string" where
  "ResolveDatabasePath fs arguments platform environment =
     ebind (find_override arguments None) (\<lambda>overridePath.
       case overridePath of
         Some path \<Rightarrow> PreparePath fs path
       | None \<Rightarrow> ebind (default_path platform environment) (PreparePath fs))"

text \<open>The overload that \<^verbatim>\<open>main\<close> uses; \<open>argv\<close> starts with the program's name.\<close>

definition ResolveDatabasePath_main ::
    "file_system \<Rightarrow> (string \<Rightarrow> string option) \<Rightarrow> HostPlatform \<Rightarrow> string list \<Rightarrow> cpp_exn + string" where
  "ResolveDatabasePath_main fs getenv platform argv =
     ResolveDatabasePath fs (drop 1 argv) platform
       \<lparr>localAppData = EnvironmentPath getenv ''LOCALAPPDATA'',
        xdgDataHome = EnvironmentPath getenv ''XDG_DATA_HOME'', home = EnvironmentPath getenv ''HOME''\<rparr>"

section \<open>The composition root\<close>

record ApplicationSubsystemResult =
  asr_success :: bool
  asr_error :: string

text \<open>An empty \<^verbatim>\<open>std::function\<close> is \<open>None\<close>; the functions act on the state of the rest of the program.\<close>

record 'w ApplicationDependencies =
  announceStartup :: "('w, unit) comp option"
  waitForProfiler :: "('w, unit) comp option"
  resolveDatabasePath :: "(string list \<Rightarrow> ('w, string) comp) option"
  runGui :: "(string \<Rightarrow> bool \<Rightarrow> ('w, ApplicationSubsystemResult) comp) option"

definition HasArgument :: "string list \<Rightarrow> string \<Rightarrow> bool" where
  "HasArgument arguments argument \<longleftrightarrow> list_ex (\<lambda>candidate. candidate = argument) arguments"

definition ValidateDependencies :: "'w ApplicationDependencies \<Rightarrow> cpp_exn + unit" where
  "ValidateDependencies d =
     (if announceStartup d = None \<or> waitForProfiler d = None \<or> resolveDatabasePath d = None \<or> runGui d = None
      then Inl (InvalidArgument ''application dependencies must all be configured'') else Inr ())"

datatype exit_code = EXIT_SUCCESS | EXIT_FAILURE

definition application_body ::
    "string list \<Rightarrow> 'w ApplicationDependencies \<Rightarrow> ('w, ApplicationSubsystemResult) comp" where
  "application_body arguments d =
     cseq (clift (ValidateDependencies d))
      (cseq (if HasArgument arguments ''--wait-for-tracy'' then the (waitForProfiler d) else cret ())
       (cseq (the (announceStartup d))
        (cbind (the (resolveDatabasePath d) arguments) (\<lambda>databasePath.
          the (runGui d) databasePath (HasArgument arguments ''--gui-smoke'')))))"

text \<open>The exit code, the error that is logged, if any, and the state left.\<close>

definition RunApplication ::
    "string list \<Rightarrow> 'w ApplicationDependencies \<Rightarrow> 'w \<Rightarrow> exit_code \<times> string option \<times> 'w" where
  "RunApplication arguments d w =
     (case application_body arguments d w of
        (Inr guiResult, w') \<Rightarrow>
          if \<not> asr_success guiResult
          then (EXIT_FAILURE, if asr_error guiResult \<noteq> [] then Some (asr_error guiResult) else None, w')
          else (EXIT_SUCCESS, None, w')
      | (Inl e, w') \<Rightarrow>
          (EXIT_FAILURE,
           Some (if is_std_exception e then what e else ''Unknown error in application startup.''), w'))"

section \<open>Resolved paths\<close>

definition plain_component :: "string \<Rightarrow> bool" where
  "plain_component c \<longleftrightarrow> c \<noteq> [] \<and> c \<noteq> ''.'' \<and> c \<noteq> ''..'' \<and> CHR ''/'' \<notin> set c"

text \<open>A normal path lists plain components, with or without a trailing separator.\<close>

definition normal_path :: "string list \<Rightarrow> bool \<Rightarrow> string" where
  "normal_path stack slash =
     CHR ''/'' # join_sep (CHR ''/'') stack @ (if slash \<and> stack \<noteq> [] then ''/'' else [])"

lemma plain_butlast: "list_all plain_component stack \<Longrightarrow> list_all plain_component (butlast stack)"
  by (metis append_butlast_last_id butlast.simps(1) list_all_append)

lemma normal_walk_plain:
  "list_all plain_component stack \<Longrightarrow> \<forall>c \<in> set cs. CHR ''/'' \<notin> set c \<Longrightarrow> normal_walk stack cs = (stack', slash) \<Longrightarrow>
     list_all plain_component stack'"
proof (induction stack cs rule: normal_walk.induct)
  case (2 stack c)
  have "list_all plain_component (stack @ [c])" if "c \<noteq> []" "c \<noteq> ''.''" "c \<noteq> ''..''"
    using that "2.prems"(1,2) by (simp add: plain_component_def [of c])
  with "2.prems"(1,3) plain_butlast [OF "2.prems"(1)] show ?case by (auto split: if_splits)
next
  case (3 stack c d cs)
  have "list_all plain_component (stack @ [c])" if "c \<noteq> []" "c \<noteq> ''.''" "c \<noteq> ''..''"
    using that "3.prems"(1,2) by (simp add: plain_component_def [of c])
  with "3.IH" "3.prems" plain_butlast [OF "3.prems"(1)] show ?case by (simp split: if_splits)
qed simp

lemma lexically_normal_eq:
  "\<exists>stack slash. list_all plain_component stack \<and> lexically_normal p = normal_path stack slash \<and>
     normal_walk [] (split_sep (CHR ''/'') (tl p)) = (stack, slash)"
proof -
  obtain stack slash where w: "normal_walk [] (split_sep (CHR ''/'') (tl p)) = (stack, slash)" by fastforce
  have "list_all plain_component stack"
    by (rule normal_walk_plain [OF _ _ w]) (auto dest: split_sep_parts)
  with w show ?thesis by (auto simp: lexically_normal_def normal_path_def)
qed

lemma normal_walk_append:
  "list_all plain_component cs \<Longrightarrow> cs \<noteq> [] \<Longrightarrow> normal_walk stack cs = (stack @ cs, False) \<and>
     normal_walk stack (cs @ [[]]) = (stack @ cs, True)"
proof (induction cs arbitrary: stack)
  case (Cons c cs)
  then show ?case by (cases cs) (auto simp: plain_component_def)
qed simp

lemma join_sep_snoc: "cs \<noteq> [] \<Longrightarrow> join_sep c (cs @ [d]) = join_sep c cs @ c # d"
  by (induction c cs rule: join_sep.induct) auto

lemma split_normal_path:
  assumes "list_all plain_component stack" "stack \<noteq> []"
  shows "split_sep (CHR ''/'') (join_sep (CHR ''/'') stack @ (if slash then ''/'' else [])) =
    stack @ (if slash then [[]] else [])"
proof -
  have parts: "\<forall>c \<in> set stack. CHR ''/'' \<notin> set c" using assms(1) by (auto simp: list_all_iff plain_component_def)
  show ?thesis
  proof (cases slash)
    case True
    have "join_sep (CHR ''/'') stack @ ''/'' = join_sep (CHR ''/'') (stack @ [[]])"
      using assms(2) by (simp add: join_sep_snoc)
    with True parts split_join [of "stack @ [[]]" "CHR ''/''"] show ?thesis by simp
  next
    case False
    with parts assms(2) split_join [of stack "CHR ''/''"] show ?thesis by simp
  qed
qed

text \<open>Normalising is idempotent.\<close>

lemma lexically_normal_idem: "lexically_normal (lexically_normal p) = lexically_normal p"
proof -
  obtain stack slash where n: "list_all plain_component stack" "lexically_normal p = normal_path stack slash"
    using lexically_normal_eq by blast
  show ?thesis
  proof (cases "stack = []")
    case True
    with n show ?thesis by (simp add: normal_path_def lexically_normal_def split_sep_notin)
  next
    case False
    with split_normal_path [OF n(1) False, of slash] normal_walk_append [OF n(1) False, of "[]"] n(2)
    show ?thesis by (cases slash) (simp_all add: normal_path_def lexically_normal_def)
  qed
qed

lemma normal_walk_last:
  "plain_component d \<Longrightarrow> normal_walk stack (cs @ [d]) = (stack', slash) \<Longrightarrow> \<not> slash \<and> stack' \<noteq> [] \<and> last stack' = d"
proof (induction stack cs rule: normal_walk.induct)
  case (3 stack c e cs)
  then show ?case by (auto split: if_splits)
qed (auto simp: plain_component_def split: if_splits)

lemma split_sep_snoc: "\<exists>ps. ps \<noteq> [] \<and> split_sep c (a @ c # p) = ps @ split_sep c p"
proof (induction a)
  case Nil
  show ?case by (rule exI [of _ "[[]]"]) (simp add: split_sep_Cons_code)
next
  case (Cons x a)
  then obtain q qs where q: "split_sep c (a @ c # p) = (q # qs) @ split_sep c p" by (metis neq_Nil_conv)
  show ?case
    by (rule exI [of _ "if x = c then [] # q # qs else (x # q) # qs"]) (simp add: split_sep_Cons_code q)
qed

lemma last_split_sep: "last (split_sep c (a @ c # p)) = last (split_sep c p)"
  using split_sep_snoc [of c a p] by auto

lemma filename_append: "p \<noteq> [] \<Longrightarrow> path_filename (path_append d p) = path_filename p"
proof -
  have "path_filename (d @ p) = path_filename p" if "ends_in_separator d"
    using that last_split_sep [of "CHR ''/''" "butlast d" p]
    by (simp add: ends_in_separator_def path_filename_def) (metis append.assoc append_Cons append_butlast_last_id append_Nil)
  then show ?thesis by (auto simp: path_append_def path_filename_def last_split_sep)
qed

lemma is_absolute_append: "is_absolute d \<Longrightarrow> is_absolute (path_append d p)"
  by (auto simp: path_append_def is_absolute_def)

lemma filename_normal:
  assumes "is_absolute p" "path_filename p \<noteq> []" "path_filename p \<noteq> ''.''" "path_filename p \<noteq> ''..''"
  shows "path_filename (lexically_normal p) = path_filename p"
proof -
  obtain q where q: "p = CHR ''/'' # q" using assms(1) by (cases p) (auto simp: is_absolute_def)
  define cs where "cs = butlast (split_sep (CHR ''/'') q)"
  have d: "split_sep (CHR ''/'') q = cs @ [path_filename p]"
    using last_split_sep [of "CHR ''/''" "[]" q] by (simp add: q cs_def path_filename_def)
  have plain: "plain_component (path_filename p)"
    using assms(2-4) d split_sep_parts [of "path_filename p" "CHR ''/''" q] by (simp add: plain_component_def)
  obtain stack slash where n: "list_all plain_component stack" "lexically_normal p = normal_path stack slash"
    "normal_walk [] (cs @ [path_filename p]) = (stack, slash)"
    using lexically_normal_eq [of p] d by (auto simp: q)
  note last = normal_walk_last [OF plain n(3)]
  with split_normal_path [OF n(1), of False] last_split_sep [of "CHR ''/''" "[]" "join_sep (CHR ''/'') stack"]
  show ?thesis by (simp add: n(2) normal_path_def path_filename_def)
qed

lemma is_absolute_normal: "is_absolute (lexically_normal p)"
  by (auto simp: lexically_normal_def is_absolute_def split: prod.splits)

lemma absolute_filename:
  "absolute fs path = Inr full \<Longrightarrow> path \<noteq> [] \<Longrightarrow> (\<And>cwd. fs_current_path fs = Inr cwd \<Longrightarrow> is_absolute cwd) \<Longrightarrow>
     is_absolute full \<and> path_filename full = path_filename path"
  by (auto simp: absolute_def filename_append is_absolute_append split: if_splits sum.splits)

lemma PreparePath_result:
  assumes p: "PreparePath fs path = Inr p" and cwd: "\<And>cwd. fs_current_path fs = Inr cwd \<Longrightarrow> is_absolute cwd"
  shows "is_absolute p \<and> lexically_normal p = p \<and> fs_is_directory fs (parent_path p) \<and>
    (path_filename path \<notin> {''.'', ''..''} \<longrightarrow> path_filename p = path_filename path)"
proof -
  obtain full where full: "absolute fs path = Inr full" "p = lexically_normal full" "path \<noteq> []" "path_filename path \<noteq> []"
    "fs_is_directory fs (parent_path p)"
    using p by (auto simp: PreparePath_def Let_def split: if_splits sum.splits option.splits)
  with absolute_filename [OF full(1,3) cwd] filename_normal [of full] show ?thesis
    by (auto simp: is_absolute_normal lexically_normal_idem)
qed

lemma default_path_filename: "default_path platform environment = Inr path \<Longrightarrow> path_filename path = ''watchlist.sqlite''"
  by (auto simp: default_path_def filename_append path_filename_def [of "''watchlist.sqlite''"] split_sep_notin
      split: HostPlatform.splits option.splits)


definition sample_fs :: file_system where
  "sample_fs = \<lparr>fs_current_path = Inr ''/u'', fs_create_directories = (\<lambda>_. None), fs_is_directory = (\<lambda>_. True)\<rparr>"

definition empty_environment :: PathEnvironment where
  "empty_environment = \<lparr>localAppData = None, xdgDataHome = None, home = None\<rparr>"

lemma sample_resolve:
  "ResolveDatabasePath sample_fs [''--database-path'', ''d/../x.db''] Linux empty_environment = Inr ''/u/x.db''"
  by code_simp


text \<open>
  The proviso is needed: the test that the path names a file comes before normalisation, so a
  path that ends in a dot component resolves to a directory.
\<close>

lemma dot_path_resolves_to_directory:
  "ResolveDatabasePath sample_fs [''--database-path'', ''d/..''] Linux empty_environment = Inr ''/u/'' \<and>
   path_filename ''/u/'' = []"
  by code_simp

section \<open>Exit codes\<close>

text \<open>
  The application reports success exactly when every dependency is configured, none throws
  and the GUI reports success; it never throws itself.
\<close>

lemma RunApplication_success:
  "fst (RunApplication arguments d w) = EXIT_SUCCESS \<longleftrightarrow>
     (\<exists>r w'. application_body arguments d w = (Inr r, w') \<and> asr_success r)"
  by (auto simp: RunApplication_def split: prod.splits sum.splits)

lemma RunApplication_unconfigured:
  "runGui d = None \<Longrightarrow>
     RunApplication arguments d w = (EXIT_FAILURE, Some ''application dependencies must all be configured'', w)"
  by (simp add: RunApplication_def application_body_def ValidateDependencies_def cthrow_def)

end
