(* ===== verification/Desktop_Program.thy ===== *)
theory Desktop_Program
  imports Client_Program Async_Event_Loop Application_Start
begin

text \<open>
  \<^verbatim>\<open>src/src/Watchlist/main.cpp\<close>: the desktop program. \<^verbatim>\<open>runGui\<close> puts four tasks on a pool of four
  workers (the storage worker, the MQTT service, the event loop of the demo and the GUI), waits for
  the GUI, stops the others, waits for them and combines what is left of the storage results. The
  tasks, the main thread and the callbacks of the MQTT library are interleaved; a frame of the GUI
  is one step of the storage pump between the actions of the user. Logging, profiling and waiting
  for the profiler are left out.
\<close>

section \<open>The demo of the event loop\<close>

text \<open>A callback of the demo logs a line; the tasks are named by their frames.\<close>

definition PopulateAsyncIoDemo :: "int \<Rightarrow> string AsyncEventLoop \<Rightarrow> nat list \<times> string AsyncEventLoop" where
  "PopulateAsyncIoDemo now l =
     (let (t1, l) = wait_for_event ''application_started'' l;
          (t2, l) = wait_for_event ''custom_event'' l;
          (t3, l) = wait_for_event ''sensor_data_0'' l;
          (t4, l) = schedule_after now 1000 ''AsyncIO demo one-second task executed.'' l;
          (t5, l) = schedule_after now 250 ''AsyncIO demo 250ms task executed.'' l;
          (t6, l) = schedule ''AsyncIO demo immediate task executed.'' l;
          eventStream = create_event_stream ''sensor_data'' 5;
          (t7, l) = process_events now eventStream l
      in ([t1, t2, t3, t4, t5, t6, t7], l))"

section \<open>State\<close>

text \<open>
  The points of the main thread. An exception that is on its way out is kept in the point: stopping
  is followed by waiting for the workers when there is none, and by leaving otherwise. Leaving, by
  return or exception, destroys the pool, which joins its workers.
\<close>

datatype desktop_point =
    DkEnqueue | DkEmitStarted | DkEmitCustom | DkWaitGui
  | DkStopStorage "cpp_exn option" | DkStopMessaging "cpp_exn option" | DkStopLoop "cpp_exn option"
  | DkGetSql | DkGetMessaging | DkGetLoop | DkClearHandler | DkPoll
  | DkLeave "cpp_exn + GuiResult" | DkEnded "cpp_exn + GuiResult"

datatype gui_task = GuiLoop | GuiClosing | GuiEnded "cpp_exn + GuiResult"

text \<open>
  \<open>dk_enqueued\<close> and \<open>dk_taken\<close> count the tasks given to the pool and taken by its workers: as many
  workers as tasks, so a task never waits for another. The GUI task ends with the loop of frames
  (\<open>GuiLoop\<close>), after the pump has failed (\<open>GuiClosing\<close>), or has ended. \<open>dk_subs\<close> and \<open>dk_polled\<close> are
  history: the batches submitted and the results taken from the storage service.
\<close>

record ('w, 'c, 'd) Desktop =
  dk_main :: desktop_point
  dk_enqueued :: nat
  dk_taken :: nat
  dk_storage :: "'d DeviceStorageService"
  dk_monitor :: DeviceMonitorState
  dk_mqtt :: "('w, 'c, client_handler) MqttService"
  dk_messaging :: thread_point
  dk_stop :: bool
  dk_loop :: "string AsyncEventLoop"
  dk_loopError :: "cpp_exn option"
  dk_gui :: gui_task
  dk_result :: GuiResult
  dk_subs :: "DeviceCommand list list"
  dk_polled :: "DeviceStorageResult list"

record ('w, 'c, 'd) desktop_env =
  de_paho :: "('w, 'c) paho"
  de_db :: "'d IDatabase"
  de_call :: "string \<Rightarrow> cpp_exn option"

definition desktop_storage :: "'d \<Rightarrow> 'd DeviceStorageService" where
  "desktop_storage d = projr (construct_service (Some d) CallingThread)"

definition start_desktop :: "bool \<Rightarrow> int \<Rightarrow> 'w \<Rightarrow> 'd \<Rightarrow> ('w, 'c, 'd) Desktop" where
  "start_desktop hidden now w d =
     \<lparr>dk_main = DkEnqueue, dk_enqueued = 0, dk_taken = 0, dk_storage = desktop_storage d,
      dk_monitor = (if hidden then RequestExit initial_monitor else initial_monitor),
      dk_mqtt = initial_mqtt w (Some (SetOutboundCommandHandler (Some ()) initial_app_state)), dk_messaging = ThreadStart,
      dk_stop = False, dk_loop = snd (PopulateAsyncIoDemo now (construct_AsyncEventLoop LoopCallingThread)),
      dk_loopError = None, dk_gui = GuiLoop, dk_result = \<lparr>gui_success = False, gui_error = []\<rparr>,
      dk_subs = [[refresh_command]], dk_polled = []\<rparr>"

section \<open>The tasks\<close>

text \<open>
  The tasks are the storage worker (0), messaging (1), the event loop (2) and the GUI (3).
  A worker of the pool takes the oldest one and runs it up to its first wait.
\<close>

definition pool_takes :: "('w, 'c, 'd) Desktop \<Rightarrow> ('w, 'c, 'd) Desktop option" where
  "pool_takes s =
     (if dk_taken s = dk_enqueued s then None
      else let t = s\<lparr>dk_taken := dk_taken s + 1\<rparr> in
        Some (if dk_taken s = 0 then t\<lparr>dk_storage := RunOnCallingThread_begin (dk_storage s)\<rparr>
          else if dk_taken s = 2
          then (case run_on_calling_thread (dk_loop s) of
                  (ok, l) \<Rightarrow> t\<lparr>dk_loop := l, dk_loopError :=
                    (if ok then None else Some (RuntimeError ''AsyncIO event loop could not start on its pool worker''))\<rparr>)
          else t))"

definition sql_runs :: "('w, 'c, 'd) desktop_env \<Rightarrow> ('w, 'c, 'd) Desktop \<Rightarrow> ('w, 'c, 'd) Desktop option" where
  "sql_runs env s = map_option (\<lambda>st. s\<lparr>dk_storage := st\<rparr>) (worker_step (de_db env) (dk_storage s))"

definition sql_done :: "('w, 'c, 'd) Desktop \<Rightarrow> bool" where
  "sql_done s \<longleftrightarrow> 0 < dk_taken s \<and> svc_worker (dk_storage s) = Finished"

text \<open>The exception handlers of the messaging task.\<close>

definition note_exception :: "run_point \<Rightarrow> ('w, 'c, 'h) MqttService \<Rightarrow> ('w, 'c, 'h) MqttService" where
  "note_exception point =
     (case point of
        RunThrown e \<Rightarrow>
          update_app (AddActivity (if is_std_exception e then ''Asynchronous messaging stopped: '' @ what e
            else ''Asynchronous messaging stopped with an unknown error''))
      | _ \<Rightarrow> (\<lambda>q. q))"

definition messaging_runs :: "('w, 'c, 'd) desktop_env \<Rightarrow> bool \<Rightarrow> ('w, 'c, 'd) Desktop \<Rightarrow> ('w, 'c, 'd) Desktop option" where
  "messaging_runs env expired s =
     (if dk_taken s < 2 then None
      else case dk_messaging s of
        ThreadStart \<Rightarrow>
          (let console = (case mq_appState (dk_mqtt s) of None \<Rightarrow> default_console | Some app \<Rightarrow> SnapshotConsole app) in
           case Subscribe (de_paho env) (AckTopicForClient (con_clientId console)) (Some HandleAck) (dk_mqtt s) of
             (r, q) \<Rightarrow>
               (let point = (case r of Inr _ \<Rightarrow> RunCheck | Inl e \<Rightarrow> RunThrown e) in
                Some (s\<lparr>dk_mqtt := note_exception point q,
                  dk_messaging := ThreadRuns (con_brokerHost console) (con_brokerPort console) (con_clientId console) point 1\<rparr>)))
      | ThreadRuns host port client point delay \<Rightarrow>
          (case run_step (de_paho env) host port client (dk_stop s) expired (point, delay, dk_mqtt s) of
             None \<Rightarrow> None
           | Some (point', delay', q) \<Rightarrow>
               Some (s\<lparr>dk_messaging := ThreadRuns host port client point' delay', dk_mqtt := note_exception point' q\<rparr>)))"

definition messaging_done :: "('w, 'c, 'd) Desktop \<Rightarrow> bool" where
  "messaging_done s \<longleftrightarrow> thread_done (dk_messaging s) \<or> thread_failed (dk_messaging s)"

definition loop_runs :: "('w, 'c, 'd) desktop_env \<Rightarrow> int \<Rightarrow> ('w, 'c, 'd) Desktop \<Rightarrow> ('w, 'c, 'd) Desktop option" where
  "loop_runs env now s = map_option (\<lambda>l. s\<lparr>dk_loop := l\<rparr>) (loop_run_step (de_call env) now (dk_loop s))"

definition loop_done :: "('w, 'c, 'd) Desktop \<Rightarrow> bool" where
  "loop_done s \<longleftrightarrow> dk_loopError s \<noteq> None \<or> al_worker (dk_loop s) = LoopExited"

definition gui_done :: "('w, 'c, 'd) Desktop \<Rightarrow> bool" where
  "gui_done s \<longleftrightarrow> (case dk_gui s of GuiEnded _ \<Rightarrow> True | _ \<Rightarrow> False)"

section \<open>The GUI task\<close>

text \<open>
  The GUI task may run once a worker has taken it. A pump submits the commands of the screen and takes
  the results; when one of them is a failure, the loop of frames ends after this frame.
\<close>

definition gui_pumps :: "('w, 'c, 'd) Desktop \<Rightarrow> ('w, 'c, 'd) Desktop option" where
  "gui_pumps s =
     (if dk_taken s < 4 \<or> dk_gui s \<noteq> GuiLoop then None
      else case PumpStorage (dk_storage s, dk_monitor s) of
        (error, (storage, monitor)) \<Rightarrow>
          Some (s\<lparr>dk_storage := storage, dk_monitor := monitor,
            dk_gui := (if error = None then GuiLoop else GuiClosing),
            dk_subs := dk_subs s @ (if mon_commands (dk_monitor s) = [] then [] else [mon_commands (dk_monitor s)]),
            dk_polled := dk_polled s @ svc_results (dk_storage s)\<rparr>))"

text \<open>
  The life cycle ends with a result, a failure when the pump has failed; \<^verbatim>\<open>ImGuiStart\<close> then stops and
  drains the service, whose worker runs on, and returns.
\<close>

definition gui_returns :: "('w, 'c, 'd) desktop_env \<Rightarrow> GuiResult \<Rightarrow> ('w, 'c, 'd) Desktop \<Rightarrow> ('w, 'c, 'd) Desktop option" where
  "gui_returns env result s =
     (if dk_taken s < 4 \<or> gui_done s \<or> dk_gui s = GuiClosing \<and> gui_success result then None
      else case StopAndDrain (de_db env) (dk_storage s) of
        (rs, storage) \<Rightarrow>
          (case drain_results rs (result, dk_monitor s) of
             (result', monitor) \<Rightarrow>
               Some (s\<lparr>dk_storage := storage, dk_monitor := monitor, dk_gui := GuiEnded (Inr result'),
                 dk_polled := dk_polled s @ rs\<rparr>)))"

definition gui_throws :: "cpp_exn \<Rightarrow> ('w, 'c, 'd) Desktop \<Rightarrow> ('w, 'c, 'd) Desktop option" where
  "gui_throws e s = (if dk_taken s < 4 \<or> gui_done s then None else Some (s\<lparr>dk_gui := GuiEnded (Inl e)\<rparr>))"

definition gui_acts :: "(('w, 'c, 'd) Desktop \<Rightarrow> ('w, 'c, 'd) Desktop) \<Rightarrow> ('w, 'c, 'd) Desktop \<Rightarrow> ('w, 'c, 'd) Desktop option" where
  "gui_acts f s = (if dk_taken s < 4 \<or> gui_done s then None else Some (f s))"

section \<open>The main thread\<close>

text \<open>What is left in the storage service once its worker has ended may turn success into failure.\<close>

fun combine_results :: "DeviceStorageResult list \<Rightarrow> GuiResult \<Rightarrow> GuiResult" where
  "combine_results [] result = result"
| "combine_results (r # rs) result =
     combine_results rs (if \<not> res_success r \<and> gui_success result then \<lparr>gui_success = False, gui_error = res_error r\<rparr> else result)"

definition desktop_event :: "string \<Rightarrow> string \<Rightarrow> LoopEvent" where
  "desktop_event name text_data = \<lparr>le_name = name, le_data = StringData text_data\<rparr>"

definition desktop_main :: "('w, 'c, 'd) Desktop \<Rightarrow> ('w, 'c, 'd) Desktop option" where
  "desktop_main s =
     (case dk_main s of
        DkEnqueue \<Rightarrow>
          Some (if dk_enqueued s < 4 then s\<lparr>dk_enqueued := dk_enqueued s + 1\<rparr> else s\<lparr>dk_main := DkEmitStarted\<rparr>)
      | DkEmitStarted \<Rightarrow>
          Some (s\<lparr>dk_loop := snd (emit_event (desktop_event ''application_started'' ''Application worker pool started'') (dk_loop s)),
            dk_main := DkEmitCustom\<rparr>)
      | DkEmitCustom \<Rightarrow>
          Some (s\<lparr>dk_loop := snd (emit_event (desktop_event ''custom_event'' ''Hello from the Application AsyncIO thread'') (dk_loop s)),
            dk_main := DkWaitGui\<rparr>)
      | DkWaitGui \<Rightarrow>
          (case dk_gui s of
             GuiEnded (Inr r) \<Rightarrow> Some (s\<lparr>dk_result := r, dk_main := DkStopStorage None\<rparr>)
           | GuiEnded (Inl e) \<Rightarrow> Some (s\<lparr>dk_main := DkStopStorage (Some e)\<rparr>)
           | _ \<Rightarrow> None)
      | DkStopStorage e \<Rightarrow> Some (s\<lparr>dk_storage := RequestStop (dk_storage s), dk_main := DkStopMessaging e\<rparr>)
      | DkStopMessaging e \<Rightarrow> Some (s\<lparr>dk_stop := True, dk_main := DkStopLoop e\<rparr>)
      | DkStopLoop e \<Rightarrow>
          Some (s\<lparr>dk_loop := stop (dk_loop s), dk_main := (case e of None \<Rightarrow> DkGetSql | Some e \<Rightarrow> DkLeave (Inl e))\<rparr>)
      | DkGetSql \<Rightarrow> if sql_done s then Some (s\<lparr>dk_main := DkGetMessaging\<rparr>) else None
      | DkGetMessaging \<Rightarrow> if messaging_done s then Some (s\<lparr>dk_main := DkGetLoop\<rparr>) else None
      | DkGetLoop \<Rightarrow>
          (if \<not> loop_done s then None
           else Some (s\<lparr>dk_main := (case dk_loopError s of None \<Rightarrow> DkClearHandler | Some e \<Rightarrow> DkLeave (Inl e))\<rparr>))
      | DkClearHandler \<Rightarrow> Some (s\<lparr>dk_mqtt := update_app (SetOutboundCommandHandler None) (dk_mqtt s), dk_main := DkPoll\<rparr>)
      | DkPoll \<Rightarrow>
          (case PollResults (dk_storage s) of
             (rs, storage) \<Rightarrow>
               Some (s\<lparr>dk_storage := storage, dk_polled := dk_polled s @ rs,
                 dk_main := DkLeave (Inr (combine_results rs (dk_result s)))\<rparr>))
      | DkLeave how \<Rightarrow>
          (if dk_taken s = dk_enqueued s \<and> (0 < dk_taken s \<longrightarrow> sql_done s) \<and> (1 < dk_taken s \<longrightarrow> messaging_done s) \<and>
             (2 < dk_taken s \<longrightarrow> loop_done s) \<and> (3 < dk_taken s \<longrightarrow> gui_done s)
           then Some (s\<lparr>dk_main := DkEnded how\<rparr>) else None)
      | DkEnded how \<Rightarrow> None)"

text \<open>The pool may fail to take a task.\<close>

definition enqueue_throws :: "cpp_exn \<Rightarrow> ('w, 'c, 'd) Desktop \<Rightarrow> ('w, 'c, 'd) Desktop option" where
  "enqueue_throws e s =
     (if dk_main s = DkEnqueue \<and> dk_enqueued s < 4 then Some (s\<lparr>dk_main := DkStopStorage (Some e)\<rparr>) else None)"

section \<open>Interleaving\<close>

datatype desktop_label =
    DkMainRuns | DkEnqueueThrows cpp_exn | DkPoolTakes | DkSqlRuns | DkMessagingRuns bool | DkLoopRuns int
  | DkGuiPumps | DkGuiReturns GuiResult | DkGuiThrows cpp_exn | DkGuiActs monitor_action | DkGuiForm ConsoleState | DkGuiSends string
  | DkMessage string string | DkConnected string | DkSucceeded | DkFailed string int | DkLost string
  | DkOperationSucceeds nat | DkOperationFails nat string int

definition desktop_callback :: "(('w, 'c, client_handler) MqttService \<Rightarrow> ('w, 'c, client_handler) MqttService) \<Rightarrow>
    ('w, 'c, 'd) Desktop \<Rightarrow> ('w, 'c, 'd) Desktop option" where
  "desktop_callback f s = (if mq_client (dk_mqtt s) = None then None else Some (s\<lparr>dk_mqtt := f (dk_mqtt s)\<rparr>))"

definition desktop_step :: "('w, 'c, 'd) desktop_env \<Rightarrow> desktop_label \<Rightarrow> ('w, 'c, 'd) Desktop \<Rightarrow> ('w, 'c, 'd) Desktop option" where
  "desktop_step env l s =
     (case l of
        DkMainRuns \<Rightarrow> desktop_main s
      | DkEnqueueThrows e \<Rightarrow> enqueue_throws e s
      | DkPoolTakes \<Rightarrow> pool_takes s
      | DkSqlRuns \<Rightarrow> sql_runs env s
      | DkMessagingRuns expired \<Rightarrow> messaging_runs env expired s
      | DkLoopRuns now \<Rightarrow> loop_runs env now s
      | DkGuiPumps \<Rightarrow> gui_pumps s
      | DkGuiReturns r \<Rightarrow> gui_returns env r s
      | DkGuiThrows e \<Rightarrow> gui_throws e s
      | DkGuiActs a \<Rightarrow> gui_acts (\<lambda>s. s\<lparr>dk_monitor := monitor_act a (dk_monitor s)\<rparr>) s
      | DkGuiForm console \<Rightarrow> gui_acts (\<lambda>s. s\<lparr>dk_mqtt := update_app (UpdateConsoleForm console) (dk_mqtt s)\<rparr>) s
      | DkGuiSends payload \<Rightarrow> gui_acts (\<lambda>s. s\<lparr>dk_mqtt := client_sends (de_paho env) payload (dk_mqtt s)\<rparr>) s
      | DkMessage topic payload \<Rightarrow> desktop_callback (client_receives topic payload) s
      | DkConnected cause \<Rightarrow> desktop_callback (\<lambda>q. snd (connected_callback (de_paho env) cause q)) s
      | DkSucceeded \<Rightarrow> desktop_callback (\<lambda>q. snd (on_success (de_paho env) q)) s
      | DkFailed message code \<Rightarrow> desktop_callback (on_failure message code) s
      | DkLost cause \<Rightarrow> desktop_callback (connection_lost cause) s
      | DkOperationSucceeds n \<Rightarrow> Some (s\<lparr>dk_mqtt := operation_succeeded n (dk_mqtt s)\<rparr>)
      | DkOperationFails n message code \<Rightarrow> Some (s\<lparr>dk_mqtt := operation_failed n message code (dk_mqtt s)\<rparr>))"

inductive desktop_reachable :: "('w, 'c, 'd) desktop_env \<Rightarrow> 'd \<Rightarrow> ('w, 'c, 'd) Desktop \<Rightarrow> bool" for env d where
  Start: "desktop_reachable env d (start_desktop hidden now w d)"
| Step: "desktop_reachable env d s \<Longrightarrow> desktop_step env l s = Some s' \<Longrightarrow> desktop_reachable env d s'"

section \<open>Cases\<close>

text \<open>A step of the program is one of these.\<close>

lemma desktop_step_cases:
  assumes "desktop_step env l s = Some s'"
  obtains (main) "desktop_main s = Some s'"
  | (enqueue) e where "enqueue_throws e s = Some s'"
  | (pool) "pool_takes s = Some s'"
  | (sql) "sql_runs env s = Some s'"
  | (messaging) expired where "messaging_runs env expired s = Some s'"
  | (loop) now where "loop_runs env now s = Some s'"
  | (pumps) "gui_pumps s = Some s'"
  | (returns) r where "gui_returns env r s = Some s'"
  | (throws) e where "gui_throws e s = Some s'"
  | (other) q m where "s' = s\<lparr>dk_mqtt := q\<rparr> \<or> s' = s\<lparr>dk_monitor := m\<rparr>"
proof -
  have service: thesis if "desktop_callback f s = Some s'" for f
    using that other [of "f (dk_mqtt s)"] by (simp add: desktop_callback_def split: if_splits)
  have acts: thesis if "gui_acts (\<lambda>s. s\<lparr>dk_mqtt := f s\<rparr>) s = Some s'" for f
    using that other [of "f s"] by (simp add: gui_acts_def split: if_splits)
  show thesis
  proof (cases l)
    case DkMainRuns
    with assms main show thesis by (simp add: desktop_step_def)
  next
    case (DkEnqueueThrows e)
    with assms enqueue show thesis by (simp add: desktop_step_def)
  next
    case DkPoolTakes
    with assms pool show thesis by (simp add: desktop_step_def)
  next
    case DkSqlRuns
    with assms sql show thesis by (simp add: desktop_step_def)
  next
    case (DkMessagingRuns expired)
    with assms messaging show thesis by (simp add: desktop_step_def)
  next
    case (DkLoopRuns now)
    with assms loop show thesis by (simp add: desktop_step_def)
  next
    case DkGuiPumps
    with assms pumps show thesis by (simp add: desktop_step_def)
  next
    case (DkGuiReturns r)
    with assms returns show thesis by (simp add: desktop_step_def)
  next
    case (DkGuiThrows e)
    with assms throws show thesis by (simp add: desktop_step_def)
  next
    case (DkGuiActs a)
    with assms other [of _ "monitor_act a (dk_monitor s)"] show thesis by (simp add: desktop_step_def gui_acts_def split: if_splits)
  next
    case (DkGuiForm c)
    with assms show thesis by (intro acts) (simp add: desktop_step_def)
  next
    case (DkGuiSends p)
    with assms show thesis by (intro acts) (simp add: desktop_step_def)
  next
    case (DkMessage t p)
    with assms show thesis by (intro service) (simp add: desktop_step_def)
  next
    case (DkConnected c)
    with assms show thesis by (intro service) (simp add: desktop_step_def)
  next
    case DkSucceeded
    with assms show thesis by (intro service) (simp add: desktop_step_def)
  next
    case (DkFailed m c)
    with assms show thesis by (intro service) (simp add: desktop_step_def)
  next
    case (DkLost c)
    with assms show thesis by (intro service) (simp add: desktop_step_def)
  next
    case (DkOperationSucceeds n)
    with assms show thesis by (intro other [OF disjI1, of "operation_succeeded n (dk_mqtt s)"]) (simp add: desktop_step_def)
  next
    case (DkOperationFails n m c)
    with assms show thesis by (intro other [OF disjI1, of "operation_failed n m c (dk_mqtt s)"]) (simp add: desktop_step_def)
  qed
qed

section \<open>Control\<close>

text \<open>
  Points of the main thread: all tasks enqueued (\<open>all_enqueued\<close>), the result of the GUI taken
  (\<open>after_gui\<close>), an exception on its way out (\<open>failing\<close>), and what has been stopped and waited for.
\<close>

fun after_gui :: "desktop_point \<Rightarrow> bool" where
  "after_gui (DkStopStorage e) = (e = None)"
| "after_gui (DkStopMessaging e) = (e = None)"
| "after_gui (DkStopLoop e) = (e = None)"
| "after_gui DkGetSql = True"
| "after_gui DkGetMessaging = True"
| "after_gui DkGetLoop = True"
| "after_gui DkClearHandler = True"
| "after_gui DkPoll = True"
| "after_gui (DkLeave how) = (\<not> isl how)"
| "after_gui (DkEnded how) = (\<not> isl how)"
| "after_gui _ = False"

fun all_enqueued :: "desktop_point \<Rightarrow> bool" where
  "all_enqueued DkEmitStarted = True"
| "all_enqueued DkEmitCustom = True"
| "all_enqueued DkWaitGui = True"
| "all_enqueued p = after_gui p"

fun failing :: "desktop_point \<Rightarrow> bool" where
  "failing DkEnqueue = False"
| "failing p = (\<not> all_enqueued p)"

fun polled_all :: "desktop_point \<Rightarrow> bool" where
  "polled_all (DkLeave how) = (\<not> isl how)"
| "polled_all (DkEnded how) = (\<not> isl how)"
| "polled_all _ = False"

fun loop_stopped :: "desktop_point \<Rightarrow> bool" where
  "loop_stopped DkGetSql = True"
| "loop_stopped DkGetMessaging = True"
| "loop_stopped DkGetLoop = True"
| "loop_stopped DkClearHandler = True"
| "loop_stopped DkPoll = True"
| "loop_stopped (DkLeave how) = True"
| "loop_stopped (DkEnded how) = True"
| "loop_stopped _ = False"

fun messaging_stopped :: "desktop_point \<Rightarrow> bool" where
  "messaging_stopped (DkStopLoop e) = True"
| "messaging_stopped p = loop_stopped p"

fun storage_stopped :: "desktop_point \<Rightarrow> bool" where
  "storage_stopped (DkStopMessaging e) = True"
| "storage_stopped p = messaging_stopped p"

definition control :: "('w, 'c, 'd) Desktop \<Rightarrow> bool" where
  "control s \<longleftrightarrow> dk_taken s \<le> dk_enqueued s \<and> dk_enqueued s \<le> 4 \<and>
     (all_enqueued (dk_main s) \<longrightarrow> dk_enqueued s = 4) \<and>
     (dk_gui s \<noteq> GuiLoop \<longrightarrow> dk_taken s = 4) \<and>
     (after_gui (dk_main s) \<longrightarrow> (\<exists>r. dk_gui s = GuiEnded (Inr r) \<and> (polled_all (dk_main s) \<or> r = dk_result s))) \<and>
     (failing (dk_main s) \<longrightarrow> gui_done s \<or> dk_enqueued s < 4) \<and>
     (svc_stopRequested (dk_storage s) \<and> dk_gui s = GuiLoop \<longrightarrow> failing (dk_main s)) \<and>
     (storage_stopped (dk_main s) \<longrightarrow> svc_stopRequested (dk_storage s)) \<and> (messaging_stopped (dk_main s) \<longrightarrow> dk_stop s)"

lemma control_cong:
  assumes "control s" "dk_main s' = dk_main s" "dk_enqueued s' = dk_enqueued s" "dk_taken s' = dk_taken s" "dk_gui s' = dk_gui s"
    "dk_result s' = dk_result s" "dk_stop s' = dk_stop s" "svc_stopRequested (dk_storage s') = svc_stopRequested (dk_storage s)"
  shows "control s'"
  using assms by (simp add: control_def gui_done_def)

lemma pump_results_effect:
  "pump_results rs (storage, m) = (e, (storage', m')) \<Longrightarrow>
     (e = None \<longleftrightarrow> list_all res_success rs) \<and> storage' = (if e = None then storage else RequestStop storage)"
proof (induction rs arbitrary: m)
  case (Cons r rs)
  then show ?case using Cons.IH [of "ReplaceDevices (res_devices r) m"] by (cases "res_success r") auto
qed simp

definition submit_all :: "DeviceCommand list \<Rightarrow> 'd DeviceStorageService \<Rightarrow> 'd DeviceStorageService" where
  "submit_all cs st = (if cs = [] then st else Submit cs st)"

lemma PumpStorage_effect:
  assumes "PumpStorage (st, m) = (e, (st', m'))"
  shows "(e = None \<longleftrightarrow> list_all res_success (svc_results st)) \<and>
    st' = (if e = None then id else RequestStop) ((submit_all (mon_commands m) st)\<lparr>svc_results := []\<rparr>)"
proof -
  let ?st = "submit_all (mon_commands m) st"
  have "svc_results ?st = svc_results st" by (simp add: submit_all_def Submit_def)
  with assms have "pump_results (svc_results st) (?st\<lparr>svc_results := []\<rparr>, m\<lparr>mon_commands := []\<rparr>) = (e, (st', m'))"
    by (simp add: PumpStorage_def ConsumeCommands_def PollResults_def submit_all_def Let_def split: if_splits)
  from pump_results_effect [OF this] show ?thesis by simp
qed

lemma drain_results_success:
  "gui_success (fst (drain_results rs (r, m))) \<longleftrightarrow> gui_success r \<and> list_all res_success rs"
  by (induction rs arbitrary: r m) auto

lemma combine_results_success: "gui_success (combine_results rs r) \<longleftrightarrow> gui_success r \<and> list_all res_success rs"
  by (induction rs arbitrary: r) auto

lemma StopAndDrain_calling:
  "svc_executionMode st = CallingThread \<Longrightarrow> StopAndDrain db st = (svc_results st, (RequestStop st)\<lparr>svc_results := []\<rparr>)"
  by (simp add: StopAndDrain_def join_worker_def PollResults_def RequestStop_def)

lemma RequestStop_simps [simp]:
  "svc_stopRequested (RequestStop st)" "svc_worker (RequestStop st) = svc_worker st" "svc_results (RequestStop st) = svc_results st"
  "svc_commands (RequestStop st) = svc_commands st" "svc_executionMode (RequestStop st) = svc_executionMode st"
  by (simp_all add: RequestStop_def)

lemma submit_all_simps [simp]:
  "svc_stopRequested (submit_all cs st) = svc_stopRequested st" "svc_worker (submit_all cs st) = svc_worker st"
  "svc_executionMode (submit_all cs st) = svc_executionMode st"
  by (simp_all add: submit_all_def Submit_def)

lemma Run_begin_simps [simp]:
  "svc_stopRequested (RunOnCallingThread_begin st) = svc_stopRequested st"
  "svc_executionMode (RunOnCallingThread_begin st) = svc_executionMode st"
  by (simp_all add: RunOnCallingThread_begin_def Run_begin_def push_result_def)

text \<open>The steps of the main thread.\<close>

lemma desktop_main_cases:
  assumes "desktop_main s = Some s'"
  obtains (enqueue) "dk_main s = DkEnqueue" "dk_enqueued s < 4" "s' = s\<lparr>dk_enqueued := dk_enqueued s + 1\<rparr>"
  | (enqueued) "dk_main s = DkEnqueue" "\<not> dk_enqueued s < 4" "s' = s\<lparr>dk_main := DkEmitStarted\<rparr>"
  | (emit) p event where "(dk_main s, p) \<in> {(DkEmitStarted, DkEmitCustom), (DkEmitCustom, DkWaitGui)}"
      "s' = s\<lparr>dk_loop := snd (emit_event event (dk_loop s)), dk_main := p\<rparr>"
  | (gui) r where "dk_main s = DkWaitGui" "dk_gui s = GuiEnded (Inr r)" "s' = s\<lparr>dk_result := r, dk_main := DkStopStorage None\<rparr>"
  | (threw) e where "dk_main s = DkWaitGui" "dk_gui s = GuiEnded (Inl e)" "s' = s\<lparr>dk_main := DkStopStorage (Some e)\<rparr>"
  | (stop_storage) e where "dk_main s = DkStopStorage e"
      "s' = s\<lparr>dk_storage := RequestStop (dk_storage s), dk_main := DkStopMessaging e\<rparr>"
  | (stop_messaging) e where "dk_main s = DkStopMessaging e" "s' = s\<lparr>dk_stop := True, dk_main := DkStopLoop e\<rparr>"
  | (stop_loop) e where "dk_main s = DkStopLoop e"
      "s' = s\<lparr>dk_loop := stop (dk_loop s), dk_main := (case e of None \<Rightarrow> DkGetSql | Some e \<Rightarrow> DkLeave (Inl e))\<rparr>"
  | (sql) "dk_main s = DkGetSql" "sql_done s" "s' = s\<lparr>dk_main := DkGetMessaging\<rparr>"
  | (messaging) "dk_main s = DkGetMessaging" "messaging_done s" "s' = s\<lparr>dk_main := DkGetLoop\<rparr>"
  | (loop) "dk_main s = DkGetLoop" "loop_done s"
      "s' = s\<lparr>dk_main := (case dk_loopError s of None \<Rightarrow> DkClearHandler | Some e \<Rightarrow> DkLeave (Inl e))\<rparr>"
  | (clear) "dk_main s = DkClearHandler"
      "s' = s\<lparr>dk_mqtt := update_app (SetOutboundCommandHandler None) (dk_mqtt s), dk_main := DkPoll\<rparr>"
  | (poll) "dk_main s = DkPoll" "s' = s\<lparr>dk_storage := (dk_storage s)\<lparr>svc_results := []\<rparr>,
      dk_polled := dk_polled s @ svc_results (dk_storage s),
      dk_main := DkLeave (Inr (combine_results (svc_results (dk_storage s)) (dk_result s)))\<rparr>"
  | (leave) how where "dk_main s = DkLeave how" "dk_taken s = dk_enqueued s" "0 < dk_taken s \<longrightarrow> sql_done s"
      "1 < dk_taken s \<longrightarrow> messaging_done s" "2 < dk_taken s \<longrightarrow> loop_done s" "3 < dk_taken s \<longrightarrow> gui_done s"
      "s' = s\<lparr>dk_main := DkEnded how\<rparr>"
  using assms
proof (cases "dk_main s")
  case DkEnqueue
  with assms enqueue enqueued show thesis by (cases "dk_enqueued s < 4") (simp_all add: desktop_main_def)
next
  case DkWaitGui
  with assms gui threw show thesis by (simp add: desktop_main_def split: gui_task.splits sum.splits)
next
  case (DkLeave how)
  with assms leave [OF DkLeave] show thesis by (simp add: desktop_main_def split: if_splits)
next
  case DkEmitStarted
  with assms show thesis by (intro emit) (auto simp: desktop_main_def PollResults_def split: if_splits)
next
  case DkEmitCustom
  with assms show thesis by (intro emit) (auto simp: desktop_main_def PollResults_def split: if_splits)
next
  case (DkStopStorage e)
  with assms show thesis by (intro stop_storage) (auto simp: desktop_main_def PollResults_def split: if_splits)
next
  case (DkStopMessaging e)
  with assms show thesis by (intro stop_messaging) (auto simp: desktop_main_def PollResults_def split: if_splits)
next
  case (DkStopLoop e)
  with assms show thesis by (intro stop_loop) (auto simp: desktop_main_def PollResults_def split: if_splits)
next
  case DkGetSql
  with assms show thesis by (intro sql) (auto simp: desktop_main_def PollResults_def split: if_splits)
next
  case DkGetMessaging
  with assms show thesis by (intro messaging) (auto simp: desktop_main_def PollResults_def split: if_splits)
next
  case DkGetLoop
  with assms show thesis by (intro loop) (auto simp: desktop_main_def PollResults_def split: if_splits)
next
  case DkClearHandler
  with assms show thesis by (intro clear) (auto simp: desktop_main_def PollResults_def split: if_splits)
next
  case DkPoll
  with assms show thesis by (intro poll) (auto simp: desktop_main_def PollResults_def split: if_splits)
next
  case (DkEnded how)
  with assms show thesis by (simp add: desktop_main_def)
qed

lemma control_main:
  assumes "control s" "desktop_main s = Some s'"
  shows "control s'"
  using assms(2)
proof (cases rule: desktop_main_cases)
  case enqueue
  then show ?thesis using assms(1) by (auto simp: control_def gui_done_def split: option.splits)
next
  case enqueued
  then show ?thesis using assms(1) by (auto simp: control_def gui_done_def split: option.splits)
next
  case (emit p event)
  then have "all_enqueued p" "\<not> after_gui p" "\<not> failing p" "\<not> storage_stopped p" "\<not> messaging_stopped p"
    "all_enqueued (dk_main s)" "\<not> failing (dk_main s)" by auto
  with emit(2) show ?thesis using assms(1) by (simp add: control_def gui_done_def)
next
  case (gui r)
  then show ?thesis using assms(1) by (auto simp: control_def gui_done_def split: option.splits)
next
  case (threw e)
  then show ?thesis using assms(1) by (auto simp: control_def gui_done_def split: option.splits)
next
  case (stop_storage e)
  then show ?thesis using assms(1) by (auto simp: control_def gui_done_def split: option.splits)
next
  case (stop_messaging e)
  then show ?thesis using assms(1) by (auto simp: control_def gui_done_def split: option.splits)
next
  case (stop_loop e)
  then show ?thesis using assms(1) by (auto simp: control_def gui_done_def split: option.splits)
next
  case sql
  then show ?thesis using assms(1) by (auto simp: control_def gui_done_def split: option.splits)
next
  case messaging
  then show ?thesis using assms(1) by (auto simp: control_def gui_done_def split: option.splits)
next
  case loop
  then show ?thesis using assms(1) by (auto simp: control_def gui_done_def split: option.splits)
next
  case clear
  then show ?thesis using assms(1) by (auto simp: control_def gui_done_def split: option.splits)
next
  case poll
  then show ?thesis using assms(1) by (auto simp: control_def gui_done_def split: option.splits)
next
  case (leave how)
  then show ?thesis using assms(1) by (auto simp: control_def gui_done_def split: option.splits)
qed

lemma control_pumps: "control s \<Longrightarrow> gui_pumps s = Some s' \<Longrightarrow> control s'"
  by (auto simp: gui_pumps_def control_def gui_done_def split: if_splits prod.splits dest!: PumpStorage_effect)

lemma pool_takes_keeps:
  assumes "pool_takes s = Some s'"
  shows "dk_taken s \<noteq> dk_enqueued s" "dk_taken s' = dk_taken s + 1" "dk_main s' = dk_main s" "dk_enqueued s' = dk_enqueued s"
    "dk_gui s' = dk_gui s" "dk_result s' = dk_result s" "dk_stop s' = dk_stop s" "dk_subs s' = dk_subs s" "dk_polled s' = dk_polled s"
    "dk_mqtt s' = dk_mqtt s" "dk_messaging s' = dk_messaging s"
    "dk_storage s' = (if dk_taken s = 0 then RunOnCallingThread_begin (dk_storage s) else dk_storage s)"
    "svc_stopRequested (dk_storage s') = svc_stopRequested (dk_storage s)"
    "dk_loop s' = (if dk_taken s = 2 then snd (run_on_calling_thread (dk_loop s)) else dk_loop s)"
    "dk_loopError s' = (if dk_taken s = 2 \<and> \<not> fst (run_on_calling_thread (dk_loop s))
      then Some (RuntimeError ''AsyncIO event loop could not start on its pool worker'') else if dk_taken s = 2 then None else dk_loopError s)"
  using assms by (auto simp: pool_takes_def Let_def split: if_splits prod.splits)

lemma gui_returns_cases:
  assumes "gui_returns env r s = Some s'" "svc_executionMode (dk_storage s) = CallingThread"
  obtains r' m where "s' = s\<lparr>dk_storage := (RequestStop (dk_storage s))\<lparr>svc_results := []\<rparr>, dk_monitor := m,
      dk_gui := GuiEnded (Inr r'), dk_polled := dk_polled s @ svc_results (dk_storage s)\<rparr>"
    "\<not> dk_taken s < 4" "\<not> gui_done s"
    "gui_success r' \<Longrightarrow> dk_gui s \<noteq> GuiClosing \<and> list_all res_success (svc_results (dk_storage s))"
proof -
  obtain r' m where d: "drain_results (svc_results (dk_storage s)) (r, dk_monitor s) = (r', m)" by fastforce
  then have "gui_success r' \<longleftrightarrow> gui_success r \<and> list_all res_success (svc_results (dk_storage s))"
    using drain_results_success [of "svc_results (dk_storage s)" r "dk_monitor s"] by simp
  with assms d that [where r' = r' and m = m] show thesis
    by (auto simp: gui_returns_def StopAndDrain_calling split: if_splits)
qed

lemma control_step:
  assumes "control s" "svc_executionMode (dk_storage s) = CallingThread" "desktop_step env l s = Some s'"
  shows "control s'"
  using assms(3)
proof (cases rule: desktop_step_cases)
  case main
  with assms(1) show ?thesis by (rule control_main)
next
  case (enqueue e)
  then show ?thesis using assms(1) by (auto simp: enqueue_throws_def control_def split: if_splits)
next
  case pool
  note taken = pool_takes_keeps [OF pool]
  have "dk_taken s < dk_enqueued s" "dk_gui s = GuiLoop" using assms(1) taken(1) by (auto simp: control_def)
  with taken(2-7,13) assms(1) show ?thesis by (simp add: control_def gui_done_def)
next
  case sql
  then obtain st where "worker_step (de_db env) (dk_storage s) = Some st" "s' = s\<lparr>dk_storage := st\<rparr>"
    by (auto simp: sql_runs_def)
  with worker_step_stop show ?thesis by (intro control_cong [OF assms(1)]) auto
next
  case (messaging expired)
  then show ?thesis
    by (intro control_cong [OF assms(1)])
      (auto simp: messaging_runs_def Let_def split: if_splits thread_point.splits prod.splits option.splits)
next
  case (loop now)
  then show ?thesis by (intro control_cong [OF assms(1)]) (auto simp: loop_runs_def)
next
  case pumps
  with assms(1) show ?thesis by (rule control_pumps)
next
  case (returns r)
  from this assms(2) show ?thesis
  proof (cases rule: gui_returns_cases)
    case (1 r' m)
    have "dk_taken s = 4" "\<not> after_gui (dk_main s)" using assms(1) 1(2,3) by (auto simp: control_def gui_done_def)
    with 1(1) assms(1) show ?thesis by (simp add: control_def gui_done_def)
  qed
next
  case (throws e)
  then show ?thesis using assms(1) by (auto simp: gui_throws_def control_def gui_done_def split: if_splits)
next
  case (other q m)
  then show ?thesis by (elim disjE) (auto intro: control_cong [OF assms(1)])
qed

section \<open>Storage\<close>

fun past_sql :: "desktop_point \<Rightarrow> bool" where
  "past_sql DkGetMessaging = True"
| "past_sql DkGetLoop = True"
| "past_sql DkClearHandler = True"
| "past_sql DkPoll = True"
| "past_sql p = polled_all p"

definition storing :: "('w, 'c, 'd) desktop_env \<Rightarrow> 'd \<Rightarrow> ('w, 'c, 'd) Desktop \<Rightarrow> bool" where
  "storing env d s \<longleftrightarrow> svc_executionMode (dk_storage s) = CallingThread \<and>
     storage_inv (de_db env) d (dk_subs s) (dk_polled s @ svc_results (dk_storage s)) (dk_storage s) \<and>
     (svc_worker (dk_storage s) = NotRunning \<longleftrightarrow> dk_taken s = 0) \<and>
     (svc_worker (dk_storage s) = Finished \<and> \<not> isl (fst (idb_Initialize (de_db env) d)) \<longrightarrow> svc_commands (dk_storage s) = []) \<and>
     (past_sql (dk_main s) \<longrightarrow> svc_worker (dk_storage s) = Finished) \<and>
     (polled_all (dk_main s) \<longrightarrow> svc_results (dk_storage s) = [])"

lemma storage_inv_stop [simp]: "storage_inv db d subs rs st \<Longrightarrow> storage_inv db d subs rs (RequestStop st)"
  by (auto simp: RequestStop_def storage_inv_def executing_def split: worker_point.splits prod.splits sum.splits)

lemma storage_inv_results [simp]: "storage_inv db d subs rs (st\<lparr>svc_results := x\<rparr>) = storage_inv db d subs rs st"
  by (simp add: storage_inv_def executing_def cong: worker_point.case_cong prod.case_cong sum.case_cong)

lemma storage_inv_begin:
  assumes "storage_inv db d subs rs st" "svc_worker st = NotRunning" "svc_executionMode st = CallingThread"
  shows "storage_inv db d subs rs (RunOnCallingThread_begin st)" "svc_worker (RunOnCallingThread_begin st) = Initializing"
    "svc_results (RunOnCallingThread_begin st) = svc_results st"
  using assms by (simp_all add: storage_inv_def RunOnCallingThread_begin_def Run_begin_def)

lemma storage_inv_submit_all:
  "storage_inv db d subs rs st \<Longrightarrow> storage_inv db d (subs @ (if cs = [] then [] else [cs])) rs (submit_all cs st)"
  by (simp add: submit_all_def storage_inv_submit)

lemma storing_cong:
  assumes "storing env d s" "dk_storage s' = dk_storage s" "dk_subs s' = dk_subs s" "dk_polled s' = dk_polled s"
    "dk_taken s' = dk_taken s" "dk_main s' = dk_main s"
  shows "storing env d s'"
  using assms by (simp add: storing_def)

lemma storing_point:
  assumes "storing env d s" "past_sql p \<Longrightarrow> past_sql (dk_main s) \<or> svc_worker (dk_storage s) = Finished"
    "polled_all p \<Longrightarrow> polled_all (dk_main s)"
    "dk_storage s' = dk_storage s" "dk_subs s' = dk_subs s" "dk_polled s' = dk_polled s" "dk_taken s' = dk_taken s" "dk_main s' = p"
  shows "storing env d s'"
  using assms by (auto simp: storing_def)

lemma storing_main:
  assumes "storing env d s" "desktop_main s = Some s'"
  shows "storing env d s'"
  using assms(2)
proof (cases rule: desktop_main_cases)
  case enqueue
  then show ?thesis by (intro storing_cong [OF assms(1)]) simp_all
next
  case (stop_storage e)
  then show ?thesis using assms(1) by (simp add: storing_def)
next
  case (stop_loop e)
  then show ?thesis by (intro storing_point [OF assms(1), where p = "dk_main s'"]) (auto split: option.splits)
next
  case sql
  then show ?thesis by (intro storing_point [OF assms(1), where p = "dk_main s'"]) (auto simp: sql_done_def)
next
  case loop
  then show ?thesis by (intro storing_point [OF assms(1), where p = "dk_main s'"]) (auto split: option.splits)
next
  case poll
  then show ?thesis using assms(1) by (auto simp: storing_def)
next
  case (leave how)
  then show ?thesis by (intro storing_point [OF assms(1), where p = "dk_main s'"]) (cases how; auto)+
next
  case (emit p event)
  then show ?thesis by (intro storing_point [OF assms(1), where p = "dk_main s'"]) auto
qed (intro storing_point [OF assms(1), where p = "dk_main s'"]; simp)+

lemma worker_step_commands:
  assumes "worker_step db st = Some st'" "storage_inv db d subs rs st" "\<not> isl (fst (idb_Initialize db d))" "svc_worker st' = Finished"
  shows "svc_commands st' = []"
  using assms
  by (auto simp: worker_step_def Run_take_def Run_execute_def Run_initialize_def push_result_def storage_inv_def
      split: worker_point.splits list.splits if_splits prod.splits sum.splits)

lemma storing_sql:
  assumes inv: "storing env d s" and step: "sql_runs env s = Some s'"
  shows "storing env d s'"
proof -
  obtain st where st: "worker_step (de_db env) (dk_storage s) = Some st" "s' = s\<lparr>dk_storage := st\<rparr>"
    using step by (auto simp: sql_runs_def)
  then have running: "svc_worker (dk_storage s) \<noteq> NotRunning" "svc_worker (dk_storage s) \<noteq> Finished" by (auto simp: worker_step_def)
  have main: "\<not> past_sql (dk_main s)" using inv running by (auto simp: storing_def)
  then have "\<not> polled_all (dk_main s)" by (cases "dk_main s") auto
  moreover obtain new where "svc_results st = svc_results (dk_storage s) @ new"
    "storage_inv (de_db env) d (dk_subs s) (dk_polled s @ svc_results st) st"
    using storage_inv_worker [OF _ st(1)] inv by (fastforce simp: storing_def)
  moreover have "svc_worker st = Finished \<Longrightarrow> \<not> isl (fst (idb_Initialize (de_db env) d)) \<Longrightarrow> svc_commands st = []"
    using worker_step_commands [OF st(1)] inv by (auto simp: storing_def)
  ultimately show ?thesis
    using st(2) worker_step_stop [OF st(1)] inv running main by (simp add: storing_def)
qed

lemma storing_pumps:
  assumes inv: "storing env d s" and c: "control s" and step: "gui_pumps s = Some s'"
  shows "storing env d s'"
proof -
  obtain e st m where p: "PumpStorage (dk_storage s, dk_monitor s) = (e, (st, m))" by (metis prod.exhaust)
  let ?cs = "mon_commands (dk_monitor s)"
  let ?st = "(submit_all ?cs (dk_storage s))\<lparr>svc_results := []\<rparr>"
  have gui: "dk_taken s = 4" "dk_gui s = GuiLoop" using step c by (auto simp: gui_pumps_def control_def split: if_splits)
  with c have main: "\<not> after_gui (dk_main s)" "\<not> failing (dk_main s)" by (auto simp: control_def gui_done_def)
  then have early: "\<not> past_sql (dk_main s)" "\<not> polled_all (dk_main s)" by (cases "dk_main s"; simp)+
  have "\<not> svc_stopRequested (dk_storage s)" using c gui main by (auto simp: control_def)
  then have live: "svc_worker (dk_storage s) = Finished \<Longrightarrow> isl (fst (idb_Initialize (de_db env) d))"
    using inv by (auto simp: storing_def storage_inv_def split: prod.splits sum.splits)
  have st: "st = (if e = None then ?st else RequestStop ?st)" using PumpStorage_effect [OF p] by simp
  have "storage_inv (de_db env) d (dk_subs s @ (if ?cs = [] then [] else [?cs])) (dk_polled s @ svc_results (dk_storage s)) ?st"
    using inv by (simp add: storing_def storage_inv_submit_all del: append_assoc)
  moreover have "s' = s\<lparr>dk_storage := st, dk_monitor := m, dk_gui := (if e = None then GuiLoop else GuiClosing),
      dk_subs := dk_subs s @ (if ?cs = [] then [] else [?cs]), dk_polled := dk_polled s @ svc_results (dk_storage s)\<rparr>"
    using step gui p by (simp add: gui_pumps_def split: if_splits)
  ultimately show ?thesis using st inv early gui live by (auto simp: storing_def)
qed

lemma storing_step:
  assumes inv: "storing env d s" and c: "control s" and step: "desktop_step env l s = Some s'"
  shows "storing env d s'"
  using step
proof (cases rule: desktop_step_cases)
  case main
  with inv show ?thesis by (rule storing_main)
next
  case (enqueue e)
  then show ?thesis by (intro storing_point [OF inv, where p = "dk_main s'"]) (auto simp: enqueue_throws_def split: if_splits)
next
  case pool
  note taken = pool_takes_keeps [OF pool]
  show ?thesis
  proof (cases "dk_taken s = 0")
    case True
    with inv have run: "svc_worker (dk_storage s) = NotRunning" by (simp add: storing_def)
    then have "\<not> past_sql (dk_main s)" using inv by (auto simp: storing_def)
    moreover then have "\<not> polled_all (dk_main s)" by (cases "dk_main s") auto
    moreover have "storage_inv (de_db env) d (dk_subs s) (dk_polled s @ svc_results (dk_storage s)) (dk_storage s)"
      "svc_executionMode (dk_storage s) = CallingThread" using inv by (simp_all add: storing_def)
    note started = storage_inv_begin [OF this(1) run this(2)]
    ultimately show ?thesis using True taken(2,3,8,9,12) started inv by (simp add: storing_def)
  next
    case False
    with inv taken(2,3,8,9,12) show ?thesis by (simp add: storing_def)
  qed
next
  case sql
  with inv show ?thesis by (rule storing_sql)
next
  case (messaging expired)
  then show ?thesis
    by (intro storing_cong [OF inv])
      (auto simp: messaging_runs_def Let_def split: if_splits thread_point.splits prod.splits option.splits)
next
  case (loop now)
  then show ?thesis by (intro storing_cong [OF inv]) (auto simp: loop_runs_def)
next
  case pumps
  with inv c show ?thesis by (rule storing_pumps)
next
  case (returns r)
  have "svc_executionMode (dk_storage s) = CallingThread" using inv by (simp add: storing_def)
  with returns show ?thesis
    by (cases rule: gui_returns_cases) (use inv in \<open>auto simp: storing_def\<close>)
next
  case (throws e)
  then show ?thesis by (intro storing_cong [OF inv]) (auto simp: gui_throws_def split: if_splits)
next
  case (other q m)
  then show ?thesis by (elim disjE) (auto intro: storing_cong [OF inv])
qed

section \<open>Success\<close>

text \<open>
  While the GUI runs, and after it has reported success, no failure has been taken from the storage
  service; after the last poll the same holds of the combined result.
\<close>

fun combined :: "desktop_point \<Rightarrow> GuiResult option" where
  "combined (DkLeave how) = case_sum (\<lambda>_. None) Some how"
| "combined (DkEnded how) = case_sum (\<lambda>_. None) Some how"
| "combined _ = None"

definition honest :: "('w, 'c, 'd) Desktop \<Rightarrow> bool" where
  "honest s \<longleftrightarrow>
     (case combined (dk_main s) of
        Some r \<Rightarrow> gui_success r \<longrightarrow> list_all res_success (dk_polled s)
      | None \<Rightarrow>
          (dk_gui s = GuiLoop \<longrightarrow> list_all res_success (dk_polled s)) \<and>
          (\<forall>r. dk_gui s = GuiEnded (Inr r) \<and> gui_success r \<longrightarrow> list_all res_success (dk_polled s)))"

lemma combined_polled_all: "combined p = None \<longleftrightarrow> \<not> polled_all p"
  by (cases p) (auto split: sum.splits simp: isl_def)

lemma honest_cong:
  assumes "honest s" "combined (dk_main s') = combined (dk_main s)" "dk_gui s' = dk_gui s" "dk_polled s' = dk_polled s"
  shows "honest s'"
  using assms by (simp add: honest_def cong: option.case_cong)

lemma honest_main:
  assumes inv: "honest s" "control s" and step: "desktop_main s = Some s'"
  shows "honest s'"
  using step
proof (cases rule: desktop_main_cases)
  case poll
  with inv(2) have "dk_gui s = GuiEnded (Inr (dk_result s))" by (auto simp: control_def)
  with inv(1) poll have "gui_success (dk_result s) \<Longrightarrow> list_all res_success (dk_polled s)" by (simp add: honest_def)
  with poll show ?thesis by (simp add: honest_def combine_results_success)
next
  case (emit p event)
  then show ?thesis by (intro honest_cong [OF inv(1)]) auto
qed (intro honest_cong [OF inv(1)]; simp split: option.splits)+

lemma honest_gui:
  assumes "honest s" "control s" "dk_taken s = 4 \<Longrightarrow> \<not> gui_done s" "dk_taken s = 4"
  shows "combined (dk_main s) = None" "dk_gui s = GuiLoop \<Longrightarrow> list_all res_success (dk_polled s)"
proof -
  have "\<not> polled_all (dk_main s)"
  proof
    assume p: "polled_all (dk_main s)"
    then have "after_gui (dk_main s)" by (cases "dk_main s") auto
    with assms show False by (auto simp: control_def gui_done_def)
  qed
  with assms(1) show "combined (dk_main s) = None" "dk_gui s = GuiLoop \<Longrightarrow> list_all res_success (dk_polled s)"
    by (auto simp: honest_def combined_polled_all [symmetric])
qed

lemma honest_step:
  assumes inv: "honest s" "control s" "storing env d s" and step: "desktop_step env l s = Some s'"
  shows "honest s'"
  using step
proof (cases rule: desktop_step_cases)
  case main
  with inv(1,2) show ?thesis by (rule honest_main)
next
  case (enqueue e)
  then show ?thesis by (intro honest_cong [OF inv(1)]) (auto simp: enqueue_throws_def split: if_splits)
next
  case pool
  then show ?thesis by (intro honest_cong [OF inv(1)]) (simp_all add: pool_takes_keeps [OF pool])
next
  case sql
  then show ?thesis by (intro honest_cong [OF inv(1)]) (auto simp: sql_runs_def)
next
  case (messaging expired)
  then show ?thesis
    by (intro honest_cong [OF inv(1)])
      (auto simp: messaging_runs_def Let_def split: if_splits thread_point.splits prod.splits option.splits)
next
  case (loop now)
  then show ?thesis by (intro honest_cong [OF inv(1)]) (auto simp: loop_runs_def)
next
  case pumps
  then have gui: "dk_taken s = 4" "dk_gui s = GuiLoop" using inv(2) by (auto simp: gui_pumps_def control_def split: if_splits)
  then have "\<not> gui_done s" by (simp add: gui_done_def)
  note h = honest_gui [OF inv(1,2) this gui(1)]
  obtain e st m where p: "PumpStorage (dk_storage s, dk_monitor s) = (e, (st, m))" by (metis prod.exhaust)
  with PumpStorage_effect [OF p] pumps gui h show ?thesis by (auto simp: gui_pumps_def honest_def split: if_splits)
next
  case (returns r)
  have mode: "svc_executionMode (dk_storage s) = CallingThread" using inv(3) by (simp add: storing_def)
  from returns mode show ?thesis
  proof (cases rule: gui_returns_cases)
    case (1 r' m)
    then have "dk_taken s = 4" using inv(2) by (auto simp: control_def)
    note h = honest_gui [OF inv(1,2) 1(3) this]
    from 1(3) have "dk_gui s = GuiLoop \<or> dk_gui s = GuiClosing" by (cases "dk_gui s") (auto simp: gui_done_def)
    with 1 h show ?thesis by (auto simp: honest_def)
  qed
next
  case (throws e)
  then have "dk_taken s = 4" "\<not> gui_done s" using inv(2) by (auto simp: gui_throws_def control_def split: if_splits)
  with honest_gui [OF inv(1,2)] throws show ?thesis by (auto simp: gui_throws_def honest_def split: if_splits)
next
  case (other q m)
  then show ?thesis by (elim disjE) (auto intro: honest_cong [OF inv(1)])
qed

section \<open>The event loop of the demo\<close>

text \<open>What scheduling, events and resuming leave alone.\<close>

definition loop_fixed :: "'c AsyncEventLoop \<Rightarrow> LoopExecutionMode \<times> bool \<times> bool" where
  "loop_fixed l = (al_execution_mode l, al_run_started l, al_stopping l)"

lemma loop_fixed_basic [simp]:
  "loop_fixed (frame_settle r f l) = loop_fixed l" "loop_fixed (new_frame p l) = loop_fixed l"
  "loop_fixed (deliver event f l) = loop_fixed l" "loop_fixed (l\<lparr>al_frames := fs\<rparr>) = loop_fixed l"
  "loop_fixed (l\<lparr>al_worker := w\<rparr>) = loop_fixed l" "loop_fixed (l\<lparr>al_event_waiters := ws\<rparr>) = loop_fixed l"
  by (simp_all add: loop_fixed_def frame_settle_def new_frame_def deliver_def)

lemma loop_fixed_suspend [simp]:
  "loop_fixed (Delay_await_suspend now delay f l) = loop_fixed l" "loop_fixed (ReadyAwaiter_await_suspend f l) = loop_fixed l"
  "loop_fixed (EventAwaiter_await_suspend name f l) = loop_fixed l"
  by (simp_all add: Delay_await_suspend_def enqueue_after_def ReadyAwaiter_await_suspend_def enqueue_ready_def
      EventAwaiter_await_suspend_def enqueue_event_wait_def Let_def)
    (simp_all add: loop_fixed_def)

lemma loop_fixed_deliver: "loop_fixed (fold (deliver event) fs l) = loop_fixed l"
  by (induction fs arbitrary: l) simp_all

lemma loop_fixed_emit [simp]: "loop_fixed (snd (emit_event event l)) = loop_fixed l"
  by (simp add: emit_event_def loop_fixed_deliver split: option.splits)

lemma loop_fixed_events [simp]: "loop_fixed (process_events_loop now f g l) = loop_fixed l"
  by (simp add: process_events_loop_def Let_def split: prod.splits sum.splits option.splits)

lemma loop_fixed_starts [simp]:
  "loop_fixed (snd (schedule_after now delay c l)) = loop_fixed l" "loop_fixed (snd (schedule c l)) = loop_fixed l"
  "loop_fixed (snd (wait_for_event name l)) = loop_fixed l" "loop_fixed (snd (process_events now g l)) = loop_fixed l"
  by (simp_all add: schedule_after_def schedule_def wait_for_event_def process_events_def Let_def)

lemma loop_fixed_resume [simp]: "loop_fixed (resume_coroutine call now f l) = loop_fixed l"
  by (simp add: resume_coroutine_def split: resume_point.splits option.splits)

lemma loop_fixed_run:
  assumes "loop_run_step call now l = Some l'" "al_execution_mode l = LoopCallingThread"
  shows "loop_fixed l' = loop_fixed l"
proof (cases "al_worker l")
  case LoopWaiting
  with assms(1) show ?thesis
    by (auto simp: loop_run_step_def run_take_def loop_fixed_def split: if_splits list.splits)
next
  case (LoopHolding f)
  with assms(1) show ?thesis by (auto simp: loop_run_step_def run_resume_def)
next
  case (LoopResuming f)
  with assms(1) show ?thesis by (auto simp: loop_run_step_def)
qed (use assms in \<open>simp_all add: loop_run_step_def\<close>)

definition looping :: "(string \<Rightarrow> cpp_exn option) \<Rightarrow> ('w, 'c, 'd) Desktop \<Rightarrow> bool" where
  "looping call s \<longleftrightarrow> async_reachable call (dk_loop s) \<and> dk_loopError s = None \<and>
     loop_fixed (dk_loop s) = (LoopCallingThread, 2 < dk_taken s, loop_stopped (dk_main s))"

lemma looping_demo:
  "async_reachable call (snd (PopulateAsyncIoDemo now (construct_AsyncEventLoop LoopCallingThread)))"
  "loop_fixed (snd (PopulateAsyncIoDemo now (construct_AsyncEventLoop LoopCallingThread))) = (LoopCallingThread, False, False)"
proof -
  have start: "async_reachable call (construct_AsyncEventLoop LoopCallingThread)" by (rule async_reachable_init)
  have step: "async_reachable call (snd (wait_for_event name l))" "async_reachable call (snd (schedule_after now d c l))"
    "async_reachable call (snd (schedule c l))" "async_reachable call (snd (process_events now g l))" if "async_reachable call l" for name d c g l
    using that by (blast intro: async_reachable_step async_step.intros)+
  show "async_reachable call (snd (PopulateAsyncIoDemo now (construct_AsyncEventLoop LoopCallingThread)))"
    by (simp add: PopulateAsyncIoDemo_def case_prod_beta Let_def step start)
  have "loop_fixed (construct_AsyncEventLoop LoopCallingThread :: string AsyncEventLoop) = (LoopCallingThread, False, False)"
    by (simp add: loop_fixed_def construct_AsyncEventLoop_def)
  then show "loop_fixed (snd (PopulateAsyncIoDemo now (construct_AsyncEventLoop LoopCallingThread))) = (LoopCallingThread, False, False)"
    by (simp add: PopulateAsyncIoDemo_def case_prod_beta Let_def)
qed

lemma looping_cong:
  assumes "looping call s" "dk_loop s' = dk_loop s" "dk_loopError s' = dk_loopError s" "dk_taken s' = dk_taken s"
    "loop_stopped (dk_main s') = loop_stopped (dk_main s)"
  shows "looping call s'"
  using assms by (simp add: looping_def)

text \<open>\<^verbatim>\<open>stop\<close> closes a loop that still accepts work; one that does not was stopped before.\<close>

lemma loop_fixed_stop:
  assumes "async_reachable call l" "loop_fixed l = (m, started, b)"
  shows "loop_fixed (stop l) = (m, started, True)"
proof -
  have "al_accepting l \<or> al_stopping l" using async_inv_reachable [OF assms(1)] by (auto simp: async_inv_def control_inv_def)
  with assms(2) show ?thesis by (auto simp: loop_fixed_def stop_def Let_def)
qed

lemma looping_main:
  assumes inv: "looping call s" and step: "desktop_main s = Some s'"
  shows "looping call s'"
  using step
proof (cases rule: desktop_main_cases)
  case (emit p event)
  with inv have "loop_fixed (snd (emit_event event (dk_loop s))) = loop_fixed (dk_loop s)"
    "async_reachable call (snd (emit_event event (dk_loop s)))"
    by (auto simp: looping_def intro: async_reachable_step async_step.intros)
  with emit inv show ?thesis by (auto simp: looping_def)
next
  case (stop_loop e)
  from inv have r: "async_reachable call (dk_loop s)" "loop_fixed (dk_loop s) = (LoopCallingThread, 2 < dk_taken s, loop_stopped (dk_main s))"
    by (simp_all add: looping_def)
  have "async_reachable call (stop (dk_loop s))" using r(1) by (blast intro: async_reachable_step async_step.intros)
  with stop_loop inv loop_fixed_stop [OF r] show ?thesis by (simp add: looping_def split: option.splits)
next
  case loop
  with inv show ?thesis by (intro looping_cong [OF inv]) (auto simp: looping_def)
qed (intro looping_cong [OF inv]; simp)+

lemma looping_step:
  assumes inv: "looping (de_call env) s" and step: "desktop_step env l s = Some s'"
  shows "looping (de_call env) s'"
  using step
proof (cases rule: desktop_step_cases)
  case main
  with inv show ?thesis by (rule looping_main)
next
  case (enqueue e)
  then show ?thesis by (intro looping_cong [OF inv]) (auto simp: enqueue_throws_def split: if_splits)
next
  case pool
  note taken = pool_takes_keeps [OF pool]
  from inv have r: "async_reachable (de_call env) (dk_loop s)" "dk_loopError s = None"
    "loop_fixed (dk_loop s) = (LoopCallingThread, 2 < dk_taken s, loop_stopped (dk_main s))" by (simp_all add: looping_def)
  have "async_reachable (de_call env) (snd (run_on_calling_thread (dk_loop s)))"
    using r(1) by (blast intro: async_reachable_step async_step.intros)
  with r taken(2,3,14,15) show ?thesis
    by (cases "dk_taken s = 2") (auto simp: looping_def loop_fixed_def run_on_calling_thread_def run_begin_def)
next
  case sql
  then show ?thesis by (intro looping_cong [OF inv]) (auto simp: sql_runs_def)
next
  case (messaging expired)
  then show ?thesis
    by (intro looping_cong [OF inv])
      (auto simp: messaging_runs_def Let_def split: if_splits thread_point.splits prod.splits option.splits)
next
  case (loop now)
  then obtain l where l: "loop_run_step (de_call env) now (dk_loop s) = Some l" "s' = s\<lparr>dk_loop := l\<rparr>"
    by (auto simp: loop_runs_def)
  from inv have "al_execution_mode (dk_loop s) = LoopCallingThread" by (simp add: looping_def loop_fixed_def)
  with loop_fixed_run [OF l(1)] async_reachable_step [OF _ async_step.step_run [OF l(1)]] inv l(2) show ?thesis
    by (simp add: looping_def)
next
  case pumps
  then show ?thesis by (intro looping_cong [OF inv]) (auto simp: gui_pumps_def split: if_splits prod.splits)
next
  case (returns r)
  then show ?thesis by (intro looping_cong [OF inv]) (auto simp: gui_returns_def split: if_splits prod.splits)
next
  case (throws e)
  then show ?thesis by (intro looping_cong [OF inv]) (auto simp: gui_throws_def split: if_splits)
next
  case (other q m)
  then show ?thesis by (elim disjE) (auto intro: looping_cong [OF inv])
qed

section \<open>Reachable states\<close>

lemma storage_inv_start: "storage_inv db d [[refresh_command]] [] (desktop_storage d)"
  by (simp add: storage_inv_def desktop_storage_def construct_service_def Submit_def)

lemma desktop_start:
  fixes env :: "('w, 'c, 'd) desktop_env" and s :: "('w, 'c, 'd) Desktop"
  assumes "s = start_desktop hidden now w d"
  shows "control s \<and> storing env d s \<and> honest s \<and> looping call s"
proof -
  let ?s = "start_desktop hidden now w d :: ('w, 'c, 'd) Desktop"
  have s: "dk_main ?s = DkEnqueue" "dk_taken ?s = 0" "dk_enqueued ?s = 0" "dk_gui ?s = GuiLoop" "dk_polled ?s = []"
    "dk_subs ?s = [[refresh_command]]" "dk_storage ?s = desktop_storage d" "dk_loopError ?s = None"
    "dk_loop ?s = snd (PopulateAsyncIoDemo now (construct_AsyncEventLoop LoopCallingThread))"
    by (simp_all add: start_desktop_def)
  have d: "svc_executionMode (desktop_storage d) = CallingThread" "svc_worker (desktop_storage d) = NotRunning"
    "svc_results (desktop_storage d) = []" "\<not> svc_stopRequested (desktop_storage d)"
    by (simp_all add: desktop_storage_def construct_service_def Submit_def)
  have "control ?s" using s d by (simp add: control_def gui_done_def)
  moreover have "storing env d ?s" using s d storage_inv_start [of "de_db env" d] by (simp add: storing_def)
  moreover have "honest ?s" using s by (simp add: honest_def)
  moreover have "looping call ?s" using s looping_demo(1) [of call now] looping_demo(2) [of now] by (simp add: looping_def)
  ultimately show ?thesis using assms by simp
qed

lemma desktop_inv:
  assumes "desktop_reachable env d s"
  shows "control s \<and> storing env d s \<and> honest s \<and> looping (de_call env) s"
  using assms
proof (induction rule: desktop_reachable.induct)
  case (Start hidden now w)
  show ?case by (rule desktop_start) (rule refl)
next
  case (Step s l s')
  moreover have "svc_executionMode (dk_storage s) = CallingThread" using Step.IH by (simp add: storing_def)
  ultimately show ?case
    using control_step [OF _ _ Step.hyps(2)] storing_step [OF _ _ Step.hyps(2)] honest_step [OF _ _ _ Step.hyps(2)]
      looping_step [OF _ Step.hyps(2)] by blast
qed

text \<open>When the program has succeeded, all batches were executed.\<close>

lemma success_stored:
  assumes "storing env d s" "honest s" "dk_main s = DkEnded (Inr r)" "gui_success r"
  shows "\<exists>d1. idb_Initialize (de_db env) d = (Inr (), d1) \<and>
    batch_results (de_db env) (dk_subs s) d1 = (dk_polled s, svc_database (dk_storage s)) \<and> list_all res_success (dk_polled s)"
proof -
  have ok: "list_all res_success (dk_polled s)" using assms(2-4) by (simp add: honest_def)
  have fin: "svc_worker (dk_storage s) = Finished" "svc_results (dk_storage s) = []" using assms(1,3) by (auto simp: storing_def)
  with assms(1) have inv: "storage_inv (de_db env) d (dk_subs s) (dk_polled s) (dk_storage s)" by (simp add: storing_def)
  obtain i d1 where i: "idb_Initialize (de_db env) d = (i, d1)" by fastforce
  show ?thesis
  proof (cases i)
    case (Inl e)
    with inv fin i have "dk_polled s = [failed_result (if is_std_exception e then what e else ''Unknown storage initialization failure'')]"
      by (simp add: storage_inv_def)
    with ok show ?thesis by (simp add: failed_result_def)
  next
    case (Inr u)
    with assms(1) fin i have "svc_commands (dk_storage s) = []" by (auto simp: storing_def)
    with inv fin i Inr ok show ?thesis by (auto simp: storage_inv_def executing_def)
  qed
qed

section \<open>Shutdown\<close>

text \<open>
  Once the GUI has ended, or the start of the tasks has failed, the program's own threads end it: the
  main thread whenever it can, else the pool takes the oldest task, else the task that is waited for
  runs. Each step makes \<open>desktop_work\<close> smaller. Nothing is asked of the MQTT library: the messaging
  task catches what it throws.
\<close>

fun point_work :: "desktop_point \<Rightarrow> nat" where
  "point_work DkEnqueue = 14"
| "point_work DkEmitStarted = 13"
| "point_work DkEmitCustom = 12"
| "point_work DkWaitGui = 11"
| "point_work (DkStopStorage e) = 10"
| "point_work (DkStopMessaging e) = 9"
| "point_work (DkStopLoop e) = 8"
| "point_work DkGetSql = 7"
| "point_work DkGetMessaging = 6"
| "point_work DkGetLoop = 5"
| "point_work DkClearHandler = 4"
| "point_work DkPoll = 3"
| "point_work (DkLeave how) = 2"
| "point_work (DkEnded how) = 0"

definition sql_work :: "('w, 'c, 'd) Desktop \<Rightarrow> nat" where
  "sql_work s = (if dk_taken s = 0 then 2 * length (svc_commands (dk_storage s)) + 3 else worker_work (dk_storage s))"

definition desktop_work :: "('w, 'c, 'd) Desktop \<Rightarrow> nat" where
  "desktop_work s = point_work (dk_main s) + (4 - dk_enqueued s) + (4 - dk_taken s) + sql_work s + thread_work (dk_messaging s) +
     worker_rank (al_worker (dk_loop s))"

definition ending :: "('w, 'c, 'd) Desktop \<Rightarrow> bool" where
  "ending s \<longleftrightarrow> gui_done s \<or> failing (dk_main s)"

definition doomed :: "('w, 'c, 'd) Desktop \<Rightarrow> bool" where
  "doomed s \<longleftrightarrow> failing (dk_main s) \<or> (\<exists>e. dk_gui s = GuiEnded (Inl e))"

fun desktop_own :: "desktop_label \<Rightarrow> bool" where
  "desktop_own DkMainRuns = True"
| "desktop_own DkPoolTakes = True"
| "desktop_own DkSqlRuns = True"
| "desktop_own (DkMessagingRuns expired) = expired"
| "desktop_own (DkLoopRuns now) = True"
| "desktop_own _ = False"

fun desktop_run :: "('w, 'c, 'd) desktop_env \<Rightarrow> desktop_label list \<Rightarrow> ('w, 'c, 'd) Desktop \<Rightarrow> ('w, 'c, 'd) Desktop option" where
  "desktop_run env [] s = Some s"
| "desktop_run env (l # ls) s = (case desktop_step env l s of None \<Rightarrow> None | Some s' \<Rightarrow> desktop_run env ls s')"

lemma emit_event_worker [simp]: "al_worker (snd (emit_event event l)) = al_worker l"
  by (simp add: emit_event_def fold_deliver split: option.splits)

lemma RequestStop_work [simp]: "worker_work (RequestStop st) = worker_work st"
  by (simp add: RequestStop_def worker_work_def cong: worker_point.case_cong)

lemma results_work [simp]: "worker_work (st\<lparr>svc_results := x\<rparr>) = worker_work st"
  by (simp add: worker_work_def cong: worker_point.case_cong)

lemma stop_worker [simp]: "al_worker (stop l) = al_worker l"
  by (simp add: stop_def Let_def)

lemma main_works:
  assumes "desktop_main s = Some s'" "dk_loopError s = None" "ending s" "control s"
  shows "desktop_work s' < desktop_work s \<and> ending s' \<and> doomed s' = doomed s"
  using assms(1)
proof (cases rule: desktop_main_cases)
  case enqueue
  with assms(3) show ?thesis by (auto simp: desktop_work_def sql_work_def ending_def gui_done_def doomed_def)
next
  case enqueued
  with assms(3) show ?thesis by (auto simp: desktop_work_def sql_work_def ending_def gui_done_def doomed_def)
next
  case (emit p event)
  then have "point_work p < point_work (dk_main s)" "\<not> failing p" "\<not> failing (dk_main s)" by auto
  with emit(2) assms(3) show ?thesis by (simp add: desktop_work_def sql_work_def ending_def gui_done_def doomed_def)
next
  case (stop_loop e)
  then show ?thesis using assms(3) by (cases e) (simp_all add: desktop_work_def sql_work_def ending_def gui_done_def doomed_def)
next
  case (leave how)
  then show ?thesis using assms(3) by (simp add: desktop_work_def sql_work_def ending_def gui_done_def doomed_def)
next
  case loop
  with assms(2,3) show ?thesis by (simp add: desktop_work_def sql_work_def ending_def gui_done_def doomed_def)
next
  case poll
  with assms(3) show ?thesis by (simp add: desktop_work_def sql_work_def ending_def gui_done_def doomed_def)
qed (use assms(3) in \<open>simp add: desktop_work_def sql_work_def ending_def gui_done_def doomed_def\<close>)+

lemma pool_works:
  assumes "pool_takes s = Some s'" "control s" "storing env d s" "looping call s"
  shows "desktop_work s' < desktop_work s"
proof -
  note taken = pool_takes_keeps [OF assms(1)]
  have four: "dk_taken s < 4" using assms(2) taken(1) by (auto simp: control_def)
  have "sql_work s' \<le> sql_work s"
  proof (cases "dk_taken s = 0")
    case True
    with assms(3) have "svc_worker (dk_storage s) = NotRunning" "svc_executionMode (dk_storage s) = CallingThread"
      "\<not> svc_runStarted (dk_storage s)" by (auto simp: storing_def storage_inv_def)
    with True taken show ?thesis
      by (simp add: sql_work_def worker_work_def RunOnCallingThread_begin_def Run_begin_def)
  next
    case False
    with taken show ?thesis by (simp add: sql_work_def)
  qed
  moreover have "worker_rank (al_worker (dk_loop s')) \<le> worker_rank (al_worker (dk_loop s))"
  proof -
    have "al_worker (dk_loop s) = LoopIdle \<longleftrightarrow> \<not> al_run_started (dk_loop s)"
      using assms(4) async_inv_reachable by (auto simp: looping_def async_inv_def control_inv_def)
    with taken(14) show ?thesis by (auto simp: run_on_calling_thread_def run_begin_def)
  qed
  ultimately show ?thesis using taken(2-4,11) four by (simp add: desktop_work_def)
qed

lemma sql_works:
  assumes "sql_runs env s = Some s'" "storing env d s"
  shows "desktop_work s' < desktop_work s"
proof -
  obtain st where st: "worker_step (de_db env) (dk_storage s) = Some st" "s' = s\<lparr>dk_storage := st\<rparr>"
    using assms(1) by (auto simp: sql_runs_def)
  then have "dk_taken s \<noteq> 0" using assms(2) by (auto simp: storing_def worker_step_def)
  with st worker_step_work [OF st(1)] show ?thesis by (simp add: desktop_work_def sql_work_def)
qed

lemma run_step_stopped:
  assumes "point \<noteq> RunDone" "\<And>e. point \<noteq> RunThrown e"
  shows "\<exists>point' delay' s'. run_step paho host port client True True (point, delay, s) = Some (point', delay', s') \<and>
    run_work point' < run_work point"
  using assms by (cases point) (auto simp: run_step_def split: prod.splits sum.splits)

lemma messaging_works:
  assumes "dk_stop s" "\<not> messaging_done s" "2 \<le> dk_taken s"
  obtains t q where "messaging_runs env True s = Some (s\<lparr>dk_messaging := t, dk_mqtt := q\<rparr>)"
    "thread_work t < thread_work (dk_messaging s)"
proof (cases "dk_messaging s")
  case ThreadStart
  let ?console = "case mq_appState (dk_mqtt s) of None \<Rightarrow> default_console | Some app \<Rightarrow> SnapshotConsole app"
  obtain r q where q: "Subscribe (de_paho env) (AckTopicForClient (con_clientId ?console)) (Some HandleAck) (dk_mqtt s) = (r, q)"
    by fastforce
  let ?point = "case r of Inr _ \<Rightarrow> RunCheck | Inl e \<Rightarrow> RunThrown e"
  have "run_work ?point < 6" by (simp split: sum.splits)
  with ThreadStart assms(3) q that [where q = "note_exception ?point q" and
    t = "ThreadRuns (con_brokerHost ?console) (con_brokerPort ?console) (con_clientId ?console) ?point 1"] show thesis by (simp add: messaging_runs_def Let_def)
next
  case (ThreadRuns host port client point delay)
  with assms(2) have "point \<noteq> RunDone" "\<And>e. point \<noteq> RunThrown e" by (cases point; simp add: messaging_done_def)+
  from run_step_stopped [OF this, of "de_paho env" host port client delay "dk_mqtt s"] obtain point' delay' q where
    "run_step (de_paho env) host port client True True (point, delay, dk_mqtt s) = Some (point', delay', q)" "run_work point' < run_work point"
    by auto
  with ThreadRuns assms(1,3) that [where q = "note_exception point' q" and t = "ThreadRuns host port client point' delay'"]
  show thesis by (simp add: messaging_runs_def)
qed

lemma loop_works:
  assumes "looping (de_call env) s" "al_stopping (dk_loop s)" "2 < dk_taken s" "\<not> loop_done s"
  obtains l where "loop_runs env now s = Some (s\<lparr>dk_loop := l\<rparr>)" "worker_rank (al_worker l) < worker_rank (al_worker (dk_loop s))"
proof -
  have "async_inv (de_call env) (dk_loop s)" "al_run_started (dk_loop s)"
    using assms(1,3) async_inv_reachable by (auto simp: looping_def loop_fixed_def)
  then have l: "\<not> al_accepting (dk_loop s)" "al_worker (dk_loop s) \<noteq> LoopIdle" "al_worker (dk_loop s) \<noteq> LoopExited"
    using assms(2,4) by (auto simp: async_inv_def control_inv_def loop_done_def)
  show thesis
  proof (cases "al_worker (dk_loop s)")
    case (LoopResuming f)
    with resume_stopped [of "(dk_loop s)\<lparr>al_worker := LoopWaiting\<rparr>" "de_call env" now f] l(1) that show thesis
      by (auto simp: loop_runs_def loop_run_step_def)
  next
    case LoopWaiting
    with assms(2) that [of "(dk_loop s)\<lparr>al_worker := LoopExited\<rparr>"] show thesis
      by (simp add: loop_runs_def loop_run_step_def run_take_def)
  next
    case (LoopHolding f)
    with assms(2) that [of "run_resume f (dk_loop s)"] show thesis
      by (simp add: loop_runs_def loop_run_step_def run_resume_def frame_settle_def)
  qed (use l in simp_all)
qed

text \<open>One step of the schedule.\<close>

lemma desktop_waits:
  assumes "desktop_main s = None" "\<And>how. dk_main s \<noteq> DkEnded how" "ending s"
  shows "loop_stopped (dk_main s) \<and> (dk_taken s \<noteq> dk_enqueued s \<or> (0 < dk_taken s \<and> \<not> sql_done s) \<or>
    (1 < dk_taken s \<and> \<not> messaging_done s) \<or> (2 < dk_taken s \<and> \<not> loop_done s) \<or> (3 < dk_taken s \<and> \<not> gui_done s)) \<or>
    (dk_main s = DkGetSql \<and> dk_taken s = 0) \<or> (dk_main s = DkGetMessaging \<and> dk_taken s \<le> 1) \<or> (dk_main s = DkGetLoop \<and> dk_taken s \<le> 2)"
  using assms
  by (cases "dk_main s") (auto simp: desktop_main_def ending_def gui_done_def split: if_splits gui_task.splits sum.splits prod.splits)

lemma own_step:
  assumes "desktop_step env l s = Some s'" "dk_main s' = dk_main s" "dk_gui s' = dk_gui s" "ending s"
  shows "ending s' \<and> doomed s' = doomed s"
  using assms by (simp add: ending_def doomed_def gui_done_def)

text \<open>A task that is waited for can go on.\<close>

lemma task_turn:
  assumes c: "control s" and st: "storing env d s" and lp: "looping (de_call env) s" and e: "ending s"
    and main: "loop_stopped (dk_main s)"
    and task: "(0 < dk_taken s \<and> \<not> sql_done s) \<or> (1 < dk_taken s \<and> \<not> messaging_done s) \<or> (2 < dk_taken s \<and> \<not> loop_done s)"
  obtains l s' where "desktop_own l" "desktop_step env l s = Some s'" "desktop_work s' < desktop_work s" "ending s'" "doomed s' = doomed s"
proof -
  have stopped: "svc_stopRequested (dk_storage s)" "dk_stop s" "al_stopping (dk_loop s)"
    using c lp main by (cases "dk_main s"; auto simp: control_def looping_def loop_fixed_def)+
  from task show thesis
  proof (elim disjE conjE)
    assume sql: "0 < dk_taken s" "\<not> sql_done s"
    with stopped(1) st worker_blocked [of "de_db env" "dk_storage s"] obtain x where "worker_step (de_db env) (dk_storage s) = Some x"
      by (cases "worker_step (de_db env) (dk_storage s)") (auto simp: sql_done_def storing_def)
    then have x: "sql_runs env s = Some (s\<lparr>dk_storage := x\<rparr>)" by (simp add: sql_runs_def)
    then have "desktop_step env DkSqlRuns s = Some (s\<lparr>dk_storage := x\<rparr>)" by (simp add: desktop_step_def)
    with own_step [OF this _ _ e] sql_works [OF x st] that [of DkSqlRuns] show thesis by simp
  next
    assume "1 < dk_taken s" "\<not> messaging_done s"
    then obtain t q where m: "messaging_runs env True s = Some (s\<lparr>dk_messaging := t, dk_mqtt := q\<rparr>)"
      "thread_work t < thread_work (dk_messaging s)" using messaging_works [OF stopped(2), of env] by (metis One_nat_def Suc_1 Suc_leI)
    then have "desktop_step env (DkMessagingRuns True) s = Some (s\<lparr>dk_messaging := t, dk_mqtt := q\<rparr>)" by (simp add: desktop_step_def)
    with own_step [OF this _ _ e] m(2) that [of "DkMessagingRuns True"] show thesis by (simp add: desktop_work_def sql_work_def)
  next
    assume loop: "2 < dk_taken s" "\<not> loop_done s"
    from lp stopped(3) loop obtain x where x: "loop_runs env 0 s = Some (s\<lparr>dk_loop := x\<rparr>)"
      "worker_rank (al_worker x) < worker_rank (al_worker (dk_loop s))" by (rule loop_works)
    then have "desktop_step env (DkLoopRuns 0) s = Some (s\<lparr>dk_loop := x\<rparr>)" by (simp add: desktop_step_def)
    with own_step [OF this _ _ e] x(2) that [of "DkLoopRuns 0"] show thesis by (simp add: desktop_work_def sql_work_def)
  qed
qed

lemma desktop_shutdown_step:
  assumes r: "desktop_reachable env d s" and e: "ending s" "\<And>how. dk_main s \<noteq> DkEnded how"
  obtains l s' where "desktop_own l" "desktop_step env l s = Some s'" "desktop_work s' < desktop_work s" "ending s'" "doomed s' = doomed s"
proof -
  have c: "control s" and st: "storing env d s" and lp: "looping (de_call env) s" using desktop_inv [OF r] by auto
  consider (main) s' where "desktop_main s = Some s'" | (pool) "desktop_main s = None" "dk_taken s \<noteq> dk_enqueued s"
    | (task) "desktop_main s = None" "dk_taken s = dk_enqueued s" by (cases "desktop_main s") auto
  then show thesis
  proof cases
    case (main s')
    with main_works [OF main _ e(1) c] lp that [of DkMainRuns s'] show thesis by (simp add: desktop_step_def looping_def)
  next
    case pool
    then obtain s' where p: "pool_takes s = Some s'" by (simp add: pool_takes_def Let_def)
    note taken = pool_takes_keeps [OF p]
    have "desktop_step env DkPoolTakes s = Some s'" using p by (simp add: desktop_step_def)
    with own_step [OF this taken(3,5) e(1)] pool_works [OF p c st lp] that [of DkPoolTakes s'] show thesis by simp
  next
    case task
    have "dk_main s \<in> {DkGetSql, DkGetMessaging, DkGetLoop} \<Longrightarrow> dk_taken s = 4" "\<not> (3 < dk_taken s \<and> \<not> gui_done s)"
      using c e(1) task(2) by (auto simp: control_def ending_def)
    with desktop_waits [OF task(1) e(2,1)] task(2) have "loop_stopped (dk_main s)"
      "(0 < dk_taken s \<and> \<not> sql_done s) \<or> (1 < dk_taken s \<and> \<not> messaging_done s) \<or> (2 < dk_taken s \<and> \<not> loop_done s)" by auto
    from c st lp e(1) this that show thesis by (rule task_turn)
  qed
qed

text \<open>The schedule ends the program and keeps whatever the program's own steps keep.\<close>

lemma desktop_ends:
  assumes "desktop_reachable env d s" "ending s" "I s"
    and keep: "\<And>l t t'. desktop_reachable env d t \<Longrightarrow> I t \<Longrightarrow> desktop_own l \<Longrightarrow> desktop_step env l t = Some t' \<Longrightarrow> I t'"
  shows "\<exists>ls s' how. list_all desktop_own ls \<and> length ls \<le> desktop_work s \<and> desktop_run env ls s = Some s' \<and>
    dk_main s' = DkEnded how \<and> (isl how \<longleftrightarrow> doomed s) \<and> desktop_reachable env d s' \<and> I s'"
  using assms(1-3)
proof (induction "desktop_work s" arbitrary: s rule: less_induct)
  case less
  show ?case
  proof (cases "\<exists>how. dk_main s = DkEnded how")
    case True
    then obtain how where how: "dk_main s = DkEnded how" ..
    moreover have "control s" using desktop_inv [OF less.prems(1)] by simp
    ultimately have "isl how \<longleftrightarrow> doomed s" by (auto simp: doomed_def control_def)
    with how less.prems show ?thesis by (intro exI [of _ "[]"] exI [of _ s] exI [of _ how]) simp
  next
    case False
    then have "\<And>how. dk_main s \<noteq> DkEnded how" by blast
    from less.prems(1,2) this obtain l s' where l: "desktop_own l" "desktop_step env l s = Some s'" "desktop_work s' < desktop_work s"
      "ending s'" "doomed s' = doomed s" by (rule desktop_shutdown_step) auto
    have "desktop_reachable env d s'" "I s'" using less.prems l(1,2) keep by (auto intro: desktop_reachable.Step)
    from less.hyps [OF l(3) this(1) l(4) this(2)] l(5) obtain ls s'' how where "list_all desktop_own ls" "length ls \<le> desktop_work s'"
      "desktop_run env ls s' = Some s''" "dk_main s'' = DkEnded how" "isl how \<longleftrightarrow> doomed s" "desktop_reachable env d s''" "I s''" by auto
    with l(1-3) show ?thesis by (intro exI [of _ "l # ls"] exI [of _ s''] exI [of _ how]) simp
  qed
qed

section \<open>Storage that never fails\<close>

text \<open>
  If the database can be initialised and the batches that are left do not fail, the program
  succeeds whenever the GUI does.
\<close>

definition batch_works :: "'d IDatabase \<Rightarrow> DeviceCommand list \<Rightarrow> bool" where
  "batch_works db cs \<longleftrightarrow> (\<forall>d. res_success (fst (Execute db cs d)))"

definition database_works :: "'d IDatabase \<Rightarrow> bool" where
  "database_works db \<longleftrightarrow> (\<forall>d. \<not> isl (fst (idb_Initialize db d)))"

definition healthy :: "'d IDatabase \<Rightarrow> ('w, 'c, 'd) Desktop \<Rightarrow> bool" where
  "healthy db s \<longleftrightarrow> list_all (batch_works db) (executing (dk_storage s) @ svc_commands (dk_storage s)) \<and> 0 < dk_taken s \<and> list_all res_success (svc_results (dk_storage s)) \<and> (\<exists>g. dk_gui s = GuiEnded (Inr g) \<and> gui_success g) \<and>
     (after_gui (dk_main s) \<and> \<not> polled_all (dk_main s) \<longrightarrow> gui_success (dk_result s)) \<and>
     (\<forall>r. combined (dk_main s) = Some r \<longrightarrow> gui_success r)"

lemma executing_keeps [simp]: "executing (st\<lparr>svc_results := x\<rparr>) = executing st" "executing (RequestStop st) = executing st"
  by (simp_all add: executing_def)

lemma healthy_main:
  assumes "healthy (de_db env) s" "desktop_main s = Some s'"
  shows "healthy (de_db env) s'"
  using assms(2)
proof (cases rule: desktop_main_cases)
  case poll
  with assms(1) show ?thesis by (simp add: healthy_def combine_results_success)
next
  case (emit p event)
  then have "combined p = None" "\<not> after_gui p" by auto
  with emit(2) assms(1) show ?thesis by (simp add: healthy_def)
next
  case (stop_loop e)
  with assms(1) show ?thesis by (cases e) (simp_all add: healthy_def)
next
  case loop
  with assms(1) show ?thesis by (auto simp: healthy_def split: option.splits)
next
  case (gui r)
  with assms(1) show ?thesis by (simp add: healthy_def)
qed (use assms(1) in \<open>simp add: healthy_def\<close>)+

lemma healthy_sql:
  assumes "healthy (de_db env) s" "database_works (de_db env)" "sql_runs env s = Some s'"
  shows "healthy (de_db env) s'"
proof -
  obtain st where st: "worker_step (de_db env) (dk_storage s) = Some st" "s' = s\<lparr>dk_storage := st\<rparr>"
    using assms(3) by (auto simp: sql_runs_def)
  have h: "list_all res_success (svc_results (dk_storage s))" "list_all (batch_works (de_db env)) (executing (dk_storage s) @ svc_commands (dk_storage s))"
    using assms(1) by (simp_all add: healthy_def)
  have "list_all res_success (svc_results st) \<and> list_all (batch_works (de_db env)) (executing st @ svc_commands st)"
  proof (cases "svc_worker (dk_storage s)")
    case Initializing
    obtain i d where i: "idb_Initialize (de_db env) (svc_database (dk_storage s)) = (i, d)" by fastforce
    have "\<not> isl (fst (idb_Initialize (de_db env) (svc_database (dk_storage s))))" using assms(2) by (simp add: database_works_def)
    with i have "i = Inr ()" by (cases i) auto
    with i st(1) Initializing h show ?thesis by (auto simp: worker_step_def Run_initialize_def executing_def)
  next
    case Waiting
    with st(1) h show ?thesis by (auto simp: worker_step_def Run_take_def executing_def split: list.splits if_splits)
  next
    case (Executing cs)
    obtain r d where e: "Execute (de_db env) cs (svc_database (dk_storage s)) = (r, d)" by fastforce
    have "batch_works (de_db env) cs" using h(2) Executing by (simp add: executing_def)
    then have "res_success (fst (Execute (de_db env) cs (svc_database (dk_storage s))))" by (simp add: batch_works_def)
    with e st(1) Executing h show ?thesis by (auto simp: worker_step_def Run_execute_def push_result_def executing_def)
  qed (use st(1) in \<open>simp_all add: worker_step_def\<close>)
  with st(2) assms(1) show ?thesis by (simp add: healthy_def)
qed

lemma healthy_cong:
  assumes "healthy (de_db env) s" "dk_storage s' = dk_storage s" "dk_gui s' = dk_gui s" "dk_result s' = dk_result s" "dk_main s' = dk_main s"
    "dk_taken s \<le> dk_taken s'"
  shows "healthy (de_db env) s'"
  using assms by (simp add: healthy_def)

lemma healthy_step:
  assumes h: "healthy (de_db env) s" "database_works (de_db env)" and l: "desktop_own l" "desktop_step env l s = Some s'"
  shows "healthy (de_db env) s'"
proof (cases l)
  case DkMainRuns
  with l(2) have "desktop_main s = Some s'" by (simp add: desktop_step_def)
  with h(1) show ?thesis by (rule healthy_main)
next
  case DkPoolTakes
  with l(2) have p: "pool_takes s = Some s'" by (simp add: desktop_step_def)
  have "0 < dk_taken s" using h(1) by (simp add: healthy_def)
  with pool_takes_keeps [OF p] show ?thesis by (intro healthy_cong [OF h(1)]) simp_all
next
  case DkSqlRuns
  with l(2) h show ?thesis by (intro healthy_sql [OF h]) (simp add: desktop_step_def)
next
  case (DkMessagingRuns x)
  with l(2) have "messaging_runs env x s = Some s'" by (simp add: desktop_step_def)
  then show ?thesis by (intro healthy_cong [OF h(1)])
    (auto simp: messaging_runs_def Let_def split: if_splits thread_point.splits prod.splits option.splits)
next
  case (DkLoopRuns now)
  with l(2) have "loop_runs env now s = Some s'" by (simp add: desktop_step_def)
  then show ?thesis by (intro healthy_cong [OF h(1)]) (auto simp: loop_runs_def)
qed (use l in simp_all)

section \<open>Properties\<close>

text \<open>
  C14: the desktop program ends. From every reachable state in which the GUI has ended, or the start
  of the tasks has failed, the threads of the program can end it by their own steps alone, in a
  bounded number of them and whatever the MQTT library, the database and the callbacks do. It ends
  with an exception exactly when the start failed or the GUI threw.
\<close>

theorem desktop_shutdown_completes:
  assumes "desktop_reachable env d s" "gui_done s \<or> failing (dk_main s)"
  shows "\<exists>ls s' how. list_all desktop_own ls \<and> length ls \<le> desktop_work s \<and> desktop_run env ls s = Some s' \<and>
    dk_main s' = DkEnded how \<and> (isl how \<longleftrightarrow> doomed s)"
  using desktop_ends [OF assms(1), of "\<lambda>_. True"] assms(2) by (fastforce simp: ending_def)

text \<open>
  C13: success means stored. When \<^verbatim>\<open>runGui\<close> returns success, the database was initialised and every
  batch of commands that the screen submitted, after the refresh of the start, has been executed once
  and in order, each successfully; no failure is lost between the pump of the frames, the drain at
  the end of the GUI and the last poll of the main thread.
\<close>

theorem desktop_success_means_stored:
  assumes "desktop_reachable env d s" "dk_main s = DkEnded (Inr r)" "gui_success r"
  shows "\<exists>d1. idb_Initialize (de_db env) d = (Inr (), d1) \<and>
    batch_results (de_db env) (dk_subs s) d1 = (dk_polled s, svc_database (dk_storage s)) \<and> list_all res_success (dk_polled s)"
  using success_stored [OF _ _ assms(2,3)] desktop_inv [OF assms(1)] by blast

section \<open>Witnesses\<close>

definition constant_database :: "unit IDatabase" where
  "constant_database = \<lparr>idb_Initialize = cret (), idb_AddItem = \<lambda>_. cret (), idb_UpsertItem = \<lambda>_. cret (), idb_GetItem = \<lambda>_. cret None,
    idb_GetAllItems = cret [], idb_ReplaceAll = \<lambda>_. cret (), idb_GetAllSortedById = cret [], idb_ContainsItem = \<lambda>_. cret False,
    idb_CountItems = cret 0, idb_RemoveItem = \<lambda>_. cret False, idb_Clear = cret ()\<rparr>"

definition sample_desktop_env :: "(paho_call list, string, unit) desktop_env" where
  "sample_desktop_env = \<lparr>de_paho = log_paho False, de_db = constant_database, de_call = \<lambda>_. None\<rparr>"

definition sample_desktop :: "(paho_call list, string, unit) Desktop" where
  "sample_desktop = start_desktop False 0 [] ()"

text \<open>The tasks are enqueued and taken, and the GUI is closed by the user at once.\<close>

definition sample_closed :: "desktop_label list" where
  "sample_closed = replicate 4 DkMainRuns @ replicate 4 DkPoolTakes @ [DkGuiReturns gui_returned_ok]"

lemma desktop_run_reachable: "desktop_run env ls s = Some s' \<Longrightarrow> desktop_reachable env d s \<Longrightarrow> desktop_reachable env d s'"
  by (induction ls arbitrary: s) (auto split: option.splits intro: desktop_reachable.Step)

lemma sample_desktop_start:
  "dk_main sample_desktop = DkEnqueue" "dk_enqueued sample_desktop = 0" "dk_taken sample_desktop = 0" "dk_gui sample_desktop = GuiLoop"
  "svc_executionMode (dk_storage sample_desktop) = CallingThread" "svc_results (dk_storage sample_desktop) = []"
  "svc_runStarted (dk_storage sample_desktop) = False" "svc_commands (dk_storage sample_desktop) = [[refresh_command]]"
  by (simp_all add: sample_desktop_def start_desktop_def desktop_storage_def construct_service_def Submit_def)

lemma desktop_run_append: "desktop_run env ls s = Some s' \<Longrightarrow> desktop_run env (ls @ ls') s = desktop_run env ls' s'"
  by (induction ls arbitrary: s) (auto split: option.splits)

lemma enqueue_all:
  "dk_main s = DkEnqueue \<Longrightarrow> dk_enqueued s = 0 \<Longrightarrow> desktop_run env (replicate 4 DkMainRuns) s = Some (s\<lparr>dk_enqueued := 4\<rparr>)"
  by (simp add: numeral_eq_Suc desktop_step_def desktop_main_def)

lemma take_all:
  assumes "dk_enqueued s = 4" "dk_taken s = 0"
  shows "\<exists>s'. desktop_run env (replicate 4 DkPoolTakes) s = Some s' \<and> dk_taken s' = 4 \<and> dk_main s' = dk_main s \<and> dk_gui s' = dk_gui s \<and>
    dk_storage s' = RunOnCallingThread_begin (dk_storage s)"
proof -
  obtain s1 where 1: "pool_takes s = Some s1" using assms by (simp add: pool_takes_def Let_def)
  note t1 = pool_takes_keeps [OF 1]
  obtain s2 where 2: "pool_takes s1 = Some s2" using assms t1 by (simp add: pool_takes_def Let_def)
  note t2 = pool_takes_keeps [OF 2]
  obtain s3 where 3: "pool_takes s2 = Some s3" using assms t1(2,4) t2(2,4) by (simp add: pool_takes_def Let_def)
  note t3 = pool_takes_keeps [OF 3]
  obtain s4 where 4: "pool_takes s3 = Some s4" using assms t1(2,4) t2(2,4) t3(2,4) by (simp add: pool_takes_def Let_def)
  note t4 = pool_takes_keeps [OF 4]
  have "desktop_run env (replicate 4 DkPoolTakes) s = Some s4" using 1 2 3 4 by (simp add: numeral_eq_Suc desktop_step_def)
  then show ?thesis
    using assms t1(2,3,5,12) t2(2,3,5,12) t3(2,3,5,12) t4(2,3,5,12) by (intro exI [of _ s4]) simp
qed

lemma sample_desktop_closed:
  "\<exists>s. desktop_run sample_desktop_env sample_closed sample_desktop = Some s \<and> dk_gui s = GuiEnded (Inr gui_returned_ok) \<and>
     dk_main s = DkEnqueue \<and> dk_taken s = 4 \<and> svc_results (dk_storage s) = [] \<and> svc_worker (dk_storage s) = Initializing \<and>
     svc_commands (dk_storage s) = [[refresh_command]]"
proof -
  let ?t = "sample_desktop\<lparr>dk_enqueued := 4\<rparr>"
  obtain t where t: "desktop_run sample_desktop_env (replicate 4 DkPoolTakes) ?t = Some t" "dk_taken t = 4" "dk_main t = DkEnqueue"
    "dk_gui t = GuiLoop" "dk_storage t = RunOnCallingThread_begin (dk_storage sample_desktop)"
    using take_all [of ?t sample_desktop_env] sample_desktop_start by auto
  then show ?thesis
    using desktop_run_append [OF enqueue_all [OF sample_desktop_start(1,2), of sample_desktop_env]] desktop_run_append [OF t(1)] sample_desktop_start
    by (simp add: sample_closed_def desktop_step_def gui_returns_def gui_done_def StopAndDrain_def join_worker_def PollResults_def
        RunOnCallingThread_begin_def Run_begin_def)
qed

lemma sample_desktop_reachable: "desktop_reachable sample_desktop_env () sample_desktop"
  unfolding sample_desktop_def by (rule desktop_reachable.Start)

lemma constant_database_works: "database_works constant_database" "batch_works constant_database [refresh_command]"
  by (simp_all add: database_works_def batch_works_def constant_database_def Execute_def execute_command_def refresh_command_def cret_def
      cseq_def cbind_def)

theorem desktop_shutdown_completes_witness:
  "\<exists>s ls s' how. desktop_run sample_desktop_env sample_closed sample_desktop = Some s \<and> list_all desktop_own ls \<and>
     desktop_run sample_desktop_env ls s = Some s' \<and> dk_main s' = DkEnded how \<and> \<not> isl how"
proof -
  obtain s where s: "desktop_run sample_desktop_env sample_closed sample_desktop = Some s" "dk_gui s = GuiEnded (Inr gui_returned_ok)"
    "dk_main s = DkEnqueue" using sample_desktop_closed by blast
  have "desktop_reachable sample_desktop_env () s" using s(1) sample_desktop_reachable by (rule desktop_run_reachable)
  from desktop_shutdown_completes [OF this] s(2,3) obtain ls s' how where "list_all desktop_own ls" "desktop_run sample_desktop_env ls s = Some s'"
    "dk_main s' = DkEnded how" "\<not> isl how" by (auto simp: gui_done_def doomed_def)
  with s(1) show ?thesis by blast
qed

theorem desktop_success_means_stored_witness:
  "\<exists>s r. desktop_reachable sample_desktop_env () s \<and> dk_main s = DkEnded (Inr r) \<and> gui_success r \<and>
     batch_results constant_database (dk_subs s) () = (dk_polled s, ()) \<and> list_all res_success (dk_polled s)"
proof -
  obtain s where s: "desktop_run sample_desktop_env sample_closed sample_desktop = Some s" "dk_gui s = GuiEnded (Inr gui_returned_ok)"
    "dk_main s = DkEnqueue" "dk_taken s = 4" "svc_results (dk_storage s) = []" "svc_worker (dk_storage s) = Initializing"
    "svc_commands (dk_storage s) = [[refresh_command]]" using sample_desktop_closed by blast
  have r: "desktop_reachable sample_desktop_env () s" using s(1) sample_desktop_reachable by (rule desktop_run_reachable)
  have db: "de_db sample_desktop_env = constant_database" by (simp add: sample_desktop_env_def)
  have "healthy (de_db sample_desktop_env) s"
    using s constant_database_works by (simp add: healthy_def executing_def gui_returned_ok_def db)
  moreover have "ending s" using s(2) by (simp add: ending_def gui_done_def)
  ultimately obtain s' how where s': "dk_main s' = DkEnded how" "isl how \<longleftrightarrow> doomed s" "desktop_reachable sample_desktop_env () s'"
    "healthy (de_db sample_desktop_env) s'"
    using desktop_ends [OF r, of "healthy (de_db sample_desktop_env)"] healthy_step constant_database_works(1) db by metis
  have "\<not> isl how" using s'(2) s(2,3) by (simp add: doomed_def)
  then obtain res where "how = Inr res" by (cases how) auto
  with s' have "dk_main s' = DkEnded (Inr res)" "gui_success res" by (auto simp: healthy_def)
  with desktop_success_means_stored [OF s'(3) this] s'(3) db show ?thesis by auto
qed

end
