(* ===== verification/Spec2Isabelle.thy ===== *)
theory Spec2Isabelle
  imports Sqlite_Thread_Worker Request_Dispatcher Mqtt_Service Thread_Pool Logger Glfw_Platform
    Event_Loop_Generator Event_Loop_Coroutine Desktop_Program
begin

text \<open>
  \<^bold>\<open>Watchlist\<close>: a verification library for the C++ sources under \<^verbatim>\<open>src/src\<close>.

  \<^bold>\<open>The program.\<close> Watchlist keeps a list of network devices. A device screen
  (\<^verbatim>\<open>Gui\<close>) edits the list in memory and queues commands; a storage service
  (\<^verbatim>\<open>Watchlist/DeviceStorageService\<close>) executes the commands on a worker thread against
  an \<^verbatim>\<open>IDatabase\<close>, implemented on SQLite (\<^verbatim>\<open>Utils/Storage\<close>), and reports results that the
  screen polls once per frame. A client and a server exchange JSON requests and acknowledgements
  over MQTT (\<^verbatim>\<open>Watchlist/Messaging\<close>); the server dispatches requests to handlers on a thread
  pool (\<^verbatim>\<open>Watchlist/Dispatch\<close>, \<^verbatim>\<open>Utils/Concurrency\<close>) and keeps values in a
  key/value store. Logging, the console state and three event loops complete it.

  \<^bold>\<open>Conventions.\<close> Classes are records with the source's members, enums and variants are
  datatypes, \<^verbatim>\<open>std::string\<close> is a list of bytes, exceptions are values of \<open>cpp_exn\<close>, and a
  member function that may throw is a computation on the record (\<open>comp\<close>, theory \<open>Prelude\<close>). Code
  outside the repository is a parameter: the SQLite engine (locale \<open>sqlite_engine\<close>, and
  \<open>sqlite_reliable\<close> for an engine without I/O errors), the Paho MQTT library (locale
  \<open>paho_library\<close>), the JSON reader (locale \<open>json_reader\<close>), Dear ImGui (locale
  \<open>imgui_library\<close>) and GLFW with OpenGL (locale \<open>glfw_library\<close>). Their laws are documented behaviour; each locale has an interpretation on an
  executable reference instance, so that no law is contradictory. The interface
  \<open>IDatabase\<close> is a locale as well, interpreted on the model of \<^verbatim>\<open>SQLiteDatabase\<close>, and so is
  what a window must keep (\<open>window_invariant\<close>, \<open>app_invariant\<close>, \<open>frame_invariant\<close>), interpreted
  on each invariant of the GUI. Threads
  are interleaved: every section under a mutex, and every point at which a thread waits, is one
  step; step relations and reachability are inductive predicates. Clocks and callbacks are
  arguments.

  \<^bold>\<open>Theories.\<close>
  \<^item> \<open>Prelude\<close>: exceptions, computations, character classes, splitting, decimal numbers, lists.
  \<^item> \<open>Utf8\<close>, \<open>Address_Validation\<close>, \<open>Device_Item\<close> (\<^verbatim>\<open>Utils/Storage/SQLiteDatabase.cpp\<close>,
    first part, and \<^verbatim>\<open>DatabaseItem.hpp\<close>): text and address checks and the row codec, each shown
    equivalent to a declarative description.
  \<^item> \<open>Sqlite_Engine\<close>, \<open>Sqlite_Schema\<close>, \<open>Sqlite_Logic\<close>, \<open>Sqlite_Database\<close>,
    \<open>Database_Interface\<close>, \<open>Sqlite_Operations\<close>, \<open>Sqlite_Reliable\<close> (\<^verbatim>\<open>SQLiteDatabase.cpp/.hpp\<close>,
    \<^verbatim>\<open>IDatabase.hpp\<close>): the engine's interface, schema checks and migration, every storage
    operation, a small program logic for statements and transactions, atomicity of
    \<^verbatim>\<open>Initialize\<close> and \<^verbatim>\<open>ReplaceAll\<close>, the contract of \<^verbatim>\<open>IDatabase\<close> and functional results.
  \<^item> \<open>Sqlite_Thread_Worker\<close> (\<^verbatim>\<open>Watchlist/SQLiteThreadWorker.cpp\<close>): the worker that logs the stored
    devices and their number.
  \<^item> \<open>Kv_Store\<close> (\<^verbatim>\<open>Watchlist/Storage/KeyValueStore.cpp\<close>).
  \<^item> \<open>Device_Monitor\<close> (\<^verbatim>\<open>Gui/DeviceMonitorState\<close>) and \<open>Device_Storage\<close>
    (\<^verbatim>\<open>Watchlist/DeviceStorageService\<close>): the screen's list is always the replay of its commands;
    the service executes batches once and in order and drains on shutdown.
  \<^item> \<open>Mqtt_Messages\<close>, \<open>Mqtt_Topics\<close>, \<open>Mqtt_Service\<close> (\<^verbatim>\<open>Watchlist/Messaging\<close>): the wire format and
    its round trip, topic filters, the life cycle of the connection, its callbacks and \<^verbatim>\<open>Run\<close>.
  \<^item> \<open>App_State\<close> (\<^verbatim>\<open>Watchlist/AppState\<close>), \<open>Request_Dispatcher\<close> (\<^verbatim>\<open>Watchlist/Dispatch\<close>),
    \<open>Logger\<close> (\<^verbatim>\<open>Utils/Logger\<close>, and what \<^verbatim>\<open>Gui/ApplicationLogWindow.cpp\<close> displays).
  \<^item> \<open>Thread_Pool\<close> (\<^verbatim>\<open>Utils/Concurrency/ThreadPoolManager.hpp\<close>): tasks run once and in order, and
    joining ends.
  \<^item> \<open>Coroutine_Task\<close>, \<open>Event_Loop_Generator\<close>, \<open>Async_Event_Loop\<close>, \<open>Event_Loop_Coroutine\<close>
    (\<^verbatim>\<open>Utils/Concurrency\<close>): task results, the generator-fed loop with its producers and shutdown,
    the coroutine scheduler with its queues, and a simulation of the smaller loop by the larger.
  \<^item> \<open>Gui_Runtime\<close> (\<^verbatim>\<open>Gui/GuiRuntime\<close> and the storage pump of \<^verbatim>\<open>Gui/Gui.cpp\<close>): the stages of the
    window's life cycle are torn down exactly, whatever fails.
  \<^item> \<open>Imgui\<close>: a window function as a computation that records the ImGui calls it makes and works on
    the program's data, with a calculus for the scopes that calls open and close together with an
    invariant of the data.
  \<^item> \<open>Watchlist_App\<close> (\<^verbatim>\<open>Gui/Apps/WatchlistApp.cpp\<close>): the device table, its dialogs and the MQTT
    console; the windows change devices only through the operations of the monitor, an edit
    session keeps the device id, the console sends its form under fresh ids.
  \<^item> \<open>Gui_Windows\<close> (\<^verbatim>\<open>Gui/Workspace\<close>, \<^verbatim>\<open>Gui/Apps\<close>, \<^verbatim>\<open>Gui/ApplicationLogWindow.cpp\<close>,
    \<^verbatim>\<open>Gui/MyApp.cpp\<close>): a whole frame is balanced and keeps the GUI state well formed, and draws
    each application at most once.
  \<^item> \<open>Glfw_Platform\<close> (\<^verbatim>\<open>GlfwPlatform\<close> of \<^verbatim>\<open>Gui/Gui.cpp\<close>): the platform the life cycle runs
    on; library calls come in order and are undone, and a requested exit ends the loop.
  \<^item> \<open>Application_Start\<close> (\<^verbatim>\<open>Watchlist/Application.cpp\<close>, \<^verbatim>\<open>ApplicationPaths.cpp\<close>): where the
    database file is, and the exit code of the composition root.
  \<^item> \<open>Server_Program\<close> (\<^verbatim>\<open>Watchlist/Apps/Server/main.cpp\<close>): the server's main thread, MQTT thread,
    pool workers and library callbacks interleaved; every accepted request is executed, shutdown
    ends by the server's own steps, and the dispatcher's raw pointer is safe except in three
    situations, each of which has a schedule.
  \<^item> \<open>Client_Program\<close> (\<^verbatim>\<open>Watchlist/Apps/Client/main.cpp\<close>): the client's threads, its shutdown, and a
    request's way from the console through the server and back.
  \<^item> \<open>Desktop_Program\<close> (\<^verbatim>\<open>Watchlist/main.cpp\<close>): the storage worker, messaging, the event loop of the
    demo and the GUI as tasks of the pool beside the main thread; a run that succeeds has executed
    every batch successfully, and once the GUI has ended the program's own steps end it.
  \<^item> this theory: results that span components. The commands that the screen queues, executed by
    the service on SQLite, bring the store to the screen's list.

  \<^bold>\<open>Bounds and fuel.\<close> Loops over data are structural or have a measure. Where a loop waits for
  other threads the model has fuel, and a lemma shows that the fuel is enough:
  \<open>run_worker\<close> of the storage service needs two steps per batch and two more, \<open>join_workers\<close> of
  the pool the weight of the pool, \<open>run_stopped\<close> of \<^verbatim>\<open>Run\<close> five steps, \<open>join_loop\<close> two;
  the shutdown of the generator loop is shown to end under every schedule, and that of the server,
  client and desktop program within \<open>shutdown_work\<close>, \<open>client_work\<close> and \<open>desktop_work\<close> of their own steps. \<open>gui_loop\<close> takes the
  number of frames the window lives as its fuel; after a requested exit two are enough. A frame
  is one step: what other threads add to the shared state meanwhile is seen in the next. Event identifiers, ports, sequence
  numbers and code points keep their width.

  \<^bold>\<open>Not modelled.\<close> Positions, sizes, flags and colours of ImGui calls, which have no effect on the
  program's data; profiling macros, examples, the \<^verbatim>\<open>development\<close> directory and the vendored
  loader \<^verbatim>\<open>libs/glad\<close>, which are outside the application's logic. Memory exhaustion and overflow of clock arithmetic are left out throughout.
\<close>

section \<open>The device service on SQLite\<close>

lemma empty_db_acceptable: "acceptable (conn_db (sqdb_database (closed_handle empty_db)))"
  by (simp add: acceptable_def closed_handle_def empty_db_def user_objects_def)

lemma sample_initialize: "\<exists>d1. idb_Initialize (sqlite_database ref_sqlite) (closed_handle empty_db) = (Inr (), d1)"
  using sqlite_reliable.Initialize_iff [OF ref.sqlite_reliable_axioms empty_db_intact] empty_db_acceptable
  by (auto simp: total_def sqlite_database_def)


theorem StopAndDrain_completes_witness:
  "\<exists>s d1. construct_service (Some (closed_handle empty_db)) OwnedThread = Inr s \<and>
    (case StopAndDrain (sqlite_database ref_sqlite) s of (rs, t') \<Rightarrow> svc_worker t' = Finished \<and>
      batch_results (sqlite_database ref_sqlite) ([refresh_command] # submitted []) d1 = (polled [] @ rs, svc_database t'))"
proof -
  obtain d1 where d1: "idb_Initialize (sqlite_database ref_sqlite) (closed_handle empty_db) = (Inr (), d1)"
    using sample_initialize by blast
  obtain s where s: "construct_service (Some (closed_handle empty_db)) OwnedThread = Inr s"
    by (simp add: construct_service_def)
  from StopAndDrain_completes [OF s storage_run.Nil _ d1] s show ?thesis by auto
qed

text \<open>
  C1: the store follows the screen. Take a device list that shows what SQLite stores, let the user
  act in any way, and execute the commands the screen has queued. However the engine behaves, the
  stored devices are then those of the screen after a prefix of the commands; and if the batch
  reports success, the store holds exactly the devices of the screen and the result lists them in
  the order of their ids.
\<close>

theorem executed_commands_reach_the_store:
  assumes eng: "sqlite_engine conn view" and o: "opened view d items"
    and m: "mon_devices m = views items" "mon_commands m = []"
    and m': "m' = fold monitor_act as m" and e: "Execute (sqlite_database conn) (mon_commands m') d = (r, d')"
  shows "\<exists>k items'. opened view d' items' \<and>
      views items' = fold apply_command (take k (mon_commands m')) (mon_devices m) \<and>
      (res_success r \<longrightarrow> views items' = mon_devices m' \<and> res_devices r = sort_key dv_id (mon_devices m'))"
proof -
  note db = sqlite_engine.implements_idatabase [OF eng]
  have "distinct (map dv_id (mon_devices m))"
    using idatabase.device_list [OF db o] by (simp add: m device_list_def o_def)
  then obtain cs where cs: "mon_commands m' = cs" "mon_devices m' = fold apply_command cs (mon_devices m)"
    using replays_fold [of m as] by (auto simp: replays_def m m')
  obtain k items' where k: "k \<le> length cs" "opened view d' items'" "views items' = fold apply_command (take k cs) (views items)"
    "res_success r \<longrightarrow> k = length cs \<and> res_devices r = sort_key dv_id (fold apply_command cs (views items))"
    using idatabase.Execute_effect [OF db o e] cs by auto
  with cs m show ?thesis by (intro exI [of _ k] exI [of _ items']) auto
qed

theorem executed_commands_reach_the_store_witness:
  "\<exists>r d' k items'. Execute (sqlite_database ref_sqlite)
        (mon_commands (fold monitor_act [ActSetAlive ''a'' False] (initial_monitor\<lparr>mon_devices := views [sample_item]\<rparr>))) sample_handle = (r, d') \<and>
      opened (\<lambda>c. c) d' items' \<and>
      views items' = fold apply_command (take k
        (mon_commands (fold monitor_act [ActSetAlive ''a'' False] (initial_monitor\<lparr>mon_devices := views [sample_item]\<rparr>))))
          (mon_devices (initial_monitor\<lparr>mon_devices := views [sample_item]\<rparr>)) \<and>
      (res_success r \<longrightarrow> views items' = mon_devices (fold monitor_act [ActSetAlive ''a'' False] (initial_monitor\<lparr>mon_devices := views [sample_item]\<rparr>)) \<and>
        res_devices r = sort_key dv_id (mon_devices (fold monitor_act [ActSetAlive ''a'' False] (initial_monitor\<lparr>mon_devices := views [sample_item]\<rparr>))))"
proof -
  let ?m = "initial_monitor\<lparr>mon_devices := views [sample_item]\<rparr>"
  let ?m' = "fold monitor_act [ActSetAlive ''a'' False] ?m"
  obtain r d' where e: "Execute (sqlite_database ref_sqlite) (mon_commands ?m') sample_handle = (r, d')" by fastforce
  have "mon_devices ?m = views [sample_item]" "mon_commands ?m = []" by (simp_all add: initial_monitor_def)
  from executed_commands_reach_the_store [OF ref.sqlite_engine_axioms sample_handle_opened this refl e] e show ?thesis by blast
qed

end
